(* ===== verification/JsValue.thy ===== *)
theory JsValue imports Main Prelude "HOL-Library.Word" begin

text \<open>
  The JavaScript values the front-end code handles: parsed JSON plus \<open>ArrayBuffer\<close>
  values, truthiness, property reads, the \<open>Object.assign\<close> and \<open>Object.keys\<close> operations,
  \<open>String(x)\<close>, and the error objects of rejected promises. An object is the list of its own
  properties in enumeration order, \<open>undefined\<close> is \<open>None\<close>. A \<open>char\<close> stands for one UTF-16
  code unit below 256, and numbers that the code keeps integral are \<open>int\<close>.
\<close>

section \<open>Values\<close>

type_synonym buffer = "8 word list"

datatype json =
    JNull
  | JBool bool
  | JNum int
  | JStr string
  | JArr "json list"
  | JObj "(string \<times> json) list"
  | JBuf buffer

fun truthy :: "json \<Rightarrow> bool" where
  "truthy JNull = False"
| "truthy (JBool b) = b"
| "truthy (JNum n) = (n \<noteq> 0)"
| "truthy (JStr s) = (s \<noteq> [])"
| "truthy (JArr xs) = True"
| "truthy (JObj kvs) = True"
| "truthy (JBuf b) = True"

fun truthy_opt :: "json option \<Rightarrow> bool" where
  "truthy_opt None = False"
| "truthy_opt (Some v) = truthy v"

text \<open>\<open>typeof v === 'object'\<close>, which holds of \<open>null\<close> and of arrays too.\<close>

fun is_object_type :: "json \<Rightarrow> bool" where
  "is_object_type JNull = True"
| "is_object_type (JArr xs) = True"
| "is_object_type (JObj kvs) = True"
| "is_object_type (JBuf b) = True"
| "is_object_type v = False"

fun js_index :: "json \<Rightarrow> nat \<Rightarrow> json option" where
  "js_index (JArr xs) i = (if i < length xs then Some (xs ! i) else None)"
| "js_index (JStr s) i = (if i < length s then Some (JStr [s ! i]) else None)"
| "js_index (JObj kvs) i = map_of kvs (show_nat i)"
| "js_index v i = None"

fun js_get :: "json \<Rightarrow> string \<Rightarrow> json option" where
  "js_get (JObj kvs) k = map_of kvs k"
| "js_get (JArr xs) k =
     (if k = ''length'' then Some (JNum (int (length xs)))
      else map_of (zip (map show_nat [0..<length xs]) xs) k)"
| "js_get (JStr s) k =
     (if k = ''length'' then Some (JNum (int (length s))) else None)"
| "js_get v k = None"

fun js_keys :: "json \<Rightarrow> string list" where
  "js_keys (JObj kvs) = map fst kvs"
| "js_keys (JArr xs) = map show_nat [0..<length xs]"
| "js_keys v = []"

definition join_with :: "string \<Rightarrow> string list \<Rightarrow> string" where
  "join_with sep xs = (case xs of [] \<Rightarrow> [] | y # ys \<Rightarrow> y @ concat (map (\<lambda>z. sep @ z) ys))"

fun js_String :: "json \<Rightarrow> string" where
  "js_String JNull = ''null''"
| "js_String (JBool b) = (if b then ''true'' else ''false'')"
| "js_String (JNum n) = show_int n"
| "js_String (JStr s) = s"
| "js_String (JArr xs) =
     join_with '','' (map (\<lambda>x. if x = JNull then [] else js_String x) xs)"
| "js_String (JObj kvs) = ''[object Object]''"
| "js_String (JBuf b) = ''[object ArrayBuffer]''"

section \<open>Own properties\<close>

fun js_set :: "string \<Rightarrow> json \<Rightarrow> (string \<times> json) list \<Rightarrow> (string \<times> json) list" where
  "js_set k v [] = [(k, v)]"
| "js_set k v ((k', v') # kvs) = (if k' = k then (k, v) # kvs else (k', v') # js_set k v kvs)"

definition js_assign ::
  "(string \<times> json) list \<Rightarrow> (string \<times> json) list \<Rightarrow> (string \<times> json) list" where
  "js_assign target source = fold (\<lambda>(k, v). js_set k v) source target"

text \<open>The own enumerable properties that \<open>Object.assign\<close> copies from a source value.\<close>

fun own_props :: "json \<Rightarrow> (string \<times> json) list" where
  "own_props (JObj kvs) = kvs"
| "own_props (JArr xs) = zip (map show_nat [0..<length xs]) xs"
| "own_props (JStr s) = zip (map show_nat [0..<length s]) (map (\<lambda>c. JStr [c]) s)"
| "own_props v = []"

lemma map_of_js_set [simp]: "map_of (js_set k v kvs) = (map_of kvs)(k \<mapsto> v)"
  by (induction kvs) auto

lemma map_of_js_assign:
  "map_of (js_assign t (s @ [(k, v)])) = (map_of (js_assign t s))(k \<mapsto> v)"
  by (simp add: js_assign_def)

lemma map_of_js_assign_notin:
  "k \<notin> fst ` set s \<Longrightarrow> map_of (js_assign t s) k = map_of t k"
  unfolding js_assign_def by (induction s arbitrary: t) auto

lemma js_assign_Nil [simp]: "js_assign t [] = t"
  by (simp add: js_assign_def)

section \<open>Error objects\<close>

text \<open>
  A thrown value or the reason of a rejected promise: its \<open>name\<close>, and the \<open>status\<close> and
  \<open>data\<close> that \<open>request\<close> in passkey.js adds for an HTTP error.
\<close>

record js_err =
  err_name :: string
  err_status :: "int option"
  err_data :: "json option"

definition exn :: "string \<Rightarrow> js_err" where
  "exn n = \<lparr>err_name = n, err_status = None, err_data = None\<rparr>"

section \<open>String.prototype.replace with a string pattern\<close>

text \<open>
  The first occurrence is replaced, and \<open>$$\<close>, \<open>$&\<close>, \<open>$`\<close> and \<open>$'\<close> in the replacement stand
  for a dollar sign, the match, and the text before and after it.
\<close>

fun expand_repl :: "string \<Rightarrow> string \<Rightarrow> string \<Rightarrow> string \<Rightarrow> string" where
  "expand_repl pre m post (CHR ''$'' # c # cs) =
     (if c = CHR ''$'' then CHR ''$'' # expand_repl pre m post cs
      else if c = CHR ''&'' then m @ expand_repl pre m post cs
      else if c = CHR 0x60 then pre @ expand_repl pre m post cs
      else if c = CHR 0x27 then post @ expand_repl pre m post cs
      else CHR ''$'' # expand_repl pre m post (c # cs))"
| "expand_repl pre m post (c # cs) = c # expand_repl pre m post cs"
| "expand_repl pre m post [] = []"

fun split_at_first :: "string \<Rightarrow> string \<Rightarrow> (string \<times> string) option" where
  "split_at_first pat [] = (if pat = [] then Some ([], []) else None)"
| "split_at_first pat (c # cs) =
     (if take (length pat) (c # cs) = pat then Some ([], drop (length pat) (c # cs))
      else map_option (\<lambda>(a, b). (c # a, b)) (split_at_first pat cs))"

definition js_replace :: "string \<Rightarrow> string \<Rightarrow> string \<Rightarrow> string" where
  "js_replace s pat rep = (case split_at_first pat s of
      None \<Rightarrow> s
    | Some (pre, post) \<Rightarrow> pre @ expand_repl pre pat post rep @ post)"

lemma split_at_first_Some:
  "split_at_first pat s = Some (a, b) \<Longrightarrow> s = a @ pat @ b"
proof (induction s arbitrary: a b)
  case Nil
  then show ?case by (simp split: if_splits)
next
  case (Cons c cs)
  then show ?case
    by (auto split: if_splits) (metis append_take_drop_id)
qed

lemma expand_repl_plain: "CHR ''$'' \<notin> set rep \<Longrightarrow> expand_repl pre m post rep = rep"
proof (induction rep)
  case Nil
  then show ?case by simp
next
  case (Cons c cs)
  then show ?case by (cases "(pre, m, post, c # cs)" rule: expand_repl.cases) auto
qed

end
