(* ===== verification/Base64.thy ===== *)
theory Base64 imports Main Prelude JsValue "HOL-Library.Word" begin

text \<open>
  The base64url conversions of app/assets/passkey.js (\<open>b64urlToBuffer\<close>,
  \<open>bufferToB64url\<close>) over the browser's \<open>atob\<close> and \<open>btoa\<close>, which follow the WHATWG
  forgiving-base64 rules. A binary string is a \<open>string\<close> whose characters are the bytes.
\<close>

section \<open>The alphabet\<close>

definition b64_char :: "nat \<Rightarrow> char" where
  "b64_char n =
     (if n < 26 then char_of (65 + n)
      else if n < 52 then char_of (97 + (n - 26))
      else if n < 62 then char_of (48 + (n - 52))
      else if n = 62 then CHR ''+'' else CHR ''/'')"

definition b64_val :: "char \<Rightarrow> nat option" where
  "b64_val c = (let k = of_char c :: nat in
     if 65 \<le> k \<and> k \<le> 90 then Some (k - 65)
     else if 97 \<le> k \<and> k \<le> 122 then Some (k - 97 + 26)
     else if 48 \<le> k \<and> k \<le> 57 then Some (k - 48 + 52)
     else if c = CHR ''+'' then Some 62
     else if c = CHR ''/'' then Some 63 else None)"

section \<open>btoa and atob\<close>

fun enc64 :: "nat list \<Rightarrow> nat list" where
  "enc64 [] = []"
| "enc64 [a] = [a div 4, (a mod 4) * 16]"
| "enc64 [a, b] = [a div 4, (a mod 4) * 16 + b div 16, (b mod 16) * 4]"
| "enc64 (a # b # c # r) =
     [a div 4, (a mod 4) * 16 + b div 16, (b mod 16) * 4 + c div 64, c mod 64] @ enc64 r"

fun dec64 :: "nat list \<Rightarrow> nat list" where
  "dec64 (w # x # y # z # r) =
     [w * 4 + x div 16, (x mod 16) * 16 + y div 4, (y mod 4) * 64 + z] @ dec64 r"
| "dec64 [w, x, y] = [w * 4 + x div 16, (x mod 16) * 16 + y div 4]"
| "dec64 [w, x] = [w * 4 + x div 16]"
| "dec64 _ = []"

definition pad64 :: "nat \<Rightarrow> string" where
  "pad64 n = replicate ((3 - n mod 3) mod 3) (CHR ''='')"

definition btoa :: "string \<Rightarrow> string" where
  "btoa s = map b64_char (enc64 (map of_char s)) @ pad64 (length s)"

definition is_ascii_ws :: "char \<Rightarrow> bool" where
  "is_ascii_ws c = (of_char c \<in> {9, 10, 12, 13, 32 :: nat})"

definition strip_pad :: "string \<Rightarrow> string" where
  "strip_pad d =
     (if length d mod 4 = 0 then
        (if drop (length d - 2) d = ''=='' then take (length d - 2) d
         else if drop (length d - 1) d = ''='' then take (length d - 1) d else d)
      else d)"

definition atob :: "string \<Rightarrow> js_err + string" where
  "atob s =
     (let d = strip_pad (filter (\<lambda>c. \<not> is_ascii_ws c) s) in
      if length d mod 4 = 1 \<or> (\<exists>c\<in>set d. b64_val c = None)
      then Inl (exn ''InvalidCharacterError'')
      else Inr (map char_of (dec64 (map (\<lambda>c. the (b64_val c)) d))))"

section \<open>The passkey.js conversions\<close>

definition subst_char :: "char \<Rightarrow> char \<Rightarrow> string \<Rightarrow> string" where
  "subst_char a b = map (\<lambda>c. if c = a then b else c)"

definition b64urlToBuffer :: "string \<Rightarrow> js_err + buffer" where
  "b64urlToBuffer v =
     (let base64 = subst_char (CHR ''_'') (CHR ''/'') (subst_char (CHR ''-'') (CHR ''+'') v) in
      bindE (atob (base64 @ drop ((length base64 + 3) mod 4) ''===''))
        (\<lambda>binary. Inr (map (\<lambda>c. of_nat (of_char c)) binary)))"

definition drop_trailing_eq :: "string \<Rightarrow> string" where
  "drop_trailing_eq s = rev (dropWhile (\<lambda>c. c = CHR ''='') (rev s))"

definition bufferToB64url :: "buffer \<Rightarrow> string" where
  "bufferToB64url b =
     (let binary = map (\<lambda>w. char_of (unat w)) b in
      drop_trailing_eq
        (subst_char (CHR ''/'') (CHR ''_'') (subst_char (CHR ''+'') (CHR ''-'') (btoa binary))))"

section \<open>Sextets and characters\<close>

lemma of_char_char_of [simp]: "n < 256 \<Longrightarrow> (of_char (char_of n) :: nat) = n"
  by simp

lemma of_char_b64_char:
  "n < 64 \<Longrightarrow> (of_char (b64_char n) :: nat) =
     (if n < 26 then 65 + n else if n < 52 then 71 + n else if n < 62 then n - 4
      else if n = 62 then 43 else 47)"
  by (simp add: b64_char_def)

lemma char_eq_code: "c = d \<longleftrightarrow> (of_char c :: nat) = of_char d"
  by simp

lemma b64_val_char [simp]: "n < 64 \<Longrightarrow> b64_val (b64_char n) = Some n"
  using of_char_b64_char [of n]
  by (simp only: b64_val_def Let_def char_eq_code) (auto split: if_splits)

definition url_char :: "char \<Rightarrow> char" where
  "url_char c = (if c = CHR ''+'' then CHR ''-'' else if c = CHR ''/'' then CHR ''_'' else c)"

definition std_char :: "char \<Rightarrow> char" where
  "std_char c = (if c = CHR ''-'' then CHR ''+'' else if c = CHR ''_'' then CHR ''/'' else c)"

lemma subst_url: "subst_char (CHR ''/'') (CHR ''_'') (subst_char (CHR ''+'') (CHR ''-'') s) = map url_char s"
  by (auto simp: subst_char_def url_char_def)

lemma subst_std: "subst_char (CHR ''_'') (CHR ''/'') (subst_char (CHR ''-'') (CHR ''+'') s) = map std_char s"
  by (auto simp: subst_char_def std_char_def)

definition url_alphabet :: "char set" where
  "url_alphabet = set (map (url_char \<circ> b64_char) [0..<64])"

lemma b64_char_facts:
  assumes "n < 64"
  shows "std_char (url_char (b64_char n)) = b64_char n" and "url_char (b64_char n) \<noteq> CHR ''=''"
    and "\<not> is_ascii_ws (b64_char n)" and "url_char (b64_char n) \<in> url_alphabet"
    and "b64_char n \<noteq> CHR ''=''"
proof -
  show "std_char (url_char (b64_char n)) = b64_char n" "url_char (b64_char n) \<noteq> CHR ''=''"
    "\<not> is_ascii_ws (b64_char n)" "b64_char n \<noteq> CHR ''=''"
    using of_char_b64_char [OF assms] assms
    by (auto simp: std_char_def url_char_def is_ascii_ws_def char_eq_code split: if_splits
        simp del: of_char_eq_iff)
  show "url_char (b64_char n) \<in> url_alphabet" using assms by (auto simp: url_alphabet_def)
qed

lemma url_alphabet_val:
  "c \<in> url_alphabet \<Longrightarrow> \<exists>n<64. c = url_char (b64_char n) \<and> std_char c = b64_char n"
  by (auto simp: url_alphabet_def b64_char_facts)

section \<open>Encoding and decoding sextets\<close>

lemma enc64_bound: "\<forall>b\<in>set bs. b < 256 \<Longrightarrow> \<forall>n\<in>set (enc64 bs). n < 64"
proof (induction bs rule: enc64.induct)
  case (3 a b)
  then show ?case by auto
next
  case (4 a b c r)
  then show ?case by auto
qed auto

lemma dec64_enc64: "\<forall>b\<in>set bs. b < 256 \<Longrightarrow> dec64 (enc64 bs) = bs"
proof (induction bs rule: enc64.induct)
  case (3 a b)
  then have "b div 16 < 16" by auto
  then show ?case by simp
next
  case (4 a b c r)
  have "dec64 ([a div 4, (a mod 4) * 16 + b div 16, (b mod 16) * 4 + c div 64, c mod 64] @ enc64 r)
      = [a div 4 * 4 + ((a mod 4) * 16 + b div 16) div 16,
         (((a mod 4) * 16 + b div 16) mod 16) * 16 + ((b mod 16) * 4 + c div 64) div 4,
         (((b mod 16) * 4 + c div 64) mod 4) * 64 + c mod 64] @ dec64 (enc64 r)"
    by simp
  moreover have "((a mod 4) * 16 + b div 16) div 16 = a mod 4" "((a mod 4) * 16 + b div 16) mod 16 = b div 16"
    "((b mod 16) * 4 + c div 64) div 4 = b mod 16" "((b mod 16) * 4 + c div 64) mod 4 = c div 64"
    using "4.prems" by auto
  ultimately show ?case using 4 by simp
qed auto

lemma length_enc64: "length (enc64 bs) = (4 * length bs + 2) div 3"
  by (induction bs rule: enc64.induct) auto

lemma length_dec64: "length ns mod 4 \<noteq> 1 \<Longrightarrow> length (dec64 ns) = 3 * length ns div 4"
  by (induction ns rule: dec64.induct) auto

lemma dec64_bound: "\<forall>n\<in>set ns. n < 64 \<Longrightarrow> \<forall>b\<in>set (dec64 ns). b < 256"
proof (induction ns rule: dec64.induct)
  case (1 w x y z r)
  then have "w < 64" "x < 64" "y < 64" "z < 64" by auto
  moreover from calculation have "x div 16 < 4" "x mod 16 < 16" "y div 4 < 16" "y mod 4 < 4" by auto
  ultimately have "w * 4 + x div 16 < 256" "(x mod 16) * 16 + y div 4 < 256" "(y mod 4) * 64 + z < 256"
    by linarith+
  with 1 show ?case by auto
next
  case (2 w x y)
  then have "w < 64" "x < 64" "y < 64" by auto
  moreover from calculation have "x div 16 < 4" "x mod 16 < 16" "y div 4 < 16" by auto
  ultimately have "w * 4 + x div 16 < 256" "(x mod 16) * 16 + y div 4 < 256" by linarith+
  then show ?case by simp
next
  case (3 w x)
  then have "w < 64" "x < 64" by auto
  moreover from calculation have "x div 16 < 4" by auto
  ultimately have "w * 4 + x div 16 < 256" by linarith
  then show ?case by simp
qed auto

section \<open>The encoder's output and the round trip\<close>

lemma drop_trailing_eq_pad:
  "\<forall>c\<in>set s. c \<noteq> CHR ''='' \<Longrightarrow> drop_trailing_eq (s @ replicate k (CHR ''='')) = s"
proof -
  assume a: "\<forall>c\<in>set s. c \<noteq> CHR ''=''"
  have "dropWhile (\<lambda>c. c = CHR ''='') (replicate k (CHR ''='') @ rev s) = rev s"
    using a by (cases "rev s") (auto simp: dropWhile_append3 dropWhile_eq_Nil_conv)
  then show ?thesis by (simp add: drop_trailing_eq_def)
qed

definition codes :: "buffer \<Rightarrow> nat list" where
  "codes b = map unat b"

lemma codes_bound: "\<forall>n\<in>set (codes b). n < 256"
  using unsigned_less [where 'a = nat and 'b = 8] by (auto simp: codes_def)

lemma bufferToB64url_eq: "bufferToB64url b = map (url_char \<circ> b64_char) (enc64 (codes b))"
proof -
  have c: "map of_char (map (\<lambda>w. char_of (unat w)) b) = codes b"
    using codes_bound [of b] by (auto simp: codes_def)
  have "bufferToB64url b
      = drop_trailing_eq (map (url_char \<circ> b64_char) (enc64 (codes b)) @ map url_char (pad64 (length b)))"
    unfolding bufferToB64url_def Let_def subst_url btoa_def c by simp
  also have "map url_char (pad64 (length b)) = pad64 (length b)"
    by (simp add: pad64_def url_char_def)
  finally have e: "bufferToB64url b
      = drop_trailing_eq (map (url_char \<circ> b64_char) (enc64 (codes b)) @ pad64 (length b))" .
  have "\<forall>c\<in>set (map (url_char \<circ> b64_char) (enc64 (codes b))). c \<noteq> CHR ''=''"
    using enc64_bound [OF codes_bound [of b]] by (simp add: b64_char_facts)
  then show ?thesis unfolding e pad64_def by (rule drop_trailing_eq_pad)
qed

text \<open>\<open>atob\<close> on padded canonical text of at most 63-valued sextets.\<close>

lemma filter_ws_url:
  "\<forall>n\<in>set ns. n < 64 \<Longrightarrow> filter (\<lambda>c. \<not> is_ascii_ws c) (map b64_char ns) = map b64_char ns"
  by (auto simp: filter_id_conv b64_char_facts)

lemma filter_ws_pad: "filter (\<lambda>c. \<not> is_ascii_ws c) (replicate k (CHR ''='')) = replicate k (CHR ''='')"
  by (simp add: filter_id_conv is_ascii_ws_def)

lemma last_b64_not_eq:
  "\<forall>n\<in>set ns. n < 64 \<Longrightarrow> drop k (map b64_char ns) \<noteq> ''=='' \<and> drop k (map b64_char ns) \<noteq> ''=''"
proof -
  assume a: "\<forall>n\<in>set ns. n < 64"
  have "CHR ''='' \<notin> set (drop k (map b64_char ns))"
  proof
    assume "CHR ''='' \<in> set (drop k (map b64_char ns))"
    then obtain n where "n \<in> set ns" "b64_char n = CHR ''=''" by (auto dest!: in_set_dropD)
    then show False using a b64_char_facts(5) by blast
  qed
  then show ?thesis by auto
qed

lemma strip_pad_canonical:
  assumes "\<forall>n\<in>set ns. n < 64" and "length ns mod 4 \<noteq> 1"
  shows "strip_pad (map b64_char ns @ drop ((length ns + 3) mod 4) ''==='') = map b64_char ns"
proof -
  consider "length ns mod 4 = 0" | "length ns mod 4 = 2" | "length ns mod 4 = 3"
    using assms(2) by linarith
  then show ?thesis
  proof cases
    case 1
    then have "(length ns + 3) mod 4 = 3" by presburger
    then show ?thesis using 1 last_b64_not_eq [OF assms(1)] by (simp add: strip_pad_def)
  next
    case 2
    then have "(length ns + 3) mod 4 = 1" "(length ns + 2) mod 4 = 0" by presburger+
    then show ?thesis by (simp add: strip_pad_def)
  next
    case 3
    then have "(length ns + 3) mod 4 = 2" "(length ns + 1) mod 4 = 0" by presburger+
    moreover have "drop (length ns - 1) (map b64_char ns) @ ''='' \<noteq> ''==''"
      using last_b64_not_eq [OF assms(1), of "length ns - 1"] by auto
    ultimately show ?thesis using 3 by (simp add: strip_pad_def)
  qed
qed

lemma atob_canonical:
  assumes "\<forall>n\<in>set ns. n < 64" and "length ns mod 4 \<noteq> 1"
  shows "atob (map b64_char ns @ drop ((length ns + 3) mod 4) ''==='') = Inr (map char_of (dec64 ns))"
proof -
  have w: "filter (\<lambda>c. \<not> is_ascii_ws c) (drop k ''==='') = drop k ''==='' " for k
    using set_drop_subset [of k "''==='' "] by (auto simp: filter_id_conv is_ascii_ws_def)
  have v: "map (\<lambda>c. the (b64_val c)) (map b64_char ns) = ns"
    using assms(1) by (simp add: map_idI)
  have k: "\<forall>c\<in>set (map b64_char ns). b64_val c \<noteq> None"
    using assms(1) by auto
  show ?thesis
    unfolding atob_def Let_def filter_append filter_ws_url [OF assms(1)] w
      strip_pad_canonical [OF assms]
    using assms(2) k v by auto
qed

lemma b64urlToBuffer_canonical:
  assumes "\<forall>n\<in>set ns. n < 64" and "length ns mod 4 \<noteq> 1"
  shows "b64urlToBuffer (map (url_char \<circ> b64_char) ns) = Inr (map of_nat (dec64 ns))"
proof -
  have m: "map std_char (map (url_char \<circ> b64_char) ns) = map b64_char ns"
    using assms(1) by (simp add: b64_char_facts)
  have l: "length (map b64_char ns) = length ns" by simp
  show ?thesis
    unfolding b64urlToBuffer_def Let_def subst_std m l atob_canonical [OF assms] bindE.simps
    using dec64_bound [OF assms(1)] by simp
qed

lemma url_alphabet_sextets:
  "set v \<subseteq> url_alphabet \<Longrightarrow> \<exists>ns. (\<forall>n\<in>set ns. n < 64) \<and> v = map (url_char \<circ> b64_char) ns"
proof (induction v)
  case Nil
  show ?case by (rule exI [of _ "[]"]) simp
next
  case (Cons c v)
  then obtain ns where "\<forall>n\<in>set ns. n < 64" "v = map (url_char \<circ> b64_char) ns" by auto
  moreover obtain n where "n < 64" "c = url_char (b64_char n)"
    using Cons.prems url_alphabet_val by auto
  ultimately show ?case by (intro exI [of _ "n # ns"]) auto
qed

lemma b64urlToBuffer_bad_length:
  assumes "\<forall>n\<in>set ns. n < 64" and "length ns mod 4 = 1"
  shows "b64urlToBuffer (map (url_char \<circ> b64_char) ns) = Inl (exn ''InvalidCharacterError'')"
proof -
  have m: "map std_char (map (url_char \<circ> b64_char) ns) = map b64_char ns"
    using assms(1) by (simp add: b64_char_facts)
  have k: "(length ns + 3) mod 4 = 0" "(3 + length ns) mod 4 = 0" using assms(2) by presburger+
  have f: "filter (\<lambda>c. \<not> is_ascii_ws c) (map b64_char ns @ ''==='') = map b64_char ns @ ''===''"
    unfolding filter_append filter_ws_url [OF assms(1)] by (simp add: is_ascii_ws_def)
  have d: "strip_pad (map b64_char ns @ ''==='') = map b64_char ns @ ''=''"
    using k by (simp add: strip_pad_def)
  have "atob (map b64_char ns @ ''==='') = Inl (exn ''InvalidCharacterError'')"
    unfolding atob_def Let_def f d by (simp add: b64_val_def)
  then show ?thesis
    unfolding b64urlToBuffer_def Let_def subst_std m by (simp add: k)
qed

section \<open>Properties of the conversions\<close>

text \<open>
  Claim C1: decoding the base64url text that \<open>bufferToB64url\<close> produces gives back the
  same bytes, for every buffer, although the padding is stripped on the way out and
  recomputed by \<open>'==='.slice((base64.length + 3) % 4)\<close> on the way in.
\<close>

theorem b64url_roundtrip: "b64urlToBuffer (bufferToB64url b) = Inr b"
proof -
  have "\<forall>n\<in>set (enc64 (codes b)). n < 64" by (rule enc64_bound [OF codes_bound])
  moreover have "length (enc64 (codes b)) mod 4 \<noteq> 1" unfolding length_enc64 by presburger
  ultimately have "b64urlToBuffer (bufferToB64url b) = Inr (map of_nat (dec64 (enc64 (codes b))))"
    unfolding bufferToB64url_eq by (rule b64urlToBuffer_canonical)
  then show ?thesis unfolding dec64_enc64 [OF codes_bound] by (simp add: codes_def map_idI)
qed

text \<open>
  Claim C38: the text \<open>bufferToB64url\<close> produces is made of the 64 URL-safe characters only
  (in particular it has no padding sign) and has the length of unpadded base64.
\<close>

theorem b64url_text: "set (bufferToB64url b) \<subseteq> url_alphabet
    \<and> length (bufferToB64url b) = (4 * length b + 2) div 3"
proof -
  have "\<forall>n\<in>set (enc64 (codes b)). n < 64" by (rule enc64_bound [OF codes_bound])
  then show ?thesis
    by (auto simp: bufferToB64url_eq length_enc64 b64_char_facts) (simp add: codes_def)
qed

text \<open>
  Over the URL-safe alphabet \<open>b64urlToBuffer\<close> throws InvalidCharacterError
  exactly for the texts whose length is one more than a multiple of four, and otherwise
  yields the number of bytes the length encodes.
\<close>

theorem b64url_decode_total:
  assumes "set v \<subseteq> url_alphabet"
  shows "(length v mod 4 = 1 \<and> b64urlToBuffer v = Inl (exn ''InvalidCharacterError''))
    \<or> (length v mod 4 \<noteq> 1 \<and> (\<exists>b. b64urlToBuffer v = Inr b \<and> length b = 3 * length v div 4))"
proof -
  obtain ns where ns: "\<forall>n\<in>set ns. n < 64" "v = map (url_char \<circ> b64_char) ns"
    using url_alphabet_sextets [OF assms] by blast
  show ?thesis
    using b64urlToBuffer_bad_length [OF ns(1)] b64urlToBuffer_canonical [OF ns(1)]
      length_dec64 [of ns] ns(2) by (cases "length ns mod 4 = 1") auto
qed

lemma b64url_decode_total_witness:
  "set ''-_-_-'' \<subseteq> url_alphabet \<and> b64urlToBuffer ''-_-_-'' = Inl (exn ''InvalidCharacterError'')"
proof -
  have a: "set ''-_-_-'' \<subseteq> url_alphabet"
    using b64_char_facts(4) [of 62] b64_char_facts(4) [of 63]
    by (simp add: b64_char_def url_char_def)
  show ?thesis using a b64url_decode_total [OF a] by simp
qed

end
