(* ===== verification/Passkey.thy ===== *)
theory Passkey imports Main Prelude JsValue Base64 begin

text \<open>
  app/assets/passkey.js, the WebAuthn helper every passkey page loads: conversion of the
  server's options and of credentials, the CSRF token, the JSON request wrapper, the two
  ceremonies \<open>create\<close> and \<open>assertion\<close>, and \<open>errorMessage\<close>. The network, the authenticator
  and the optional native option parsers belong to the browser and are the fields of
  \<open>browser\<close>, over a world \<open>'w\<close> that each call may change. A promise chain is the sequence
  of its steps, a rejection (or a synchronous throw) is \<open>Inl\<close>.
\<close>

section \<open>The page and the browser\<close>

record i18n =
  passkeyCancelled :: string
  passkeyRateLimited :: string
  passkeyRateLimitedWait :: string
  signupGenericError :: string
  passwordTooShort :: string
  passwordsNotMatch :: string

record doc =
  doc_cookie :: string
  csrf_input :: "string option"

record attestation_or_assertion =
  clientDataJSON :: buffer
  attestationObject :: "buffer option"
  getTransports :: "json list option"
  authenticatorData :: buffer
  cred_signature :: buffer
  userHandle :: "buffer option"

record credential =
  toJSON :: "json option"
  cred_id :: string
  rawId :: buffer
  cred_type :: string
  authenticatorAttachment :: "string option"
  clientExtensionResults :: json
  cred_response :: attestation_or_assertion

record http_request =
  rq_verb :: string
  rq_url :: string
  rq_credentials :: string
  rq_headers :: "(string \<times> string) list"
  rq_body :: "json option"

text \<open>The response text as \<open>JSON.parse\<close> sees it: empty, a JSON text, or neither.\<close>

datatype body_text = EmptyBody | ParsedBody json | UnparsableBody

record http_response =
  rs_status :: int
  rs_text :: body_text

record 'w browser =
  br_doc :: doc
  br_fetch :: "'w \<Rightarrow> http_request \<Rightarrow> 'w \<times> (js_err + http_response)"
  parseCreationOptionsFromJSON :: "(json \<Rightarrow> js_err + json) option"
  parseRequestOptionsFromJSON :: "(json \<Rightarrow> js_err + json) option"
  cred_create :: "'w \<Rightarrow> json \<Rightarrow> 'w \<times> (js_err + credential option)"
  cred_get :: "'w \<Rightarrow> json \<Rightarrow> string option \<Rightarrow> nat option \<Rightarrow> 'w \<times> (js_err + credential option)"

section \<open>Options and credentials\<close>

text \<open>Reading a property of a possibly undefined or null value.\<close>

fun js_prop :: "json option \<Rightarrow> string \<Rightarrow> js_err + json option" where
  "js_prop None k = Inl (exn ''TypeError'')"
| "js_prop (Some JNull) k = Inl (exn ''TypeError'')"
| "js_prop (Some v) k = Inr (js_get v k)"

fun to_buffer :: "json option \<Rightarrow> js_err + json" where
  "to_buffer (Some (JStr s)) = bindE (b64urlToBuffer s) (\<lambda>b. Inr (JBuf b))"
| "to_buffer v = Inl (exn ''TypeError'')"

definition assign_props :: "json option \<Rightarrow> (string \<times> json) list \<Rightarrow> json" where
  "assign_props v ps =
     JObj (js_assign (js_assign [] (case v of None \<Rightarrow> [] | Some j \<Rightarrow> own_props j)) ps)"

definition with_id :: "json \<Rightarrow> js_err + json" where
  "with_id item =
     bindE (js_prop (Some item) ''id'') (\<lambda>i.
     bindE (to_buffer i) (\<lambda>b. Inr (assign_props (Some item) [(''id'', b)])))"

definition withIds :: "json option \<Rightarrow> js_err + json" where
  "withIds l =
     (if truthy_opt l then
        (case l of Some (JArr items) \<Rightarrow> bindE (mapE with_id items) (\<lambda>xs. Inr (JArr xs))
         | _ \<Rightarrow> Inl (exn ''TypeError''))
      else Inr (JArr []))"

definition creationOptions :: "'w browser \<Rightarrow> json option \<Rightarrow> js_err + json" where
  "creationOptions B opts =
     (case parseCreationOptionsFromJSON B of
        Some parse \<Rightarrow> (case opts of None \<Rightarrow> Inl (exn ''TypeError'') | Some j \<Rightarrow> parse j)
      | None \<Rightarrow>
          bindE (js_prop opts ''challenge'') (\<lambda>c. bindE (to_buffer c) (\<lambda>challenge.
          bindE (js_prop opts ''user'') (\<lambda>u. bindE (js_prop u ''id'') (\<lambda>i. bindE (to_buffer i) (\<lambda>uid.
          bindE (js_prop opts ''excludeCredentials'') (\<lambda>ex. bindE (withIds ex) (\<lambda>excl.
          Inr (assign_props opts [(''challenge'', challenge),
                 (''user'', assign_props u [(''id'', uid)]),
                 (''excludeCredentials'', excl)])))))))))"

definition requestOptions :: "'w browser \<Rightarrow> json option \<Rightarrow> js_err + json" where
  "requestOptions B opts =
     (case parseRequestOptionsFromJSON B of
        Some parse \<Rightarrow> (case opts of None \<Rightarrow> Inl (exn ''TypeError'') | Some j \<Rightarrow> parse j)
      | None \<Rightarrow>
          bindE (js_prop opts ''challenge'') (\<lambda>c. bindE (to_buffer c) (\<lambda>challenge.
          bindE (js_prop opts ''allowCredentials'') (\<lambda>al. bindE (withIds al) (\<lambda>allow.
          Inr (assign_props opts [(''challenge'', challenge), (''allowCredentials'', allow)]))))))"

text \<open>
  A property whose value is \<open>undefined\<close> is left out: the object is only ever passed to
  \<open>JSON.stringify\<close>, which drops it.
\<close>

definition b64_json :: "buffer \<Rightarrow> json" where
  "b64_json b = JStr (bufferToB64url b)"

definition response_json :: "attestation_or_assertion \<Rightarrow> json" where
  "response_json r = JObj ([(''clientDataJSON'', b64_json (clientDataJSON r))] @
     (case attestationObject r of
        Some att \<Rightarrow> [(''attestationObject'', b64_json att),
                     (''transports'', JArr (case getTransports r of None \<Rightarrow> [] | Some ts \<Rightarrow> ts))]
      | None \<Rightarrow> [(''authenticatorData'', b64_json (authenticatorData r)),
                  (''signature'', b64_json (cred_signature r))] @
                 (case userHandle r of None \<Rightarrow> [] | Some h \<Rightarrow> [(''userHandle'', b64_json h)])))"

definition credentialToJSON :: "credential \<Rightarrow> json" where
  "credentialToJSON c =
     (case toJSON c of
        Some j \<Rightarrow> j
      | None \<Rightarrow> JObj ([(''id'', JStr (cred_id c)), (''rawId'', b64_json (rawId c)),
                       (''type'', JStr (cred_type c))] @
          (case authenticatorAttachment c of
             None \<Rightarrow> [] | Some a \<Rightarrow> if a = [] then [] else [(''authenticatorAttachment'', JStr a)]) @
          [(''clientExtensionResults'', clientExtensionResults c),
           (''response'', response_json (cred_response c))]))"

section \<open>Cookies and the CSRF token\<close>

function js_split :: "string \<Rightarrow> string \<Rightarrow> string list" where
  "js_split sep s =
     (case split_at_first sep s of
        None \<Rightarrow> [s]
      | Some (a, b) \<Rightarrow> if length b < length s then a # js_split sep b else [s])"
  by pat_completeness auto
termination
  by (relation "measure (\<lambda>(sep, s). length s)") auto

declare js_split.simps [simp del]

definition hex_val :: "char \<Rightarrow> nat option" where
  "hex_val c = (let k = of_char c :: nat in
     if 48 \<le> k \<and> k \<le> 57 then Some (k - 48)
     else if 65 \<le> k \<and> k \<le> 70 then Some (k - 55)
     else if 97 \<le> k \<and> k \<le> 102 then Some (k - 87) else None)"

definition hex_byte :: "char \<Rightarrow> char \<Rightarrow> nat option" where
  "hex_byte a b = (case (hex_val a, hex_val b) of (Some x, Some y) \<Rightarrow> Some (16 * x + y) | _ \<Rightarrow> None)"

text \<open>
  \<open>decodeURIComponent\<close>: percent escapes are UTF-8 bytes. Code points of 256 and more have
  no \<open>char\<close>; the model reports them under a name of its own instead of a wrong character.
\<close>

fun decodeURIComponent :: "string \<Rightarrow> js_err + string" where
  "decodeURIComponent [] = Inr []"
| "decodeURIComponent (c # cs) =
     (if c \<noteq> CHR ''%'' then bindE (decodeURIComponent cs) (\<lambda>r. Inr (c # r))
      else (case cs of
        h # l # rest \<Rightarrow>
          (case hex_byte h l of
             None \<Rightarrow> Inl (exn ''URIError'')
           | Some b \<Rightarrow>
              if b < 128 then bindE (decodeURIComponent rest) (\<lambda>r. Inr (char_of b # r))
              else if b < 194 \<or> 245 \<le> b then Inl (exn ''URIError'')
              else if 196 \<le> b then Inl (exn ''CodePointAbove255'')
              else (case rest of
                p # h2 # l2 # rest2 \<Rightarrow>
                  (case hex_byte h2 l2 of
                     None \<Rightarrow> Inl (exn ''URIError'')
                   | Some b2 \<Rightarrow>
                      if p = CHR ''%'' \<and> 128 \<le> b2 \<and> b2 < 192
                      then bindE (decodeURIComponent rest2)
                             (\<lambda>r. Inr (char_of ((b mod 32) * 64 + b2 mod 64) # r))
                      else Inl (exn ''URIError''))
              | _ \<Rightarrow> Inl (exn ''URIError'')))
      | _ \<Rightarrow> Inl (exn ''URIError'')))"

definition starts_with :: "string \<Rightarrow> string \<Rightarrow> bool" where
  "starts_with pre s = (take (length pre) s = pre)"

fun find_cookie :: "string \<Rightarrow> string list \<Rightarrow> js_err + string" where
  "find_cookie pre [] = Inr []"
| "find_cookie pre (p # ps) =
     (if starts_with pre p then decodeURIComponent (drop (length pre) p) else find_cookie pre ps)"

definition cookie :: "doc \<Rightarrow> string \<Rightarrow> js_err + string" where
  "cookie d name =
     find_cookie (name @ ''='') (if doc_cookie d = [] then [] else js_split ''; '' (doc_cookie d))"

definition csrfToken :: "doc \<Rightarrow> js_err + string" where
  "csrfToken d =
     (case csrf_input d of
        Some v \<Rightarrow> if v \<noteq> [] then Inr v else cookie d ''csrftoken''
      | None \<Rightarrow> cookie d ''csrftoken'')"

section \<open>Requests\<close>

definition make_request :: "string \<Rightarrow> string \<Rightarrow> string \<Rightarrow> json option \<Rightarrow> http_request" where
  "make_request tok verb url body =
     \<lparr>rq_verb = verb, rq_url = url, rq_credentials = ''same-origin'',
      rq_headers = [(''Accept'', ''application/json''), (''X-CSRFToken'', tok)] @
        (if body \<noteq> None then [(''Content-Type'', ''application/json'')] else []),
      rq_body = body\<rparr>"

definition resp_ok :: "http_response \<Rightarrow> bool" where
  "resp_ok r = (200 \<le> rs_status r \<and> rs_status r \<le> 299)"

definition response_data :: "http_response \<Rightarrow> json" where
  "response_data r = (case rs_text r of ParsedBody j \<Rightarrow> j | _ \<Rightarrow> JObj [])"

definition finish_response :: "http_response \<Rightarrow> js_err + json" where
  "finish_response r =
     (if resp_ok r then Inr (response_data r)
      else Inl \<lparr>err_name = ''Error'', err_status = Some (rs_status r), err_data = Some (response_data r)\<rparr>)"

definition request :: "'w browser \<Rightarrow> 'w \<Rightarrow> string \<Rightarrow> string \<Rightarrow> json option \<Rightarrow> 'w \<times> (js_err + json)" where
  "request B w verb url body =
     (case csrfToken (br_doc B) of
        Inl e \<Rightarrow> (w, Inl e)
      | Inr tok \<Rightarrow>
          (case br_fetch B w (make_request tok verb url body) of
             (w', Inl e) \<Rightarrow> (w', Inl e)
           | (w', Inr r) \<Rightarrow> (w', finish_response r)))"

definition or_empty :: "json option \<Rightarrow> json" where
  "or_empty b = (if truthy_opt b then the b else JObj [])"

definition postJSON :: "'w browser \<Rightarrow> 'w \<Rightarrow> string \<Rightarrow> json option \<Rightarrow> 'w \<times> (js_err + json)" where
  "postJSON B w url body = request B w ''POST'' url (Some (or_empty body))"

section \<open>The two ceremonies\<close>

text \<open>Sequencing of promise steps: the next step runs in the changed world, a rejection skips it.\<close>

fun thenP :: "'w \<times> (js_err + 'a) \<Rightarrow> ('w \<Rightarrow> 'a \<Rightarrow> 'w \<times> (js_err + 'b)) \<Rightarrow> 'w \<times> (js_err + 'b)" where
  "thenP (w, Inl e) f = (w, Inl e)"
| "thenP (w, Inr x) f = f w x"

definition opt_prop :: "string \<Rightarrow> json option \<Rightarrow> (string \<times> json) list" where
  "opt_prop k v = (case v of None \<Rightarrow> [] | Some j \<Rightarrow> [(k, j)])"

fun cred_json :: "credential option \<Rightarrow> js_err + json" where
  "cred_json None = Inl (exn ''TypeError'')"
| "cred_json (Some c) = Inr (credentialToJSON c)"

definition create ::
  "'w browser \<Rightarrow> 'w \<Rightarrow> string \<Rightarrow> string \<Rightarrow> json option \<Rightarrow> json option \<Rightarrow> 'w \<times> (js_err + json)" where
  "create B w beginUrl finishUrl beginBody finishExtra =
     thenP (postJSON B w beginUrl beginBody) (\<lambda>w started.
     thenP (w, bindE (js_prop (Some started) ''options'') (creationOptions B)) (\<lambda>w opts.
     thenP (cred_create B w (JObj [(''publicKey'', opts)])) (\<lambda>w credential.
     thenP (w, cred_json credential) (\<lambda>w cj.
     postJSON B w finishUrl (Some (JObj
       (js_assign (opt_prop ''challenge_id'' (js_get started ''challenge_id'') @ [(''credential'', cj)])
          (own_props (or_empty finishExtra)))))))))"

definition assertion ::
  "'w browser \<Rightarrow> 'w \<Rightarrow> string option \<Rightarrow> nat option \<Rightarrow> 'w \<times> (js_err + json)" where
  "assertion B w mediation signal =
     thenP (postJSON B w ''/api/passkeys/login/begin/'' None) (\<lambda>w started.
     thenP (w, bindE (js_prop (Some started) ''options'') (requestOptions B)) (\<lambda>w opts.
     thenP (cred_get B w (JObj [(''publicKey'', opts)]) mediation signal) (\<lambda>w credential.
     thenP (w, cred_json credential) (\<lambda>w cj.
     (w, Inr (JObj (opt_prop ''challenge_id'' (js_get started ''challenge_id'') @
                    [(''credential'', cj)])))))))"

definition supported :: "bool \<Rightarrow> bool \<Rightarrow> bool \<Rightarrow> bool" where
  "supported hasPKC hasCredentials hasFetch = (hasPKC \<and> hasCredentials \<and> hasFetch)"

section \<open>errorMessage\<close>

definition errorMessage :: "i18n \<Rightarrow> js_err option \<Rightarrow> string" where
  "errorMessage t err =
     (if (case err of Some e \<Rightarrow> err_name e = ''NotAllowedError'' | None \<Rightarrow> False)
      then passkeyCancelled t
      else
        let data = (case err of None \<Rightarrow> None | Some e \<Rightarrow> err_data e) in
        if (case err of Some e \<Rightarrow> err_status e = Some 429 | None \<Rightarrow> False)
        then (let retryAfter = (if truthy_opt data then js_get (the data) ''retry_after'' else data) in
              if truthy_opt retryAfter
              then js_replace (passkeyRateLimitedWait t) ''{seconds}'' (js_String (the retryAfter))
              else passkeyRateLimited t)
        else if truthy_opt data \<and> is_object_type (the data)
        then (let d = the data; ks = js_keys d in
              if truthy_opt (js_get d ''detail'') then js_String (the (js_get d ''detail''))
              else (case ks of
                [] \<Rightarrow> signupGenericError t
              | k # _ \<Rightarrow> (case js_get d k of
                    Some (JArr (x # xs)) \<Rightarrow> js_String x
                  | _ \<Rightarrow> signupGenericError t)))
        else signupGenericError t)"

section \<open>Recording the requests a ceremony sends\<close>

text \<open>
  The same browser with a log of the requests handed to \<open>fetch\<close>, in order. It only
  observes: the world component evolves as before.
\<close>

definition recording :: "'w browser \<Rightarrow> ('w \<times> http_request list) browser" where
  "recording B =
     \<lparr>br_doc = br_doc B,
      br_fetch = (\<lambda>(w, l) rq. let (w', r) = br_fetch B w rq in ((w', l @ [rq]), r)),
      parseCreationOptionsFromJSON = parseCreationOptionsFromJSON B,
      parseRequestOptionsFromJSON = parseRequestOptionsFromJSON B,
      cred_create = (\<lambda>(w, l) opts. let (w', r) = cred_create B w opts in ((w', l), r)),
      cred_get = (\<lambda>(w, l) opts m sig. let (w', r) = cred_get B w opts m sig in ((w', l), r))\<rparr>"

lemma recording_simps [simp]:
  "br_doc (recording B) = br_doc B"
  "br_fetch (recording B) (w, l) rq = ((fst (br_fetch B w rq), l @ [rq]), snd (br_fetch B w rq))"
  "cred_create (recording B) (w, l) opts = ((fst (cred_create B w opts), l), snd (cred_create B w opts))"
  "cred_get (recording B) (w, l) opts m sig = ((fst (cred_get B w opts m sig), l), snd (cred_get B w opts m sig))"
  "creationOptions (recording B) = creationOptions B"
  "requestOptions (recording B) = requestOptions B"
  by (auto simp: recording_def Let_def case_prod_beta creationOptions_def [abs_def]
      requestOptions_def [abs_def])

lemma request_log:
  assumes "csrfToken (br_doc B) = Inr tok"
  shows "request (recording B) (w, l) verb url body =
    ((fst (br_fetch B w (make_request tok verb url body)), l @ [make_request tok verb url body]),
     bindE (snd (br_fetch B w (make_request tok verb url body))) finish_response)"
  using assms
  by (auto simp: request_def case_prod_beta split: sum.splits)

lemma thenP_cases:
  "thenP m f = (case m of (w, Inl e) \<Rightarrow> (w, Inl e) | (w, Inr x) \<Rightarrow> f w x)"
  by (cases "(m, f)" rule: thenP.cases) auto

lemma create_log:
  assumes tok: "csrfToken (br_doc B) = Inr tok"
    and run: "create (recording B) (w, []) bu fu bb fe = ((w', l), r)"
  defines "bq \<equiv> make_request tok ''POST'' bu (Some (or_empty bb))"
  shows "(l = [bq] \<and> (\<exists>e. r = Inl e)) \<or>
    (\<exists>started opts c. bindE (snd (br_fetch B w bq)) finish_response = Inr started \<and>
       bindE (js_prop (Some started) ''options'') (creationOptions B) = Inr opts \<and>
       snd (cred_create B (fst (br_fetch B w bq)) (JObj [(''publicKey'', opts)])) = Inr (Some c) \<and>
       l = [bq, make_request tok ''POST'' fu (Some (JObj
         (js_assign (opt_prop ''challenge_id'' (js_get started ''challenge_id'') @
            [(''credential'', credentialToJSON c)]) (own_props (or_empty fe)))))])"
proof (cases "bindE (snd (br_fetch B w bq)) finish_response")
  case (Inl e)
  with run have "l = [bq] \<and> r = Inl e"
    unfolding create_def postJSON_def request_log [OF tok] bq_def [symmetric] by auto
  then show ?thesis by blast
next
  case (Inr started)
  note b = Inr
  show ?thesis
  proof (cases "bindE (js_prop (Some started) ''options'') (creationOptions B)")
    case (Inl e)
    with run b have "l = [bq] \<and> r = Inl e"
      unfolding create_def postJSON_def request_log [OF tok] bq_def [symmetric] by auto
    then show ?thesis by blast
  next
    case (Inr opts)
    note o = Inr
    define w1 where "w1 = fst (br_fetch B w bq)"
    have run1: "thenP (cred_create (recording B) (w1, [bq]) (JObj [(''publicKey'', opts)])) (\<lambda>w credential.
       thenP (w, cred_json credential) (\<lambda>w cj.
       postJSON (recording B) w fu (Some (JObj
         (js_assign (opt_prop ''challenge_id'' (js_get started ''challenge_id'') @ [(''credential'', cj)])
            (own_props (or_empty fe))))))) = ((w', l), r)"
      using run b o unfolding create_def postJSON_def request_log [OF tok] bq_def [symmetric] w1_def
      by simp
    obtain cr where cr: "snd (cred_create B w1 (JObj [(''publicKey'', opts)])) = cr" by simp
    show ?thesis
    proof (cases cr)
      case (Inl e)
      with run1 cr show ?thesis by auto
    next
      case (Inr oc)
      then show ?thesis using run1 cr b o
        by (cases oc) (auto simp: postJSON_def request_log [OF tok] or_empty_def w1_def)
    qed
  qed
qed

lemma assertion_log:
  assumes tok: "csrfToken (br_doc B) = Inr tok"
    and run: "assertion (recording B) (w, []) m sig = ((w', l), r)"
  shows "l = [make_request tok ''POST'' ''/api/passkeys/login/begin/'' (Some (JObj []))]"
  using run
  by (auto simp: assertion_def postJSON_def request_log [OF tok] thenP_cases or_empty_def
      split: sum.splits)

lemma make_request_headers [simp]:
  "map_of (rq_headers (make_request tok v u b)) ''X-CSRFToken'' = Some tok"
  "rq_credentials (make_request tok v u b) = ''same-origin''"
  "rq_url (make_request tok v u b) = u" "rq_verb (make_request tok v u b) = v"
  "rq_body (make_request tok v u b) = b"
  by (auto simp: make_request_def)

section \<open>Properties\<close>

text \<open>
  Claim C31: every request a ceremony sends carries the page's CSRF token in the
  \<open>X-CSRFToken\<close> header, is sent with same-origin credentials, and goes to one of the
  ceremony's own URLs, whatever the network and the authenticator answer.
\<close>

theorem ceremony_requests_carry_token:
  assumes tok: "csrfToken (br_doc B) = Inr tok"
    and rq: "rq \<in> set (snd (fst (create (recording B) (w, []) bu fu bb fe)))
      \<union> set (snd (fst (assertion (recording B) (v, []) m sig)))"
  shows "map_of (rq_headers rq) ''X-CSRFToken'' = Some tok \<and> rq_credentials rq = ''same-origin''
    \<and> rq_verb rq = ''POST'' \<and> rq_url rq \<in> {bu, fu, ''/api/passkeys/login/begin/''}"
proof -
  obtain w1 l1 r1 where c: "create (recording B) (w, []) bu fu bb fe = ((w1, l1), r1)"
    by (metis surj_pair)
  obtain w2 l2 r2 where a: "assertion (recording B) (v, []) m sig = ((w2, l2), r2)"
    by (metis surj_pair)
  from rq c a have "rq \<in> set l1 \<or> rq \<in> set l2" by simp
  then show ?thesis
    using create_log [OF tok c] assertion_log [OF tok a] by auto
qed

text \<open>
  Claim C30: a creation ceremony sends the begin request first and the finish request at
  most once, after it. Either it ends with an error after the begin request alone, or the server accepted
  the begin request, the authenticator was asked to create a credential for exactly the options of that
  answer and created one, and the finish body answers the challenge of that answer with exactly this
  credential. The fields that the caller adds to the finish body must not be named \<open>challenge_id\<close>
  or \<open>credential\<close>, because they would replace these.
\<close>

theorem create_request_order:
  assumes tok: "csrfToken (br_doc B) = Inr tok"
    and run: "create (recording B) (w, []) bu fu bb fe = ((w', l), r)"
    and extra: "{''challenge_id'', ''credential''} \<inter> fst ` set (own_props (or_empty fe)) = {}"
  shows "(l = [make_request tok ''POST'' bu (Some (or_empty bb))] \<and> (\<exists>e. r = Inl e)) \<or>
    (\<exists>resp started opts c body.
       snd (br_fetch B w (make_request tok ''POST'' bu (Some (or_empty bb)))) = Inr resp \<and>
       finish_response resp = Inr started \<and>
       bindE (js_prop (Some started) ''options'') (creationOptions B) = Inr opts \<and>
       snd (cred_create B (fst (br_fetch B w (make_request tok ''POST'' bu (Some (or_empty bb))))) (JObj [(''publicKey'', opts)]))
         = Inr (Some c) \<and>
       map_of body ''challenge_id'' = js_get started ''challenge_id'' \<and>
       map_of body ''credential'' = Some (credentialToJSON c) \<and>
       l = [make_request tok ''POST'' bu (Some (or_empty bb)),
            make_request tok ''POST'' fu (Some (JObj body))])"
proof -
  have body: "map_of (js_assign (opt_prop ''challenge_id'' v @ [(''credential'', cj)]) (own_props (or_empty fe)))
      ''challenge_id'' = v"
    "map_of (js_assign (opt_prop ''challenge_id'' v @ [(''credential'', cj)]) (own_props (or_empty fe)))
      ''credential'' = Some cj" for v cj
    using extra by (simp_all add: map_of_js_assign_notin opt_prop_def split: option.split)
  from create_log [OF tok run] show ?thesis
  proof
    assume "\<exists>started opts c. bindE (snd (br_fetch B w (make_request tok ''POST'' bu (Some (or_empty bb))))) finish_response = Inr started \<and>
       bindE (js_prop (Some started) ''options'') (creationOptions B) = Inr opts \<and>
       snd (cred_create B (fst (br_fetch B w (make_request tok ''POST'' bu (Some (or_empty bb))))) (JObj [(''publicKey'', opts)])) = Inr (Some c) \<and>
       l = [make_request tok ''POST'' bu (Some (or_empty bb)), make_request tok ''POST'' fu (Some (JObj
         (js_assign (opt_prop ''challenge_id'' (js_get started ''challenge_id'') @
            [(''credential'', credentialToJSON c)]) (own_props (or_empty fe)))))]"
    then show ?thesis using body by (simp add: bindE_Inr_iff) blast
  qed blast
qed

text \<open>A sample page and browser, on which the properties above are exercised.\<close>

definition sample_texts :: i18n where
  "sample_texts = \<lparr>passkeyCancelled = ''c'', passkeyRateLimited = ''w'',
     passkeyRateLimitedWait = ''w {seconds}'', signupGenericError = ''e'', passwordTooShort = ''s'',
     passwordsNotMatch = ''m''\<rparr>"

definition sample_credential :: credential where
  "sample_credential =
     \<lparr>toJSON = None, cred_id = ''k'', rawId = [1, 2], cred_type = ''public-key'',
      authenticatorAttachment = None, clientExtensionResults = JObj [],
      cred_response = \<lparr>clientDataJSON = [3], attestationObject = Some [4], getTransports = None,
        authenticatorData = [], cred_signature = [], userHandle = None\<rparr>\<rparr>"

definition sample_browser :: "unit browser" where
  "sample_browser =
     \<lparr>br_doc = \<lparr>doc_cookie = [], csrf_input = Some ''tok''\<rparr>,
      br_fetch = (\<lambda>w rq. (w, Inr \<lparr>rs_status = 200, rs_text =
         ParsedBody (JObj [(''challenge_id'', JStr ''c1''), (''options'', JObj [])])\<rparr>)),
      parseCreationOptionsFromJSON = Some Inr,
      parseRequestOptionsFromJSON = Some Inr,
      cred_create = (\<lambda>w opts. (w, Inr (Some sample_credential))),
      cred_get = (\<lambda>w opts m sig. (w, Inr (Some sample_credential)))\<rparr>"

lemma sample_browser_simps [simp]:
  "csrfToken (br_doc sample_browser) = Inr ''tok''"
  "br_fetch sample_browser w rq = (w, Inr \<lparr>rs_status = 200, rs_text =
     ParsedBody (JObj [(''challenge_id'', JStr ''c1''), (''options'', JObj [])])\<rparr>)"
  "cred_create sample_browser w opts = (w, Inr (Some sample_credential))"
  "cred_get sample_browser w opts m sig = (w, Inr (Some sample_credential))"
  "creationOptions sample_browser (Some j) = Inr j"
  "requestOptions sample_browser (Some j) = Inr j"
  by (simp_all add: sample_browser_def csrfToken_def creationOptions_def requestOptions_def)

definition sample_finish :: http_request where
  "sample_finish = make_request ''tok'' ''POST'' ''/f/'' (Some (JObj
     [(''challenge_id'', JStr ''c1''), (''credential'', credentialToJSON sample_credential)]))"

lemma sample_create: "create (recording sample_browser) ((), []) ''/b/'' ''/f/'' None None =
    (((), [make_request ''tok'' ''POST'' ''/b/'' (Some (JObj [])), sample_finish]),
     Inr (JObj [(''challenge_id'', JStr ''c1''), (''options'', JObj [])]))"
proof -
  have tok: "csrfToken (br_doc sample_browser) = Inr ''tok''" by simp
  show ?thesis
    by (simp add: create_def postJSON_def request_log [OF tok] finish_response_def resp_ok_def
        response_data_def opt_prop_def or_empty_def sample_finish_def)
qed

lemma ceremony_requests_carry_token_witness:
  "sample_finish \<in> set (snd (fst (create (recording sample_browser) ((), []) ''/b/'' ''/f/'' None None)))
   \<and> map_of (rq_headers sample_finish) ''X-CSRFToken'' = Some ''tok''"
proof -
  have tok: "csrfToken (br_doc sample_browser) = Inr ''tok''" by simp
  have rq: "sample_finish \<in> set (snd (fst (create (recording sample_browser) ((), []) ''/b/'' ''/f/'' None None)))
      \<union> set (snd (fst (assertion (recording sample_browser) ((), []) None None)))"
    by (simp add: sample_create)
  show ?thesis
    using ceremony_requests_carry_token [OF tok rq] by (simp add: sample_create)
qed

lemma create_request_order_witness:
  "\<exists>body. sample_finish = make_request ''tok'' ''POST'' ''/f/'' (Some (JObj body))
     \<and> map_of body ''challenge_id'' = Some (JStr ''c1'') \<and> map_of body ''credential'' = Some (credentialToJSON sample_credential)"
proof -
  have tok: "csrfToken (br_doc sample_browser) = Inr ''tok''" by simp
  have extra: "{''challenge_id'', ''credential''} \<inter> fst ` set (own_props (or_empty None)) = {}"
    by (simp add: or_empty_def)
  show ?thesis
    using create_request_order [OF tok sample_create extra]
    by (auto simp: finish_response_def resp_ok_def response_data_def)
qed

text \<open>
  Claim C39: the page shows the server's own words for a failed request: a \<open>detail\<close> text
  verbatim, else the first message of the first field of an error map, else the generic
  message when the body is empty or unparsable, while a 429 answer asks for the number of
  seconds nginx gave, or for patience when there is none.
\<close>

theorem server_error_message:
  assumes "\<not> resp_ok resp" and "finish_response resp = Inl e"
  shows "(rs_status resp \<noteq> 429 \<longrightarrow>
      (rs_text resp = ParsedBody (JObj kvs) \<longrightarrow>
        (map_of kvs ''detail'' = Some (JStr d) \<and> d \<noteq> [] \<longrightarrow> errorMessage t (Some e) = d) \<and>
        (map_of kvs ''detail'' = None \<and> kvs = (k, JArr (JStr m # ms)) # rest \<longrightarrow>
           errorMessage t (Some e) = m)) \<and>
      (rs_text resp = EmptyBody \<or> rs_text resp = UnparsableBody \<longrightarrow>
        errorMessage t (Some e) = signupGenericError t)) \<and>
    (rs_status resp = 429 \<longrightarrow>
      (rs_text resp = ParsedBody (JObj kvs) \<and> map_of kvs ''retry_after'' = Some (JNum n) \<and> n \<noteq> 0 \<and>
         split_at_first ''{seconds}'' (passkeyRateLimitedWait t) = Some (pre, post) \<longrightarrow>
         errorMessage t (Some e) = pre @ show_int n @ post) \<and>
      (rs_text resp = ParsedBody (JObj kvs) \<and> map_of kvs ''retry_after'' = None \<longrightarrow>
         errorMessage t (Some e) = passkeyRateLimited t))"
proof -
  have e: "e = \<lparr>err_name = ''Error'', err_status = Some (rs_status resp),
      err_data = Some (response_data resp)\<rparr>"
    using assms by (simp add: finish_response_def)
  have "CHR ''$'' \<notin> set (show_int n)"
    by (rule show_int_no_dollar)
  then show ?thesis
    by (auto simp: e errorMessage_def response_data_def js_replace_def expand_repl_plain)
qed

lemma server_error_message_witness:
  "errorMessage sample_texts (Some \<lparr>err_name = ''Error'', err_status = Some 400,
     err_data = Some (JObj [(''name'', JArr [JStr ''too long''])])\<rparr>) = ''too long''"
  using server_error_message [of "\<lparr>rs_status = 400, rs_text = ParsedBody (JObj [(''name'', JArr [JStr ''too long''])])\<rparr>"
     "\<lparr>err_name = ''Error'', err_status = Some 400, err_data = Some (JObj [(''name'', JArr [JStr ''too long''])])\<rparr>"
     "[(''name'', JArr [JStr ''too long''])]" "[]" sample_texts "''name''" "''too long''" "[]" "[]"]
  by (simp add: finish_response_def resp_ok_def response_data_def)

end
