(* ===== verification/PasskeyLogin.thy ===== *)
theory PasskeyLogin imports Main Prelude JsValue Passkey begin

text \<open>
  app/assets/passkey_login.js: the login page's passkey button and its autofill. The
  script's variables (\<open>generation\<close>, \<open>controller\<close>, \<open>timer\<close>), the page it writes to and the
  asynchronous work in flight (availability queries, timeouts, sign-in attempts) form the
  state; every callback of the script is one handler, and the browser decides the order in
  which callbacks run, so the page is a step relation over events. An attempt creates its
  own AbortController, whose number identifies the attempt.
\<close>

section \<open>State\<close>

datatype phase = BeginPending | GetPending | FinishPending

record attempt =
  at_signal :: nat
  at_click :: bool
  at_gen :: nat
  at_phase :: phase

record login =
  generation :: nat
  controller :: "nat option"
  timer :: "nat option"
  timeouts :: "nat list"
  aborted :: "nat set"
  button_disabled :: bool
  error_text :: string
  navigated :: "string option"
  queries :: "nat list"
  attempts :: "attempt list"
  next_id :: nat

section \<open>The script's functions\<close>

definition stopAutofill :: "login \<Rightarrow> login" where
  "stopAutofill s = s\<lparr>
     generation := Suc (generation s),
     timeouts := (case timer s of None \<Rightarrow> timeouts s | Some i \<Rightarrow> filter (\<lambda>j. j \<noteq> i) (timeouts s)),
     timer := None,
     aborted := (case controller s of None \<Rightarrow> aborted s | Some c \<Rightarrow> insert c (aborted s)),
     controller := None\<rparr>"

definition startAutofill :: "bool \<Rightarrow> login \<Rightarrow> login" where
  "startAutofill hasConditional s =
     (if \<not> hasConditional then s else s\<lparr>queries := queries s @ [generation s]\<rparr>)"

text \<open>The continuation of \<open>isConditionalMediationAvailable()\<close> in \<open>startAutofill\<close>.\<close>

definition on_available :: "nat \<Rightarrow> bool \<Rightarrow> login \<Rightarrow> login" where
  "on_available gen available s0 =
     (let s = s0\<lparr>queries := remove1 gen (queries s0)\<rparr> in
      if gen \<noteq> generation s \<or> \<not> available then s
      else s\<lparr>controller := Some (next_id s),
             timer := Some (Suc (next_id s)),
             timeouts := Suc (next_id s) # timeouts s,
             attempts := \<lparr>at_signal = next_id s, at_click = False, at_gen = gen,
                          at_phase = BeginPending\<rparr> # attempts s,
             next_id := Suc (Suc (next_id s))\<rparr>)"

definition on_timeout :: "bool \<Rightarrow> nat \<Rightarrow> login \<Rightarrow> login" where
  "on_timeout hasConditional i s =
     startAutofill hasConditional (stopAutofill (s\<lparr>timeouts := filter (\<lambda>j. j \<noteq> i) (timeouts s)\<rparr>))"

definition on_click :: "login \<Rightarrow> login" where
  "on_click s0 =
     (let s = stopAutofill s0 in
      s\<lparr>error_text := [],
        button_disabled := True,
        controller := Some (next_id s),
        attempts := \<lparr>at_signal = next_id s, at_click = True, at_gen = generation s,
                     at_phase = BeginPending\<rparr> # attempts s,
        next_id := Suc (next_id s)\<rparr>)"

definition set_phase :: "nat \<Rightarrow> phase \<Rightarrow> login \<Rightarrow> login" where
  "set_phase i p s =
     s\<lparr>attempts := map (\<lambda>a. if at_signal a = i then a\<lparr>at_phase := p\<rparr> else a) (attempts s)\<rparr>"

definition settle :: "nat \<Rightarrow> login \<Rightarrow> login" where
  "settle i s = s\<lparr>attempts := filter (\<lambda>a. at_signal a \<noteq> i) (attempts s)\<rparr>"

text \<open>The \<open>catch\<close> handlers of an autofill attempt and of a click attempt.\<close>

definition on_reject :: "i18n \<Rightarrow> bool \<Rightarrow> attempt \<Rightarrow> js_err \<Rightarrow> login \<Rightarrow> login" where
  "on_reject t hasConditional a err s0 =
     (let s = settle (at_signal a) s0; mine_aborted = (at_signal a \<in> aborted s) in
      if \<not> at_click a then
        (if at_gen a \<noteq> generation s \<or> mine_aborted then s
         else s\<lparr>error_text := errorMessage t (Some err)\<rparr>)
      else
        (if at_gen a \<noteq> generation s then s
         else startAutofill hasConditional
                (s\<lparr>button_disabled := False,
                   error_text := (if mine_aborted then error_text s else errorMessage t (Some err))\<rparr>)))"

text \<open>The body \<open>finish\<close> posts, and its \<open>then\<close> handler.\<close>

definition finish_body :: "json \<Rightarrow> string option \<Rightarrow> json" where
  "finish_body result nextInput = JObj
     (opt_prop ''challenge_id'' (js_get result ''challenge_id'') @
      opt_prop ''credential'' (js_get result ''credential'') @
      [(''next'', JStr (case nextInput of None \<Rightarrow> [] | Some v \<Rightarrow> v))])"

definition on_finish :: "nat \<Rightarrow> string \<Rightarrow> login \<Rightarrow> login" where
  "on_finish i redirect s = (settle i s)\<lparr>navigated := Some redirect\<rparr>"

definition blank_page :: login where
  "blank_page = \<lparr>generation = 0, controller = None, timer = None, timeouts = [], aborted = {},
     button_disabled = False, error_text = [], navigated = None, queries = [], attempts = [],
     next_id = 0\<rparr>"

text \<open>Without the box, the helper or WebAuthn support the script returns at once.\<close>

definition login_script :: "bool \<Rightarrow> bool \<Rightarrow> bool \<Rightarrow> login option" where
  "login_script hasBox passkeySupported hasConditional =
     (if \<not> hasBox \<or> \<not> passkeySupported then None
      else Some (startAutofill hasConditional blank_page))"

section \<open>Events and runs\<close>

datatype event =
    Available nat bool
  | TimeoutFires nat
  | Click
  | BeginOk nat
  | GetOk nat
  | FinishOk nat string
  | Rejected nat js_err

inductive login_step :: "i18n \<Rightarrow> bool \<Rightarrow> login \<Rightarrow> event \<Rightarrow> login \<Rightarrow> bool" for t hc where
  available: "g \<in> set (queries s) \<Longrightarrow> login_step t hc s (Available g b) (on_available g b s)"
| timeout: "i \<in> set (timeouts s) \<Longrightarrow> login_step t hc s (TimeoutFires i) (on_timeout hc i s)"
| click: "login_step t hc s Click (on_click s)"
| begin_ok: "a \<in> set (attempts s) \<Longrightarrow> at_phase a = BeginPending \<Longrightarrow> i = at_signal a \<Longrightarrow>
     login_step t hc s (BeginOk i) (set_phase i GetPending s)"
| get_ok: "a \<in> set (attempts s) \<Longrightarrow> at_phase a = GetPending \<Longrightarrow> i = at_signal a \<Longrightarrow>
     login_step t hc s (GetOk i) (set_phase i FinishPending s)"
| finish_ok: "a \<in> set (attempts s) \<Longrightarrow> at_phase a = FinishPending \<Longrightarrow> i = at_signal a \<Longrightarrow>
     login_step t hc s (FinishOk i r) (on_finish i r s)"
| rejected: "a \<in> set (attempts s) \<Longrightarrow> i = at_signal a \<Longrightarrow>
     login_step t hc s (Rejected i err) (on_reject t hc a err s)"

inductive_cases timeout_step: "login_step t hc s (TimeoutFires i) s'"
inductive_cases rejected_step: "login_step t hc s (Rejected i err) s'"

inductive login_run :: "i18n \<Rightarrow> bool \<Rightarrow> login \<Rightarrow> login \<Rightarrow> bool" for t hc where
  run_refl: "login_run t hc s s"
| run_step: "login_run t hc s u \<Longrightarrow> login_step t hc u e v \<Longrightarrow> login_run t hc s v"

definition reachable_login :: "i18n \<Rightarrow> bool \<Rightarrow> login \<Rightarrow> bool" where
  "reachable_login t hc s = (\<exists>s0. login_script True True hc = Some s0 \<and> login_run t hc s0 s)"

lemmas login_defs = stopAutofill_def startAutofill_def on_available_def on_timeout_def on_click_def
  set_phase_def settle_def on_reject_def on_finish_def Let_def

section \<open>The invariant\<close>

text \<open>An outstanding request: its promise chain has not reached \<open>finish\<close> and it was not aborted.\<close>

definition live :: "login \<Rightarrow> attempt \<Rightarrow> bool" where
  "live s a = (a \<in> set (attempts s) \<and> at_phase a \<noteq> FinishPending \<and> at_signal a \<notin> aborted s)"

definition ids_inv :: "login \<Rightarrow> bool" where
  "ids_inv s \<longleftrightarrow> distinct (map at_signal (attempts s)) \<and>
     (\<forall>a\<in>set (attempts s). at_signal a < next_id s) \<and> (\<forall>c\<in>aborted s. c < next_id s) \<and>
     (\<forall>c. controller s = Some c \<longrightarrow> c < next_id s)"

definition gen_inv :: "login \<Rightarrow> bool" where
  "gen_inv s \<longleftrightarrow>
     (\<forall>a\<in>set (attempts s). at_gen a \<le> generation s \<and>
        (at_gen a < generation s \<longrightarrow> at_signal a \<in> aborted s) \<and>
        (at_gen a = generation s \<longrightarrow> controller s = Some (at_signal a) \<and> at_signal a \<notin> aborted s)) \<and>
     (\<forall>g\<in>set (queries s). g \<le> generation s) \<and>
     (\<forall>c. controller s = Some c \<longrightarrow> c \<notin> aborted s)"

definition query_inv :: "login \<Rightarrow> bool" where
  "query_inv s \<longleftrightarrow>
     count_list (queries s) (generation s) \<le> 1 \<and>
     (generation s \<in> set (queries s) \<longrightarrow>
        (\<forall>a\<in>set (attempts s). at_gen a \<noteq> generation s) \<and> timer s = None) \<and>
     (\<forall>a\<in>set (attempts s). at_gen a = generation s \<and> at_click a \<longrightarrow>
        timer s = None \<and> generation s \<notin> set (queries s)) \<and>
     timeouts s = (case timer s of None \<Rightarrow> [] | Some i \<Rightarrow> [i])"

definition button_inv :: "login \<Rightarrow> bool" where
  "button_inv s \<longleftrightarrow> (button_disabled s \<longrightarrow> navigated s \<noteq> None \<or>
     (\<exists>a\<in>set (attempts s). at_click a \<and> at_gen a = generation s))"

definition login_inv :: "login \<Rightarrow> bool" where
  "login_inv s \<longleftrightarrow> ids_inv s \<and> gen_inv s \<and> query_inv s \<and> button_inv s"

lemmas inv_defs = login_inv_def ids_inv_def gen_inv_def query_inv_def button_inv_def

lemma stop_facts:
  assumes "login_inv s"
  shows "generation (stopAutofill s) = Suc (generation s)" "attempts (stopAutofill s) = attempts s"
    "queries (stopAutofill s) = queries s" "timer (stopAutofill s) = None"
    "timeouts (stopAutofill s) = []" "next_id (stopAutofill s) = next_id s"
    "controller (stopAutofill s) = None" "navigated (stopAutofill s) = navigated s"
    "\<forall>a\<in>set (attempts s). at_signal a \<in> aborted (stopAutofill s) \<and> at_gen a < Suc (generation s)"
    "\<forall>c\<in>aborted (stopAutofill s). c < next_id s"
proof -
  have q: "timeouts s = (case timer s of None \<Rightarrow> [] | Some i \<Rightarrow> [i])"
    using assms by (simp add: inv_defs)
  then show "timeouts (stopAutofill s) = []"
    by (auto simp: stopAutofill_def split: option.splits)
  have g: "\<forall>a\<in>set (attempts s). at_gen a \<le> generation s \<and>
        (at_gen a < generation s \<longrightarrow> at_signal a \<in> aborted s) \<and>
        (at_gen a = generation s \<longrightarrow> controller s = Some (at_signal a))"
    using assms by (simp add: inv_defs)
  show "\<forall>a\<in>set (attempts s). at_signal a \<in> aborted (stopAutofill s) \<and> at_gen a < Suc (generation s)"
  proof
    fix a assume "a \<in> set (attempts s)"
    with g have "at_gen a \<le> generation s" "at_gen a < generation s \<longrightarrow> at_signal a \<in> aborted s"
      "at_gen a = generation s \<longrightarrow> controller s = Some (at_signal a)" by blast+
    then show "at_signal a \<in> aborted (stopAutofill s) \<and> at_gen a < Suc (generation s)"
      by (cases "at_gen a = generation s") (auto simp: stopAutofill_def split: option.split)
  qed
  show "\<forall>c\<in>aborted (stopAutofill s). c < next_id s"
    using assms by (auto simp: inv_defs stopAutofill_def split: option.splits)
qed (simp_all add: stopAutofill_def)

lemma count_zero: "\<forall>x\<in>set xs. x < n \<Longrightarrow> count_list xs (n::nat) = 0"
  by (induction xs) auto

lemma inv_timeout:
  assumes "login_inv s" and "i \<in> set (timeouts s)"
  shows "login_inv (on_timeout hc i s)"
proof -
  define u where "u = s\<lparr>timeouts := filter (\<lambda>j. j \<noteq> i) (timeouts s)\<rparr>"
  have ti: "timer s = Some i" "timeouts u = []"
    using assms by (auto simp: inv_defs u_def split: option.splits)
  have noclick: "\<forall>a\<in>set (attempts s). \<not> (at_click a \<and> at_gen a = generation s)"
    using assms(1) ti by (auto simp: inv_defs)
  have nav: "button_disabled s \<longrightarrow> navigated s \<noteq> None"
    using assms(1) noclick by (auto simp: inv_defs)
  have st: "attempts (stopAutofill u) = attempts s" "queries (stopAutofill u) = queries s"
    "generation (stopAutofill u) = Suc (generation s)" "timer (stopAutofill u) = None"
    "timeouts (stopAutofill u) = []" "next_id (stopAutofill u) = next_id s"
    "controller (stopAutofill u) = None" "navigated (stopAutofill u) = navigated s"
    "button_disabled (stopAutofill u) = button_disabled s"
    "aborted (stopAutofill u) = aborted (stopAutofill s)"
    using ti by (simp_all add: stopAutofill_def u_def split: option.split)
  note f = stop_facts [OF assms(1)]
  have qs: "\<forall>g\<in>set (queries s). g < Suc (generation s)"
    using assms(1) by (auto simp: inv_defs less_Suc_eq_le)
  have "login_inv (startAutofill hc (stopAutofill u))"
    unfolding inv_defs startAutofill_def
    using assms(1) f(9,10) qs count_zero [OF qs] nav
    by (auto simp: st inv_defs less_Suc_eq_le)
  then show ?thesis by (simp add: on_timeout_def u_def)
qed

lemma inv_click:
  assumes "login_inv s"
  shows "login_inv (on_click s)"
proof -
  note f = stop_facts [OF assms]
  have qs: "\<forall>g\<in>set (queries s). g < Suc (generation s)"
    using assms by (auto simp: inv_defs less_Suc_eq_le)
  have ids: "distinct (map at_signal (attempts s))" "\<forall>a\<in>set (attempts s). at_signal a < next_id s"
    using assms by (auto simp: inv_defs)
  have less: "\<forall>a\<in>set (attempts s). at_signal a < Suc (next_id s)"
    "\<forall>c\<in>aborted (stopAutofill s). c < Suc (next_id s)"
    using ids f(10) by (auto simp: less_Suc_eq)
  have lt: "\<forall>a\<in>set (attempts s). at_gen a \<le> Suc (generation s) \<and> at_gen a \<noteq> Suc (generation s)
      \<and> at_signal a \<in> aborted (stopAutofill s)"
    using f(9) by auto
  have nf: "next_id s \<notin> at_signal ` set (attempts s)" "next_id s \<notin> aborted (stopAutofill s)"
    using ids f(10) by auto
  show ?thesis
    unfolding inv_defs on_click_def Let_def
    using ids lt nf qs count_zero [OF qs] less
    by (auto simp: f)
qed

lemma count_remove1: "count_list (remove1 g xs) n = count_list xs n - (if g = n then 1 else 0)"
  by (induction xs) (auto simp: count_list_0_iff)

lemma notin_remove1_count: "count_list xs g \<le> 1 \<Longrightarrow> g \<notin> set (remove1 g xs)"
  using count_remove1 [of g xs g] by (simp flip: count_list_0_iff)

lemma inv_available:
  assumes "login_inv s" and "g \<in> set (queries s)"
  shows "login_inv (on_available g b s)"
proof (cases "g = generation s \<and> b")
  case False
  then have e: "on_available g b s = s\<lparr>queries := remove1 g (queries s)\<rparr>"
    by (auto simp: on_available_def Let_def)
  show ?thesis
    unfolding e using assms(1) set_remove1_subset [of g "queries s"]
    by (auto simp: inv_defs count_remove1)
next
  case True
  then have g: "g = generation s" by simp
  have tm: "timer s = None" "timeouts s = []"
    and at: "\<forall>a\<in>set (attempts s). at_gen a < generation s \<and> at_signal a \<in> aborted s"
    using assms by (auto simp: inv_defs g le_less)
  have nq: "generation s \<notin> set (remove1 g (queries s))"
    using assms(1) by (auto simp: inv_defs g intro!: notin_remove1_count)
  have fr: "next_id s \<notin> at_signal ` set (attempts s)" "next_id s \<notin> aborted s"
    using assms(1) by (auto simp: inv_defs)
  have e: "on_available g b s = s\<lparr>queries := remove1 g (queries s), controller := Some (next_id s),
      timer := Some (Suc (next_id s)), timeouts := [Suc (next_id s)],
      attempts := \<lparr>at_signal = next_id s, at_click = False, at_gen = generation s,
                    at_phase = BeginPending\<rparr> # attempts s,
      next_id := Suc (Suc (next_id s))\<rparr>"
    using True tm by (simp add: on_available_def Let_def)
  have i: "ids_inv (on_available g b s)"
    using assms(1) fr unfolding e by (force simp: inv_defs)
  moreover have "gen_inv (on_available g b s)"
    using assms(1) fr at set_remove1_subset [of g "queries s"] unfolding e by (auto simp: inv_defs)
  moreover have "query_inv (on_available g b s)"
    using at nq unfolding e by (auto simp: query_inv_def simp flip: count_list_0_iff)
  moreover have "button_inv (on_available g b s)"
    using assms(1) unfolding e by (auto simp: inv_defs)
  ultimately show ?thesis by (simp add: login_inv_def)
qed

lemma set_phase_fields [simp]:
  "at_signal (if c then a\<lparr>at_phase := p\<rparr> else a) = at_signal a"
  "at_gen (if c then a\<lparr>at_phase := p\<rparr> else a) = at_gen a"
  "at_click (if c then a\<lparr>at_phase := p\<rparr> else a) = at_click a"
  by simp_all

lemma inv_set_phase: "login_inv s \<Longrightarrow> login_inv (set_phase i p s)"
proof -
  assume a: "login_inv s"
  have m: "map at_signal (map (\<lambda>a. if at_signal a = i then a\<lparr>at_phase := p\<rparr> else a) xs) = map at_signal xs" for xs
    by (induction xs) auto
  have i: "ids_inv s" "gen_inv s" "query_inv s" "button_inv s"
    using a by (simp_all add: login_inv_def)
  have "ids_inv (set_phase i p s)"
    using i(1) unfolding ids_inv_def set_phase_def by (auto simp: m simp del: map_map)
  moreover have "gen_inv (set_phase i p s)"
    using i(2) by (auto simp: gen_inv_def set_phase_def)
  moreover have "query_inv (set_phase i p s)"
    using i(3) by (auto simp: query_inv_def set_phase_def)
  moreover have "button_inv (set_phase i p s)"
  proof -
    have "\<exists>b\<in>set (attempts (set_phase i p s)). at_click b \<and> at_gen b = generation s"
      if "a \<in> set (attempts s)" "at_click a" "at_gen a = generation s" for a
      using that
      by (intro bexI [of _ "if at_signal a = i then a\<lparr>at_phase := p\<rparr> else a"])
         (auto simp: set_phase_def)
    then show ?thesis using i(4) by (auto simp: button_inv_def set_phase_def)
  qed
  ultimately show ?thesis by (simp add: login_inv_def)
qed

lemma inv_finish: "login_inv s \<Longrightarrow> login_inv (on_finish i r s)"
  by (auto simp: inv_defs on_finish_def settle_def distinct_map_filter)

lemma inv_reject:
  assumes "login_inv s" and "a \<in> set (attempts s)"
  shows "login_inv (on_reject t hc a err s)"
proof -
  define u where "u = settle (at_signal a) s"
  have base: "ids_inv u" "gen_inv u" "query_inv u"
    using assms(1) by (auto simp: inv_defs u_def settle_def distinct_map_filter)
  have ctrl: "\<forall>b\<in>set (attempts s). at_gen b = generation s \<longrightarrow> controller s = Some (at_signal b)"
    using assms(1) by (simp add: inv_defs)
  have at: "at_gen a = generation s \<Longrightarrow> \<forall>b\<in>set (attempts u). at_gen b \<noteq> generation s"
    using bspec [OF ctrl assms(2)] ctrl by (force simp: u_def settle_def)
  have keep: "at_gen a \<noteq> generation s \<or> \<not> at_click a \<Longrightarrow> button_inv u"
  proof -
    assume k: "at_gen a \<noteq> generation s \<or> \<not> at_click a"
    have "b \<in> set (attempts u)" if "b \<in> set (attempts s)" "at_click b" "at_gen b = generation s" for b
    proof -
      have "at_signal b \<noteq> at_signal a"
      proof
        assume "at_signal b = at_signal a"
        moreover have "inj_on at_signal (set (attempts s))"
          using assms(1) by (simp add: login_inv_def ids_inv_def distinct_map)
        ultimately have "b = a" using that(1) assms(2) by (simp add: inj_on_def)
        then show False using k that by simp
      qed
      then show ?thesis using that by (simp add: u_def settle_def)
    qed
    then show "button_inv u"
      using assms(1) by (auto simp: inv_defs u_def settle_def)
  qed
  have gu: "generation u = generation s" "timer u = timer s" "queries u = queries s" by (simp_all add: u_def settle_def)
  have off: "at_gen a = generation s \<Longrightarrow> at_click a \<Longrightarrow> timer s = None \<and> generation s \<notin> set (queries s)"
    using assms by (auto simp: inv_defs)
  have e: "login_inv (u\<lparr>error_text := m\<rparr>) = login_inv u" for m by (simp add: inv_defs)
  consider (stale) "at_gen a \<noteq> generation s \<or> \<not> at_click a" | (current) "at_gen a = generation s" "at_click a"
    by blast
  then show ?thesis
  proof cases
    case stale
    then have "login_inv u" using base keep by (simp add: login_inv_def)
    then show ?thesis
      using stale e by (simp add: on_reject_def Let_def flip: u_def) (simp add: gu)
  next
    case current
    have "login_inv (startAutofill hc (u\<lparr>button_disabled := False, error_text := m\<rparr>))" for m
      using base at [OF current(1)] off [OF current]
      by (auto simp: inv_defs startAutofill_def gu count_list_0_iff)
    then show ?thesis using current by (simp add: on_reject_def Let_def gu flip: u_def)
  qed
qed

lemma inv_step: "login_step t hc s e s' \<Longrightarrow> login_inv s \<Longrightarrow> login_inv s'"
  by (induction rule: login_step.induct)
     (auto intro: inv_available inv_timeout inv_click inv_set_phase inv_finish inv_reject)

lemma inv_run: "login_run t hc s s' \<Longrightarrow> login_inv s \<Longrightarrow> login_inv s'"
  by (induction rule: login_run.induct) (auto intro: inv_step)

lemma reachable_inv: "reachable_login t hc s \<Longrightarrow> login_inv s"
  unfolding reachable_login_def login_script_def
  by (auto elim!: inv_run split: if_splits)
     (auto simp: inv_defs blank_page_def startAutofill_def)

lemma run_mono: "login_run t hc s s' \<Longrightarrow> generation s \<le> generation s'"
  by (induction rule: login_run.induct)
     (auto simp: login_defs elim!: login_step.cases split: if_splits)

section \<open>Properties\<close>

text \<open>
  Claim C2: in every state the login page can reach, whatever the order of clicks,
  timeouts, answers and failures, at most one sign-in request is outstanding and not
  aborted: starting an attempt always aborts the one before it, and the controller the
  script keeps is the one of the outstanding attempt.
\<close>

theorem one_live_request:
  assumes "reachable_login t hc s" and "live s a" and "live s b"
  shows "a = b \<and> controller s = Some (at_signal a)"
proof -
  have i: "login_inv s" using assms(1) by (rule reachable_inv)
  have "controller s = Some (at_signal a)" "controller s = Some (at_signal b)"
    using i assms(2,3) by (auto simp: inv_defs live_def le_less)
  moreover have "inj_on at_signal (set (attempts s))"
    using i by (simp add: login_inv_def ids_inv_def distinct_map)
  ultimately show ?thesis using assms(2,3) by (auto simp: live_def inj_on_def)
qed

text \<open>
  Claim C3: an attempt that a click or the periodic refresh has superseded is silent:
  whenever it fails later, in any state a run leads to, its handler changes nothing on the
  page or in the script's variables.
\<close>

theorem superseded_attempt_is_silent:
  assumes "reachable_login t hc s" and "a \<in> set (attempts s)"
    and "login_step t hc s e s1" and "e = Click \<or> e = TimeoutFires i"
    and "login_run t hc s1 s2"
  shows "on_reject t hc a err s2 = settle (at_signal a) s2"
proof -
  have "at_gen a \<le> generation s"
    using reachable_inv [OF assms(1)] assms(2) by (auto simp: inv_defs)
  moreover have "generation s1 = Suc (generation s)"
    using assms(3,4) by (auto simp: login_defs elim: login_step.cases)
  ultimately have "at_gen a \<noteq> generation s2"
    using run_mono [OF assms(5)] by linarith
  then show ?thesis by (simp add: on_reject_def Let_def settle_def)
qed

text \<open>
  Claim C29: the sign-in button never stays disabled for nothing: in every reachable state
  with a disabled button the page is being left, or the click attempt of the current
  generation is still in flight, and the failure of that attempt enables the button again,
  reports the error unless the script itself aborted it, and restarts autofill.
\<close>

theorem disabled_button_is_released:
  assumes "reachable_login t hc s" and "button_disabled s" and "navigated s = None"
  shows "\<exists>a\<in>set (attempts s). at_click a \<and> at_gen a = generation s \<and>
    (\<forall>err. login_step t hc s (Rejected (at_signal a) err) (on_reject t hc a err s) \<and>
       \<not> button_disabled (on_reject t hc a err s) \<and>
       error_text (on_reject t hc a err s) = errorMessage t (Some err) \<and>
       (hc \<longrightarrow> generation s \<in> set (queries (on_reject t hc a err s))))"
proof -
  have i: "login_inv s" using assms(1) by (rule reachable_inv)
  then obtain a where a: "a \<in> set (attempts s)" "at_click a" "at_gen a = generation s"
    using assms(2,3) by (auto simp: inv_defs)
  have "at_signal a \<notin> aborted s" using i a by (auto simp: inv_defs)
  then have "\<not> button_disabled (on_reject t hc a err s) \<and>
       error_text (on_reject t hc a err s) = errorMessage t (Some err) \<and>
       (hc \<longrightarrow> generation s \<in> set (queries (on_reject t hc a err s)))" for err
    using a by (simp add: on_reject_def Let_def settle_def startAutofill_def)
  then show ?thesis using a by (auto intro: login_step.rejected)
qed

text \<open>
  The script never loses a timeout: in every reachable state the armed timeouts
  are exactly the one that \<open>timer\<close> holds, so \<open>stopAutofill\<close> always leaves none behind, and
  no timeout is armed while a click attempt of the current generation is in flight.
\<close>

theorem timer_is_only_timeout:
  assumes "reachable_login t hc s"
  shows "timeouts s = (case timer s of None \<Rightarrow> [] | Some i \<Rightarrow> [i])
    \<and> timeouts (stopAutofill s) = []
    \<and> (\<forall>a\<in>set (attempts s). at_click a \<and> at_gen a = generation s \<longrightarrow> timeouts s = [])"
  using reachable_inv [OF assms] stop_facts(5) [OF reachable_inv [OF assms]] by (auto simp: inv_defs)

section \<open>A sample run\<close>

text \<open>The page is opened and the button is clicked before the availability query answers.\<close>

definition clicked_page :: login where
  "clicked_page = on_click (startAutofill True blank_page)"

lemma clicked_page_simps [simp]:
  "attempts clicked_page = [\<lparr>at_signal = 0, at_click = True, at_gen = 1, at_phase = BeginPending\<rparr>]"
  "aborted clicked_page = {}" "controller clicked_page = Some 0" "button_disabled clicked_page"
  "navigated clicked_page = None" "generation clicked_page = 1" "timer clicked_page = None"
  by (simp_all add: clicked_page_def on_click_def blank_page_def login_defs)

lemma reachable_clicked: "reachable_login t True clicked_page"
  unfolding reachable_login_def login_script_def clicked_page_def
  by (auto intro: run_step [OF run_refl login_step.click])

lemma one_live_request_witness:
  "controller clicked_page = Some (at_signal (attempts clicked_page ! 0))"
proof -
  have l: "live clicked_page (attempts clicked_page ! 0)" by (simp add: live_def)
  show ?thesis using one_live_request [OF reachable_clicked l l] by simp
qed

lemma superseded_attempt_is_silent_witness:
  "\<forall>t. on_reject t True (attempts clicked_page ! 0) (exn ''AbortError'') (on_click clicked_page)
     = settle 0 (on_click clicked_page)"
proof
  fix t
  have m: "attempts clicked_page ! 0 \<in> set (attempts clicked_page)" by simp
  have c: "login_step t True clicked_page Click (on_click clicked_page)" by (rule login_step.click)
  have e: "Click = Click \<or> Click = TimeoutFires 0" by simp
  show "on_reject t True (attempts clicked_page ! 0) (exn ''AbortError'') (on_click clicked_page)
     = settle 0 (on_click clicked_page)"
    using superseded_attempt_is_silent [OF reachable_clicked m c e run_refl, of "exn ''AbortError''"]
    by simp
qed

lemma disabled_button_is_released_witness:
  "\<forall>t. \<not> button_disabled (on_reject t True (attempts clicked_page ! 0) (exn ''NotAllowedError'') clicked_page)"
proof
  fix t
  show "\<not> button_disabled (on_reject t True (attempts clicked_page ! 0) (exn ''NotAllowedError'') clicked_page)"
    using disabled_button_is_released [OF reachable_clicked [of t]] by simp
qed

lemma timer_is_only_timeout_witness: "timeouts clicked_page = [] \<and> timer clicked_page = None"
  using timer_is_only_timeout [OF reachable_clicked] by simp

end
