(* ===== verification/SingleFlight.thy ===== *)
theory SingleFlight imports Main Prelude begin

text \<open>
  The contract that the recovery, signup and security pages share: one asynchronous action
  at a time, a generation counter bumped by every accepted submission, and continuations
  that compare the generation they captured with the current one. The locale states the
  contract once, with its consequences for any sequence of submissions, settlements and
  unrelated events; each page interprets it on its own handlers.
\<close>

datatype ('i, 'r, 'o) page_event = Submit 'i | Settle nat 'r | Other 'o

text \<open>
  One event of a page: a continuation can only run for an action that is in flight.
\<close>

fun page_step ::
  "('i \<Rightarrow> 's \<Rightarrow> 's) \<Rightarrow> (nat \<Rightarrow> 'r \<Rightarrow> 's \<Rightarrow> 's) \<Rightarrow> ('o \<Rightarrow> 's \<Rightarrow> 's) \<Rightarrow> ('s \<Rightarrow> nat list) \<Rightarrow>
   ('i, 'r, 'o) page_event \<Rightarrow> 's \<Rightarrow> 's" where
  "page_step submit settle other inflight (Submit i) s = submit i s"
| "page_step submit settle other inflight (Settle g r) s =
     (if g \<in> set (inflight s) then settle g r s else s)"
| "page_step submit settle other inflight (Other x) s = other x s"

locale single_flight =
  fixes busy :: "'s \<Rightarrow> bool" and gen :: "'s \<Rightarrow> nat" and inflight :: "'s \<Rightarrow> nat list"
    and leaving :: "'s \<Rightarrow> bool"
    and submit :: "'i \<Rightarrow> 's \<Rightarrow> 's" and settle :: "nat \<Rightarrow> 'r \<Rightarrow> 's \<Rightarrow> 's" and other :: "'o \<Rightarrow> 's \<Rightarrow> 's"
  assumes submit_busy: "busy s \<Longrightarrow> submit i s = s"
    and submit_idle: "\<not> busy s \<Longrightarrow> busy (submit i s) \<and> gen (submit i s) = Suc (gen s) \<and>
      inflight (submit i s) = Suc (gen s) # inflight s"
    and settle_gen: "gen (settle g r s) = gen s"
    and settle_inflight: "inflight (settle g r s) = remove1 g (inflight s)"
    and settle_busy: "busy (settle g r s) \<Longrightarrow> busy s"
    and settle_release: "g = gen s \<Longrightarrow> busy (settle g r s) \<Longrightarrow> leaving (settle g r s)"
    and settle_leaving: "leaving s \<Longrightarrow> leaving (settle g r s)"
    and other_frame: "busy (other x s) = busy s \<and> gen (other x s) = gen s \<and>
      inflight (other x s) = inflight s \<and> leaving (other x s) = leaving s"
begin

definition sf_inv :: "'s \<Rightarrow> bool" where
  "sf_inv s \<longleftrightarrow> (inflight s = [] \<or> inflight s = [gen s] \<and> busy s) \<and>
     (busy s \<longrightarrow> inflight s \<noteq> [] \<or> leaving s)"

lemma sf_submit: "sf_inv s \<Longrightarrow> sf_inv (submit i s)"
proof (cases "busy s")
  case True
  then show "sf_inv s \<Longrightarrow> sf_inv (submit i s)" by (simp add: submit_busy)
next
  case False
  then show "sf_inv s \<Longrightarrow> sf_inv (submit i s)"
    using submit_idle [OF False, of i] by (auto simp: sf_inv_def)
qed

lemma sf_settle: "sf_inv s \<Longrightarrow> g \<in> set (inflight s) \<Longrightarrow> sf_inv (settle g r s)"
proof -
  assume a: "sf_inv s" and g: "g \<in> set (inflight s)"
  then have e: "inflight s = [gen s]" "g = gen s" by (auto simp: sf_inv_def)
  then have "inflight (settle g r s) = []" by (simp add: settle_inflight)
  then show ?thesis using settle_release [OF e(2)] by (auto simp: sf_inv_def)
qed

lemma sf_other: "sf_inv s \<Longrightarrow> sf_inv (other x s)"
  using other_frame [of x s] by (simp add: sf_inv_def)

lemma sf_step: "sf_inv s \<Longrightarrow> sf_inv (page_step submit settle other inflight e s)"
  by (cases e) (auto simp: sf_submit sf_settle sf_other)

lemma sf_run: "sf_inv s \<Longrightarrow> sf_inv (fold (page_step submit settle other inflight) es s)"
  by (induction es arbitrary: s) (auto simp: sf_step)

text \<open>At most one action is in flight, its generation is the current one, and the page is busy.\<close>

lemma at_most_one: "sf_inv s \<Longrightarrow> length (inflight s) \<le> 1"
  by (auto simp: sf_inv_def)

lemma current_only: "sf_inv s \<Longrightarrow> g \<in> set (inflight s) \<Longrightarrow> g = gen s \<and> busy s"
  by (auto simp: sf_inv_def)

lemma busy_for_a_reason: "sf_inv s \<Longrightarrow> busy s \<Longrightarrow> inflight s = [gen s] \<or> leaving s"
  by (auto simp: sf_inv_def)

text \<open>Two submissions in a row are one.\<close>

lemma double_submit: "submit j (submit i s) = submit i s"
  using submit_idle submit_busy by (cases "busy s") auto

end

end
