(* ===== verification/JsSort.thy ===== *)
theory JsSort imports Main Prelude "HOL-Library.Multiset" begin

text \<open>
  \<open>Array.prototype.sort\<close> with a comparator, as the pages use it for passkeys and AngularJS for the rows
  of a table. The engine's algorithm is stable; where the comparator is consistent on the elements the
  result does not depend on the algorithm.
\<close>

section \<open>Sorting with a comparator\<close>

fun js_insert :: "('a \<Rightarrow> 'a \<Rightarrow> int) \<Rightarrow> 'a \<Rightarrow> 'a list \<Rightarrow> 'a list" where
  "js_insert cmp x [] = [x]"
| "js_insert cmp x (y # ys) = (if cmp x y \<le> 0 then x # y # ys else y # js_insert cmp x ys)"

definition js_sort :: "('a \<Rightarrow> 'a \<Rightarrow> int) \<Rightarrow> 'a list \<Rightarrow> 'a list" where
  "js_sort cmp xs = foldr (js_insert cmp) xs []"

lemma js_sort_simps [simp]: "js_sort cmp [] = []" "js_sort cmp (x # xs) = js_insert cmp x (js_sort cmp xs)"
  by (simp_all add: js_sort_def)

lemma js_insert_key:
  "(\<And>a b. cmp a b \<le> 0 \<longleftrightarrow> f a \<le> f b) \<Longrightarrow> js_insert cmp x xs = insort_key f x xs"
  for f :: "'a \<Rightarrow> 'b::linorder"
  by (induction xs) auto

lemma js_sort_key:
  "(\<And>a b. cmp a b \<le> 0 \<longleftrightarrow> f a \<le> f b) \<Longrightarrow> js_sort cmp xs = sort_key f xs"
  for f :: "'a \<Rightarrow> 'b::linorder"
  unfolding js_sort_def sort_key_def by (induction xs) (auto simp: js_insert_key)

lemma mset_js_insert [simp]: "mset (js_insert cmp x xs) = add_mset x (mset xs)"
  by (induction xs) auto

lemma mset_js_sort [simp]: "mset (js_sort cmp xs) = mset xs"
  by (induction xs) simp_all

lemma set_js_sort [simp]: "set (js_sort cmp xs) = set xs"
  by (metis mset_js_sort set_mset_mset)

section \<open>Consistent comparators\<close>

text \<open>
  The contract of a comparator on a set of values: it is antisymmetric in sign, and not being greater is
  transitive. Comparators may be combined, one after the other and with a direction.
\<close>

locale comparator =
  fixes cmp :: "'a \<Rightarrow> 'a \<Rightarrow> int" and A :: "'a set"
  assumes sign: "a \<in> A \<Longrightarrow> b \<in> A \<Longrightarrow> cmp a b \<le> 0 \<longleftrightarrow> 0 \<le> cmp b a"
    and trans: "a \<in> A \<Longrightarrow> b \<in> A \<Longrightarrow> c \<in> A \<Longrightarrow> cmp a b \<le> 0 \<Longrightarrow> cmp b c \<le> 0 \<Longrightarrow> cmp a c \<le> 0"
begin

lemma equal_sym: "a \<in> A \<Longrightarrow> b \<in> A \<Longrightarrow> cmp a b = 0 \<longleftrightarrow> cmp b a = 0"
  using sign [of a b] sign [of b a] by linarith

lemma refl: "a \<in> A \<Longrightarrow> cmp a a = 0"
  using sign [of a a] by linarith

lemma less_sym: "a \<in> A \<Longrightarrow> b \<in> A \<Longrightarrow> cmp a b < 0 \<longleftrightarrow> 0 < cmp b a"
  using sign [of a b] sign [of b a] by linarith

lemma insert_sorted:
  "x \<in> A \<Longrightarrow> set xs \<subseteq> A \<Longrightarrow> sorted_wrt (\<lambda>a b. cmp a b \<le> 0) xs \<Longrightarrow> sorted_wrt (\<lambda>a b. cmp a b \<le> 0) (js_insert cmp x xs)"
proof (induction xs)
  case (Cons y ys)
  show ?case
  proof (cases "cmp x y \<le> 0")
    case True
    then show ?thesis using Cons.prems trans [of x y] by auto
  next
    case False
    then have "cmp y x \<le> 0" using Cons.prems sign [of y x] by auto
    moreover have "set (js_insert cmp x ys) = insert x (set ys)" by (metis mset_js_insert set_mset_add_mset_insert set_mset_mset)
    ultimately show ?thesis using False Cons by auto
  qed
qed simp

lemma sort_sorted: "set xs \<subseteq> A \<Longrightarrow> sorted_wrt (\<lambda>a b. cmp a b \<le> 0) (js_sort cmp xs)"
  by (induction xs) (simp_all add: insert_sorted)

lemma sorted_unique:
  assumes "set xs \<subseteq> A" and "mset xs = mset ys" and "\<And>a b. a \<in> set xs \<Longrightarrow> b \<in> set xs \<Longrightarrow> cmp a b = 0 \<Longrightarrow> a = b"
    and "sorted_wrt (\<lambda>a b. cmp a b \<le> 0) xs" "sorted_wrt (\<lambda>a b. cmp a b \<le> 0) ys"
  shows "xs = ys"
  using assms
proof (induction xs arbitrary: ys)
  case (Cons x xs)
  obtain y zs where ys: "ys = y # zs" using Cons.prems(2) by (cases ys) auto
  have s: "set ys = set (x # xs)" using Cons.prems(2) by (metis set_mset_mset)
  have "cmp x y \<le> 0" "cmp y x \<le> 0"
    using Cons.prems(1,4,5) s refl [of x] unfolding ys by auto
  moreover have "y \<in> A" "x \<in> A" using Cons.prems(1) s ys by auto
  ultimately have "cmp x y = 0" using sign [of y x] by linarith
  then have "x = y" using Cons.prems(3) [of x y] s ys by auto
  then show ?case using Cons.IH [of zs] Cons.prems ys by auto
qed simp

end

text \<open>Reversing the direction, and one comparator after the other.\<close>

lemma comparator_map:
  assumes "comparator cmp A" and "\<And>b. b \<in> B \<Longrightarrow> f b \<in> A"
  shows "comparator (\<lambda>a b. cmp (f a) (f b)) B"
proof
  show "cmp (f a) (f b) \<le> 0 \<longleftrightarrow> 0 \<le> cmp (f b) (f a)" if "a \<in> B" "b \<in> B" for a b
    using comparator.sign [OF assms(1)] assms(2) that by simp
  show "cmp (f a) (f c) \<le> 0" if "a \<in> B" "b \<in> B" "c \<in> B" "cmp (f a) (f b) \<le> 0" "cmp (f b) (f c) \<le> 0" for a b c
    using comparator.trans [OF assms(1) assms(2) assms(2) assms(2)] that by blast
qed

lemma comparator_reverse:
  assumes "comparator cmp A"
  shows "comparator (\<lambda>a b. - cmp a b) A"
proof
  show "- cmp a b \<le> 0 \<longleftrightarrow> 0 \<le> - cmp b a" if "a \<in> A" "b \<in> A" for a b
    using comparator.sign [OF assms, of b a] that by simp
  show "- cmp a c \<le> 0" if "a \<in> A" "b \<in> A" "c \<in> A" "- cmp a b \<le> 0" "- cmp b c \<le> 0" for a b c
  proof -
    have "cmp b a \<le> 0" "cmp c b \<le> 0" using comparator.sign [OF assms] that by simp_all
    then have "cmp c a \<le> 0" using comparator.trans [OF assms, of c b a] that by blast
    then show ?thesis using comparator.sign [OF assms, of c a] that by simp
  qed
qed

lemma comparator_direction: "comparator cmp A \<Longrightarrow> d = 1 \<or> d = - 1 \<Longrightarrow> comparator (\<lambda>a b. cmp a b * d) A"
  using comparator_reverse by auto

definition cmp_then :: "('a \<Rightarrow> 'a \<Rightarrow> int) \<Rightarrow> ('a \<Rightarrow> 'a \<Rightarrow> int) \<Rightarrow> 'a \<Rightarrow> 'a \<Rightarrow> int" where
  "cmp_then f g a b = (if f a b \<noteq> 0 then f a b else g a b)"

lemma comparator_then:
  assumes "comparator f A" and "comparator g A"
  shows "comparator (cmp_then f g) A"
proof
  note eq = comparator.equal_sym [OF assms(1)] and less = comparator.less_sym [OF assms(1)]
    and sign = comparator.sign [OF assms(1)] comparator.sign [OF assms(2)]
  show "cmp_then f g a b \<le> 0 \<longleftrightarrow> 0 \<le> cmp_then f g b a" if "a \<in> A" "b \<in> A" for a b
    using eq [OF that] sign [OF that] by (simp add: cmp_then_def)
  show "cmp_then f g a c \<le> 0" if m: "a \<in> A" "b \<in> A" "c \<in> A" and le: "cmp_then f g a b \<le> 0" "cmp_then f g b c \<le> 0" for a b c
  proof -
    have f: "f a b \<le> 0" "f b c \<le> 0" using le by (auto simp: cmp_then_def split: if_splits)
    then have ac: "f a c \<le> 0" using comparator.trans [OF assms(1)] m by blast
    show ?thesis
    proof (cases "f a c = 0")
      case True
      then have "f c a \<le> 0" using eq [OF m(1,3)] by simp
      then have "f b a \<le> 0" "f c b \<le> 0"
        using comparator.trans [OF assms(1), of b c a] comparator.trans [OF assms(1), of c a b] f m by blast+
      then have "f a b = 0" "f b c = 0" using f sign(1) [of b a] sign(1) [of c b] m by auto
      then have "g a b \<le> 0" "g b c \<le> 0" using le by (simp_all add: cmp_then_def)
      then show ?thesis using True comparator.trans [OF assms(2) m] by (simp add: cmp_then_def)
    next
      case False
      then show ?thesis using ac by (simp add: cmp_then_def)
    qed
  qed
qed

end
