(* ===== verification/PasskeyRecover.thy ===== *)
theory PasskeyRecover imports Main Prelude JsValue Passkey SingleFlight begin

text \<open>
  app/assets/passkey_recover.js: the password-reset page's button that creates a new
  passkey. The state is the script's \<open>generation\<close>, the button, the error element, the page's
  target and the ceremonies in flight.
\<close>

record recover =
  rc_generation :: nat
  rc_disabled :: bool
  rc_error :: string
  rc_location :: "string option"
  rc_inflight :: "nat list"

definition recover_script :: "bool \<Rightarrow> bool \<Rightarrow> recover option" where
  "recover_script hasBox passkeySupported =
     (if \<not> hasBox \<or> \<not> passkeySupported then None
      else Some \<lparr>rc_generation = 0, rc_disabled = False, rc_error = [], rc_location = None,
                 rc_inflight = []\<rparr>)"

definition recover_click :: "unit \<Rightarrow> recover \<Rightarrow> recover" where
  "recover_click u s =
     (if rc_disabled s then s
      else s\<lparr>rc_generation := Suc (rc_generation s), rc_error := [], rc_disabled := True,
             rc_inflight := Suc (rc_generation s) # rc_inflight s\<rparr>)"

text \<open>The \<open>then\<close> and \<open>catch\<close> continuations of the ceremony started with generation \<open>g\<close>.\<close>

definition recover_settle :: "i18n \<Rightarrow> nat \<Rightarrow> js_err + string \<Rightarrow> recover \<Rightarrow> recover" where
  "recover_settle t g r s0 =
     (let s = s0\<lparr>rc_inflight := remove1 g (rc_inflight s0)\<rparr> in
      case r of
        Inr redirect \<Rightarrow>
          if g \<noteq> rc_generation s then s else s\<lparr>rc_location := Some redirect\<rparr>
      | Inl err \<Rightarrow>
          if g \<noteq> rc_generation s then s
          else s\<lparr>rc_disabled := False, rc_error := errorMessage t (Some err)\<rparr>)"

text \<open>The ceremony itself: both bodies are \<open>{uidb64: ...}\<close>.\<close>

definition recover_ceremony :: "'w browser \<Rightarrow> 'w \<Rightarrow> string \<Rightarrow> 'w \<times> (js_err + json)" where
  "recover_ceremony B w uidb64 =
     (let uid = JObj [(''uidb64'', JStr uidb64)] in
      create B w ''/account/recover/passkey/begin/'' ''/account/recover/passkey/finish/''
        (Some uid) (Some uid))"

interpretation rc: single_flight rc_disabled rc_generation rc_inflight "\<lambda>s. rc_location s \<noteq> None"
    recover_click "recover_settle t" "\<lambda>(x::unit) s. s" for t
  by unfold_locales
     (auto simp: recover_click_def recover_settle_def Let_def split: sum.splits if_splits)

definition recover_run :: "i18n \<Rightarrow> (unit, js_err + string, unit) page_event list \<Rightarrow> recover \<Rightarrow> recover" where
  "recover_run t = fold (page_step recover_click (recover_settle t) (\<lambda>x s. s) rc_inflight)"

text \<open>
  On the recovery page no sequence of clicks and answers starts a second
  ceremony while one runs, the running one is always of the current generation, and a
  disabled button means that a ceremony is running or the page is being left. The running
  ceremony's failure shows its message and enables the button, its success leaves the page.
\<close>

theorem recover_single_flight:
  assumes "recover_script True True = Some s0"
  shows "(let s = recover_run t es s0 in
    length (rc_inflight s) \<le> 1 \<and>
    (\<forall>g\<in>set (rc_inflight s). g = rc_generation s \<and> rc_disabled s \<and>
       (\<forall>err. rc_error (recover_settle t g (Inl err) s) = errorMessage t (Some err) \<and>
          \<not> rc_disabled (recover_settle t g (Inl err) s)) \<and>
       (\<forall>url. rc_location (recover_settle t g (Inr url) s) = Some url)) \<and>
    (rc_disabled s \<longrightarrow> rc_inflight s = [rc_generation s] \<or> rc_location s \<noteq> None))"
proof -
  have "rc.sf_inv s0" unfolding rc.sf_inv_def using assms by (auto simp: recover_script_def)
  then have "rc.sf_inv (recover_run t es s0)"
    unfolding recover_run_def by (rule rc.sf_run)
  then show ?thesis
    using rc.at_most_one rc.current_only rc.busy_for_a_reason
    by (auto simp: Let_def recover_settle_def)
qed

lemma recover_single_flight_witness:
  "length (rc_inflight (recover_run sample_texts [Submit (), Submit ()] \<lparr>rc_generation = 0, rc_disabled = False,
     rc_error = [], rc_location = None, rc_inflight = []\<rparr>)) \<le> 1"
  using recover_single_flight [of "\<lparr>rc_generation = 0, rc_disabled = False, rc_error = [],
     rc_location = None, rc_inflight = []\<rparr>" sample_texts "[Submit (), Submit ()]"]
  by (simp add: recover_script_def Let_def)

end
