(* ===== verification/PasskeySignup.thy ===== *)
theory PasskeySignup imports Main Prelude JsValue Passkey SingleFlight begin

text \<open>
  app/assets/passkey_signup.js: the signup page, with the passkey form by default and the
  password form as a fallback. The state is the script's \<open>generation\<close>, the visibility of the
  two boxes, the submit button, the three error elements, the page's target and the
  ceremonies in flight.
\<close>

record signup =
  su_generation :: nat
  su_box_hidden :: bool
  su_password_hidden :: bool
  su_disabled :: bool
  su_error :: string
  su_email_error :: string
  su_username_error :: string
  su_location :: "string option"
  su_inflight :: "nat list"

definition signup_script :: "bool \<Rightarrow> bool \<Rightarrow> bool \<Rightarrow> signup option" where
  "signup_script hasBox hasPasswordBox passkeySupported =
     (if \<not> hasBox \<or> \<not> hasPasswordBox \<or> \<not> passkeySupported then None
      else Some \<lparr>su_generation = 0, su_box_hidden = False, su_password_hidden = True,
                 su_disabled = False, su_error = [], su_email_error = [], su_username_error = [],
                 su_location = None, su_inflight = []\<rparr>)"

definition show_password_signup :: "unit \<Rightarrow> signup \<Rightarrow> signup" where
  "show_password_signup u s = s\<lparr>su_box_hidden := True, su_password_hidden := False\<rparr>"

definition clearErrors :: "signup \<Rightarrow> signup" where
  "clearErrors s = s\<lparr>su_error := [], su_email_error := [], su_username_error := []\<rparr>"

text \<open>\<open>String(v[0])\<close>, and the test \<open>v && v.length\<close>.\<close>

definition first_text :: "json \<Rightarrow> string" where
  "first_text v = (case js_index v 0 of None \<Rightarrow> ''undefined'' | Some x \<Rightarrow> js_String x)"

definition has_items :: "json option \<Rightarrow> bool" where
  "has_items v = (truthy_opt v \<and> truthy_opt (js_get (the v) ''length''))"

definition showErrors :: "i18n \<Rightarrow> js_err option \<Rightarrow> signup \<Rightarrow> signup" where
  "showErrors t err s0 =
     (let s = clearErrors s0;
          data = (case err of None \<Rightarrow> None | Some e \<Rightarrow> err_data e) in
      if truthy_opt data \<and> is_object_type (the data) \<and>
         (truthy_opt (js_get (the data) ''email'') \<or> truthy_opt (js_get (the data) ''username''))
      then
        (let email = js_get (the data) ''email''; username = js_get (the data) ''username'';
             s1 = (if has_items email then s\<lparr>su_email_error := first_text (the email)\<rparr> else s);
             s2 = (if has_items username then s1\<lparr>su_username_error := first_text (the username)\<rparr> else s1)
         in if su_email_error s2 = [] \<and> su_username_error s2 = []
            then s2\<lparr>su_error := errorMessage t err\<rparr> else s2)
      else s\<lparr>su_error := errorMessage t err\<rparr>)"

definition signup_submit :: "unit \<Rightarrow> signup \<Rightarrow> signup" where
  "signup_submit u s =
     (if su_disabled s then s
      else (clearErrors (s\<lparr>su_generation := Suc (su_generation s)\<rparr>))
             \<lparr>su_disabled := True, su_inflight := Suc (su_generation s) # su_inflight s\<rparr>)"

definition signup_settle :: "i18n \<Rightarrow> nat \<Rightarrow> js_err + json \<Rightarrow> signup \<Rightarrow> signup" where
  "signup_settle t g r s0 =
     (let s = s0\<lparr>su_inflight := remove1 g (su_inflight s0)\<rparr> in
      case r of
        Inr data \<Rightarrow>
          if g \<noteq> su_generation s then s else s\<lparr>su_location := Some ''/signup/validate/''\<rparr>
      | Inl err \<Rightarrow>
          if g \<noteq> su_generation s then s
          else showErrors t (Some err) (s\<lparr>su_disabled := False\<rparr>))"

definition signup_ceremony :: "'w browser \<Rightarrow> 'w \<Rightarrow> string \<Rightarrow> string \<Rightarrow> 'w \<times> (js_err + json)" where
  "signup_ceremony B w username email =
     create B w ''/api/passkeys/signup/begin/'' ''/api/passkeys/signup/finish/''
       (Some (JObj [(''username'', JStr username), (''email'', JStr email)])) None"

lemma showErrors_frame [simp]:
  "su_generation (showErrors t e s) = su_generation s" "su_disabled (showErrors t e s) = su_disabled s"
  "su_inflight (showErrors t e s) = su_inflight s" "su_location (showErrors t e s) = su_location s"
  "su_box_hidden (showErrors t e s) = su_box_hidden s"
  "su_password_hidden (showErrors t e s) = su_password_hidden s"
  by (auto simp: showErrors_def clearErrors_def Let_def)

interpretation su: single_flight su_disabled su_generation su_inflight "\<lambda>s. su_location s \<noteq> None"
    signup_submit "signup_settle t" show_password_signup for t
  by unfold_locales
     (auto simp: signup_submit_def signup_settle_def show_password_signup_def clearErrors_def Let_def
       split: sum.splits if_splits)

definition signup_run :: "i18n \<Rightarrow> (unit, js_err + json, unit) page_event list \<Rightarrow> signup \<Rightarrow> signup" where
  "signup_run t = fold (page_step signup_submit (signup_settle t) show_password_signup su_inflight)"

text \<open>
  On the signup page no sequence of submissions, answers and switches to the
  password form starts a second ceremony while one runs; the running one is always of the
  current generation; a disabled submit button means that a ceremony is running or the page
  is being left; and exactly one of the two boxes is visible.
\<close>

theorem signup_single_flight:
  assumes "signup_script True True True = Some s0"
  shows "(let s = signup_run t es s0 in
    length (su_inflight s) \<le> 1 \<and>
    (\<forall>g\<in>set (su_inflight s). g = su_generation s \<and> su_disabled s \<and>
       (\<forall>data. su_location (signup_settle t g (Inr data) s) = Some ''/signup/validate/'') \<and>
       (\<forall>err. \<not> su_disabled (signup_settle t g (Inl err) s))) \<and>
    (su_disabled s \<longrightarrow> su_inflight s = [su_generation s] \<or> su_location s \<noteq> None) \<and>
    (su_box_hidden s \<longleftrightarrow> \<not> su_password_hidden s))"
proof -
  have "su.sf_inv s0" unfolding su.sf_inv_def using assms by (auto simp: signup_script_def)
  then have i: "su.sf_inv (signup_run t es s0)"
    unfolding signup_run_def by (rule su.sf_run)
  have step: "su_box_hidden s = (\<not> su_password_hidden s) \<Longrightarrow>
      su_box_hidden (page_step signup_submit (signup_settle t) show_password_signup su_inflight e s)
        = (\<not> su_password_hidden (page_step signup_submit (signup_settle t) show_password_signup su_inflight e s))"
    for e s
    by (cases e) (auto simp: signup_submit_def signup_settle_def show_password_signup_def
        clearErrors_def Let_def split: sum.splits)
  have "su_box_hidden s = (\<not> su_password_hidden s) \<Longrightarrow>
      su_box_hidden (signup_run t es s) = (\<not> su_password_hidden (signup_run t es s))" for s
    unfolding signup_run_def by (induction es arbitrary: s) (auto simp: step)
  moreover have "su_box_hidden s0 = (\<not> su_password_hidden s0)"
    using assms by (auto simp: signup_script_def)
  ultimately show ?thesis
    using su.at_most_one [OF i] su.current_only [OF i] su.busy_for_a_reason [OF i]
    by (auto simp: Let_def signup_settle_def)
qed

definition fresh_signup :: signup where
  "fresh_signup = \<lparr>su_generation = 0, su_box_hidden = False, su_password_hidden = True,
     su_disabled = False, su_error = [], su_email_error = [], su_username_error = [],
     su_location = None, su_inflight = []\<rparr>"

lemma signup_single_flight_witness:
  "length (su_inflight (signup_run sample_texts [Submit (), Other (), Submit ()] fresh_signup)) \<le> 1"
proof -
  have s: "signup_script True True True = Some fresh_signup"
    by (simp add: signup_script_def fresh_signup_def)
  show ?thesis
    using signup_single_flight [OF s, of sample_texts "[Submit (), Other (), Submit ()]"] by (simp add: Let_def)
qed

text \<open>
  A failed signup always leaves the user with a message, provided the error
  texts involved are not empty: each of the server's field errors goes next to its own
  input, both at once when both fields are refused, and every other failure, empty error
  arrays included, shows the generic error line.
\<close>

theorem signup_error_shown:
  assumes "errorMessage t (Some err) \<noteq> []"
  shows "(let s' = showErrors t (Some err) s in
     su_error s' \<noteq> [] \<or> su_email_error s' \<noteq> [] \<or> su_username_error s' \<noteq> []) \<and>
   (err_data err = Some (JObj kvs) \<and> map_of kvs ''email'' = Some (JArr (JStr e # es)) \<and> e \<noteq> [] \<longrightarrow>
      su_email_error (showErrors t (Some err) s) = e \<and> su_error (showErrors t (Some err) s) = []) \<and>
   (err_data err = Some (JObj kvs) \<and> map_of kvs ''username'' = Some (JArr (JStr u # us)) \<and> u \<noteq> [] \<longrightarrow>
      su_username_error (showErrors t (Some err) s) = u \<and> su_error (showErrors t (Some err) s) = [])"
  using assms
  by (auto simp: showErrors_def clearErrors_def Let_def has_items_def first_text_def)

lemma signup_error_shown_witness:
  "su_username_error (showErrors sample_texts (Some \<lparr>err_name = ''Error'', err_status = Some 400, err_data =
     Some (JObj [(''username'', JArr [JStr ''taken''])])\<rparr>) fresh_signup) = ''taken''"
  using signup_error_shown [of sample_texts "\<lparr>err_name = ''Error'', err_status = Some 400, err_data =
     Some (JObj [(''username'', JArr [JStr ''taken''])])\<rparr>" fresh_signup
     "[(''username'', JArr [JStr ''taken''])]" "[]" "[]" "''taken''" "[]"]
  by (simp add: errorMessage_def Let_def)

end
