(* ===== verification/AccountSecurity.thy ===== *)
theory AccountSecurity imports Main Prelude JsValue Passkey SingleFlight JsSort "HOL-Library.Multiset"
  "HOL-Library.Product_Lexorder" begin

text \<open>
  app/assets/account_security.js: the security page that lists, adds, renames and deletes
  passkeys and removes the password. The state is the script's (\<open>state\<close>, \<open>busy\<close>,
  \<open>generation\<close>) together with the page it renders and the actions in flight. A passkey
  carries the server's creation time in microseconds; \<open>Date.getTime()\<close> truncates it to
  milliseconds. \<open>toLocaleString\<close> depends on the browser's locale and is a parameter.
\<close>

section \<open>Data\<close>

record passkey =
  pk_id :: int
  pk_name :: string
  created_at :: int
  last_used_at :: "int option"
  backed_up :: bool
  authenticator :: string

record account =
  has_password :: bool
  passkeys :: "passkey list"

record dataset =
  t_never :: string
  t_synced :: string
  t_deviceBound :: string
  t_hasPassword :: string
  t_noPassword :: string
  t_passwordRequired :: string

record row =
  row_passkey :: passkey
  row_cells :: "string list"
  row_disabled :: bool

record page =
  pg_state :: account
  pg_busy :: bool
  pg_generation :: nat
  pg_inflight :: "nat list"
  pg_loading :: bool
  pg_rows :: "row list"
  pg_error :: string
  pg_list_error :: string
  pg_empty_hidden :: bool
  pg_unsupported_hidden :: bool
  pg_add_hidden :: bool
  pg_step_up_hidden :: bool
  pg_remove_hidden :: bool
  pg_status :: string
  pg_add_disabled :: bool
  pg_remove_disabled :: bool
  pg_step_up_input :: string
  pg_remove_input :: string

text \<open>What the script finds around it: texts, helper support and the browser's date format.\<close>

record env =
  ev_i18n :: i18n
  ev_texts :: dataset
  ev_supported :: bool
  ev_locale :: "int \<Rightarrow> string"

section \<open>Rendering\<close>

definition getTime :: "int \<Rightarrow> int" where
  "getTime us = us div 1000"

definition formatDate :: "env \<Rightarrow> int option \<Rightarrow> string" where
  "formatDate ev v = (case v of Some us \<Rightarrow> ev_locale ev (getTime us) | None \<Rightarrow> t_never (ev_texts ev))"

definition render_row :: "env \<Rightarrow> passkey \<Rightarrow> row" where
  "render_row ev p =
     (let kind = (if backed_up p then t_synced (ev_texts ev) else t_deviceBound (ev_texts ev)) in
      \<lparr>row_passkey = p,
       row_cells = [pk_name p,
         (if authenticator p \<noteq> [] then authenticator p @ '' '' @ [CHR 0xB7] @ '' '' @ kind else kind),
         formatDate ev (Some (created_at p)), formatDate ev (last_used_at p)],
       row_disabled = False\<rparr>)"

definition setActionsDisabled :: "bool \<Rightarrow> page \<Rightarrow> page" where
  "setActionsDisabled d s = s\<lparr>pg_add_disabled := d, pg_remove_disabled := d,
     pg_rows := map (\<lambda>r. r\<lparr>row_disabled := d\<rparr>) (pg_rows s)\<rparr>"

definition render :: "env \<Rightarrow> page \<Rightarrow> page" where
  "render ev s =
     (let st = pg_state s in
      setActionsDisabled (pg_busy s)
        (s\<lparr>pg_rows := map (render_row ev) (passkeys st),
           pg_empty_hidden := passkeys st \<noteq> [],
           pg_unsupported_hidden := ev_supported ev,
           pg_add_hidden := \<not> ev_supported ev,
           pg_step_up_hidden := \<not> has_password st,
           pg_status := (if has_password st then t_hasPassword (ev_texts ev) else t_noPassword (ev_texts ev)),
           pg_remove_hidden := \<not> (has_password st \<and> passkeys st \<noteq> [])\<rparr>))"

section \<open>Local state updates\<close>

definition passkeySortKey :: "passkey \<Rightarrow> int \<times> int" where
  "passkeySortKey p = (getTime (created_at p), pk_id p)"

definition comparePasskeys :: "passkey \<Rightarrow> passkey \<Rightarrow> int" where
  "comparePasskeys a b =
     (let ka = passkeySortKey a; kb = passkeySortKey b in
      if fst ka \<noteq> fst kb then fst ka - fst kb else snd ka - snd kb)"

definition insertPasskey :: "passkey \<Rightarrow> account \<Rightarrow> account" where
  "insertPasskey p st = st\<lparr>passkeys := js_sort comparePasskeys (passkeys st @ [p])\<rparr>"

fun replace_first :: "passkey \<Rightarrow> passkey list \<Rightarrow> passkey list option" where
  "replace_first p [] = None"
| "replace_first p (q # qs) =
     (if pk_id q = pk_id p then Some (p # qs) else map_option (\<lambda>r. q # r) (replace_first p qs))"

definition replacePasskey :: "passkey \<Rightarrow> account \<Rightarrow> account" where
  "replacePasskey p st =
     (case replace_first p (passkeys st) of
        Some ps \<Rightarrow> st\<lparr>passkeys := ps\<rparr>
      | None \<Rightarrow> insertPasskey p st)"

definition removeLocally :: "int \<Rightarrow> account \<Rightarrow> account" where
  "removeLocally i st = st\<lparr>passkeys := filter (\<lambda>p. pk_id p \<noteq> i) (passkeys st)\<rparr>"

section \<open>The in-flight guard\<close>

definition beginAction :: "page \<Rightarrow> nat option \<times> page" where
  "beginAction s =
     (if pg_busy s then (None, s)
      else (Some (Suc (pg_generation s)),
            setActionsDisabled True (s\<lparr>pg_busy := True, pg_generation := Suc (pg_generation s)\<rparr>)))"

definition endAction :: "nat \<Rightarrow> page \<Rightarrow> bool \<times> page" where
  "endAction g s = (if g \<noteq> pg_generation s then (False, s) else (True, s\<lparr>pg_busy := False\<rparr>))"

definition fail :: "env \<Rightarrow> js_err \<Rightarrow> page \<Rightarrow> page" where
  "fail ev err s = s\<lparr>pg_error := errorMessage (ev_i18n ev) (Some err)\<rparr>"

definition failList :: "env \<Rightarrow> js_err \<Rightarrow> page \<Rightarrow> page" where
  "failList ev err s = s\<lparr>pg_list_error := errorMessage (ev_i18n ev) (Some err)\<rparr>"

definition failAction :: "nat \<Rightarrow> js_err \<Rightarrow> (js_err \<Rightarrow> page \<Rightarrow> page) \<Rightarrow> page \<Rightarrow> page" where
  "failAction g err shw s =
     (if g \<noteq> pg_generation s then s
      else shw err (setActionsDisabled False (s\<lparr>pg_busy := False\<rparr>)))"

definition handleListFailure :: "env \<Rightarrow> nat \<Rightarrow> int \<Rightarrow> js_err \<Rightarrow> page \<Rightarrow> page" where
  "handleListFailure ev g i err s =
     (let s1 = (if g = pg_generation s \<and> err_status err = Some 404
                then render ev (s\<lparr>pg_state := removeLocally i (pg_state s)\<rparr>) else s)
      in failAction g err (failList ev) s1)"

section \<open>Clicks\<close>

text \<open>
  Each handler that passes the guard records its action as in flight; the requests are
  given as method, URL and body.
\<close>

definition start_action :: "(page \<Rightarrow> page) \<Rightarrow> page \<Rightarrow> page" where
  "start_action clear s =
     (case beginAction s of
        (None, s') \<Rightarrow> s'
      | (Some g, s') \<Rightarrow> clear (s'\<lparr>pg_inflight := g # pg_inflight s'\<rparr>))"

definition clear_list_error :: "page \<Rightarrow> page" where
  "clear_list_error s = s\<lparr>pg_list_error := []\<rparr>"

definition clear_error :: "page \<Rightarrow> page" where
  "clear_error s = s\<lparr>pg_error := []\<rparr>"

definition passkey_url :: "passkey \<Rightarrow> string" where
  "passkey_url p = ''/api/passkeys/'' @ show_int (pk_id p) @ ''/''"

definition rename :: "passkey \<Rightarrow> string option \<Rightarrow> page \<Rightarrow> page" where
  "rename p answer s = (case answer of None \<Rightarrow> s | Some name \<Rightarrow> start_action clear_list_error s)"

definition rename_request :: "'w browser \<Rightarrow> 'w \<Rightarrow> passkey \<Rightarrow> string \<Rightarrow> 'w \<times> (js_err + json)" where
  "rename_request B w p name =
     request B w ''PATCH'' (passkey_url p) (Some (JObj [(''name'', JStr name)]))"

definition remove :: "passkey \<Rightarrow> bool \<Rightarrow> page \<Rightarrow> page" where
  "remove p confirmed s = (if \<not> confirmed then s else start_action clear_list_error s)"

definition remove_request :: "'w browser \<Rightarrow> 'w \<Rightarrow> passkey \<Rightarrow> 'w \<times> (js_err + json)" where
  "remove_request B w p = request B w ''DELETE'' (passkey_url p) None"

definition stepUp :: "env \<Rightarrow> 'w browser \<Rightarrow> 'w \<Rightarrow> page \<Rightarrow> 'w \<times> (js_err + json)" where
  "stepUp ev B w s =
     (if has_password (pg_state s) then
        (let password = pg_step_up_input s in
         if password = []
         then (w, Inl \<lparr>err_name = [], err_status = None,
                       err_data = Some (JObj [(''detail'', JStr (t_passwordRequired (ev_texts ev)))])\<rparr>)
         else (w, Inr (JObj [(''password'', JStr password)])))
      else thenP (assertion B w None None) (\<lambda>w assertion_result. (w, Inr (JObj [(''step_up'', assertion_result)]))))"

definition add_ceremony :: "env \<Rightarrow> 'w browser \<Rightarrow> 'w \<Rightarrow> page \<Rightarrow> 'w \<times> (js_err + json)" where
  "add_ceremony ev B w s =
     thenP (stepUp ev B w s) (\<lambda>w step.
       create B w ''/api/passkeys/register/begin/'' ''/api/passkeys/register/finish/'' (Some step) None)"

definition add_click :: "page \<Rightarrow> page" where
  "add_click s = start_action clear_error s"

definition remove_password_click :: "page \<Rightarrow> page" where
  "remove_password_click s = start_action clear_error s"

definition remove_password_request :: "'w browser \<Rightarrow> 'w \<Rightarrow> page \<Rightarrow> 'w \<times> (js_err + json)" where
  "remove_password_request B w s =
     postJSON B w ''/api/passkeys/password/remove/'' (Some (JObj [(''password'', JStr (pg_remove_input s))]))"

datatype click = RenameClick passkey string | RemoveClick passkey | AddClick | RemovePasswordClick

fun security_click :: "click \<Rightarrow> page \<Rightarrow> page" where
  "security_click (RenameClick p name) s = rename p (Some name) s"
| "security_click (RemoveClick p) s = remove p True s"
| "security_click AddClick s = add_click s"
| "security_click RemovePasswordClick s = remove_password_click s"

section \<open>Answers\<close>

datatype outcome =
    Renamed passkey
  | Removed int
  | Added passkey
  | PasswordRemoved bool
  | ListFailed int js_err
  | AddFailed js_err
  | PasswordFailed js_err

definition settled :: "nat \<Rightarrow> page \<Rightarrow> page" where
  "settled g s = s\<lparr>pg_inflight := remove1 g (pg_inflight s)\<rparr>"

definition succeed :: "env \<Rightarrow> nat \<Rightarrow> (page \<Rightarrow> page) \<Rightarrow> page \<Rightarrow> page" where
  "succeed ev g f s =
     (case endAction g s of (False, s') \<Rightarrow> s' | (True, s') \<Rightarrow> render ev (f s'))"

fun security_outcome :: "env \<Rightarrow> nat \<Rightarrow> outcome \<Rightarrow> page \<Rightarrow> page" where
  "security_outcome ev g (Renamed p) s =
     succeed ev g (\<lambda>s. s\<lparr>pg_state := replacePasskey p (pg_state s)\<rparr>) s"
| "security_outcome ev g (Removed i) s =
     succeed ev g (\<lambda>s. s\<lparr>pg_state := removeLocally i (pg_state s)\<rparr>) s"
| "security_outcome ev g (Added p) s =
     succeed ev g (\<lambda>s. s\<lparr>pg_step_up_input := [], pg_state := insertPasskey p (pg_state s)\<rparr>) s"
| "security_outcome ev g (PasswordRemoved hp) s =
     succeed ev g (\<lambda>s. s\<lparr>pg_remove_input := [], pg_step_up_input := [],
       pg_state := (pg_state s)\<lparr>has_password := hp\<rparr>\<rparr>) s"
| "security_outcome ev g (ListFailed i err) s = handleListFailure ev g i err s"
| "security_outcome ev g (AddFailed err) s =
     failAction g err (fail ev) (s\<lparr>pg_step_up_input := []\<rparr>)"
| "security_outcome ev g (PasswordFailed err) s =
     failAction g err (fail ev) (s\<lparr>pg_remove_input := []\<rparr>)"

definition security_settle :: "env \<Rightarrow> nat \<Rightarrow> outcome \<Rightarrow> page \<Rightarrow> page" where
  "security_settle ev g r s = security_outcome ev g r (settled g s)"

section \<open>Loading and typing\<close>

datatype misc = LoadOk account | LoadFailed js_err | TypeStepUp string | TypeRemove string
  | RenameCancelled passkey | RemoveCancelled passkey

fun security_other :: "env \<Rightarrow> misc \<Rightarrow> page \<Rightarrow> page" where
  "security_other ev (LoadOk data) s =
     (if pg_loading s then render ev (s\<lparr>pg_loading := False, pg_state := data\<rparr>) else s)"
| "security_other ev (LoadFailed err) s =
     (if pg_loading s then render ev (fail ev err (s\<lparr>pg_loading := False\<rparr>)) else s)"
| "security_other ev (TypeStepUp v) s = s\<lparr>pg_step_up_input := v\<rparr>"
| "security_other ev (TypeRemove v) s = s\<lparr>pg_remove_input := v\<rparr>"
| "security_other ev (RenameCancelled p) s = rename p None s"
| "security_other ev (RemoveCancelled p) s = remove p False s"

definition blank_security :: page where
  "blank_security = \<lparr>pg_state = \<lparr>has_password = False, passkeys = []\<rparr>, pg_busy = False,
     pg_generation = 0, pg_inflight = [], pg_loading = False, pg_rows = [], pg_error = [],
     pg_list_error = [], pg_empty_hidden = False, pg_unsupported_hidden = False,
     pg_add_hidden = False, pg_step_up_hidden = False, pg_remove_hidden = False, pg_status = [],
     pg_add_disabled = False, pg_remove_disabled = False, pg_step_up_input = [],
     pg_remove_input = []\<rparr>"

text \<open>The script renders the empty state first, and loads the list where WebAuthn is supported.\<close>

definition security_script :: "env \<Rightarrow> bool \<Rightarrow> page option" where
  "security_script ev hasRoot =
     (if \<not> hasRoot then None
      else if \<not> ev_supported ev then Some (render ev blank_security)
      else Some ((render ev blank_security)\<lparr>pg_loading := True\<rparr>))"

definition security_run :: "env \<Rightarrow> (click, outcome, misc) page_event list \<Rightarrow> page \<Rightarrow> page" where
  "security_run ev =
     fold (page_step security_click (security_settle ev) (security_other ev) pg_inflight)"

section \<open>Frames and the shared guard\<close>

lemma set_disabled_frame [simp]:
  "pg_state (setActionsDisabled d s) = pg_state s" "pg_busy (setActionsDisabled d s) = pg_busy s"
  "pg_generation (setActionsDisabled d s) = pg_generation s"
  "pg_inflight (setActionsDisabled d s) = pg_inflight s"
  "pg_loading (setActionsDisabled d s) = pg_loading s"
  "pg_list_error (setActionsDisabled d s) = pg_list_error s"
  "pg_error (setActionsDisabled d s) = pg_error s"
  by (simp_all add: setActionsDisabled_def)

lemma render_frame [simp]:
  "pg_state (render ev s) = pg_state s" "pg_busy (render ev s) = pg_busy s"
  "pg_generation (render ev s) = pg_generation s" "pg_inflight (render ev s) = pg_inflight s"
  "pg_loading (render ev s) = pg_loading s" "pg_list_error (render ev s) = pg_list_error s"
  "pg_error (render ev s) = pg_error s"
  by (simp_all add: render_def Let_def)

lemmas security_defs = start_action_def beginAction_def endAction_def failAction_def fail_def
  failList_def handleListFailure_def clear_error_def clear_list_error_def rename_def remove_def
  add_click_def remove_password_click_def succeed_def settled_def security_settle_def Let_def

text \<open>Every click that passes its prompt is one \<open>start_action\<close>.\<close>

lemma click_start:
  "\<exists>clear. security_click c s = start_action clear s \<and> (clear = clear_error \<or> clear = clear_list_error)"
  by (cases c) (auto simp: rename_def remove_def add_click_def remove_password_click_def)

lemma start_action_busy: "pg_busy s \<Longrightarrow> start_action clear s = s"
  by (simp add: start_action_def beginAction_def)

lemma start_action_idle:
  assumes "\<not> pg_busy s" and "clear = clear_error \<or> clear = clear_list_error"
  shows "pg_busy (start_action clear s)" "pg_generation (start_action clear s) = Suc (pg_generation s)"
    "pg_inflight (start_action clear s) = Suc (pg_generation s) # pg_inflight s"
    "pg_state (start_action clear s) = pg_state s"
  using assms by (auto simp: security_defs)

lemma settle_frame:
  "pg_generation (security_settle ev g r s) = pg_generation s"
  "pg_inflight (security_settle ev g r s) = remove1 g (pg_inflight s)"
  "pg_busy (security_settle ev g r s) = (pg_busy s \<and> g \<noteq> pg_generation s)"
  by (cases r; auto simp: security_defs)+

lemma other_frame_eq:
  "pg_generation (security_other ev x s) = pg_generation s"
  "pg_inflight (security_other ev x s) = pg_inflight s"
  "pg_busy (security_other ev x s) = pg_busy s"
  by (cases x; auto simp: security_defs)+

interpretation sc: single_flight pg_busy pg_generation pg_inflight "\<lambda>s. False"
    security_click "security_settle ev" "security_other ev" for ev
proof unfold_locales
  fix s :: page and i
  assume "pg_busy s"
  then show "security_click i s = s" using click_start [of i s] start_action_busy by auto
next
  fix s :: page and i
  assume "\<not> pg_busy s"
  then show "pg_busy (security_click i s) \<and> pg_generation (security_click i s) = Suc (pg_generation s) \<and>
      pg_inflight (security_click i s) = Suc (pg_generation s) # pg_inflight s"
    using click_start [of i s] start_action_idle by auto
qed (auto simp: settle_frame other_frame_eq)

section \<open>The page shows the state\<close>

text \<open>
  What the user sees agrees with the script's state: the rows are the state's passkeys, and
  the buttons are disabled exactly while an action is in flight.
\<close>

definition page_in_sync :: "env \<Rightarrow> page \<Rightarrow> bool" where
  "page_in_sync ev s \<longleftrightarrow>
     pg_rows s = map (\<lambda>p. (render_row ev p)\<lparr>row_disabled := pg_busy s\<rparr>) (passkeys (pg_state s)) \<and>
     pg_add_disabled s = pg_busy s \<and> pg_remove_disabled s = pg_busy s \<and>
     (pg_empty_hidden s \<longleftrightarrow> passkeys (pg_state s) \<noteq> []) \<and>
     (pg_add_hidden s \<longleftrightarrow> \<not> ev_supported ev) \<and>
     (pg_step_up_hidden s \<longleftrightarrow> \<not> has_password (pg_state s)) \<and>
     (pg_remove_hidden s \<longleftrightarrow> \<not> (has_password (pg_state s) \<and> passkeys (pg_state s) \<noteq> []))"

lemma sync_render: "page_in_sync ev (render ev s)"
  by (simp add: page_in_sync_def render_def Let_def setActionsDisabled_def)

lemma sync_disabled:
  "page_in_sync ev s \<Longrightarrow> page_in_sync ev (setActionsDisabled b (s\<lparr>pg_busy := b\<rparr>))"
  by (simp add: page_in_sync_def setActionsDisabled_def)

lemma sync_frame [simp]:
  "page_in_sync ev (s\<lparr>pg_generation := n\<rparr>) = page_in_sync ev s"
  "page_in_sync ev (s\<lparr>pg_inflight := l\<rparr>) = page_in_sync ev s"
  "page_in_sync ev (s\<lparr>pg_error := t\<rparr>) = page_in_sync ev s"
  "page_in_sync ev (s\<lparr>pg_list_error := t\<rparr>) = page_in_sync ev s"
  "page_in_sync ev (s\<lparr>pg_step_up_input := t\<rparr>) = page_in_sync ev s"
  "page_in_sync ev (s\<lparr>pg_remove_input := t\<rparr>) = page_in_sync ev s"
  "page_in_sync ev (s\<lparr>pg_loading := b\<rparr>) = page_in_sync ev s"
  by (simp_all add: page_in_sync_def)

lemma sync_begin:
  "page_in_sync ev s \<Longrightarrow> page_in_sync ev (setActionsDisabled True (s\<lparr>pg_busy := True, pg_generation := n\<rparr>))"
  by (simp add: page_in_sync_def setActionsDisabled_def)

lemma sync_click: "page_in_sync ev s \<Longrightarrow> page_in_sync ev (security_click c s)"
  using click_start [of c s] sync_begin [of ev s]
  by (auto simp: start_action_def beginAction_def clear_error_def clear_list_error_def)

lemma sync_fail_action:
  assumes "page_in_sync ev s" and "\<And>u. page_in_sync ev (shw err u) = page_in_sync ev u"
  shows "page_in_sync ev (failAction g err shw s)"
  using sync_disabled [OF assms(1), of False] by (simp add: failAction_def assms)

lemma sync_fail [simp]:
  "page_in_sync ev (fail ev e u) = page_in_sync ev u" "page_in_sync ev (failList ev e u) = page_in_sync ev u"
  by (simp_all add: fail_def failList_def)

lemma sync_succeed: "page_in_sync ev s \<Longrightarrow> page_in_sync ev (succeed ev g f s)"
  by (simp add: succeed_def endAction_def sync_render)

lemma sync_settle: "page_in_sync ev s \<Longrightarrow> page_in_sync ev (security_settle ev g r s)"
  by (cases r) (auto simp: security_settle_def settled_def sync_succeed handleListFailure_def Let_def
      sync_render intro!: sync_fail_action)

lemma sync_other: "page_in_sync ev s \<Longrightarrow> page_in_sync ev (security_other ev x s)"
  by (cases x) (auto simp: sync_render rename_def remove_def)

lemma sync_step:
  "page_in_sync ev s \<Longrightarrow>
   page_in_sync ev (page_step security_click (security_settle ev) (security_other ev) pg_inflight e s)"
  by (cases e) (auto simp: sync_click sync_settle sync_other)

lemma sync_run: "page_in_sync ev s \<Longrightarrow> page_in_sync ev (security_run ev es s)"
  unfolding security_run_def by (induction es arbitrary: s) (auto simp: sync_step)

lemma security_script_init:
  "security_script ev True = Some s0 \<Longrightarrow> sc.sf_inv s0 \<and> page_in_sync ev s0"
  unfolding sc.sf_inv_def security_script_def
  by (auto simp: sync_render blank_security_def split: if_splits)

section \<open>Sorting\<close>

lemma compare_key: "comparePasskeys a b \<le> 0 \<longleftrightarrow> passkeySortKey a \<le> passkeySortKey b"
  by (auto simp: comparePasskeys_def passkeySortKey_def Let_def)

lemma insertPasskey_sort:
  "passkeys (insertPasskey p st) = sort_key passkeySortKey (passkeys st @ [p])"
  by (simp add: insertPasskey_def js_sort_key [OF compare_key])

lemma sort_key_unique:
  fixes f :: "'a \<Rightarrow> 'b::linorder"
  assumes "mset ys = mset xs" and "inj_on f (set xs)" and "sorted (map f ys)"
  shows "sort_key f xs = ys"
proof -
  have e: "set ys = set xs" using assms(1) by (rule mset_eq_setD)
  have "mset (map f (sort_key f xs)) = mset (map f ys)" using assms(1) by simp
  then have "map f (sort_key f xs) = map f ys"
    using assms(3) by (metis properties_for_sort sorted_sort_key sort_key_id_if_sorted
        map_ident properties_for_sort)
  then show ?thesis
    using assms(2) e by (metis inj_on_map_eq_map set_sort sup.idem)
qed

section \<open>The server's view\<close>

text \<open>
  What the endpoints do to the account: \<open>list_passkeys\<close> orders by creation time, to the
  microsecond, and then by id; renaming and deleting select by id.
\<close>

definition server_key :: "passkey \<Rightarrow> int \<times> int" where
  "server_key p = (created_at p, pk_id p)"

definition server_wf :: "account \<Rightarrow> bool" where
  "server_wf a \<longleftrightarrow> sorted (map server_key (passkeys a)) \<and> distinct (map pk_id (passkeys a))"

text \<open>
  Adding a passkey needs a proof (the step-up); an account without a password gives it with one of its passkeys. When the
  server verifies it, it records of that passkey the time of this use and whether it is backed up now.
\<close>

definition record_usage :: "(int \<times> int \<times> bool) option \<Rightarrow> passkey list \<Rightarrow> passkey list" where
  "record_usage u ps =
     (case u of None \<Rightarrow> ps
      | Some (j, now, b) \<Rightarrow> map (\<lambda>p. if pk_id p = j then p\<lparr>last_used_at := Some now, backed_up := b\<rparr> else p) ps)"

definition server_add :: "(int \<times> int \<times> bool) option \<Rightarrow> passkey \<Rightarrow> account \<Rightarrow> account" where
  "server_add u p a = a\<lparr>passkeys := sort_key server_key (record_usage u (passkeys a) @ [p])\<rparr>"

definition server_rename :: "int \<Rightarrow> string \<Rightarrow> account \<Rightarrow> account" where
  "server_rename i name a =
     a\<lparr>passkeys := map (\<lambda>p. if pk_id p = i then p\<lparr>pk_name := name\<rparr> else p) (passkeys a)\<rparr>"

definition server_delete :: "int \<Rightarrow> account \<Rightarrow> account" where
  "server_delete i a = a\<lparr>passkeys := filter (\<lambda>p. pk_id p \<noteq> i) (passkeys a)\<rparr>"

text \<open>An account but for the two fields that the use \<open>u\<close> of a passkey changes; without a use, the account itself.\<close>

definition without_usage :: "(int \<times> int \<times> bool) option \<Rightarrow> account \<Rightarrow> account" where
  "without_usage u a =
     (case u of None \<Rightarrow> a
      | Some (j, now, b) \<Rightarrow>
          a\<lparr>passkeys := map (\<lambda>p. if pk_id p = j then p\<lparr>last_used_at := None, backed_up := False\<rparr> else p) (passkeys a)\<rparr>)"

lemma map_insort_key: "(\<And>x. k (f x) = k x) \<Longrightarrow> map f (insort_key k x xs) = insort_key k (f x) (map f xs)"
  by (induction xs) simp_all

lemma map_sort_key: "(\<And>x. k (f x) = k x) \<Longrightarrow> map f (sort_key k xs) = sort_key k (map f xs)"
  by (induction xs) (simp_all add: map_insort_key)

lemma without_usage_add: "without_usage u (server_add u p a) = without_usage u (server_add None p a)"
proof (cases u)
  case (Some w)
  obtain j now b where u: "u = Some (j, now, b)" using Some by (cases w) simp
  let ?f = "\<lambda>p. if pk_id p = j then p\<lparr>last_used_at := None, backed_up := False\<rparr> else p"
  have k: "server_key (?f x) = server_key x" for x by (simp add: server_key_def)
  have "map ?f (record_usage u (passkeys a) @ [p]) = map ?f (passkeys a @ [p])" by (simp add: u record_usage_def)
  then show ?thesis
    by (simp add: u without_usage_def server_add_def record_usage_def map_sort_key [of server_key ?f, OF k] del: map_append)
qed simp

lemma replace_first_map:
  assumes "distinct (map pk_id ps)" and "q \<in> set ps" and "f q = p" and "pk_id p = pk_id q"
  shows "replace_first p ps = Some (map (\<lambda>x. if pk_id x = pk_id p then f x else x) ps)"
  using assms
proof (induction ps)
  case Nil
  then show ?case by simp
next
  case (Cons x xs)
  show ?case
  proof (cases "pk_id x = pk_id p")
    case True
    have n: "pk_id p \<notin> pk_id ` set xs" using Cons.prems(1) True by simp
    then have "q \<notin> set xs" using Cons.prems(4) imageI [of q "set xs" pk_id] by metis
    then have "q = x" using Cons.prems(2) by simp
    moreover have "\<forall>y\<in>set xs. pk_id y \<noteq> pk_id p"
    proof
      fix y assume "y \<in> set xs"
      then have "pk_id y \<in> pk_id ` set xs" by (rule imageI)
      then show "pk_id y \<noteq> pk_id p" using n by metis
    qed
    then have m: "map (\<lambda>x. if pk_id x = pk_id p then f x else x) xs = xs"
      by (intro map_idI) simp
    ultimately have "f x = p" using Cons.prems(3) by simp
    with m show ?thesis by (simp add: True)
  next
    case False
    then have "q \<noteq> x" using Cons.prems(4) by metis
    then have "q \<in> set xs" "distinct (map pk_id xs)" using Cons.prems(1,2) by simp_all
    from Cons.IH [OF this(2,1) Cons.prems(3,4)] show ?thesis using False by simp
  qed
qed

lemma client_order_agrees:
  assumes "server_wf a" and "pk_id p \<notin> pk_id ` set (passkeys a)"
    and same_ms: "\<forall>x\<in>insert p (set (passkeys a)). \<forall>y\<in>insert p (set (passkeys a)).
      getTime (created_at x) = getTime (created_at y) \<and> created_at x < created_at y \<longrightarrow> pk_id x < pk_id y"
  shows "sort_key passkeySortKey (passkeys a @ [p]) = sort_key server_key (passkeys a @ [p])"
proof (rule sort_key_unique)
  let ?S = "insert p (set (passkeys a))"
  have d: "inj_on pk_id ?S"
    using assms(1,2) by (auto simp: server_wf_def distinct_map)
  show "inj_on passkeySortKey (set (passkeys a @ [p]))"
    using d by (auto simp: inj_on_def passkeySortKey_def)
  show "mset (sort_key server_key (passkeys a @ [p])) = mset (passkeys a @ [p])" by simp
  have mono: "server_key x \<le> server_key y \<Longrightarrow> passkeySortKey x \<le> passkeySortKey y"
    if "x \<in> ?S" "y \<in> ?S" for x y
  proof -
    assume le: "server_key x \<le> server_key y"
    have "created_at x < created_at y \<Longrightarrow> getTime (created_at x) = getTime (created_at y) \<Longrightarrow> pk_id x < pk_id y"
      using same_ms that by blast
    moreover have "created_at x \<le> created_at y \<Longrightarrow> getTime (created_at x) \<le> getTime (created_at y)"
      by (simp add: getTime_def zdiv_mono1)
    ultimately show "passkeySortKey x \<le> passkeySortKey y"
      using le by (auto simp: server_key_def passkeySortKey_def)
  qed
  have "sorted_wrt (\<lambda>x y. server_key x \<le> server_key y) (sort_key server_key (passkeys a @ [p]))"
    using sorted_sort_key [of server_key] by (simp only: sorted_map)
  then have "sorted_wrt (\<lambda>x y. passkeySortKey x \<le> passkeySortKey y) (sort_key server_key (passkeys a @ [p]))"
    by (rule sorted_wrt_mono_rel [rotated]) (auto intro: mono)
  then show "sorted (map passkeySortKey (sort_key server_key (passkeys a @ [p])))"
    by (simp only: sorted_map)
qed

section \<open>Properties\<close>

text \<open>
  Claim C4: whatever the user clicks and types and however the answers arrive, the security
  page runs at most one mutation at a time, always of the current generation, and the page
  stays true to the script's state: the rows are the state's passkeys, every button is
  disabled exactly while a mutation runs, and the form that removes the password is offered
  only to an account that has both a password and a passkey.
\<close>

theorem security_page_consistent:
  assumes "security_script ev True = Some s0"
  shows "(let s = security_run ev es s0 in
    length (pg_inflight s) \<le> 1 \<and>
    (\<forall>g\<in>set (pg_inflight s). g = pg_generation s \<and> pg_busy s) \<and>
    (pg_busy s \<longrightarrow> pg_inflight s = [pg_generation s]) \<and>
    page_in_sync ev s)"
proof -
  have i: "sc.sf_inv s0" "page_in_sync ev s0" using security_script_init [OF assms] by blast+
  have r: "sc.sf_inv (security_run ev es s0)"
    using i(1) unfolding security_run_def by (rule sc.sf_run)
  show ?thesis
    unfolding Let_def
    using sc.at_most_one [OF r] sc.current_only [OF r] sc.busy_for_a_reason [OF r] sync_run [OF i(2), of es]
    by blast
qed

definition sample_env :: env where
  "sample_env = \<lparr>ev_i18n = sample_texts,
     ev_texts = \<lparr>t_never = ''never'', t_synced = ''synced'', t_deviceBound = ''bound'',
       t_hasPassword = ''yes'', t_noPassword = ''no'', t_passwordRequired = ''password?''\<rparr>,
     ev_supported = True, ev_locale = show_int\<rparr>"

lemma security_page_consistent_witness:
  "page_in_sync sample_env (security_run sample_env [Submit AddClick, Submit AddClick]
     ((render sample_env blank_security)\<lparr>pg_loading := True\<rparr>))"
proof -
  have s: "security_script sample_env True = Some ((render sample_env blank_security)\<lparr>pg_loading := True\<rparr>)"
    by (simp add: security_script_def sample_env_def)
  show ?thesis
    using security_page_consistent [OF s, of "[Submit AddClick, Submit AddClick]"] by (simp add: Let_def)
qed

text \<open>
  Claim C5: the local update after each successful mutation is the server's own effect, so
  no re-fetch is needed: if the page holds the server's account and the answer to the
  current action arrives, the page holds the server's account again after renaming,
  deleting and removing the password. After adding a passkey it does so whenever passkeys created
  within one millisecond got their ids in creation order, but for the passkey that the step-up was
  signed with, if it was: of that row the time of the last use and the mark whether it is backed up stay as they were.
\<close>

theorem local_update_refines_server:
  assumes wf: "server_wf a" and st: "pg_state s = a" and g: "g = pg_generation s"
  shows "(q \<in> set (passkeys a) \<longrightarrow>
      pg_state (security_settle ev g (Renamed (q\<lparr>pk_name := name\<rparr>)) s) = server_rename (pk_id q) name a) \<and>
    pg_state (security_settle ev g (Removed i) s) = server_delete i a \<and>
    pg_state (security_settle ev g (PasswordRemoved False) s) = a\<lparr>has_password := False\<rparr> \<and>
    (pk_id p \<notin> pk_id ` set (passkeys a) \<and>
     (\<forall>x\<in>insert p (set (passkeys a)). \<forall>y\<in>insert p (set (passkeys a)).
        getTime (created_at x) = getTime (created_at y) \<and> created_at x < created_at y \<longrightarrow> pk_id x < pk_id y) \<longrightarrow>
      without_usage u (pg_state (security_settle ev g (Added p) s)) = without_usage u (server_add u p a))"
proof -
  have ok: "pg_state (succeed ev g f (settled g s)) = pg_state (f ((settled g s)\<lparr>pg_busy := False\<rparr>))" for f
    using g by (simp add: succeed_def endAction_def settled_def)
  have sett: "pg_state ((settled g s)\<lparr>pg_busy := False\<rparr>) = a" "pg_state (settled g s) = a"
    by (simp_all add: settled_def st)
  have "pg_state (security_settle ev g (Renamed (q\<lparr>pk_name := name\<rparr>)) s) = server_rename (pk_id q) name a"
    if "q \<in> set (passkeys a)"
    using replace_first_map [of "passkeys a" q "\<lambda>p. p\<lparr>pk_name := name\<rparr>" "q\<lparr>pk_name := name\<rparr>"] that wf
    by (simp add: security_settle_def ok sett replacePasskey_def server_rename_def server_wf_def)
  moreover have "pg_state (security_settle ev g (Added p) s) = server_add None p a"
    if "pk_id p \<notin> pk_id ` set (passkeys a)"
      "\<forall>x\<in>insert p (set (passkeys a)). \<forall>y\<in>insert p (set (passkeys a)).
        getTime (created_at x) = getTime (created_at y) \<and> created_at x < created_at y \<longrightarrow> pk_id x < pk_id y"
    using client_order_agrees [OF wf that]
    by (simp add: security_settle_def ok sett insertPasskey_def js_sort_key [OF compare_key] server_add_def record_usage_def)
  ultimately show ?thesis
    by (simp add: without_usage_add [of u] security_settle_def ok sett removeLocally_def server_delete_def)
qed

definition sample_passkey :: "int \<Rightarrow> int \<Rightarrow> passkey" where
  "sample_passkey i t = \<lparr>pk_id = i, pk_name = ''phone'', created_at = t, last_used_at = None,
     backed_up = True, authenticator = []\<rparr>"

lemma local_update_refines_server_witness:
  "without_usage (Some (1, 4000, False)) (pg_state (security_settle sample_env 0 (Added (sample_passkey 2 5000))
      (blank_security\<lparr>pg_state := \<lparr>has_password = False, passkeys = [sample_passkey 1 3000]\<rparr>\<rparr>)))
   = without_usage (Some (1, 4000, False))
      (server_add (Some (1, 4000, False)) (sample_passkey 2 5000) \<lparr>has_password = False, passkeys = [sample_passkey 1 3000]\<rparr>)"
  using local_update_refines_server [of "\<lparr>has_password = False, passkeys = [sample_passkey 1 3000]\<rparr>"
      "blank_security\<lparr>pg_state := \<lparr>has_password = False, passkeys = [sample_passkey 1 3000]\<rparr>\<rparr>" 0
      "sample_passkey 1 3000" sample_env "[]" 0 "sample_passkey 2 5000" "Some (1, 4000, False)"]
  by (simp add: server_wf_def blank_security_def sample_passkey_def getTime_def)

text \<open>
  The row of the passkey that signed the step-up is stale until the page is loaded again, in its last use and, where the
  authenticator reports a new backup state, in its mark.
\<close>

lemma step_up_row_stays_stale:
  "pg_state (security_settle sample_env 0 (Added (sample_passkey 2 5000))
      (blank_security\<lparr>pg_state := \<lparr>has_password = False, passkeys = [sample_passkey 1 3000]\<rparr>\<rparr>))
     = \<lparr>has_password = False, passkeys = [sample_passkey 1 3000, sample_passkey 2 5000]\<rparr>"
  "server_add (Some (1, 4000, False)) (sample_passkey 2 5000) \<lparr>has_password = False, passkeys = [sample_passkey 1 3000]\<rparr>
     = \<lparr>has_password = False, passkeys = [(sample_passkey 1 3000)\<lparr>last_used_at := Some 4000, backed_up := False\<rparr>, sample_passkey 2 5000]\<rparr>"
  by code_simp+

text \<open>
  Claim C40: when a rename or delete fails because the passkey is gone (404), the row is
  dropped, the other rows stay, the message is shown next to the list and the page is ready
  for the next action; any other failure of the current action keeps the rows.
\<close>

theorem list_failure_reconciles:
  assumes "page_in_sync ev s" and "g = pg_generation s"
  shows "(let s' = security_settle ev g (ListFailed i err) s in
    passkeys (pg_state s') = (if err_status err = Some 404
       then filter (\<lambda>p. pk_id p \<noteq> i) (passkeys (pg_state s)) else passkeys (pg_state s)) \<and>
    map row_passkey (pg_rows s') = passkeys (pg_state s') \<and>
    pg_list_error s' = errorMessage (ev_i18n ev) (Some err) \<and> pg_error s' = pg_error s \<and>
    \<not> pg_busy s' \<and> \<not> pg_add_disabled s')"
proof -
  have "page_in_sync ev (security_settle ev g (ListFailed i err) s)"
    by (rule sync_settle [OF assms(1)])
  moreover have "\<not> pg_busy (security_settle ev g (ListFailed i err) s)"
    by (simp add: settle_frame assms(2))
  ultimately have v: "map row_passkey (pg_rows (security_settle ev g (ListFailed i err) s))
      = passkeys (pg_state (security_settle ev g (ListFailed i err) s))
     \<and> \<not> pg_busy (security_settle ev g (ListFailed i err) s)
     \<and> \<not> pg_add_disabled (security_settle ev g (ListFailed i err) s)"
    by (simp add: page_in_sync_def render_row_def Let_def comp_def)
  show ?thesis
    using assms(2) v
    by (simp add: Let_def security_settle_def settled_def handleListFailure_def failAction_def
        failList_def removeLocally_def)
qed

lemma list_failure_reconciles_witness:
  "passkeys (pg_state (security_settle sample_env 0
      (ListFailed 1 \<lparr>err_name = ''Error'', err_status = Some 404, err_data = None\<rparr>)
      (render sample_env (blank_security\<lparr>pg_state := \<lparr>has_password = True,
          passkeys = [sample_passkey 1 3000, sample_passkey 2 5000]\<rparr>\<rparr>)))) = [sample_passkey 2 5000]"
  using list_failure_reconciles [where s = "render sample_env (blank_security\<lparr>pg_state := \<lparr>has_password = True,
          passkeys = [sample_passkey 1 3000, sample_passkey 2 5000]\<rparr>\<rparr>)" and ev = sample_env and g = 0 and i = 1
      and err = "\<lparr>err_name = ''Error'', err_status = Some 404, err_data = None\<rparr>", OF sync_render]
  by (simp add: Let_def blank_security_def sample_passkey_def render_def setActionsDisabled_def)

text \<open>
  Adding a passkey with a blank step-up password is refused on the page: no
  request is sent, and the reason shown is the page's own text.
\<close>

theorem blank_step_up_sends_nothing:
  assumes "has_password (pg_state s)" and "pg_step_up_input s = []"
    and "t_passwordRequired (ev_texts ev) \<noteq> []"
  shows "\<exists>err. add_ceremony ev (recording B) (w, []) s = ((w, []), Inl err) \<and>
    errorMessage (ev_i18n ev) (Some err) = t_passwordRequired (ev_texts ev)"
  using assms by (auto simp: add_ceremony_def stepUp_def errorMessage_def Let_def)

lemma blank_step_up_sends_nothing_witness:
  "\<exists>err. add_ceremony sample_env (recording sample_browser) ((), [])
     (blank_security\<lparr>pg_state := \<lparr>has_password = True, passkeys = []\<rparr>\<rparr>) = (((), []), Inl err)"
proof -
  have h: "has_password (pg_state (blank_security\<lparr>pg_state := \<lparr>has_password = True, passkeys = []\<rparr>\<rparr>))"
    "pg_step_up_input (blank_security\<lparr>pg_state := \<lparr>has_password = True, passkeys = []\<rparr>\<rparr>) = []"
    "t_passwordRequired (ev_texts sample_env) \<noteq> []"
    by (simp_all add: blank_security_def sample_env_def)
  show ?thesis
    using blank_step_up_sends_nothing [OF h, of sample_browser "()"] by auto
qed

text \<open>
  \<open>load\<close> is not guarded: a list that was requested before a passkey was added and
  arrives after it replaces the newer state, and the new passkey disappears from the page
  until the next visit although the server has it.
\<close>

theorem late_load_hides_new_passkey:
  "\<exists>s0 p. security_script sample_env True = Some s0 \<and>
     p \<in> set (passkeys (pg_state (security_run sample_env [Submit AddClick, Settle 1 (Added p)] s0))) \<and>
     passkeys (pg_state (security_run sample_env [Submit AddClick, Settle 1 (Added p),
        Other (LoadOk \<lparr>has_password = False, passkeys = []\<rparr>)] s0)) = []"
  by (rule exI [of _ "(render sample_env blank_security)\<lparr>pg_loading := True\<rparr>"],
      rule exI [of _ "sample_passkey 1 3000"])
     (simp add: security_script_def sample_env_def security_run_def security_defs blank_security_def
        insertPasskey_def js_sort_def)

end
