(* ===== verification/UserDataApp.thy ===== *)
theory UserDataApp imports Main Prelude JsValue Passkey begin

text \<open>
  app/assets/app.js: the AngularJS application of the user-data pages. The root scope with the
  user's items and the sharing check boxes, \<open>UserDataController\<close>, the password signup of
  \<open>RegisterController\<close>, and the upload dialog. The scopes and closure variables of a controller
  are one record, each callback is a function on it, and what the page has sent or opened and
  not yet got back (requests, timeouts, modal dialogs) is part of the record. The endpoints
  of user_data/views.py that these handlers talk to are modelled beside them.
\<close>

section \<open>The root scope\<close>

record item =
  it_pk :: int
  it_platform :: json
  it_file :: string
  it_created :: int

record sharing_item =
  sh_pk :: int
  sh_username :: string
  sh_count :: int

record root =
  items :: "item list"
  sharingList :: "sharing_item list"
  sharing :: "int \<Rightarrow> bool option"

definition fresh_root :: root where
  "fresh_root = \<lparr>items = [], sharingList = [], sharing = (\<lambda>pk. None)\<rparr>"

text \<open>The two continuations of \<open>loadUserData\<close> and of \<open>loadSharingList\<close>: an error empties the list.\<close>

definition loadUserData :: "(js_err + item list) \<Rightarrow> root \<Rightarrow> root" where
  "loadUserData answer r = (case answer of Inr xs \<Rightarrow> r\<lparr>items := xs\<rparr> | Inl e \<Rightarrow> r\<lparr>items := []\<rparr>)"

fun set_sharing :: "sharing_item list \<Rightarrow> (int \<Rightarrow> bool option) \<Rightarrow> (int \<Rightarrow> bool option)" where
  "set_sharing [] m = m"
| "set_sharing (x # xs) m = set_sharing xs (m(sh_pk x \<mapsto> sh_count x \<noteq> 0))"

definition loadSharingList :: "(js_err + sharing_item list) \<Rightarrow> root \<Rightarrow> root" where
  "loadSharingList answer r =
     (case answer of
        Inr xs \<Rightarrow> r\<lparr>sharingList := xs, sharing := set_sharing xs (sharing r)\<rparr>
      | Inl e \<Rightarrow> r\<lparr>sharingList := []\<rparr>)"

lemma set_sharing_notin: "pk \<notin> sh_pk ` set xs \<Longrightarrow> set_sharing xs m pk = m pk"
  by (induction xs arbitrary: m) auto

lemma set_sharing_in:
  "distinct (map sh_pk xs) \<Longrightarrow> x \<in> set xs \<Longrightarrow> set_sharing xs m (sh_pk x) = Some (sh_count x \<noteq> 0)"
proof (induction xs arbitrary: m)
  case Nil
  then show ?case by simp
next
  case (Cons y ys)
  then show ?case by (cases "x = y") (auto simp: set_sharing_notin)
qed

section \<open>The tabs\<close>

text \<open>\<open>v == k\<close> for a text \<open>k\<close> that is not a numeral: only strings and arrays can be equal to it.\<close>

fun loose_eq_text :: "json \<Rightarrow> string \<Rightarrow> bool" where
  "loose_eq_text (JStr s) k = (s = k)"
| "loose_eq_text (JArr xs) k = (js_String (JArr xs) = k)"
| "loose_eq_text v k = False"

definition ios :: "item \<Rightarrow> bool" where
  "ios element = loose_eq_text (it_platform element) ''ios''"

definition android :: "item \<Rightarrow> bool" where
  "android element = loose_eq_text (it_platform element) ''android''"

definition pc :: "item \<Rightarrow> bool" where
  "pc element = loose_eq_text (it_platform element) ''pc''"

text \<open>
  The server's \<open>upload_view\<close> derives the platform from the end of the file name.
\<close>

definition ends_with :: "string \<Rightarrow> string \<Rightarrow> bool" where
  "ends_with s suffix = (length suffix \<le> length s \<and> drop (length s - length suffix) s = suffix)"

definition upload_platform :: "string \<Rightarrow> json" where
  "upload_platform filename =
     (if ends_with filename ''.json.etz'' \<or> ends_with filename ''.json'' then JStr ''ios''
      else if ends_with filename ''.etz'' then JStr ''pc''
      else if ends_with filename ''.js'' then JStr ''android''
      else JNull)"

section \<open>Deleting an item\<close>

text \<open>
  The confirmation dialogs that were opened, and the requests they led to. A dialog may call back
  more than once while it is fading out.
\<close>

record user_data =
  ud_root :: root
  ud_confirm :: "int list"
  ud_deletes :: "int list"

definition delete_click :: "int \<Rightarrow> user_data \<Rightarrow> user_data" where
  "delete_click pk s = s\<lparr>ud_confirm := pk # ud_confirm s\<rparr>"

definition doDelete :: "int \<Rightarrow> user_data \<Rightarrow> user_data" where
  "doDelete pk s = s\<lparr>ud_deletes := pk # ud_deletes s\<rparr>"

definition confirm_answer :: "int \<Rightarrow> bool \<Rightarrow> user_data \<Rightarrow> user_data" where
  "confirm_answer pk answer s =
     (if pk \<in> set (ud_confirm s) \<and> answer then doDelete pk s else s)"

text \<open>A successful deletion reloads the list (\<open>Inr\<close>), a failed one is only logged.\<close>

definition delete_answer :: "int \<Rightarrow> js_err + (js_err + item list) \<Rightarrow> user_data \<Rightarrow> user_data" where
  "delete_answer pk answer s =
     (if pk \<in> set (ud_deletes s) then
        (let s1 = s\<lparr>ud_deletes := remove1 pk (ud_deletes s)\<rparr>
         in case answer of Inl e \<Rightarrow> s1 | Inr reload \<Rightarrow> s1\<lparr>ud_root := loadUserData reload (ud_root s1)\<rparr>)
      else s)"

section \<open>Sharing\<close>

datatype http_method = POST | DELETE

text \<open>
  A click on a check box flips the model value and calls \<open>changeSharing\<close>, which sends the new
  value. \<open>net_pending\<close> are the requests the server has not handled yet, oldest first, and
  \<open>net_followers\<close> the users the server has recorded as followers of this one.
\<close>

record sharing_net =
  net_root :: root
  net_pending :: "(http_method \<times> int) list"
  net_followers :: "int set"

definition changeSharing :: "int \<Rightarrow> root \<Rightarrow> http_method \<times> int" where
  "changeSharing pk r = (if sharing r pk = Some True then POST else DELETE, pk)"

definition toggle :: "int \<Rightarrow> sharing_net \<Rightarrow> sharing_net" where
  "toggle pk n =
     (let r = (net_root n)\<lparr>sharing := (sharing (net_root n))(pk \<mapsto> sharing (net_root n) pk \<noteq> Some True)\<rparr>
      in n\<lparr>net_root := r, net_pending := net_pending n @ [changeSharing pk r]\<rparr>)"

text \<open>
  The endpoint: \<open>DELETE\<close> always succeeds; \<open>POST\<close> records an existing user that does not
  follow yet, and everything else is \<open>Http404\<close>.
\<close>

fun follower_view :: "int set \<Rightarrow> http_method \<times> int \<Rightarrow> int set \<Rightarrow> js_err + int set" where
  "follower_view users (DELETE, pk) F = Inr (F - {pk})"
| "follower_view users (POST, pk) F =
     (if pk \<notin> F \<and> pk \<in> users then Inr (insert pk F)
      else Inl \<lparr>err_name = ''Error'', err_status = Some 404, err_data = None\<rparr>)"

definition handle_request :: "int set \<Rightarrow> http_method \<times> int \<Rightarrow> int set \<Rightarrow> int set" where
  "handle_request users q F = (case follower_view users q F of Inr F' \<Rightarrow> F' | Inl e \<Rightarrow> F)"

text \<open>The server handles the request at position \<open>i\<close>; both continuations leave the page alone.\<close>

definition server_handles :: "int set \<Rightarrow> nat \<Rightarrow> sharing_net \<Rightarrow> sharing_net" where
  "server_handles users i n =
     (if i < length (net_pending n) then
        n\<lparr>net_pending := take i (net_pending n) @ drop (Suc i) (net_pending n),
          net_followers := handle_request users (net_pending n ! i) (net_followers n)\<rparr>
      else n)"

datatype sharing_event = Toggle int | ServerHandles nat

text \<open>
  \<open>sharing_ok\<close>: the page toggles only users of its list, and the server does not handle a
  request before an older one about the same user.
\<close>

fun sharing_ok :: "int set \<Rightarrow> sharing_event \<Rightarrow> sharing_net \<Rightarrow> bool" where
  "sharing_ok users (Toggle pk) n = (pk \<in> users)"
| "sharing_ok users (ServerHandles i) n =
     (i < length (net_pending n) \<longrightarrow> snd (net_pending n ! i) \<notin> snd ` set (take i (net_pending n)))"

fun sharing_step :: "int set \<Rightarrow> sharing_event \<Rightarrow> sharing_net \<Rightarrow> sharing_net" where
  "sharing_step users (Toggle pk) n = toggle pk n"
| "sharing_step users (ServerHandles i) n = server_handles users i n"

fun sharing_run :: "int set \<Rightarrow> sharing_event list \<Rightarrow> sharing_net \<Rightarrow> sharing_net option" where
  "sharing_run users [] n = Some n"
| "sharing_run users (e # es) n =
     (if sharing_ok users e n then sharing_run users es (sharing_step users e n) else None)"


section \<open>The check boxes follow the server\<close>

definition all_handled :: "int set \<Rightarrow> sharing_net \<Rightarrow> int set" where
  "all_handled users n = fold (handle_request users) (net_pending n) (net_followers n)"

definition sharing_agrees :: "int set \<Rightarrow> sharing_net \<Rightarrow> bool" where
  "sharing_agrees users n \<longleftrightarrow>
     (\<forall>pk\<in>users. sharing (net_root n) pk = Some (pk \<in> all_handled users n))"

lemma handle_simps [simp]:
  "handle_request users (DELETE, pk) F = F - {pk}"
  "handle_request users (POST, pk) F = (if pk \<in> users then insert pk F else F)"
  by (auto simp: handle_request_def)

lemma handle_other: "p \<noteq> snd q \<Longrightarrow> p \<in> handle_request users q F \<longleftrightarrow> p \<in> F"
  by (cases q; cases "fst q") auto

lemma handle_same: "snd q \<in> users \<Longrightarrow> snd q \<in> handle_request users q F \<longleftrightarrow> fst q = POST"
  by (cases q; cases "fst q") auto

lemma handle_commute:
  "snd q \<noteq> snd r \<Longrightarrow> handle_request users q (handle_request users r F)
     = handle_request users r (handle_request users q F)"
  by (cases q; cases r; cases "fst q"; cases "fst r") auto

lemma fold_handle_commute:
  "snd q \<notin> snd ` set qs \<Longrightarrow> fold (handle_request users) qs (handle_request users q F)
     = handle_request users q (fold (handle_request users) qs F)"
  by (induction qs arbitrary: F) (auto simp: handle_commute)

lemma all_handled_toggle:
  "all_handled users (toggle pk n)
     = handle_request users (if sharing (net_root n) pk = Some True then DELETE else POST, pk) (all_handled users n)"
  by (auto simp: all_handled_def toggle_def changeSharing_def Let_def)

lemma all_handled_server:
  assumes "sharing_ok users (ServerHandles i) n"
  shows "all_handled users (server_handles users i n) = all_handled users n"
proof (cases "i < length (net_pending n)")
  case True
  let ?q = "net_pending n ! i"
  have split: "net_pending n = take i (net_pending n) @ ?q # drop (Suc i) (net_pending n)"
    using True by (rule id_take_nth_drop)
  have "fold (handle_request users) (net_pending n) (net_followers n) =
      fold (handle_request users) (drop (Suc i) (net_pending n)) (handle_request users ?q
        (fold (handle_request users) (take i (net_pending n)) (net_followers n)))"
    by (subst split) simp
  also have "\<dots> = fold (handle_request users) (drop (Suc i) (net_pending n))
      (fold (handle_request users) (take i (net_pending n)) (handle_request users ?q (net_followers n)))"
    using assms True by (simp add: fold_handle_commute)
  finally show ?thesis using True by (simp add: all_handled_def server_handles_def)
next
  case False
  then show ?thesis by (simp add: server_handles_def)
qed

lemma toggle_agrees:
  assumes "sharing_agrees users n" and "pk \<in> users"
  shows "sharing_agrees users (toggle pk n)"
  unfolding sharing_agrees_def all_handled_toggle
proof
  fix p assume p: "p \<in> users"
  have a: "sharing (net_root n) p = Some (p \<in> all_handled users n)"
    using assms(1) p by (simp add: sharing_agrees_def)
  show "sharing (net_root (toggle pk n)) p = Some (p \<in> handle_request users
      (if sharing (net_root n) pk = Some True then DELETE else POST, pk) (all_handled users n))"
    using a assms(2) by (cases "p = pk") (auto simp: toggle_def Let_def)
qed

lemma server_agrees:
  assumes "sharing_agrees users n" and "sharing_ok users (ServerHandles i) n"
  shows "sharing_agrees users (server_handles users i n)"
proof -
  have "net_root (server_handles users i n) = net_root n"
    by (simp add: server_handles_def)
  then show ?thesis using assms by (simp add: sharing_agrees_def all_handled_server)
qed

lemma run_agrees:
  "sharing_agrees users n \<Longrightarrow> sharing_run users es n = Some n' \<Longrightarrow> sharing_agrees users n'"
proof (induction es arbitrary: n)
  case Nil
  then show ?case by simp
next
  case (Cons e es)
  then have ok: "sharing_ok users e n" "sharing_run users es (sharing_step users e n) = Some n'"
    by (auto split: if_splits)
  have "sharing_agrees users (sharing_step users e n)"
    using ok(1) Cons.prems(1) toggle_agrees server_agrees by (cases e) auto
  then show ?case using ok(2) by (rule Cons.IH)
qed

text \<open>
  Claim C8: the sharing check boxes and the server agree: once the list is loaded, any
  sequence of clicks, with the requests handled in any order that keeps the requests about
  one user in sequence, leads to a state in which every box, after the requests still under
  way, shows what the server has recorded.
\<close>

theorem sharing_boxes_follow_server:
  assumes "distinct (map sh_pk xs)" and "users = sh_pk ` set xs"
    and "\<forall>x\<in>set xs. sh_count x \<noteq> 0 \<longleftrightarrow> sh_pk x \<in> F"
    and "sharing_run users es \<lparr>net_root = loadSharingList (Inr xs) r, net_pending = [], net_followers = F\<rparr> = Some n"
  shows "(\<forall>pk\<in>users. sharing (net_root n) pk =
      Some (pk \<in> fold (handle_request users) (net_pending n) (net_followers n)))
    \<and> (net_pending n = [] \<longrightarrow> (\<forall>pk\<in>users. sharing (net_root n) pk = Some (pk \<in> net_followers n)))"
proof -
  have "sharing_agrees users \<lparr>net_root = loadSharingList (Inr xs) r, net_pending = [], net_followers = F\<rparr>"
    using assms(1-3) by (auto simp: sharing_agrees_def all_handled_def loadSharingList_def set_sharing_in)
  then have "sharing_agrees users n" using assms(4) by (rule run_agrees)
  then show ?thesis by (auto simp: sharing_agrees_def all_handled_def)
qed

lemma sharing_boxes_follow_server_witness:
  "\<exists>n. sharing_run {7} [Toggle 7, Toggle 7, ServerHandles 0, ServerHandles 0]
     \<lparr>net_root = loadSharingList (Inr [\<lparr>sh_pk = 7, sh_username = ''a'', sh_count = 0\<rparr>]) fresh_root,
       net_pending = [], net_followers = {}\<rparr> = Some n \<and> sharing (net_root n) 7 = Some False"
proof -
  let ?x = "\<lparr>sh_pk = 7, sh_username = ''a'', sh_count = 0\<rparr>"
  have e: "\<exists>n. sharing_run {7} [Toggle 7, Toggle 7, ServerHandles 0, ServerHandles 0]
     \<lparr>net_root = loadSharingList (Inr [?x]) fresh_root, net_pending = [], net_followers = {}\<rparr> = Some n
     \<and> net_pending n = [] \<and> net_followers n = {}"
    by (simp add: toggle_def server_handles_def changeSharing_def Let_def loadSharingList_def fresh_root_def)
  then obtain n where n: "sharing_run {7} [Toggle 7, Toggle 7, ServerHandles 0, ServerHandles 0]
     \<lparr>net_root = loadSharingList (Inr [?x]) fresh_root, net_pending = [], net_followers = {}\<rparr> = Some n"
     "net_pending n = []" "net_followers n = {}" by blast
  have h: "distinct (map sh_pk [?x])" "{7} = sh_pk ` set [?x]" "\<forall>x\<in>set [?x]. sh_count x \<noteq> 0 \<longleftrightarrow> sh_pk x \<in> {}"
    by simp_all
  show ?thesis
    using sharing_boxes_follow_server [OF h n(1)] n by auto
qed

text \<open>
  Without that order the page can be wrong for good: a user who ticks a box and
  unticks it again sees it empty while the server, having handled the two requests in the
  other order, shares the data, and nothing is left under way that would correct it.
\<close>

theorem sharing_requests_race:
  "\<exists>n. n = server_handles {7} 0 (server_handles {7} 1 (toggle 7 (toggle 7
        \<lparr>net_root = loadSharingList (Inr [\<lparr>sh_pk = 7, sh_username = ''a'', sh_count = 0\<rparr>]) fresh_root,
          net_pending = [], net_followers = {}\<rparr>)))
     \<and> sharing (net_root n) 7 = Some False \<and> 7 \<in> net_followers n \<and> net_pending n = []"
  by (simp add: toggle_def server_handles_def changeSharing_def Let_def loadSharingList_def)

text \<open>
  Every file the upload dialog accepts (names ending in .js, .etz or .json) is
  listed under exactly one of the three tabs after the server has classified it.
\<close>

theorem upload_listed_once:
  assumes "ends_with name ''.js'' \<or> ends_with name ''.etz'' \<or> ends_with name ''.json''"
    and "it_platform e = upload_platform name"
  shows "length (filter (\<lambda>tab. tab e) [ios, android, pc]) = 1"
  using assms by (auto simp: upload_platform_def ios_def android_def pc_def)

lemma upload_listed_once_witness:
  "length (filter (\<lambda>tab. tab \<lparr>it_pk = 1, it_platform = upload_platform ''a.etz'', it_file = ''a.etz'', it_created = 0\<rparr>)
     [ios, android, pc]) = 1"
proof -
  have h: "ends_with ''a.etz'' ''.js'' \<or> ends_with ''a.etz'' ''.etz'' \<or> ends_with ''a.etz'' ''.json''"
    by (simp add: ends_with_def)
  show ?thesis
    using upload_listed_once [OF h, of "\<lparr>it_pk = 1, it_platform = upload_platform ''a.etz'', it_file = ''a.etz'', it_created = 0\<rparr>"]
    by simp
qed


section \<open>Password signup\<close>

text \<open>
  \<open>rg_modal\<close> is the variable \<open>modalInstance\<close>, \<open>rg_open\<close> the dialogs the modal service shows,
  \<open>rg_timers\<close> the timeouts of \<open>signup\<close> and \<open>rg_posts\<close> the posted forms that have no answer yet.
  A model value that the user has not filled in, or that AngularJS rejected, is \<open>None\<close>.
\<close>

record input_form =
  fm_email :: "string option"
  fm_username :: "string option"
  fm_password1 :: "string option"
  fm_password2 :: "string option"

record form_error =
  fe_email :: "json option"
  fe_username :: "json option"
  fe_password :: "json option"

record register =
  rg_form :: input_form
  rg_error :: form_error
  rg_modal :: "nat option"
  rg_open :: "nat list"
  rg_next :: nat
  rg_timers :: "string list"
  rg_posts :: "(string \<times> input_form) list"
  rg_location :: "string option"

definition no_error :: form_error where
  "no_error = \<lparr>fe_email = None, fe_username = None, fe_password = None\<rparr>"

definition fresh_register :: register where
  "fresh_register = \<lparr>rg_form = \<lparr>fm_email = None, fm_username = None, fm_password1 = None, fm_password2 = None\<rparr>,
     rg_error = no_error, rg_modal = None, rg_open = [], rg_next = 0, rg_timers = [], rg_posts = [],
     rg_location = None\<rparr>"

definition openLoadingModal :: "register \<Rightarrow> nat \<times> register" where
  "openLoadingModal s = (rg_next s, s\<lparr>rg_next := Suc (rg_next s), rg_open := rg_next s # rg_open s\<rparr>)"

text \<open>Closing the instance in \<open>modalInstance\<close>; closing one that is already closed does nothing.\<close>

definition close_modal :: "register \<Rightarrow> register" where
  "close_modal s = (case rg_modal s of None \<Rightarrow> s | Some m \<Rightarrow> s\<lparr>rg_open := removeAll m (rg_open s)\<rparr>)"

definition checkMatchPassword :: "input_form \<Rightarrow> bool" where
  "checkMatchPassword f = (fm_password1 f = fm_password2 f)"

text \<open>Only called for a filled form: \<open>undefined.length\<close> would throw.\<close>

definition checkLongPassword :: "input_form \<Rightarrow> bool" where
  "checkLongPassword f = (case fm_password1 f of None \<Rightarrow> False | Some p \<Rightarrow> length p > 4)"

definition filled :: "string option \<Rightarrow> bool" where
  "filled v = (case v of None \<Rightarrow> False | Some s \<Rightarrow> s \<noteq> [])"

definition checkFillInputs :: "input_form \<Rightarrow> bool" where
  "checkFillInputs f = (filled (fm_email f) \<and> filled (fm_username f) \<and>
     filled (fm_password1 f) \<and> filled (fm_password2 f))"

definition signup :: "i18n \<Rightarrow> string \<Rightarrow> register \<Rightarrow> register" where
  "signup t url s0 =
     (let s = s0\<lparr>rg_error := no_error\<rparr> in
      if checkFillInputs (rg_form s) then
        if checkMatchPassword (rg_form s) \<and> checkLongPassword (rg_form s) then
          (case openLoadingModal s of (m, s1) \<Rightarrow> s1\<lparr>rg_modal := Some m, rg_timers := rg_timers s1 @ [url]\<rparr>)
        else if checkMatchPassword (rg_form s) then
          s\<lparr>rg_error := no_error\<lparr>fe_password := Some (JStr (passwordTooShort t))\<rparr>\<rparr>
        else s\<lparr>rg_error := no_error\<lparr>fe_password := Some (JStr (passwordsNotMatch t))\<rparr>\<rparr>
      else s)"

text \<open>The timeout's callback posts the form as it is then.\<close>

definition signup_timeout :: "register \<Rightarrow> register" where
  "signup_timeout s =
     (case rg_timers s of
        [] \<Rightarrow> s
      | url # ts \<Rightarrow> s\<lparr>rg_timers := ts, rg_posts := rg_posts s @ [(url, rg_form s)]\<rparr>)"

definition error_fields :: "json \<Rightarrow> form_error" where
  "error_fields data =
     (let email = js_get data ''email''; username = js_get data ''username'';
          password = js_get data ''password''; nonField = js_get data ''non_field_errors'';
          detail = js_get data ''detail'';
          e = no_error\<lparr>fe_email := if truthy_opt email then js_index (the email) 0 else None,
                fe_username := if truthy_opt username then js_index (the username) 0 else None,
                fe_password := if truthy_opt password then js_index (the password) 0 else None\<rparr>
      in if truthy_opt (fe_password e) then e
         else if truthy_opt nonField then e\<lparr>fe_password := js_index (the nonField) 0\<rparr>
         else if truthy_opt detail then e\<lparr>fe_password := detail\<rparr>
         else e)"

definition signup_error :: "i18n \<Rightarrow> json option \<Rightarrow> form_error" where
  "signup_error t data =
     (let e = (if truthy_opt data \<and> is_object_type (the data) then error_fields (the data) else no_error)
      in if \<not> truthy_opt (fe_email e) \<and> \<not> truthy_opt (fe_username e) \<and> \<not> truthy_opt (fe_password e)
         then e\<lparr>fe_password := Some (JStr (signupGenericError t))\<rparr> else e)"

text \<open>The answer to the \<open>i\<close>-th post: \<open>Inr\<close> on success, \<open>Inl\<close> with the error's \<open>data\<close> otherwise.\<close>

definition doSignup_answer :: "i18n \<Rightarrow> nat \<Rightarrow> json option + json \<Rightarrow> register \<Rightarrow> register" where
  "doSignup_answer t i answer s =
     (if i < length (rg_posts s) then
        (let s1 = close_modal (s\<lparr>rg_posts := take i (rg_posts s) @ drop (Suc i) (rg_posts s)\<rparr>)
         in case answer of
              Inr response \<Rightarrow> s1\<lparr>rg_location := Some ''/signup/validate/''\<rparr>
            | Inl data \<Rightarrow> s1\<lparr>rg_error := signup_error t data\<rparr>)
      else s)"

datatype register_event =
    Edit input_form
  | SignupClick string
  | TimeoutRuns
  | Answer nat "json option + json"

fun register_step :: "i18n \<Rightarrow> register_event \<Rightarrow> register \<Rightarrow> register" where
  "register_step t (Edit f) s = s\<lparr>rg_form := f\<rparr>"
| "register_step t (SignupClick url) s = signup t url s"
| "register_step t TimeoutRuns s = signup_timeout s"
| "register_step t (Answer i answer) s = doSignup_answer t i answer s"

definition signup_ready :: "input_form \<Rightarrow> bool" where
  "signup_ready f = (checkFillInputs f \<and> checkMatchPassword f \<and> checkLongPassword f)"

text \<open>How many submissions are under way.\<close>

definition underway :: "register \<Rightarrow> nat" where
  "underway s = length (rg_timers s) + length (rg_posts s)"

text \<open>A run in which the button is not pressed again while a submission is under way.\<close>

fun patient_run :: "i18n \<Rightarrow> register_event list \<Rightarrow> register \<Rightarrow> register option" where
  "patient_run t [] s = Some s"
| "patient_run t (e # es) s =
     (case e of
        SignupClick url \<Rightarrow> (if underway s = 0 then patient_run t es (register_step t e s) else None)
      | _ \<Rightarrow> patient_run t es (register_step t e s))"

definition modal_inv :: "register \<Rightarrow> bool" where
  "modal_inv s \<longleftrightarrow>
     (underway s = 0 \<longrightarrow> rg_open s = []) \<and> underway s \<le> 1 \<and>
     (underway s = 1 \<longrightarrow> (\<exists>m. rg_modal s = Some m \<and> rg_open s = [m]))"

lemmas register_defs = signup_def signup_timeout_def doSignup_answer_def close_modal_def
  openLoadingModal_def underway_def Let_def

lemma modal_inv_signup: "modal_inv s \<Longrightarrow> underway s = 0 \<Longrightarrow> modal_inv (signup t url s)"
  by (auto simp: modal_inv_def register_defs)

lemma modal_inv_timeout: "modal_inv s \<Longrightarrow> modal_inv (signup_timeout s)"
  by (auto simp: modal_inv_def register_defs split: list.splits)

lemma underway_answer:
  "i < length (rg_posts s) \<Longrightarrow> Suc (underway (doSignup_answer t i a s)) = underway s"
  by (auto simp: register_defs split: option.splits sum.splits)

lemma open_answer:
  "i < length (rg_posts s) \<Longrightarrow> rg_modal s = Some m \<Longrightarrow> rg_open (doSignup_answer t i a s) = removeAll m (rg_open s)"
  by (auto simp: register_defs split: sum.splits)

lemma modal_inv_answer: "modal_inv s \<Longrightarrow> modal_inv (doSignup_answer t i a s)"
proof (cases "i < length (rg_posts s)")
  case True
  assume m: "modal_inv s"
  then have "underway s = 1" using True by (auto simp: modal_inv_def underway_def)
  then obtain k where k: "rg_modal s = Some k" "rg_open s = [k]" using m by (auto simp: modal_inv_def)
  have "underway (doSignup_answer t i a s) = 0" using underway_answer [OF True, of t a] \<open>underway s = 1\<close> by simp
  moreover have "rg_open (doSignup_answer t i a s) = []" using open_answer [OF True k(1)] k(2) by simp
  ultimately show ?thesis by (simp add: modal_inv_def)
next
  case False
  then show "modal_inv s \<Longrightarrow> ?thesis" by (simp add: doSignup_answer_def)
qed

lemma modal_inv_run: "patient_run t es s = Some s' \<Longrightarrow> modal_inv s \<Longrightarrow> modal_inv s'"
proof (induction es arbitrary: s)
  case Nil
  then show ?case by simp
next
  case (Cons e es)
  show ?case
  proof (cases e)
    case (Edit f)
    then show ?thesis using Cons by (auto simp: modal_inv_def underway_def)
  next
    case (SignupClick url)
    then show ?thesis using Cons modal_inv_signup by (auto split: if_splits)
  next
    case TimeoutRuns
    then show ?thesis using Cons modal_inv_timeout by auto
  next
    case (Answer i a)
    then show ?thesis using Cons modal_inv_answer by auto
  qed
qed

text \<open>
  A press of the signup button starts a submission exactly when all four inputs
  are filled, the passwords are equal and longer than four characters, and then opens the
  loading dialog and reports no error; a refused form sends nothing, opens nothing, and a
  filled one says why it is refused.
\<close>

theorem signup_validates:
  "(rg_timers (signup t url s) = (if signup_ready (rg_form s) then rg_timers s @ [url] else rg_timers s)) \<and>
   (rg_open (signup t url s) = (if signup_ready (rg_form s) then rg_next s # rg_open s else rg_open s)) \<and>
   rg_posts (signup t url s) = rg_posts s \<and>
   rg_error (signup t url s) =
     (let f = rg_form s in
      if checkFillInputs f \<and> \<not> signup_ready f
      then no_error\<lparr>fe_password := Some (JStr (if fm_password1 f = fm_password2 f
             then passwordTooShort t else passwordsNotMatch t))\<rparr>
      else no_error)"
  by (auto simp: register_defs signup_ready_def checkMatchPassword_def)

text \<open>
  An error answer always leaves a visible error (the generic text is not empty):
  the first message the server gives for the email, the username and the password goes to
  its own input, and a form without a message for a field gets the non-field error, the
  detail text or the generic text at the password.
\<close>

theorem register_error_shown:
  assumes "signupGenericError t \<noteq> []"
  shows "(let e = signup_error t data in
      truthy_opt (fe_email e) \<or> truthy_opt (fe_username e) \<or> truthy_opt (fe_password e)) \<and>
    (data = Some (JObj kvs) \<and> map_of kvs ''email'' = Some (JArr (JStr m # ms)) \<longrightarrow>
      fe_email (signup_error t data) = Some (JStr m)) \<and>
    (data = Some (JObj kvs) \<and> map_of kvs ''username'' = Some (JArr (JStr m # ms)) \<longrightarrow>
      fe_username (signup_error t data) = Some (JStr m)) \<and>
    (data = Some (JObj kvs) \<and> map_of kvs ''password'' = Some (JArr (JStr m # ms)) \<and> m \<noteq> [] \<longrightarrow>
      fe_password (signup_error t data) = Some (JStr m)) \<and>
    (data = Some (JObj kvs) \<and> map_of kvs ''email'' = None \<and> map_of kvs ''username'' = None \<and>
       map_of kvs ''password'' = None \<and> map_of kvs ''non_field_errors'' = None \<and>
       map_of kvs ''detail'' = Some (JStr m) \<and> m \<noteq> [] \<longrightarrow>
      fe_password (signup_error t data) = Some (JStr m))"
  using assms by (auto simp: signup_error_def error_fields_def no_error_def Let_def)

lemma register_error_shown_witness:
  "fe_username (signup_error sample_texts (Some (JObj [(''username'', JArr [JStr ''taken''])])))
     = Some (JStr ''taken'')"
proof -
  have h: "signupGenericError sample_texts \<noteq> []" by (simp add: sample_texts_def)
  show ?thesis
    using register_error_shown [OF h, of "Some (JObj [(''username'', JArr [JStr ''taken''])])"
        "[(''username'', JArr [JStr ''taken''])]" "''taken''" "[]"] by simp
qed

text \<open>
  Claim C34: as long as the button is not pressed again while a submission is under way, the
  loading dialog is open exactly while one is, so no answer, not even an error, leaves the
  page behind a dialog that the user cannot dismiss.
\<close>

theorem loading_modal_closes:
  assumes "patient_run t es fresh_register = Some s"
  shows "(rg_open s = [] \<longleftrightarrow> underway s = 0) \<and> length (rg_open s) \<le> 1"
proof -
  have "modal_inv fresh_register" by (simp add: modal_inv_def fresh_register_def underway_def)
  then have "modal_inv s" by (rule modal_inv_run [OF assms])
  then show ?thesis by (cases "underway s") (auto simp: modal_inv_def)
qed

definition sample_form :: input_form where
  "sample_form = \<lparr>fm_email = Some ''a@b'', fm_username = Some ''a'', fm_password1 = Some ''12345'',
     fm_password2 = Some ''12345''\<rparr>"

lemma sample_form_ready [simp]:
  "checkFillInputs sample_form" "checkMatchPassword sample_form" "checkLongPassword sample_form"
  by (simp_all add: sample_form_def checkFillInputs_def checkMatchPassword_def checkLongPassword_def filled_def)

lemma loading_modal_closes_witness:
  "\<exists>s. patient_run sample_texts [Edit sample_form, SignupClick ''/r/'', TimeoutRuns, Answer 0 (Inl None)] fresh_register
     = Some s \<and> rg_open s = []"
proof -
  have "\<exists>s. patient_run sample_texts [Edit sample_form, SignupClick ''/r/'', TimeoutRuns, Answer 0 (Inl None)]
      fresh_register = Some s \<and> underway s = 0"
    by (simp add: register_defs fresh_register_def no_error_def)
  then obtain s where s: "patient_run sample_texts [Edit sample_form, SignupClick ''/r/'', TimeoutRuns, Answer 0 (Inl None)]
      fresh_register = Some s" "underway s = 0" by blast
  show ?thesis using loading_modal_closes [OF s(1)] s by blast
qed

text \<open>
  A second press within the timeout breaks this: \<open>modalInstance\<close> then holds the
  second dialog only, and after both submissions were refused the first dialog stays open,
  with no submission under way that could still close it.
\<close>

theorem double_signup_leaks_modal:
  "let s = fold (register_step t) [Edit sample_form, SignupClick url, SignupClick url, TimeoutRuns, TimeoutRuns,
       Answer 0 (Inl data), Answer 0 (Inl data)] fresh_register
   in rg_open s = [0] \<and> underway s = 0 \<and> rg_location s = None"
  by (simp add: register_defs fresh_register_def)

section \<open>The upload dialog\<close>

text \<open>
  The progress shown is \<open>Math.min(100, parseInt(100.0 * loaded / total))\<close>; with the integral
  byte counts of a file that is not empty, and at least one byte in ten million sent,
  that is the floor of the percentage. \<open>None\<close> stands for \<open>NaN\<close>.
\<close>

record upload_dialog =
  up_file :: "string option"
  up_progress :: "nat option"
  up_success :: bool
  up_fileExists :: bool
  up_sent :: "string list"
  up_root :: root

definition upload_percent :: "nat \<Rightarrow> nat \<Rightarrow> nat option" where
  "upload_percent loaded size_total =
     (if size_total = 0 then None else Some (min 100 (100 * loaded div size_total)))"

definition uploadFiles :: "string option \<Rightarrow> upload_dialog \<Rightarrow> upload_dialog" where
  "uploadFiles file s0 =
     (let s = s0\<lparr>up_file := file, up_progress := Some 0, up_success := False, up_fileExists := False\<rparr>
      in case file of None \<Rightarrow> s | Some name \<Rightarrow> s\<lparr>up_sent := name # up_sent s\<rparr>)"

definition upload_progress :: "nat \<Rightarrow> nat \<Rightarrow> upload_dialog \<Rightarrow> upload_dialog" where
  "upload_progress loaded size_total s = s\<lparr>up_progress := upload_percent loaded size_total\<rparr>"

definition upload_done :: "json \<Rightarrow> (js_err + item list) \<Rightarrow> upload_dialog \<Rightarrow> upload_dialog" where
  "upload_done data reload s =
     (if truthy_opt (js_get data ''success'')
      then s\<lparr>up_success := True, up_root := loadUserData reload (up_root s)\<rparr>
      else if truthy_opt (js_get data ''file_exists'') then s\<lparr>up_fileExists := True\<rparr>
      else s)"

end
