(* ===== verification/JsDate.thy ===== *)
theory JsDate imports Main Prelude begin

text \<open>
  The \<open>Date\<close> objects of ECMAScript, as far as moment.js uses them: time values in
  milliseconds, the proleptic Gregorian calendar (day numbers of a year, month and date, and
  back), the range check \<open>TimeClip\<close>, and the fields read and written in UTC or in the local
  zone. An invalid date (\<open>NaN\<close>) is \<open>None\<close>. The local zone belongs to the browser: it is the
  record \<open>zone\<close> with the offset that applies at a UTC time and the one that applies at a
  local time.
\<close>

section \<open>Days, years and months\<close>

definition msPerDay :: int where
  "msPerDay = 86400000"

definition Day :: "int \<Rightarrow> int" where
  "Day t = t div msPerDay"

definition TimeWithinDay :: "int \<Rightarrow> int" where
  "TimeWithinDay t = t mod msPerDay"

definition leap :: "int \<Rightarrow> bool" where
  "leap y \<longleftrightarrow> y mod 4 = 0 \<and> (y mod 100 \<noteq> 0 \<or> y mod 400 = 0)"

definition DayFromYear :: "int \<Rightarrow> int" where
  "DayFromYear y = 365 * (y - 1970) + (y - 1969) div 4 - (y - 1901) div 100 + (y - 1601) div 400"

definition DaysInYear :: "int \<Rightarrow> int" where
  "DaysInYear y = (if leap y then 366 else 365)"

definition month_start :: "bool \<Rightarrow> int \<Rightarrow> int" where
  "month_start l m =
     (if m \<le> 0 then 0 else if m = 1 then 31
      else (if l then 1 else 0) +
        (if m = 2 then 59 else if m = 3 then 90 else if m = 4 then 120 else if m = 5 then 151
         else if m = 6 then 181 else if m = 7 then 212 else if m = 8 then 243
         else if m = 9 then 273 else if m = 10 then 304 else if m = 11 then 334 else 365))"

definition month_length :: "bool \<Rightarrow> int \<Rightarrow> int" where
  "month_length l m = month_start l (m + 1) - month_start l m"

definition YearFromDay :: "int \<Rightarrow> int" where
  "YearFromDay n =
     (let y = 1970 + (n * 400) div 146097
      in if n < DayFromYear y then y - 1 else if DayFromYear (y + 1) \<le> n then y + 1 else y)"

definition MonthFromYearDay :: "bool \<Rightarrow> int \<Rightarrow> int" where
  "MonthFromYearDay l k =
     (if k < 31 then 0
      else if k < month_start l 2 then 1 else if k < month_start l 3 then 2
      else if k < month_start l 4 then 3 else if k < month_start l 5 then 4
      else if k < month_start l 6 then 5 else if k < month_start l 7 then 6
      else if k < month_start l 8 then 7 else if k < month_start l 9 then 8
      else if k < month_start l 10 then 9 else if k < month_start l 11 then 10 else 11)"

definition MonthFromDay :: "int \<Rightarrow> int" where
  "MonthFromDay n = MonthFromYearDay (leap (YearFromDay n)) (n - DayFromYear (YearFromDay n))"

definition DateFromDay :: "int \<Rightarrow> int" where
  "DateFromDay n = n - DayFromYear (YearFromDay n)
     - month_start (leap (YearFromDay n)) (MonthFromDay n) + 1"

definition WeekDay :: "int \<Rightarrow> int" where
  "WeekDay n = (n + 4) mod 7"

definition MakeDay :: "int \<Rightarrow> int \<Rightarrow> int \<Rightarrow> int" where
  "MakeDay y m d =
     (let ym = y + m div 12; mn = m mod 12
      in DayFromYear ym + month_start (leap ym) mn + d - 1)"

definition MakeTime :: "int \<Rightarrow> int \<Rightarrow> int \<Rightarrow> int \<Rightarrow> int" where
  "MakeTime h mi s ms = h * 3600000 + mi * 60000 + s * 1000 + ms"

definition MakeDate :: "int \<Rightarrow> int \<Rightarrow> int" where
  "MakeDate day t = day * msPerDay + t"

definition TimeClip :: "int \<Rightarrow> int option" where
  "TimeClip t = (if \<bar>t\<bar> \<le> 8640000000000000 then Some t else None)"

definition valid_civil :: "int \<Rightarrow> int \<Rightarrow> int \<Rightarrow> bool" where
  "valid_civil y m d \<longleftrightarrow> 0 \<le> m \<and> m \<le> 11 \<and> 1 \<le> d \<and> d \<le> month_length (leap y) m"

section \<open>The calendar is consistent\<close>

lemma div_succ:
  fixes x k :: int
  assumes "0 < k"
  shows "(x + 1) div k - x div k = (if (x + 1) mod k = 0 then 1 else 0)"
proof -
  define q r where "q = x div k" and "r = x mod k"
  have x: "x = k * q + r" and r: "0 \<le> r" "r < k"
    using assms by (simp_all add: q_def r_def)
  show ?thesis
  proof (cases "r + 1 = k")
    case True
    then have e: "x + 1 = k * (q + 1)" using x by (simp add: algebra_simps)
    have "(x + 1) div k = q + 1" "(x + 1) mod k = 0" using assms unfolding e by simp_all
    then show ?thesis by (simp add: q_def)
  next
    case False
    then have b: "0 \<le> r + 1" "r + 1 < k" using r by linarith+
    have e: "x + 1 = k * q + (r + 1)" using x by simp
    have "(x + 1) div k = q" "(x + 1) mod k = r + 1"
      using int_div_pos_eq [OF e b] int_mod_pos_eq [OF e b] by simp_all
    then show ?thesis using r by (simp add: q_def)
  qed
qed

lemma div_step:
  fixes y k :: int
  assumes "0 < k" and "e = k * c + 1"
  shows "(y + 1 - e) div k - (y - e) div k = (if y mod k = 0 then 1 else 0)"
proof -
  have a: "(y - k * c) mod k = y mod k" using mod_mult_self2 [of "y - k * c" k c] by simp
  have b: "y - e + 1 = y - k * c" using assms(2) by simp
  have c: "y + 1 - e = y - e + 1" by simp
  show ?thesis using div_succ [OF assms(1), of "y - e"] by (simp only: c b a)
qed

lemma div_steps:
  "(y + 1 - 1969) div 4 - (y - 1969) div (4::int) = (if y mod 4 = 0 then 1 else 0)"
  "(y + 1 - 1901) div 100 - (y - 1901) div (100::int) = (if y mod 100 = 0 then 1 else 0)"
  "(y + 1 - 1601) div 400 - (y - 1601) div (400::int) = (if y mod 400 = 0 then 1 else 0)"
  by (rule div_step [where c = 492] div_step [where c = 19] div_step [where c = 4]; simp)+

lemma mod_chain:
  fixes y :: int
  shows "y mod 400 = 0 \<Longrightarrow> y mod 100 = 0" "y mod 100 = 0 \<Longrightarrow> y mod 4 = 0"
proof -
  have "y mod 400 mod 100 = y mod 100" by (rule mod_mod_cancel) simp
  then show "y mod 400 = 0 \<Longrightarrow> y mod 100 = 0" by (metis mod_0)
  have "y mod 100 mod 4 = y mod 4" by (rule mod_mod_cancel) simp
  then show "y mod 100 = 0 \<Longrightarrow> y mod 4 = 0" by (metis mod_0)
qed

lemma DayFromYear_Suc: "DayFromYear (y + 1) = DayFromYear y + DaysInYear y"
proof -
  have "DayFromYear (y + 1) - DayFromYear y = 365 + (if y mod 4 = 0 then 1 else 0)
      - (if y mod 100 = 0 then 1 else 0) + (if y mod 400 = 0 then 1 else 0)"
    unfolding DayFromYear_def div_steps [symmetric] by (simp add: right_diff_distrib distrib_left)
  also have "\<dots> = DaysInYear y"
    using mod_chain [of y] by (cases "y mod 400 = 0"; cases "y mod 100 = 0"; cases "y mod 4 = 0")
      (simp_all only: DaysInYear_def leap_def if_True if_False simp_thms, simp_all)
  finally show ?thesis by simp
qed

lemma DaysInYear_bounds: "365 \<le> DaysInYear y" "DaysInYear y \<le> 366"
  by (simp_all add: DaysInYear_def)

lemma DayFromYear_mono_nat: "DayFromYear y \<le> DayFromYear (y + int k)"
proof (induction k)
  case (Suc k)
  then show ?case
    using DayFromYear_Suc [of "y + int k"] DaysInYear_bounds(1) [of "y + int k"]
    by (simp add: algebra_simps)
qed simp

lemma DayFromYear_mono: "y \<le> z \<Longrightarrow> DayFromYear y \<le> DayFromYear z"
  using DayFromYear_mono_nat [of y "nat (z - y)"] by simp

lemma year_unique:
  assumes "DayFromYear y \<le> n" "n < DayFromYear (y + 1)" "DayFromYear z \<le> n" "n < DayFromYear (z + 1)"
  shows "y = z"
proof (rule ccontr)
  assume "y \<noteq> z"
  then consider "y + 1 \<le> z" | "z + 1 \<le> y" by linarith
  then show False using DayFromYear_mono assms by (cases; fastforce)
qed

lemma div_range:
  fixes x k :: int
  assumes "0 < k"
  shows "k * (x div k) \<le> x" "x < k * (x div k) + k"
  using mult_div_mod_eq [of k x] pos_mod_bound [OF assms, of x] pos_mod_sign [OF assms, of x] by linarith+

lemma DayFromYear_bounds:
  "400 * DayFromYear y \<le> 146097 * (y - 1970) + 589" (is ?hi)
  "146097 * (y - 1970) - 506 \<le> 400 * DayFromYear y" (is ?lo)
proof -
  define k a b c where "k = y - 1970" and "a = (k + 1) div 4" and "b = (k + 69) div 100" and "c = (k + 369) div 400"
  have bnd: "4 * a \<le> k + 1" "k + 1 < 4 * a + 4" "100 * b \<le> k + 69" "k + 69 < 100 * b + 100"
    "400 * c \<le> k + 369" "k + 369 < 400 * c + 400"
    unfolding a_def b_def c_def by (rule div_range; simp)+
  have e: "DayFromYear y = 365 * k + a - b + c"
    by (simp add: DayFromYear_def a_def b_def c_def k_def)
  have "400 * DayFromYear y \<le> 146097 * k + 589" using bnd e by linarith
  then show ?hi by (simp add: k_def)
  have "146097 * k - 506 \<le> 400 * DayFromYear y" using bnd e by linarith
  then show ?lo by (simp add: k_def)
qed

lemma YearFromDay_bounds: "DayFromYear (YearFromDay n) \<le> n \<and> n < DayFromYear (YearFromDay n + 1)"
proof -
  define q where "q = (n * 400) div 146097"
  have q: "146097 * q \<le> n * 400" "n * 400 < 146097 * q + 146097"
    unfolding q_def by (rule div_range; simp)+
  have lo: "DayFromYear (1970 + q - 1) \<le> n"
  proof -
    have "400 * DayFromYear (1970 + q - 1) \<le> 146097 * (q - 1) + 589"
      using DayFromYear_bounds(1) [of "1970 + q - 1"] by simp
    then show ?thesis using q by (simp add: right_diff_distrib)
  qed
  have hi: "n < DayFromYear (1970 + q + 1 + 1)"
  proof -
    have "146097 * (q + 2) - 506 \<le> 400 * DayFromYear (1970 + q + 1 + 1)"
      using DayFromYear_bounds(2) [of "1970 + q + 1 + 1"] by simp
    then show ?thesis using q by (simp add: distrib_left)
  qed
  show ?thesis using lo hi by (auto simp: YearFromDay_def Let_def q_def [symmetric])
qed

lemma YearFromDay_eq:
  "DayFromYear y \<le> n \<Longrightarrow> n < DayFromYear y + DaysInYear y \<Longrightarrow> YearFromDay n = y"
  using YearFromDay_bounds [of n] year_unique [of "YearFromDay n" n y] by (simp add: DayFromYear_Suc)

lemma month_cases: "0 \<le> m \<Longrightarrow> m \<le> 11 \<Longrightarrow> m \<in> {0, 1, 2, 3, 4, 5, 6, 7, 8, 9, 10, 11 :: int}"
  unfolding insert_iff empty_iff by presburger

lemma month_start_year:
  "0 \<le> m \<Longrightarrow> m \<le> 11 \<Longrightarrow> 0 \<le> month_start l m \<and> month_start l (m + 1) \<le> (if l then 366 else 365)"
  by (drule (1) month_cases) (auto simp: month_start_def)

lemma MonthFromYearDay_eq:
  "0 \<le> m \<Longrightarrow> m \<le> 11 \<Longrightarrow> month_start l m \<le> k \<Longrightarrow> k < month_start l (m + 1) \<Longrightarrow> MonthFromYearDay l k = m"
  by (drule (1) month_cases, unfold insert_iff empty_iff simp_thms, elim disjE; cases l;
      simp add: month_start_def MonthFromYearDay_def)

lemma MonthFromYearDay_bounds:
  "0 \<le> k \<Longrightarrow> k < (if l then 366 else 365) \<Longrightarrow>
     0 \<le> MonthFromYearDay l k \<and> MonthFromYearDay l k \<le> 11 \<and>
     month_start l (MonthFromYearDay l k) \<le> k \<and> k < month_start l (MonthFromYearDay l k + 1)"
  by (cases l) (auto simp: month_start_def MonthFromYearDay_def)

text \<open>A valid civil date is recovered from its day number.\<close>

lemma civil_of_day:
  assumes "valid_civil y m d"
  shows "YearFromDay (MakeDay y m d) = y" "MonthFromDay (MakeDay y m d) = m"
    "DateFromDay (MakeDay y m d) = d"
proof -
  have m: "0 \<le> m" "m \<le> 11" and d: "1 \<le> d" "d \<le> month_start (leap y) (m + 1) - month_start (leap y) m"
    using assms by (simp_all add: valid_civil_def month_length_def)
  have e: "MakeDay y m d = DayFromYear y + (month_start (leap y) m + d - 1)"
    using m by (simp add: MakeDay_def Let_def)
  show y: "YearFromDay (MakeDay y m d) = y"
    using month_start_year [OF m, of "leap y"] d
    by (intro YearFromDay_eq) (auto simp: e DaysInYear_def split: if_splits)
  show mo: "MonthFromDay (MakeDay y m d) = m"
    using d m by (auto simp: MonthFromDay_def y) (simp add: e MonthFromYearDay_eq)
  show "DateFromDay (MakeDay y m d) = d"
    by (simp add: DateFromDay_def y mo) (simp add: e)
qed

text \<open>And every day number is that of its own, valid, civil date.\<close>

lemma day_of_civil: "MakeDay (YearFromDay n) (MonthFromDay n) (DateFromDay n) = n"
  and valid_of_day: "valid_civil (YearFromDay n) (MonthFromDay n) (DateFromDay n)"
proof -
  have y: "0 \<le> n - DayFromYear (YearFromDay n)"
    "n - DayFromYear (YearFromDay n) < (if leap (YearFromDay n) then 366 else 365)"
    using YearFromDay_bounds [of n] by (auto simp: DayFromYear_Suc DaysInYear_def split: if_splits)
  note mb = MonthFromYearDay_bounds [OF y, folded MonthFromDay_def]
  show "MakeDay (YearFromDay n) (MonthFromDay n) (DateFromDay n) = n"
    using mb by (simp add: MakeDay_def Let_def DateFromDay_def)
  show "valid_civil (YearFromDay n) (MonthFromDay n) (DateFromDay n)"
    using mb by (auto simp: valid_civil_def month_length_def DateFromDay_def)
qed


section \<open>The fields of a time value\<close>

text \<open>
  The names are those of the \<open>get\<close> and \<open>set\<close> methods; \<open>date_set_field\<close> is the new time value
  before the range check.
\<close>

datatype date_unit = FullYear | Month | Date | Hours | Minutes | Seconds | Milliseconds

definition HourFromTime :: "int \<Rightarrow> int" where
  "HourFromTime t = TimeWithinDay t div 3600000"

definition MinFromTime :: "int \<Rightarrow> int" where
  "MinFromTime t = (TimeWithinDay t div 60000) mod 60"

definition SecFromTime :: "int \<Rightarrow> int" where
  "SecFromTime t = (TimeWithinDay t div 1000) mod 60"

definition msFromTime :: "int \<Rightarrow> int" where
  "msFromTime t = TimeWithinDay t mod 1000"

fun date_field :: "date_unit \<Rightarrow> int \<Rightarrow> int" where
  "date_field FullYear t = YearFromDay (Day t)"
| "date_field Month t = MonthFromDay (Day t)"
| "date_field Date t = DateFromDay (Day t)"
| "date_field Hours t = HourFromTime t"
| "date_field Minutes t = MinFromTime t"
| "date_field Seconds t = SecFromTime t"
| "date_field Milliseconds t = msFromTime t"

fun date_set_field :: "date_unit \<Rightarrow> int \<Rightarrow> int \<Rightarrow> int" where
  "date_set_field FullYear v t =
     MakeDate (MakeDay v (date_field Month t) (date_field Date t)) (TimeWithinDay t)"
| "date_set_field Month v t =
     MakeDate (MakeDay (date_field FullYear t) v (date_field Date t)) (TimeWithinDay t)"
| "date_set_field Date v t =
     MakeDate (MakeDay (date_field FullYear t) (date_field Month t) v) (TimeWithinDay t)"
| "date_set_field Hours v t =
     MakeDate (Day t) (MakeTime v (MinFromTime t) (SecFromTime t) (msFromTime t))"
| "date_set_field Minutes v t =
     MakeDate (Day t) (MakeTime (HourFromTime t) v (SecFromTime t) (msFromTime t))"
| "date_set_field Seconds v t =
     MakeDate (Day t) (MakeTime (HourFromTime t) (MinFromTime t) v (msFromTime t))"
| "date_set_field Milliseconds v t =
     MakeDate (Day t) (MakeTime (HourFromTime t) (MinFromTime t) (SecFromTime t) v)"

text \<open>\<open>setMonth\<close> with a date.\<close>

definition date_set_month :: "int \<Rightarrow> int \<Rightarrow> int \<Rightarrow> int" where
  "date_set_month v d t = MakeDate (MakeDay (date_field FullYear t) v d) (TimeWithinDay t)"

text \<open>The constructor and \<open>Date.UTC\<close> read a year from 0 to 99 as one of the twentieth century.\<close>

definition MakeFullYear :: "int \<Rightarrow> int" where
  "MakeFullYear y = (if 0 \<le> y \<and> y \<le> 99 then 1900 + y else y)"

definition civil_time :: "int \<Rightarrow> int \<Rightarrow> int \<Rightarrow> int \<Rightarrow> int \<Rightarrow> int \<Rightarrow> int \<Rightarrow> int" where
  "civil_time y m d h mi s ms = MakeDate (MakeDay y m d) (MakeTime h mi s ms)"

definition Date_UTC :: "int \<Rightarrow> int \<Rightarrow> int \<Rightarrow> int \<Rightarrow> int \<Rightarrow> int \<Rightarrow> int \<Rightarrow> int option" where
  "Date_UTC y m d h mi s ms = TimeClip (civil_time (MakeFullYear y) m d h mi s ms)"

section \<open>The local zone\<close>

text \<open>
  Offsets in milliseconds east of UTC: \<open>off_utc\<close> at a UTC time, \<open>off_local\<close> at a local time
  (where the local time is skipped or repeated by a transition, the browser's choice).
\<close>

record zone =
  off_utc :: "int \<Rightarrow> int"
  off_local :: "int \<Rightarrow> int"

definition LocalTime :: "zone \<Rightarrow> int \<Rightarrow> int" where
  "LocalTime z t = t + off_utc z t"

definition UTC :: "zone \<Rightarrow> int \<Rightarrow> int" where
  "UTC z t = t - off_local z t"

definition Date_local :: "zone \<Rightarrow> int \<Rightarrow> int \<Rightarrow> int \<Rightarrow> int \<Rightarrow> int \<Rightarrow> int \<Rightarrow> int \<Rightarrow> int option" where
  "Date_local z y m d h mi s ms = TimeClip (UTC z (civil_time (MakeFullYear y) m d h mi s ms))"

text \<open>A zone without transitions.\<close>

definition fixed_zone :: "int \<Rightarrow> zone" where
  "fixed_zone minutes = \<lparr>off_utc = (\<lambda>t. minutes * 60000), off_local = (\<lambda>t. minutes * 60000)\<rparr>"

section \<open>Fields and days\<close>

lemma Day_split: "MakeDate (Day t) (TimeWithinDay t) = t"
  by (simp add: MakeDate_def Day_def TimeWithinDay_def msPerDay_def)

lemma Day_MakeDate:
  "0 \<le> s \<Longrightarrow> s < msPerDay \<Longrightarrow> Day (MakeDate n s) = n"
  "0 \<le> s \<Longrightarrow> s < msPerDay \<Longrightarrow> TimeWithinDay (MakeDate n s) = s"
  by (simp_all add: MakeDate_def Day_def TimeWithinDay_def msPerDay_def)

lemma TimeWithinDay_bounds [simp]: "0 \<le> TimeWithinDay t" "TimeWithinDay t < msPerDay"
  by (simp_all add: TimeWithinDay_def msPerDay_def)

definition valid_time :: "int \<Rightarrow> int \<Rightarrow> int \<Rightarrow> int \<Rightarrow> bool" where
  "valid_time h mi s ms \<longleftrightarrow> 0 \<le> h \<and> h < 24 \<and> 0 \<le> mi \<and> mi < 60 \<and> 0 \<le> s \<and> s < 60 \<and> 0 \<le> ms \<and> ms < 1000"

lemma MakeTime_bounds: "valid_time h mi s ms \<Longrightarrow> 0 \<le> MakeTime h mi s ms \<and> MakeTime h mi s ms < msPerDay"
  by (simp add: valid_time_def MakeTime_def msPerDay_def)

lemma time_of_MakeTime:
  assumes "valid_time h mi s ms"
  shows "MakeTime h mi s ms div 3600000 = h" "(MakeTime h mi s ms div 60000) mod 60 = mi"
    "(MakeTime h mi s ms div 1000) mod 60 = s" "MakeTime h mi s ms mod 1000 = ms"
proof -
  have v: "0 \<le> mi" "mi < 60" "0 \<le> s" "s < 60" "0 \<le> ms" "ms < 1000" using assms by (simp_all add: valid_time_def)
  have a: "MakeTime h mi s ms = 1000 * (60 * (60 * h + mi) + s) + ms" by (simp add: MakeTime_def)
  have d1: "MakeTime h mi s ms div 1000 = 60 * (60 * h + mi) + s" and m1: "MakeTime h mi s ms mod 1000 = ms"
    using v int_div_pos_eq [OF a] int_mod_pos_eq [OF a] by simp_all
  have d2: "(60 * (60 * h + mi) + s) div 60 = 60 * h + mi" "(60 * (60 * h + mi) + s) mod 60 = s"
    using v int_div_pos_eq [OF refl, of s 60 "60 * h + mi"] int_mod_pos_eq [OF refl, of s 60 "60 * h + mi"] by simp_all
  have d3: "(60 * h + mi) div 60 = h" "(60 * h + mi) mod 60 = mi"
    using v int_div_pos_eq [OF refl, of mi 60 h] int_mod_pos_eq [OF refl, of mi 60 h] by simp_all
  have e: "x div 60000 = x div 1000 div 60" "x div 3600000 = x div 1000 div 60 div 60" for x :: int
    by (simp_all add: div_mult2_eq [symmetric] zdiv_zmult2_eq [symmetric])
  show "MakeTime h mi s ms div 3600000 = h" unfolding e(2) d1 d2 d3 ..
  show "(MakeTime h mi s ms div 60000) mod 60 = mi" unfolding e(1) d1 d2 d3 ..
  show "(MakeTime h mi s ms div 1000) mod 60 = s" unfolding d1 d2 ..
  show "MakeTime h mi s ms mod 1000 = ms" by (rule m1)
qed

lemma MakeTime_of_time:
  "MakeTime (HourFromTime t) (MinFromTime t) (SecFromTime t) (msFromTime t) = TimeWithinDay t"
proof -
  let ?w = "TimeWithinDay t"
  have e: "?w div 60000 = ?w div 1000 div 60" "?w div 3600000 = ?w div 1000 div 60 div 60"
    by (simp_all add: zdiv_zmult2_eq [symmetric])
  have "?w = 1000 * (?w div 1000) + ?w mod 1000" by simp
  moreover have "?w div 1000 = 60 * (?w div 1000 div 60) + ?w div 1000 mod 60" by simp
  moreover have "?w div 1000 div 60 = 60 * (?w div 1000 div 60 div 60) + ?w div 1000 div 60 mod 60" by simp
  ultimately show ?thesis
    unfolding MakeTime_def HourFromTime_def MinFromTime_def SecFromTime_def msFromTime_def e by linarith
qed

lemma fields_of_civil:
  assumes "valid_civil y m d" and "valid_time h mi s ms"
  shows "date_field FullYear (civil_time y m d h mi s ms) = y" "date_field Month (civil_time y m d h mi s ms) = m"
    "date_field Date (civil_time y m d h mi s ms) = d" "date_field Hours (civil_time y m d h mi s ms) = h"
    "date_field Minutes (civil_time y m d h mi s ms) = mi" "date_field Seconds (civil_time y m d h mi s ms) = s"
    "date_field Milliseconds (civil_time y m d h mi s ms) = ms"
  using MakeTime_bounds [OF assms(2)] civil_of_day [OF assms(1)] time_of_MakeTime [OF assms(2)]
  by (simp_all add: civil_time_def Day_MakeDate HourFromTime_def MinFromTime_def SecFromTime_def msFromTime_def)

lemma civil_of_fields:
  "civil_time (date_field FullYear t) (date_field Month t) (date_field Date t) (date_field Hours t)
     (date_field Minutes t) (date_field Seconds t) (date_field Milliseconds t) = t"
  by (simp add: civil_time_def day_of_civil MakeTime_of_time Day_split)

lemma valid_fields:
  "valid_civil (date_field FullYear t) (date_field Month t) (date_field Date t)"
  "valid_time (date_field Hours t) (date_field Minutes t) (date_field Seconds t) (date_field Milliseconds t)"
proof -
  show "valid_civil (date_field FullYear t) (date_field Month t) (date_field Date t)"
    by (simp add: valid_of_day)
  have "TimeWithinDay t div 3600000 < 24"
    using div_range(1) [of 3600000 "TimeWithinDay t"] TimeWithinDay_bounds(2) [of t]
    unfolding msPerDay_def by linarith
  then show "valid_time (date_field Hours t) (date_field Minutes t) (date_field Seconds t) (date_field Milliseconds t)"
    by (simp add: valid_time_def HourFromTime_def MinFromTime_def SecFromTime_def msFromTime_def
        pos_imp_zdiv_nonneg_iff)
qed

end
