(* ===== verification/MomentLocale.thy ===== *)
theory MomentLocale imports Main Prelude JsValue begin

text \<open>
  app/assets/moment/moment.js, the date library that the pages load before app.js: its
  number helpers, the aliases of unit names, and the locales. The browser's pages load no
  locale file, so \<open>loadLocale\<close> only looks into the registry, whose state is the table of the
  defined locales and the global one. A locale's overridable texts and functions are the
  fields of \<open>mlocale\<close>, with the defaults of the prototype.
\<close>

section \<open>Numbers\<close>

text \<open>
  The code divides by positive constants only; \<open>absFloor(a / b)\<close> rounds towards zero and
  \<open>absCeil(a / b)\<close> away from it.
\<close>

definition absFloor_div :: "int \<Rightarrow> int \<Rightarrow> int" where
  "absFloor_div a b = (if a < 0 then - ((- a) div b) else a div b)"

definition absCeil_div :: "int \<Rightarrow> int \<Rightarrow> int" where
  "absCeil_div a b = (if a < 0 then - ((- a + b - 1) div b) else (a + b - 1) div b)"

lemma absFloor_div_sdiv: "0 < b \<Longrightarrow> absFloor_div a b = a sdiv b"
  by (auto simp: absFloor_div_def signed_divide_int_def sgn_if)

definition zeroFill :: "int \<Rightarrow> nat \<Rightarrow> bool \<Rightarrow> string" where
  "zeroFill number targetLength forceSign =
     (let absNumber = show_nat (nat \<bar>number\<bar>);
          zerosToFill = targetLength - length absNumber
      in (if number \<ge> 0 then (if forceSign then ''+'' else []) else ''-'')
         @ replicate zerosToFill (CHR ''0'') @ absNumber)"

text \<open>The number of positions at which two arrays differ, and of those only one of them has.\<close>

definition compareArrays :: "'a list \<Rightarrow> 'a list \<Rightarrow> nat" where
  "compareArrays array1 array2 =
     length (filter (\<lambda>(x, y). x \<noteq> y) (zip array1 array2))
     + (length array1 - length array2) + (length array2 - length array1)"

lemma compareArrays_0_iff: "compareArrays xs ys = 0 \<longleftrightarrow> xs = ys"
proof
  assume z: "compareArrays xs ys = 0"
  then have l: "length xs = length ys" and f: "filter (\<lambda>(x, y). x \<noteq> y) (zip xs ys) = []"
    by (auto simp: compareArrays_def)
  show "xs = ys"
    using l f by (induction xs ys rule: list_induct2) (auto split: if_splits)
next
  assume "xs = ys"
  then show "compareArrays xs ys = 0"
    by (auto simp: compareArrays_def filter_empty_conv in_set_zip)
qed

section \<open>Strings\<close>

definition to_lower_char :: "char \<Rightarrow> char" where
  "to_lower_char c = (case map_of (zip ''ABCDEFGHIJKLMNOPQRSTUVWXYZ'' ''abcdefghijklmnopqrstuvwxyz'') c of
     None \<Rightarrow> c | Some d \<Rightarrow> d)"

definition toLowerCase :: "string \<Rightarrow> string" where
  "toLowerCase s = map to_lower_char s"

definition to_upper_char :: "char \<Rightarrow> char" where
  "to_upper_char c = (case map_of (zip ''abcdefghijklmnopqrstuvwxyz'' ''ABCDEFGHIJKLMNOPQRSTUVWXYZ'') c of
     None \<Rightarrow> c | Some d \<Rightarrow> d)"

definition toUpperCase :: "string \<Rightarrow> string" where
  "toUpperCase s = map to_upper_char s"

fun split_on :: "char \<Rightarrow> string \<Rightarrow> string list" where
  "split_on d [] = [[]]"
| "split_on d (c # cs) =
     (if c = d then [] # split_on d cs
      else (case split_on d cs of [] \<Rightarrow> [[c]] | w # ws \<Rightarrow> (c # w) # ws))"

lemma split_on_nonempty [simp]: "split_on d s \<noteq> []"
  by (induction s) (auto split: list.splits)

lemma join_split: "join_with [d] (split_on d s) = s"
proof (induction s)
  case Nil
  then show ?case by (simp add: join_with_def)
next
  case (Cons c cs)
  then show ?case by (cases "split_on d cs") (auto simp: join_with_def split: list.splits)
qed

section \<open>Units\<close>

text \<open>The calls of \<open>addUnitAlias\<close>, in the order the script makes them.\<close>

definition unit_aliases :: "(string \<times> string) list" where
  "unit_aliases =
     [(''month'', ''M''), (''year'', ''y''), (''week'', ''w''), (''isoWeek'', ''W''),
      (''dayOfYear'', ''DDD''), (''weekYear'', ''gg''), (''isoWeekYear'', ''GG''), (''quarter'', ''Q''),
      (''date'', ''D''), (''day'', ''d''), (''weekday'', ''e''), (''isoWeekday'', ''E''), (''hour'', ''h''),
      (''minute'', ''m''), (''second'', ''s''), (''millisecond'', ''ms'')]"

definition addUnitAlias :: "string \<Rightarrow> string \<Rightarrow> (string \<Rightarrow> string option) \<Rightarrow> (string \<Rightarrow> string option)" where
  "addUnitAlias u shorthand m =
     (let lowerCase = toLowerCase u
      in m(shorthand \<mapsto> u, lowerCase @ ''s'' \<mapsto> u, lowerCase \<mapsto> u))"

definition aliases :: "string \<Rightarrow> string option" where
  "aliases = fold (\<lambda>(u, shorthand). addUnitAlias u shorthand) unit_aliases Map.empty"

definition normalizeUnits :: "string \<Rightarrow> string option" where
  "normalizeUnits units =
     (case aliases units of Some u \<Rightarrow> Some u | None \<Rightarrow> aliases (toLowerCase units))"

lemma aliases_table: "aliases = Map.empty(''M'' \<mapsto> ''month'', ''months'' \<mapsto> ''month'',
   ''month'' \<mapsto> ''month'', ''y'' \<mapsto> ''year'', ''years'' \<mapsto> ''year'', ''year'' \<mapsto>
   ''year'', ''w'' \<mapsto> ''week'', ''weeks'' \<mapsto> ''week'', ''week'' \<mapsto> ''week'', ''W''
   \<mapsto> ''isoWeek'', ''isoweeks'' \<mapsto> ''isoWeek'', ''isoweek'' \<mapsto> ''isoWeek'', ''DDD''
   \<mapsto> ''dayOfYear'', ''dayofyears'' \<mapsto> ''dayOfYear'', ''dayofyear'' \<mapsto> ''dayOfYear'',
   ''gg'' \<mapsto> ''weekYear'', ''weekyears'' \<mapsto> ''weekYear'', ''weekyear'' \<mapsto> ''weekYear'',
   ''GG'' \<mapsto> ''isoWeekYear'', ''isoweekyears'' \<mapsto> ''isoWeekYear'', ''isoweekyear'' \<mapsto>
   ''isoWeekYear'', ''Q'' \<mapsto> ''quarter'', ''quarters'' \<mapsto> ''quarter'', ''quarter'' \<mapsto>
   ''quarter'', ''D'' \<mapsto> ''date'', ''dates'' \<mapsto> ''date'', ''date'' \<mapsto> ''date'', ''d''
   \<mapsto> ''day'', ''days'' \<mapsto> ''day'', ''day'' \<mapsto> ''day'', ''e'' \<mapsto> ''weekday'',
   ''weekdays'' \<mapsto> ''weekday'', ''weekday'' \<mapsto> ''weekday'', ''E'' \<mapsto> ''isoWeekday'',
   ''isoweekdays'' \<mapsto> ''isoWeekday'', ''isoweekday'' \<mapsto> ''isoWeekday'', ''h'' \<mapsto>
   ''hour'', ''hours'' \<mapsto> ''hour'', ''hour'' \<mapsto> ''hour'', ''m'' \<mapsto> ''minute'',
   ''minutes'' \<mapsto> ''minute'', ''minute'' \<mapsto> ''minute'', ''s'' \<mapsto> ''second'', ''seconds''
   \<mapsto> ''second'', ''second'' \<mapsto> ''second'', ''ms'' \<mapsto> ''millisecond'', ''milliseconds''
   \<mapsto> ''millisecond'', ''millisecond'' \<mapsto> ''millisecond'')"
  by (simp add: aliases_def unit_aliases_def addUnitAlias_def toLowerCase_def to_lower_char_def Let_def)

lemma normalizeUnits_simps [simp]:
  "normalizeUnits ''millisecond'' = Some ''millisecond''"
  "normalizeUnits ''milliseconds'' = Some ''millisecond''"
  "normalizeUnits ''ms'' = Some ''millisecond''"
  "normalizeUnits ''second'' = Some ''second''"
  "normalizeUnits ''seconds'' = Some ''second''"
  "normalizeUnits ''s'' = Some ''second''"
  "normalizeUnits ''minute'' = Some ''minute''"
  "normalizeUnits ''minutes'' = Some ''minute''"
  "normalizeUnits ''m'' = Some ''minute''"
  "normalizeUnits ''hour'' = Some ''hour''"
  "normalizeUnits ''hours'' = Some ''hour''"
  "normalizeUnits ''h'' = Some ''hour''"
  "normalizeUnits ''day'' = Some ''day''"
  "normalizeUnits ''days'' = Some ''day''"
  "normalizeUnits ''d'' = Some ''day''"
  "normalizeUnits ''week'' = Some ''week''"
  "normalizeUnits ''weeks'' = Some ''week''"
  "normalizeUnits ''w'' = Some ''week''"
  "normalizeUnits ''month'' = Some ''month''"
  "normalizeUnits ''months'' = Some ''month''"
  "normalizeUnits ''M'' = Some ''month''"
  "normalizeUnits ''quarter'' = Some ''quarter''"
  "normalizeUnits ''quarters'' = Some ''quarter''"
  "normalizeUnits ''Q'' = Some ''quarter''"
  "normalizeUnits ''year'' = Some ''year''"
  "normalizeUnits ''years'' = Some ''year''"
  "normalizeUnits ''y'' = Some ''year''"
  "normalizeUnits ''date'' = Some ''date''"
  "normalizeUnits ''isoWeek'' = Some ''isoWeek''"
  "normalizeUnits ''D'' = Some ''date''"
  "normalizeUnits ''W'' = Some ''isoWeek''"
  by (simp_all add: normalizeUnits_def aliases_table toLowerCase_def to_lower_char_def)

definition normalizeObjectUnits :: "(string \<times> 'a) list \<Rightarrow> (string \<Rightarrow> 'a option)" where
  "normalizeObjectUnits inputObject =
     fold (\<lambda>(p, v) m. case normalizeUnits p of None \<Rightarrow> m | Some u \<Rightarrow> m(u \<mapsto> v)) inputObject Map.empty"

section \<open>Matchers\<close>

text \<open>
  A regular expression without groups is a function that yields the length of its match at
  the start of a text. Those of the ordinals and of the halves of the day belong to the locale.
\<close>

type_synonym matcher = "string \<Rightarrow> nat option"

definition is_digit :: "char \<Rightarrow> bool" where
  "is_digit c \<longleftrightarrow> c \<in> set ''0123456789''"

definition digits_between :: "nat \<Rightarrow> nat \<Rightarrow> matcher" where
  "digits_between a b s =
     (let n = min b (length (takeWhile is_digit s)) in if a \<le> n then Some n else None)"

definition defaultOrdinalParse :: matcher where
  "defaultOrdinalParse = digits_between 1 2"

text \<open>One or two digits and a suffix; after two digits, giving up the second cannot help.\<close>

definition ordinal_suffix :: "string \<Rightarrow> bool" where
  "ordinal_suffix s \<longleftrightarrow> take 2 s \<in> {''th'', ''st'', ''nd'', ''rd''}"

definition en_ordinalParse :: matcher where
  "en_ordinalParse s =
     (case digits_between 1 2 s of
        None \<Rightarrow> None
      | Some n \<Rightarrow> if ordinal_suffix (drop n s) then Some (n + 2) else None)"

text \<open>An a or p, optionally a dot, an m and another dot, without regard to case.\<close>

definition skip_char :: "char list \<Rightarrow> string \<Rightarrow> string" where
  "skip_char cs s = (case s of [] \<Rightarrow> [] | c # r \<Rightarrow> if c \<in> set cs then r else s)"

definition defaultLocaleMeridiemParse :: matcher where
  "defaultLocaleMeridiemParse s =
     (case s of
        [] \<Rightarrow> None
      | c # r \<Rightarrow>
          if c \<in> set ''apAP'' then Some (length s - length (skip_char ''.'' (skip_char ''mM'' (skip_char ''.'' r)))) else None)"

section \<open>Locales\<close>

record mlocale =
  l_abbr :: string
  l_months :: "string list"
  l_monthsShort :: "string list"
  l_weekdays :: "string list"
  l_weekdaysShort :: "string list"
  l_weekdaysMin :: "string list"
  l_dow :: int
  l_doy :: int
  l_longDateFormat :: "string \<Rightarrow> string option"
  l_calendar :: "string \<Rightarrow> string option"
  l_invalidDate :: string
  l_ordinal :: "int \<Rightarrow> string"
  l_meridiem :: "int \<Rightarrow> int \<Rightarrow> bool \<Rightarrow> string"
  l_isPM :: "string \<Rightarrow> bool"
  l_relativeTime :: "string \<Rightarrow> string option"
  l_ordinalParse :: matcher
  l_meridiemParse :: matcher

definition defaultLocaleMonths :: "string list" where
  "defaultLocaleMonths = split_on (CHR ''_'')
     ''January_February_March_April_May_June_July_August_September_October_November_December''"

definition defaultLocaleMonthsShort :: "string list" where
  "defaultLocaleMonthsShort = split_on (CHR ''_'') ''Jan_Feb_Mar_Apr_May_Jun_Jul_Aug_Sep_Oct_Nov_Dec''"

definition defaultLocaleWeekdays :: "string list" where
  "defaultLocaleWeekdays = split_on (CHR ''_'') ''Sunday_Monday_Tuesday_Wednesday_Thursday_Friday_Saturday''"

definition defaultLocaleWeekdaysShort :: "string list" where
  "defaultLocaleWeekdaysShort = split_on (CHR ''_'') ''Sun_Mon_Tue_Wed_Thu_Fri_Sat''"

definition defaultLocaleWeekdaysMin :: "string list" where
  "defaultLocaleWeekdaysMin = split_on (CHR ''_'') ''Su_Mo_Tu_We_Th_Fr_Sa''"

definition defaultCalendar :: "string \<Rightarrow> string option" where
  "defaultCalendar = map_of
     [(''sameDay'', ''[Today at] LT''), (''nextDay'', ''[Tomorrow at] LT''), (''nextWeek'', ''dddd [at] LT''),
      (''lastDay'', ''[Yesterday at] LT''), (''lastWeek'', ''[Last] dddd [at] LT''), (''sameElse'', ''L'')]"

definition defaultLongDateFormat :: "string \<Rightarrow> string option" where
  "defaultLongDateFormat = map_of
     [(''LTS'', ''h:mm:ss A''), (''LT'', ''h:mm A''), (''L'', ''MM/DD/YYYY''), (''LL'', ''MMMM D, YYYY''),
      (''LLL'', ''MMMM D, YYYY h:mm A''), (''LLLL'', ''dddd, MMMM D, YYYY h:mm A'')]"

definition defaultRelativeTime :: "string \<Rightarrow> string option" where
  "defaultRelativeTime = map_of
     [(''future'', ''in %s''), (''past'', ''%s ago''), (''s'', ''a few seconds''), (''m'', ''a minute''),
      (''mm'', ''%d minutes''), (''h'', ''an hour''), (''hh'', ''%d hours''), (''d'', ''a day''), (''dd'', ''%d days''),
      (''M'', ''a month''), (''MM'', ''%d months''), (''y'', ''a year''), (''yy'', ''%d years'')]"

definition localeIsPM :: "string \<Rightarrow> bool" where
  "localeIsPM input = (case toLowerCase input of [] \<Rightarrow> False | c # cs \<Rightarrow> c = CHR ''p'')"

definition localeMeridiem :: "int \<Rightarrow> int \<Rightarrow> bool \<Rightarrow> string" where
  "localeMeridiem hours minutes isLower =
     (if hours > 11 then (if isLower then ''pm'' else ''PM'') else (if isLower then ''am'' else ''AM''))"

text \<open>The prototype's \<open>'%d'.replace('%d', number)\<close>.\<close>

definition ordinal :: "int \<Rightarrow> string" where
  "ordinal number = js_replace ''%d'' ''%d'' (show_int number)"

definition en_ordinal :: "int \<Rightarrow> string" where
  "en_ordinal number =
     (let b = number smod 10;
          output = (if absFloor_div (number smod 100) 10 = 1 then ''th''
                    else if b = 1 then ''st'' else if b = 2 then ''nd'' else if b = 3 then ''rd'' else ''th'')
      in show_int number @ output)"

definition new_Locale :: mlocale where
  "new_Locale = \<lparr>l_abbr = [], l_months = defaultLocaleMonths, l_monthsShort = defaultLocaleMonthsShort,
     l_weekdays = defaultLocaleWeekdays, l_weekdaysShort = defaultLocaleWeekdaysShort,
     l_weekdaysMin = defaultLocaleWeekdaysMin, l_dow = 0, l_doy = 6,
     l_longDateFormat = defaultLongDateFormat, l_calendar = defaultCalendar, l_invalidDate = ''Invalid date'',
     l_ordinal = ordinal, l_meridiem = localeMeridiem, l_isPM = localeIsPM,
     l_relativeTime = defaultRelativeTime, l_ordinalParse = defaultOrdinalParse,
     l_meridiemParse = defaultLocaleMeridiemParse\<rparr>"

section \<open>The registry\<close>

record registry =
  reg_locales :: "string \<Rightarrow> mlocale option"
  reg_global :: mlocale

definition normalizeLocale :: "string option \<Rightarrow> string option" where
  "normalizeLocale key = map_option (\<lambda>k. js_replace (toLowerCase k) ''_'' ''-'') key"

definition loadLocale :: "registry \<Rightarrow> string \<Rightarrow> mlocale option" where
  "loadLocale r name = reg_locales r name"

text \<open>
  The inner loop of \<open>chooseLocale\<close>, for one name: the result, \<open>None\<close> when the loop ends or
  breaks off because the next name looks better.
\<close>

fun try_prefixes :: "registry \<Rightarrow> string list \<Rightarrow> string list option \<Rightarrow> nat \<Rightarrow> mlocale option" where
  "try_prefixes r parts next_parts 0 = None"
| "try_prefixes r parts next_parts (Suc j) =
     (case loadLocale r (join_with ''-'' (take (Suc j) parts)) of
        Some l \<Rightarrow> Some l
      | None \<Rightarrow>
          (case next_parts of
             Some ns \<Rightarrow> if Suc j \<le> length ns \<and> j \<le> compareArrays parts ns then None
                         else try_prefixes r parts next_parts j
           | None \<Rightarrow> try_prefixes r parts next_parts j))"

definition name_parts :: "string \<Rightarrow> string list" where
  "name_parts name = split_on (CHR ''-'') (the (normalizeLocale (Some name)))"

fun chooseLocale :: "registry \<Rightarrow> string list \<Rightarrow> mlocale option" where
  "chooseLocale r [] = None"
| "chooseLocale r (name # names) =
     (let parts = name_parts name;
          next_parts = (case names of [] \<Rightarrow> None | n # ns \<Rightarrow> if n = [] then None else Some (name_parts n))
      in case try_prefixes r parts next_parts (length parts) of
           Some l \<Rightarrow> Some l
         | None \<Rightarrow> chooseLocale r names)"

text \<open>\<open>getLocale\<close> with a name, or with none.\<close>

definition getLocale :: "registry \<Rightarrow> string option \<Rightarrow> mlocale option" where
  "getLocale r key =
     (case key of
        None \<Rightarrow> Some (reg_global r)
      | Some k \<Rightarrow>
          if k = [] then Some (reg_global r)
          else (case loadLocale r k of Some l \<Rightarrow> Some l | None \<Rightarrow> chooseLocale r [k]))"

definition setGlobalLocale :: "string \<Rightarrow> registry \<Rightarrow> registry" where
  "setGlobalLocale key r =
     (if key = [] then r
      else (case getLocale r (Some key) of None \<Rightarrow> r | Some l \<Rightarrow> r\<lparr>reg_global := l\<rparr>))"

text \<open>\<open>defineLocale\<close>: \<open>values\<close> is what the given object sets on a locale, \<open>None\<close> for \<open>null\<close>.\<close>

definition defineLocale :: "string \<Rightarrow> (mlocale \<Rightarrow> mlocale) option \<Rightarrow> registry \<Rightarrow> registry" where
  "defineLocale name vals r =
     (case vals of
        Some f \<Rightarrow>
          (let base = (case reg_locales r name of None \<Rightarrow> new_Locale | Some l \<Rightarrow> l);
               r1 = r\<lparr>reg_locales := (reg_locales r)(name \<mapsto> (f base)\<lparr>l_abbr := name\<rparr>)\<rparr>
           in setGlobalLocale name r1)
      | None \<Rightarrow> r\<lparr>reg_locales := (reg_locales r)(name := None)\<rparr>)"

text \<open>The state after the script has run: English is defined and global.\<close>

definition en_locale :: mlocale where
  "en_locale = new_Locale\<lparr>l_ordinal := en_ordinal, l_ordinalParse := en_ordinalParse, l_abbr := ''en''\<rparr>"

definition initial_registry :: registry where
  "initial_registry =
     defineLocale ''en'' (Some (\<lambda>l. l\<lparr>l_ordinal := en_ordinal, l_ordinalParse := en_ordinalParse\<rparr>)) \<lparr>reg_locales = Map.empty, reg_global = new_Locale\<rparr>"


section \<open>Looking up a locale\<close>

lemma try_prefixes_single:
  "(\<forall>l. try_prefixes r parts None n = Some l \<longrightarrow>
      (\<exists>j. 0 < j \<and> j \<le> n \<and> reg_locales r (join_with ''-'' (take j parts)) = Some l \<and>
        (\<forall>i. j < i \<and> i \<le> n \<longrightarrow> reg_locales r (join_with ''-'' (take i parts)) = None))) \<and>
   (try_prefixes r parts None n = None \<longleftrightarrow>
      (\<forall>i. 0 < i \<and> i \<le> n \<longrightarrow> reg_locales r (join_with ''-'' (take i parts)) = None))"
proof (induction n)
  case 0
  then show ?case by simp
next
  case (Suc n)
  show ?case
  proof (cases "reg_locales r (join_with ''-'' (take (Suc n) parts))")
    case None
    then have e: "try_prefixes r parts None (Suc n) = try_prefixes r parts None n" by (simp add: loadLocale_def)
    have s: "i \<le> Suc n \<longleftrightarrow> i = Suc n \<or> i \<le> n" for i by auto
    show ?thesis
    proof (intro conjI allI impI)
      fix l assume "try_prefixes r parts None (Suc n) = Some l"
      then obtain j where "0 < j" "j \<le> n" "reg_locales r (join_with ''-'' (take j parts)) = Some l"
        "\<forall>i. j < i \<and> i \<le> n \<longrightarrow> reg_locales r (join_with ''-'' (take i parts)) = None"
        using Suc unfolding e by blast
      then show "\<exists>j. 0 < j \<and> j \<le> Suc n \<and> reg_locales r (join_with ''-'' (take j parts)) = Some l \<and>
          (\<forall>i. j < i \<and> i \<le> Suc n \<longrightarrow> reg_locales r (join_with ''-'' (take i parts)) = None)"
        using None by (intro exI [of _ j]) (auto simp: s simp del: take_Suc)
    next
      show "try_prefixes r parts None (Suc n) = None \<longleftrightarrow>
          (\<forall>i. 0 < i \<and> i \<le> Suc n \<longrightarrow> reg_locales r (join_with ''-'' (take i parts)) = None)"
        using Suc None unfolding e s by auto
    qed
  next
    case (Some l)
    then show ?thesis by (auto simp: loadLocale_def)
  qed
qed

text \<open>
  Looking up a locale that is not defined under its exact name yields the one
  defined for the longest prefix of the normalised name, in whole parts, and nothing exactly
  when no prefix is defined.
\<close>

theorem locale_lookup_longest_prefix:
  assumes "k \<noteq> []" and "reg_locales r k = None"
  shows "(\<forall>l. getLocale r (Some k) = Some l \<longrightarrow>
      (\<exists>j. 0 < j \<and> j \<le> length (name_parts k) \<and> reg_locales r (join_with ''-'' (take j (name_parts k))) = Some l \<and>
        (\<forall>i. j < i \<and> i \<le> length (name_parts k) \<longrightarrow>
           reg_locales r (join_with ''-'' (take i (name_parts k))) = None))) \<and>
    (getLocale r (Some k) = None \<longleftrightarrow> (\<forall>i. 0 < i \<and> i \<le> length (name_parts k) \<longrightarrow>
        reg_locales r (join_with ''-'' (take i (name_parts k))) = None))"
proof -
  have "getLocale r (Some k) = try_prefixes r (name_parts k) None (length (name_parts k))"
    using assms by (simp add: getLocale_def loadLocale_def Let_def split: option.splits)
  then show ?thesis using try_prefixes_single [of r "name_parts k" "length (name_parts k)"] by simp
qed

lemma lower_simps [simp]:
  "toLowerCase ''en-gb'' = ''en-gb''" "toLowerCase ''fr-ca'' = ''fr-ca''"
  by (simp_all add: toLowerCase_def to_lower_char_def)

lemma name_parts_simps [simp]:
  "name_parts ''en-gb'' = [''en'', ''gb'']" "name_parts ''fr-ca'' = [''fr'', ''ca'']"
  by (simp_all add: name_parts_def normalizeLocale_def js_replace_def)

lemma initial_locales [simp]: "reg_locales initial_registry = [''en'' \<mapsto> en_locale]"
  by (auto simp: initial_registry_def defineLocale_def setGlobalLocale_def en_locale_def getLocale_def
      loadLocale_def Let_def split: option.splits)

lemma locale_lookup_longest_prefix_witness: "getLocale initial_registry (Some ''en-gb'') \<noteq> None"
proof -
  have h: "''en-gb'' \<noteq> ([]::string)" "reg_locales initial_registry ''en-gb'' = None" by simp_all
  show ?thesis
  proof
    assume n: "getLocale initial_registry (Some ''en-gb'') = None"
    have "reg_locales initial_registry (join_with ''-'' (take 1 (name_parts ''en-gb''))) = None"
      by (rule iffD1 [OF conjunct2 [OF locale_lookup_longest_prefix [OF h]] n, rule_format]) simp
    then show False by (simp add: join_with_def)
  qed
qed

text \<open>
  A list of names does not always fall back in the order its comment promises: for
  a user who asks for Canadian French and then British English, with French and English
  defined, English is chosen, because the two names differ in enough parts for the next
  one to be taken for a more specific variant of the first.
\<close>

theorem chooseLocale_skips_language:
  "chooseLocale (initial_registry\<lparr>reg_locales := [''en'' \<mapsto> en_locale, ''fr'' \<mapsto> new_Locale\<lparr>l_abbr := ''fr''\<rparr>]\<rparr>)
     [''fr-ca'', ''en-gb''] = Some en_locale
   \<and> chooseLocale (initial_registry\<lparr>reg_locales := [''en'' \<mapsto> en_locale, ''fr'' \<mapsto> new_Locale\<lparr>l_abbr := ''fr''\<rparr>]\<rparr>)
     [''fr-ca''] = Some (new_Locale\<lparr>l_abbr := ''fr''\<rparr>)"
  by (simp add: loadLocale_def join_with_def compareArrays_def eval_nat_numeral)

end
