(* ===== verification/Decimal.thy ===== *)
theory Decimal imports Main Prelude MomentLocale begin

text \<open>
  Decimal digits: the value of a digit string, the strings that printing and \<open>zeroFill\<close>
  produce, and that reading them back gives the number. The parser and the formatter of
  moment.js and the tests of its texts rest on these facts.
\<close>

definition digit_of :: "char \<Rightarrow> nat" where
  "digit_of c = (case map_of (zip ''0123456789'' [0..<10]) c of None \<Rightarrow> 0 | Some d \<Rightarrow> d)"

definition digits_value :: "string \<Rightarrow> nat" where
  "digits_value s = foldl (\<lambda>n c. 10 * n + digit_of c) 0 s"

lemma ten_cases:
  assumes "d < (10 :: nat)"
  obtains "d = 0" | "d = 1" | "d = 2" | "d = 3" | "d = 4" | "d = 5" | "d = 6" | "d = 7" | "d = 8" | "d = 9"
proof -
  have "d = 0 \<or> d = 1 \<or> d = 2 \<or> d = 3 \<or> d = 4 \<or> d = 5 \<or> d = 6 \<or> d = 7 \<or> d = 8 \<or> d = 9" using assms by auto
  then show thesis by (elim disjE) (rule that, assumption)+
qed

lemma digit_char_facts [simp]:
  assumes "d < 10"
  shows "is_digit (digit_char d)" "digit_of (digit_char d) = d"
proof -
  have z: "[0..<10] = [0, 1, 2, 3, 4, 5, 6, 7, 8, 9 :: nat]" by (simp add: upt_rec numeral_eq_Suc)
  show "is_digit (digit_char d)" using assms by (cases rule: ten_cases) (simp_all add: is_digit_def)
  show "digit_of (digit_char d) = d" unfolding digit_of_def z using assms by (cases rule: ten_cases) simp_all
qed

lemma digits_value_append: "digits_value (s @ [c]) = 10 * digits_value s + digit_of c"
  by (simp add: digits_value_def)

lemma digit_of_0 [simp]: "digit_of (CHR ''0'') = 0"
  using digit_char_facts(2) [of 0] by simp

lemma foldl_zeros: "foldl (\<lambda>n c. 10 * n + digit_of c) 0 (replicate k (CHR ''0'') @ s) = digits_value s"
  by (induction k) (simp_all add: digits_value_def)

lemma digits_value_zeros [simp]: "digits_value (replicate k (CHR ''0'') @ s) = digits_value s"
  unfolding digits_value_def [of "replicate k (CHR ''0'') @ s"] by (rule foldl_zeros)

lemma digits_value_show [simp]: "digits_value (show_nat n) = n"
proof (induction n rule: show_nat.induct)
  case (1 n)
  show ?case
  proof (cases "n < 10")
    case True
    then show ?thesis by (simp add: show_nat.simps [of n] digits_value_def)
  next
    case False
    have "digits_value (show_nat n) = 10 * (n div 10) + n mod 10"
      using False 1 by (simp add: show_nat.simps [of n] digits_value_append)
    then show ?thesis by simp
  qed
qed

lemma digits_show: "c \<in> set (show_nat n) \<Longrightarrow> is_digit c"
  using show_nat_digits digit_char_facts(1) by fastforce

lemma length_show: "n < 10 ^ k \<Longrightarrow> 0 < k \<Longrightarrow> length (show_nat n) \<le> k"
proof (induction k arbitrary: n)
  case 0
  then show ?case by simp
next
  case (Suc k)
  show ?case
  proof (cases "n < 10")
    case True
    then show ?thesis by (simp add: show_nat.simps [of n])
  next
    case False
    then have k: "0 < k" using Suc.prems by (cases k) simp_all
    have "n div 10 < 10 ^ k" using Suc.prems(1) by (simp add: less_mult_imp_div_less mult.commute)
    then have "length (show_nat (n div 10)) \<le> k" by (rule Suc.IH [OF _ k])
    then show ?thesis using False by (simp add: show_nat.simps [of n])
  qed
qed

lemma zeroFill_facts:
  assumes "0 \<le> k" and "k < 10 ^ n" and "0 < n"
  shows "length (zeroFill k n False) = n" "digits_value (zeroFill k n False) = nat k"
    "\<forall>c\<in>set (zeroFill k n False). is_digit c"
proof -
  have "nat k < 10 ^ n" using assms(1,2) by (simp add: nat_less_iff)
  then have l: "length (show_nat (nat k)) \<le> n" by (rule length_show [OF _ assms(3)])
  have z: "zeroFill k n False = replicate (n - length (show_nat (nat k))) (CHR ''0'') @ show_nat (nat k)"
    using assms(1) by (simp add: zeroFill_def Let_def)
  show "length (zeroFill k n False) = n" unfolding z using l by simp
  show "digits_value (zeroFill k n False) = nat k" unfolding z by simp
  have "is_digit (CHR ''0'')" by (simp add: is_digit_def)
  then show "\<forall>c\<in>set (zeroFill k n False). is_digit c" unfolding z using digits_show by auto
qed

lemma zeroFill_inject:
  assumes "0 \<le> a" and "a < 10 ^ n" and "0 \<le> b" and "b < 10 ^ n" and "0 < n"
  shows "zeroFill a n False = zeroFill b n False \<longleftrightarrow> a = b"
  using zeroFill_facts(2) [OF assms(1,2,5)] zeroFill_facts(2) [OF assms(3,4,5)] assms(1,3)
  by (metis int_nat_eq)

lemma show_int_digits: "0 \<le> k \<Longrightarrow> c \<in> set (show_int k) \<Longrightarrow> is_digit c"
  using digits_show by (simp add: show_int_def)

lemma show_int_inject:
  assumes "0 \<le> a" and "0 \<le> b"
  shows "show_int a = show_int b \<longleftrightarrow> a = b"
proof
  assume "show_int a = show_int b"
  then have "show_nat (nat a) = show_nat (nat b)" using assms by (simp add: show_int_def)
  then have "nat a = nat b" by (metis digits_value_show)
  then show "a = b" using assms by simp
qed simp

text \<open>A text cut at the first character that is no digit.\<close>

lemma digits_cut:
  assumes "\<forall>c\<in>set p. is_digit c" and "\<forall>c\<in>set q. is_digit c" and "\<not> is_digit a"
  shows "p @ a # r = q @ a # s \<longleftrightarrow> p = q \<and> r = s"
proof
  assume e: "p @ a # r = q @ a # s"
  have "takeWhile is_digit (p @ a # r) = p" "takeWhile is_digit (q @ a # s) = q"
    using assms by (simp_all add: takeWhile_append)
  then show "p = q \<and> r = s" using e by auto
qed simp

end
