(* ===== verification/MomentDuration.thy ===== *)
theory MomentDuration imports Complex_Main Prelude JsValue MomentLocale begin

text \<open>
  The durations of moment.js: the constructor, the bubbling of milliseconds into larger
  units, arithmetic, conversion into one unit (\<open>as\<close>), the English phrase of \<open>humanize\<close> and
  the ISO 8601 text. Amounts are integers; where the code divides, the quotient is the exact
  rational number for which the code's double stands.
\<close>

section \<open>State\<close>

record duration_data =
  dd_milliseconds :: int
  dd_seconds :: int
  dd_minutes :: int
  dd_hours :: int
  dd_days :: int
  dd_months :: int
  dd_years :: int

record duration =
  du_milliseconds :: int
  du_days :: int
  du_months :: int
  du_data :: duration_data
  du_locale :: mlocale

definition daysToMonths :: "rat \<Rightarrow> rat" where
  "daysToMonths days = days * 4800 / 146097"

definition monthsToDays :: "rat \<Rightarrow> rat" where
  "monthsToDays months = months * 146097 / 4800"

definition absFloor :: "rat \<Rightarrow> int" where
  "absFloor x = (if x < 0 then \<lceil>x\<rceil> else \<lfloor>x\<rfloor>)"

definition absCeil :: "rat \<Rightarrow> int" where
  "absCeil x = (if x < 0 then \<lfloor>x\<rfloor> else \<lceil>x\<rceil>)"

text \<open>\<open>Math.round\<close> rounds halves up.\<close>

definition js_round :: "rat \<Rightarrow> int" where
  "js_round x = \<lfloor>x + 1 / 2\<rfloor>"

definition bubble_data :: "int \<Rightarrow> int \<Rightarrow> int \<Rightarrow> duration_data" where
  "bubble_data ms0 days0 months0 =
     (let mixed = \<not> (ms0 \<ge> 0 \<and> days0 \<ge> 0 \<and> months0 \<ge> 0 \<or> ms0 \<le> 0 \<and> days0 \<le> 0 \<and> months0 \<le> 0);
          milliseconds = (if mixed then ms0 + absCeil (monthsToDays (of_int months0) + of_int days0) * 86400000 else ms0);
          days1 = (if mixed then 0 else days0);
          months1 = (if mixed then 0 else months0);
          seconds = milliseconds sdiv 1000;
          minutes = seconds sdiv 60;
          hours = minutes sdiv 60;
          days2 = days1 + hours sdiv 24;
          monthsFromDays = absFloor (daysToMonths (of_int days2));
          months2 = months1 + monthsFromDays;
          days3 = days2 - absCeil (monthsToDays (of_int monthsFromDays))
      in \<lparr>dd_milliseconds = milliseconds smod 1000, dd_seconds = seconds smod 60,
          dd_minutes = minutes smod 60, dd_hours = hours smod 24, dd_days = days3,
          dd_months = months2 smod 12, dd_years = months2 sdiv 12\<rparr>)"

definition bubble :: "duration \<Rightarrow> duration" where
  "bubble d = d\<lparr>du_data := bubble_data (du_milliseconds d) (du_days d) (du_months d)\<rparr>"

definition or_zero :: "int option \<Rightarrow> int" where
  "or_zero v = (case v of None \<Rightarrow> 0 | Some n \<Rightarrow> n)"

definition zero_data :: duration_data where
  "zero_data = \<lparr>dd_milliseconds = 0, dd_seconds = 0, dd_minutes = 0, dd_hours = 0, dd_days = 0,
     dd_months = 0, dd_years = 0\<rparr>"

text \<open>The constructor, on the object's properties; \<open>global\<close> is the global locale.\<close>

definition new_Duration :: "mlocale \<Rightarrow> (string \<times> int) list \<Rightarrow> duration" where
  "new_Duration global obj =
     (let n = (\<lambda>u. or_zero (normalizeObjectUnits obj u))
      in bubble \<lparr>du_milliseconds = n ''millisecond'' + n ''second'' * 1000 + n ''minute'' * 60000
                   + n ''hour'' * 3600000,
                 du_days = n ''day'' + n ''week'' * 7,
                 du_months = n ''month'' + n ''quarter'' * 3 + n ''year'' * 12,
                 du_data = zero_data, du_locale = global\<rparr>)"

text \<open>\<open>createDuration\<close> of a number and an optional unit, and of another duration.\<close>

definition duration_of_number :: "mlocale \<Rightarrow> int \<Rightarrow> string option \<Rightarrow> duration" where
  "duration_of_number global n key =
     (case key of
        Some k \<Rightarrow> if k = [] then new_Duration global [(''milliseconds'', n)] else new_Duration global [(k, n)]
      | None \<Rightarrow> new_Duration global [(''milliseconds'', n)])"

definition duration_of_duration :: "mlocale \<Rightarrow> duration \<Rightarrow> duration" where
  "duration_of_duration global d =
     (new_Duration global [(''ms'', du_milliseconds d), (''d'', du_days d), (''M'', du_months d)])
       \<lparr>du_locale := du_locale d\<rparr>"

section \<open>Operations\<close>

text \<open>\<open>abs\<close> as the code has it: it does not touch the bubbled days.\<close>

definition duration_abs :: "duration \<Rightarrow> duration" where
  "duration_abs d = d\<lparr>du_milliseconds := \<bar>du_milliseconds d\<bar>, du_days := \<bar>du_days d\<bar>,
     du_months := \<bar>du_months d\<bar>,
     du_data := (du_data d)\<lparr>dd_milliseconds := \<bar>dd_milliseconds (du_data d)\<bar>,
       dd_seconds := \<bar>dd_seconds (du_data d)\<bar>, dd_minutes := \<bar>dd_minutes (du_data d)\<bar>,
       dd_hours := \<bar>dd_hours (du_data d)\<bar>, dd_months := \<bar>dd_months (du_data d)\<bar>,
       dd_years := \<bar>dd_years (du_data d)\<bar>\<rparr>\<rparr>"

definition duration_addSubtract :: "duration \<Rightarrow> duration \<Rightarrow> int \<Rightarrow> duration" where
  "duration_addSubtract d other direction =
     bubble (d\<lparr>du_milliseconds := du_milliseconds d + direction * du_milliseconds other,
       du_days := du_days d + direction * du_days other,
       du_months := du_months d + direction * du_months other\<rparr>)"

definition duration_add :: "duration \<Rightarrow> duration \<Rightarrow> duration" where
  "duration_add d other = duration_addSubtract d other 1"

definition duration_subtract :: "duration \<Rightarrow> duration \<Rightarrow> duration" where
  "duration_subtract d other = duration_addSubtract d other (- 1)"

text \<open>\<open>as\<close>: \<open>None\<close> is the error \<open>Unknown unit\<close>.\<close>

definition as_unit :: "string \<Rightarrow> duration \<Rightarrow> rat option" where
  "as_unit units d =
     (let u = normalizeUnits units; milliseconds = of_int (du_milliseconds d) :: rat in
      if u = Some ''month'' \<or> u = Some ''year'' then
        (let days = of_int (du_days d) + milliseconds / 86400000;
             months = of_int (du_months d) + daysToMonths days
         in Some (if u = Some ''month'' then months else months / 12))
      else
        (let days = of_int (du_days d + js_round (monthsToDays (of_int (du_months d)))) :: rat in
         if u = Some ''week'' then Some (days / 7 + milliseconds / 604800000)
         else if u = Some ''day'' then Some (days + milliseconds / 86400000)
         else if u = Some ''hour'' then Some (days * 24 + milliseconds / 3600000)
         else if u = Some ''minute'' then Some (days * 1440 + milliseconds / 60000)
         else if u = Some ''second'' then Some (days * 86400 + milliseconds / 1000)
         else if u = Some ''millisecond'' then Some (of_int \<lfloor>days * 86400000\<rfloor> + milliseconds)
         else None))"

definition duration_valueOf :: "duration \<Rightarrow> int" where
  "duration_valueOf d = du_milliseconds d + du_days d * 86400000
     + (du_months d smod 12) * 2592000000 + (du_months d sdiv 12) * 31536000000"

text \<open>The getters read the bubbled data.\<close>

definition duration_get :: "string \<Rightarrow> duration \<Rightarrow> int option" where
  "duration_get units d =
     (let u = normalizeUnits units; data = du_data d in
      if u = Some ''millisecond'' then Some (dd_milliseconds data)
      else if u = Some ''second'' then Some (dd_seconds data)
      else if u = Some ''minute'' then Some (dd_minutes data)
      else if u = Some ''hour'' then Some (dd_hours data)
      else if u = Some ''day'' then Some (dd_days data)
      else if u = Some ''week'' then Some (dd_days data sdiv 7)
      else if u = Some ''month'' then Some (dd_months data)
      else if u = Some ''year'' then Some (dd_years data)
      else None)"

section \<open>Phrases\<close>

record thresholds =
  th_s :: int
  th_m :: int
  th_h :: int
  th_d :: int
  th_M :: int

definition default_thresholds :: thresholds where
  "default_thresholds = \<lparr>th_s = 45, th_m = 45, th_h = 22, th_d = 26, th_M = 11\<rparr>"

text \<open>\<open>relativeTimeThreshold\<close>: an unknown name yields \<open>None\<close>, no limit reads, a limit sets.\<close>

definition relativeTimeThreshold :: "string \<Rightarrow> int option \<Rightarrow> thresholds \<Rightarrow> int option \<times> thresholds" where
  "relativeTimeThreshold name limit t =
     (let put = (\<lambda>old set. case limit of None \<Rightarrow> (Some old, t) | Some v \<Rightarrow> (Some v, set v)) in
      if name = ''s'' then put (th_s t) (\<lambda>v. t\<lparr>th_s := v\<rparr>)
      else if name = ''m'' then put (th_m t) (\<lambda>v. t\<lparr>th_m := v\<rparr>)
      else if name = ''h'' then put (th_h t) (\<lambda>v. t\<lparr>th_h := v\<rparr>)
      else if name = ''d'' then put (th_d t) (\<lambda>v. t\<lparr>th_d := v\<rparr>)
      else if name = ''M'' then put (th_M t) (\<lambda>v. t\<lparr>th_M := v\<rparr>)
      else (None, t))"

definition rounded :: "string \<Rightarrow> duration \<Rightarrow> int" where
  "rounded u d = js_round (the (as_unit u d))"

text \<open>The entry of the locale's table and the number it is filled with.\<close>

definition phrase_entry :: "thresholds \<Rightarrow> duration \<Rightarrow> string \<times> int option" where
  "phrase_entry t duration =
     (let seconds = rounded ''s'' duration; minutes = rounded ''m'' duration; hours = rounded ''h'' duration;
          days = rounded ''d'' duration; months = rounded ''M'' duration; years = rounded ''y'' duration in
      if seconds < th_s t then (''s'', Some seconds)
      else if minutes = 1 then (''m'', None)
      else if minutes < th_m t then (''mm'', Some minutes)
      else if hours = 1 then (''h'', None)
      else if hours < th_h t then (''hh'', Some hours)
      else if days = 1 then (''d'', None)
      else if days < th_d t then (''dd'', Some days)
      else if months = 1 then (''M'', None)
      else if months < th_M t then (''MM'', Some months)
      else if years = 1 then (''y'', None) else (''yy'', Some years))"

definition locale_relativeTime :: "mlocale \<Rightarrow> int \<Rightarrow> string \<Rightarrow> string" where
  "locale_relativeTime l number entry =
     (case l_relativeTime l entry of None \<Rightarrow> [] | Some output \<Rightarrow> js_replace output ''%d'' (show_int number))"

definition pastFuture :: "mlocale \<Rightarrow> int \<Rightarrow> string \<Rightarrow> string" where
  "pastFuture l difference output =
     (case l_relativeTime l (if difference > 0 then ''future'' else ''past'') of
        None \<Rightarrow> [] | Some fmt \<Rightarrow> js_replace fmt ''%s'' output)"

definition substituteTimeAgo :: "string \<times> int option \<Rightarrow> mlocale \<Rightarrow> string" where
  "substituteTimeAgo entry l =
     locale_relativeTime l (case snd entry of None \<Rightarrow> 1 | Some n \<Rightarrow> if n = 0 then 1 else n) (fst entry)"

definition duration_relativeTime :: "thresholds \<Rightarrow> duration \<Rightarrow> mlocale \<Rightarrow> string" where
  "duration_relativeTime t d l =
     substituteTimeAgo (phrase_entry t (duration_abs (duration_of_duration l d))) l"

definition humanize :: "thresholds \<Rightarrow> bool \<Rightarrow> duration \<Rightarrow> string" where
  "humanize t withSuffix d =
     (let output = duration_relativeTime t d (du_locale d)
      in if withSuffix then pastFuture (du_locale d) (duration_valueOf d) output else output)"

section \<open>ISO 8601\<close>

text \<open>
  The seconds are a double: \<open>decimals\<close> is the text that the browser prints for
  \<open>abs(milliseconds) / 1000 % 60\<close> when that is not a whole number.
\<close>

definition iso_part :: "int \<Rightarrow> string \<Rightarrow> string" where
  "iso_part n suffix = (if n = 0 then [] else show_int n @ suffix)"

definition duration_toISOString :: "(int \<Rightarrow> string) \<Rightarrow> duration \<Rightarrow> string" where
  "duration_toISOString decimals d =
     (let ms = \<bar>du_milliseconds d\<bar>; D = \<bar>du_days d\<bar>; mo = \<bar>du_months d\<bar>;
          minutes = ms div 60000; h = minutes div 60; m = minutes mod 60; s = ms mod 60000;
          Y = mo div 12; M = mo mod 12; seconds_total = the (as_unit ''s'' d) in
      if seconds_total = 0 then ''P0D''
      else (if seconds_total < 0 then ''-'' else []) @ ''P'' @ iso_part Y ''Y'' @ iso_part M ''M'' @ iso_part D ''D''
        @ (if h \<noteq> 0 \<or> m \<noteq> 0 \<or> s \<noteq> 0 then ''T'' else []) @ iso_part h ''H'' @ iso_part m ''M''
        @ (if s = 0 then [] else (if s mod 1000 = 0 then show_int (s div 1000) else decimals ms) @ ''S''))"

section \<open>Bubbling\<close>

lemma sdiv_neg: "(- a) sdiv b = - (a sdiv (b::int))"
  by (simp add: signed_divide_int_def sgn_if abs_if)

lemma smod_neg: "(- a) smod b = - (a smod (b::int))"
  by (simp add: smod_int_alt_def sgn_if abs_if)

lemma absFloor_neg: "absFloor (- x) = - absFloor x"
  by (auto simp: absFloor_def ceiling_def)

lemma absCeil_neg: "absCeil (- x) = - absCeil x"
  by (auto simp: absCeil_def ceiling_def)

lemma daysToMonths_neg: "daysToMonths (- x) = - daysToMonths x"
  by (simp add: daysToMonths_def)

lemma monthsToDays_neg: "monthsToDays (- x) = - monthsToDays x"
  by (simp add: monthsToDays_def)

lemma bubble_neg_aux:
  "absCeil (monthsToDays (of_int (- m)) + of_int (- d)) = - absCeil (monthsToDays (of_int m) + of_int d)"
  using absCeil_neg [of "monthsToDays (of_int m) + of_int d"] by (simp add: monthsToDays_neg)

lemma dtm_neg: "absFloor (daysToMonths (of_int (- d))) = - absFloor (daysToMonths (of_int d))"
  by (simp add: daysToMonths_neg absFloor_neg)

lemma mtd_neg: "absCeil (monthsToDays (of_int (- d))) = - absCeil (monthsToDays (of_int d))"
  by (simp add: monthsToDays_neg absCeil_neg)

lemma absFloor_of_div:
  assumes "0 \<le> a" and "0 < b"
  shows "absFloor (of_int a / of_int b) = a div b"
proof -
  have "0 \<le> (of_int a / of_int b :: rat)" using assms by simp
  then show ?thesis by (simp add: absFloor_def floor_divide_of_int_eq not_less)
qed

lemma absFloor_daysToMonths: "0 \<le> D \<Longrightarrow> absFloor (daysToMonths (of_int D)) = D * 4800 div 146097"
  using absFloor_of_div [of "D * 4800" 146097] by (simp add: daysToMonths_def)

lemma absCeil_monthsToDays: "0 \<le> M \<Longrightarrow> absCeil (monthsToDays (of_int M)) = \<lceil>rat_of_int (M * 146097) / 4800\<rceil>"
  by (simp add: absCeil_def monthsToDays_def not_less)

lemma whole_months_days:
  assumes "0 \<le> D"
  defines "M \<equiv> D * 4800 div 146097"
  shows "0 \<le> D - \<lceil>rat_of_int (M * 146097) / 4800\<rceil>" "D - \<lceil>rat_of_int (M * 146097) / 4800\<rceil> \<le> 30"
proof -
  have m: "M * 146097 \<le> D * 4800" "D * 4800 < M * 146097 + 146097"
    using div_mult_mod_eq [of "D * 4800" 146097] pos_mod_bound [of 146097 "D * 4800"]
      pos_mod_sign [of 146097 "D * 4800"] unfolding M_def by linarith+
  have "rat_of_int (M * 146097) / 4800 \<le> of_int D"
    using m(1) by (simp add: divide_le_eq)
  then show "0 \<le> D - \<lceil>rat_of_int (M * 146097) / 4800\<rceil>" by (simp add: ceiling_le_iff)
  have "of_int D < rat_of_int (M * 146097) / 4800 + 31"
  proof -
    have "rat_of_int (D * 4800) < rat_of_int (M * 146097 + 146097)" using m(2) by (simp only: of_int_less_iff)
    then show ?thesis by simp
  qed
  moreover have "rat_of_int (M * 146097) / 4800 \<le> of_int \<lceil>rat_of_int (M * 146097) / 4800\<rceil>" by simp
  ultimately have "rat_of_int D < of_int (\<lceil>rat_of_int (M * 146097) / 4800\<rceil> + 31)"
    by (simp only: of_int_add of_int_numeral)
  then show "D - \<lceil>rat_of_int (M * 146097) / 4800\<rceil> \<le> 30" by (simp only: of_int_less_iff)
qed

lemma time_parts:
  fixes ms :: int
  shows "(ms div 1000 div 60 div 60 mod 24) * 3600000 + (ms div 1000 div 60 mod 60) * 60000
    + (ms div 1000 mod 60) * 1000 + ms mod 1000 + 86400000 * (ms div 1000 div 60 div 60 div 24) = ms"
proof -
  have "ms = 1000 * (ms div 1000) + ms mod 1000" by simp
  moreover have "ms div 1000 = 60 * (ms div 1000 div 60) + ms div 1000 mod 60" by simp
  moreover have "ms div 1000 div 60 = 60 * (ms div 1000 div 60 div 60) + ms div 1000 div 60 mod 60" by simp
  moreover have "ms div 1000 div 60 div 60 = 24 * (ms div 1000 div 60 div 60 div 24) + ms div 1000 div 60 div 60 mod 24" by simp
  ultimately show ?thesis by linarith
qed

lemma bubble_normal:
  assumes "0 \<le> ms" and "0 \<le> days" and "0 \<le> months"
  shows "(let b = bubble_data ms days months; D = days + ms div 86400000; F = D * 4800 div 146097 in
    0 \<le> dd_milliseconds b \<and> dd_milliseconds b < 1000 \<and> 0 \<le> dd_seconds b \<and> dd_seconds b < 60 \<and>
    0 \<le> dd_minutes b \<and> dd_minutes b < 60 \<and> 0 \<le> dd_hours b \<and> dd_hours b < 24 \<and>
    0 \<le> dd_days b \<and> dd_days b \<le> 30 \<and> 0 \<le> dd_months b \<and> dd_months b < 12 \<and> 0 \<le> dd_years b \<and>
    dd_hours b * 3600000 + dd_minutes b * 60000 + dd_seconds b * 1000 + dd_milliseconds b = ms mod 86400000 \<and>
    dd_years b * 12 + dd_months b = months + F \<and>
    dd_days b + \<lceil>rat_of_int (F * 146097) / 4800\<rceil> = D)"
proof -
  have q: "ms div 1000 div 60 div 60 div 24 = ms div 86400000"
    by (simp add: zdiv_zmult2_eq [symmetric])
  define D where "D = days + ms div 86400000"
  have D: "0 \<le> D" using assms by (simp add: D_def pos_imp_zdiv_nonneg_iff)
  define F where "F = D * 4800 div 146097"
  have F: "0 \<le> F" using D by (simp add: F_def pos_imp_zdiv_nonneg_iff)
  have h: "0 \<le> ms div 1000" "0 \<le> ms div 1000 div 60" "0 \<le> ms div 1000 div 60 div 60"
    using assms by (simp_all add: pos_imp_zdiv_nonneg_iff)
  have b: "bubble_data ms days months =
      \<lparr>dd_milliseconds = ms mod 1000, dd_seconds = ms div 1000 mod 60, dd_minutes = ms div 1000 div 60 mod 60,
       dd_hours = ms div 1000 div 60 div 60 mod 24, dd_days = D - \<lceil>rat_of_int (F * 146097) / 4800\<rceil>,
       dd_months = (months + F) mod 12, dd_years = (months + F) div 12\<rparr>"
  proof -
    have f: "absFloor (daysToMonths (of_int (days + ms div 86400000))) = F"
      using absFloor_daysToMonths [OF D] by (simp only: D_def [symmetric] F_def)
    have c: "absCeil (monthsToDays (of_int F)) = \<lceil>rat_of_int (F * 146097) / 4800\<rceil>"
      by (rule absCeil_monthsToDays [OF F])
    show ?thesis
      using assms h D F
      by (simp add: bubble_data_def Let_def sdiv_nonneg smod_nonneg q f c del: of_int_add of_int_mult)
        (simp add: D_def)
  qed
  have t: "(ms div 1000 div 60 div 60 mod 24) * 3600000 + (ms div 1000 div 60 mod 60) * 60000
      + (ms div 1000 mod 60) * 1000 + ms mod 1000 = ms mod 86400000"
    using time_parts [of ms] unfolding q by (simp add: minus_div_mult_eq_mod [symmetric])
  note w = whole_months_days [OF D, folded F_def]
  show ?thesis
    unfolding b Let_def D_def [symmetric] F_def [symmetric] duration_data.simps
    using t w assms F by (simp add: pos_imp_zdiv_nonneg_iff)
qed

text \<open>
  Bubbling a duration of non-negative parts puts every unit into its range
  (milliseconds below 1000, seconds and minutes below 60, hours below 24, days at most 30,
  months below 12) and loses nothing: the time of day is the remainder of the
  milliseconds, the full days become whole months of 146097/4800 days and the days left over,
  and the months are those of the years and the rest.
\<close>

theorem bubble_normal_form:
  assumes "0 \<le> ms" and "0 \<le> days" and "0 \<le> months"
  shows "(let b = bubble_data ms days months; D = days + ms div 86400000; F = D * 4800 div 146097 in
    0 \<le> dd_milliseconds b \<and> dd_milliseconds b < 1000 \<and> 0 \<le> dd_seconds b \<and> dd_seconds b < 60 \<and>
    0 \<le> dd_minutes b \<and> dd_minutes b < 60 \<and> 0 \<le> dd_hours b \<and> dd_hours b < 24 \<and>
    0 \<le> dd_days b \<and> dd_days b \<le> 30 \<and> 0 \<le> dd_months b \<and> dd_months b < 12 \<and> 0 \<le> dd_years b \<and>
    dd_hours b * 3600000 + dd_minutes b * 60000 + dd_seconds b * 1000 + dd_milliseconds b = ms mod 86400000 \<and>
    dd_years b * 12 + dd_months b = months + F \<and>
    dd_days b + \<lceil>rat_of_int (F * 146097) / 4800\<rceil> = D)"
  by (rule bubble_normal [OF assms])

lemma bubble_neg:
  "bubble_data (- ms) (- days) (- months) =
     (let b = bubble_data ms days months in
      \<lparr>dd_milliseconds = - dd_milliseconds b, dd_seconds = - dd_seconds b, dd_minutes = - dd_minutes b,
       dd_hours = - dd_hours b, dd_days = - dd_days b, dd_months = - dd_months b, dd_years = - dd_years b\<rparr>)"
proof (cases "ms \<ge> 0 \<and> days \<ge> 0 \<and> months \<ge> 0 \<or> ms \<le> 0 \<and> days \<le> 0 \<and> months \<le> 0")
  case True
  then have s: "- ms \<ge> 0 \<and> - days \<ge> 0 \<and> - months \<ge> 0 \<or> - ms \<le> 0 \<and> - days \<le> 0 \<and> - months \<le> 0" by linarith
  define D where "D = days + ms sdiv 1000 sdiv 60 sdiv 60 sdiv 24"
  have e: "- days + - (ms sdiv 1000 sdiv 60 sdiv 60 sdiv 24) = - D" by (simp add: D_def)
  have e2: "- months + - x = - (months + x)" "- D - - x = - (D - x)" for x by simp_all
  show ?thesis
    unfolding bubble_data_def Let_def duration_data.simps if_not_P [OF iffD2 [OF not_not True]]
      if_not_P [OF iffD2 [OF not_not s]]
      sdiv_neg smod_neg e dtm_neg mtd_neg e2 D_def [symmetric] by simp
next
  case False
  then have s: "\<not> (- ms \<ge> 0 \<and> - days \<ge> 0 \<and> - months \<ge> 0 \<or> - ms \<le> 0 \<and> - days \<le> 0 \<and> - months \<le> 0)" by linarith
  define T where "T = ms + absCeil (monthsToDays (of_int months) + of_int days) * 86400000"
  have e: "- ms + - absCeil (monthsToDays (of_int months) + of_int days) * 86400000 = - T" by (simp add: T_def)
  define D where "D = 0 + T sdiv 1000 sdiv 60 sdiv 60 sdiv 24"
  have e1: "0 + - (T sdiv 1000 sdiv 60 sdiv 60 sdiv 24) = - D" by (simp add: D_def)
  have e2: "0 + - x = - (0 + x)" "- D - - x = - (D - x)" for x :: int by simp_all
  show ?thesis
    unfolding bubble_data_def Let_def duration_data.simps if_P [OF False] if_P [OF s] bubble_neg_aux
      e T_def [symmetric] sdiv_neg smod_neg e1 dtm_neg mtd_neg e2 D_def [symmetric] by simp
qed

text \<open>
  Negation commutes with bubbling: every unit of the negated duration is the
  negated unit, also for durations of mixed signs, which are bubbled down first.
\<close>

theorem bubble_odd:
  "bubble_data (- ms) (- days) (- months) =
     (let b = bubble_data ms days months in
      \<lparr>dd_milliseconds = - dd_milliseconds b, dd_seconds = - dd_seconds b, dd_minutes = - dd_minutes b,
       dd_hours = - dd_hours b, dd_days = - dd_days b, dd_months = - dd_months b, dd_years = - dd_years b\<rparr>)"
  by (rule bubble_neg)

text \<open>
  \<open>abs\<close> leaves the bubbled days out: the absolute value of minus three days still
  reports minus three days, although its stored amount is three.
\<close>

theorem abs_forgets_days:
  "duration_get ''days'' (duration_abs (duration_of_number l (- 3) (Some ''days''))) = Some (- 3)
   \<and> du_days (duration_abs (duration_of_number l (- 3) (Some ''days''))) = 3"
proof -
  have b: "bubble_data 0 (- 3) 0 = (let b = bubble_data 0 3 0 in
      \<lparr>dd_milliseconds = - dd_milliseconds b, dd_seconds = - dd_seconds b, dd_minutes = - dd_minutes b,
       dd_hours = - dd_hours b, dd_days = - dd_days b, dd_months = - dd_months b, dd_years = - dd_years b\<rparr>)"
    using bubble_neg [of 0 3 0] by simp
  have "dd_days (bubble_data 0 3 0) = 3"
    using bubble_normal [of 0 3 0] by (simp add: Let_def)
  then show ?thesis
    by (simp add: duration_of_number_def new_Duration_def normalizeObjectUnits_def bubble_def or_zero_def
        duration_abs_def duration_get_def Let_def b)
qed

text \<open>
  The ISO 8601 text of a duration with parts of both signs is that of another
  duration: a month less a day and a month plus a day print alike.
\<close>

theorem iso_text_loses_signs:
  "duration_toISOString f (new_Duration l [(''months'', 1), (''days'', - 1)]) = ''P1M1D''
   \<and> duration_toISOString f (new_Duration l [(''months'', 1), (''days'', 1)]) = ''P1M1D''
   \<and> duration_valueOf (new_Duration l [(''months'', 1), (''days'', - 1)])
       \<noteq> duration_valueOf (new_Duration l [(''months'', 1), (''days'', 1)])"
proof -
  have r: "js_round (monthsToDays 1) = 30" by (simp add: js_round_def monthsToDays_def floor_unique)
  have s: "show_int 1 = ''1''" by (simp add: show_int_def show_nat.simps)
  show ?thesis
    by (simp add: duration_toISOString_def new_Duration_def normalizeObjectUnits_def bubble_def or_zero_def
        as_unit_def iso_part_def duration_valueOf_def Let_def r s smod_nonneg sdiv_nonneg)
qed

section \<open>Phrases\<close>

lemma js_round_ge: "n \<le> js_round x \<longleftrightarrow> of_int n - 1 / 2 \<le> x"
  unfolding js_round_def le_floor_iff by linarith

lemma js_round_nonneg: "0 \<le> x \<Longrightarrow> 0 \<le> js_round x"
  by (simp add: js_round_ge)

text \<open>
  The phrase of a duration of non-negative parts is always well-formed: the entry
  is one of the eleven of the table, a singular entry goes without a number and a plural one
  with a number of at least two and below the limit at which the next unit takes over, so
  no text reads \<open>1 minutes\<close> or \<open>0 hours\<close>.
\<close>

theorem phrase_well_formed:
  assumes "0 \<le> du_milliseconds d" and "0 \<le> du_days d" and "0 \<le> du_months d"
  shows "(case phrase_entry default_thresholds d of
      (e, None) \<Rightarrow> e \<in> {''m'', ''h'', ''d'', ''M'', ''y''}
    | (e, Some n) \<Rightarrow> (e, n) \<in> {''s''} \<times> {0..<45} \<union> {''mm''} \<times> {2..<45} \<union> {''hh''} \<times> {2..<22}
        \<union> {''dd''} \<times> {2..<26} \<union> {''MM''} \<times> {2..<11} \<union> {''yy''} \<times> {2..})"
proof -
  define S :: rat where "S = of_int (du_days d + js_round (monthsToDays (of_int (du_months d)))) * 86400
      + of_int (du_milliseconds d) / 1000"
  define M :: rat where "M = of_int (du_months d)
      + daysToMonths (of_int (du_days d) + of_int (du_milliseconds d) / 86400000)"
  have r: "rounded ''s'' d = js_round S" "rounded ''m'' d = js_round (S / 60)" "rounded ''h'' d = js_round (S / 3600)"
    "rounded ''d'' d = js_round (S / 86400)" "rounded ''M'' d = js_round M" "rounded ''y'' d = js_round (M / 12)"
    by (simp_all add: rounded_def as_unit_def Let_def S_def M_def add_divide_distrib algebra_simps)
  have n: "(0::rat) \<le> of_int (du_milliseconds d)" "(0::rat) \<le> of_int (du_days d)" "(0::rat) \<le> of_int (du_months d)"
    using assms by simp_all
  have "0 \<le> js_round (monthsToDays (of_int (du_months d)))"
    using n(3) by (intro js_round_nonneg) (simp add: monthsToDays_def)
  then have "(0::rat) \<le> of_int (du_days d + js_round (monthsToDays (of_int (du_months d))))"
    using assms(2) by simp
  then have S: "0 \<le> S" using n(1) unfolding S_def by simp
  have m: "1 \<le> js_round (S / 60)" if "45 \<le> js_round S" using that by (simp add: js_round_ge)
  have h: "1 \<le> js_round (S / 3600)" if "45 \<le> js_round (S / 60)" using that by (simp add: js_round_ge)
  have dd: "1 \<le> js_round (S / 86400)" if "22 \<le> js_round (S / 3600)" using that by (simp add: js_round_ge)
  have mm: "1 \<le> js_round M" if a: "26 \<le> js_round (S / 86400)"
  proof (cases "du_months d = 0")
    case True
    have "\<lfloor>1 / 2 :: rat\<rfloor> = 0" by (rule floor_unique) simp_all
    with True have "M = S / 86400 * 4800 / 146097"
      by (simp add: M_def S_def daysToMonths_def js_round_def monthsToDays_def add_divide_distrib distrib_right)
    then show ?thesis using a by (simp add: js_round_ge)
  next
    case False
    then have "1 \<le> du_months d" using assms(3) by linarith
    then have "(1::rat) \<le> of_int (du_months d)" by simp
    moreover have "0 \<le> daysToMonths (of_int (du_days d) + of_int (du_milliseconds d) / 86400000)"
      using n by (simp add: daysToMonths_def)
    ultimately have "1 \<le> M" unfolding M_def by linarith
    then show ?thesis by (simp add: js_round_ge)
  qed
  have y: "1 \<le> js_round (M / 12)" if "11 \<le> js_round M" using that by (simp add: js_round_ge)
  have s0: "0 \<le> js_round S" using S by (rule js_round_nonneg)
  note pe = phrase_entry_def Let_def r default_thresholds_def
  consider "js_round S < 45" | "45 \<le> js_round S" "js_round (S / 60) < 45"
    | "45 \<le> js_round S" "45 \<le> js_round (S / 60)" "js_round (S / 3600) < 22"
    | "45 \<le> js_round S" "45 \<le> js_round (S / 60)" "22 \<le> js_round (S / 3600)" "js_round (S / 86400) < 26"
    | "45 \<le> js_round S" "45 \<le> js_round (S / 60)" "22 \<le> js_round (S / 3600)" "26 \<le> js_round (S / 86400)"
      "js_round M < 11"
    | "45 \<le> js_round S" "45 \<le> js_round (S / 60)" "22 \<le> js_round (S / 3600)" "26 \<le> js_round (S / 86400)"
      "11 \<le> js_round M" by linarith
  then show ?thesis
  proof cases
    case 1
    then show ?thesis using s0 by (simp add: pe)
  next
    case 2
    then show ?thesis using m by (simp add: pe)
  next
    case 3
    then show ?thesis using h by (simp add: pe)
  next
    case 4
    then show ?thesis using dd by (simp add: pe)
  next
    case 5
    then show ?thesis using mm by (simp add: pe)
  next
    case 6
    then show ?thesis using y by (simp add: pe)
  qed
qed

lemma phrase_well_formed_witness:
  "(case phrase_entry default_thresholds (duration_of_number en_locale 90 (Some ''m'')) of
      (e, None) \<Rightarrow> e \<in> {''m'', ''h'', ''d'', ''M'', ''y''}
    | (e, Some n) \<Rightarrow> (e, n) \<in> {''s''} \<times> {0..<45} \<union> {''mm''} \<times> {2..<45} \<union> {''hh''} \<times> {2..<22}
        \<union> {''dd''} \<times> {2..<26} \<union> {''MM''} \<times> {2..<11} \<union> {''yy''} \<times> {2..})"
  by (rule phrase_well_formed)
     (simp_all add: duration_of_number_def new_Duration_def normalizeObjectUnits_def bubble_def or_zero_def Let_def)

lemma bubble_normal_form_witness: "dd_days (bubble_data 0 40 0) + dd_months (bubble_data 0 40 0) = 10"
proof -
  have c: "\<lceil>48699 / 1600 :: rat\<rceil> = 31" by (rule ceiling_unique) simp_all
  have k: "m = 1" if "y * 12 + m = 1" "0 \<le> m" "m < 12" "0 \<le> y" for y m :: int
    using that by (cases "y = 0") simp_all
  have "dd_days (bubble_data 0 40 0) = 9" "dd_months (bubble_data 0 40 0) = 1"
    using bubble_normal_form [of 0 40 0] k [of "dd_years (bubble_data 0 40 0)" "dd_months (bubble_data 0 40 0)"]
    by (simp_all add: Let_def c)
  then show ?thesis by simp
qed

end
