(* ===== verification/MomentCore.thy ===== *)
theory MomentCore imports Main Prelude JsDate MomentLocale MomentDuration begin

text \<open>
  The moments of moment.js: construction of dates, getters and setters, addition, the calendar
  weeks, and the start and end of a unit. A moment wraps a \<open>Date\<close> (\<open>m_d\<close>, \<open>None\<close> for an
  invalid one), which is read in UTC or in the browser's zone \<open>z\<close> according to \<open>_isUTC\<close>. A moment
  with a fixed offset keeps the date shifted by that offset and reads it in UTC. The hook
  \<open>updateOffset\<close> is empty in this build.
\<close>

section \<open>State\<close>

record moment =
  m_d :: "int option"
  m_isUTC :: bool
  m_offset :: "int option"
  m_locale :: mlocale
  m_flags_ok :: bool
  m_tzm :: "int option"

text \<open>
  \<open>m_flags_ok\<close> is what \<open>isValid\<close> finds in the parsing flags; the flags themselves belong to
  the parser.
\<close>

definition valid__isValid :: "moment \<Rightarrow> bool" where
  "valid__isValid m \<longleftrightarrow> m_d m \<noteq> None \<and> m_flags_ok m"

definition valueOf :: "moment \<Rightarrow> int option" where
  "valueOf m = map_option (\<lambda>t. t - (case m_offset m of None \<Rightarrow> 0 | Some n \<Rightarrow> n) * 60000) (m_d m)"

text \<open>The time value whose UTC fields are the fields the moment shows, and its replacement.\<close>

definition moment_local :: "zone \<Rightarrow> moment \<Rightarrow> int option" where
  "moment_local z m = map_option (\<lambda>t. if m_isUTC m then t else LocalTime z t) (m_d m)"

definition put_local :: "zone \<Rightarrow> moment \<Rightarrow> int \<Rightarrow> moment" where
  "put_local z m v = m\<lparr>m_d := TimeClip (if m_isUTC m then v else UTC z v)\<rparr>"

section \<open>Dates\<close>

definition daysInMonth :: "int \<Rightarrow> int \<Rightarrow> int option" where
  "daysInMonth year month = map_option (date_field Date) (Date_UTC year (month + 1) 0 0 0 0 0)"

definition isLeapYear :: "int \<Rightarrow> bool" where
  "isLeapYear year \<longleftrightarrow> year smod 4 = 0 \<and> year smod 100 \<noteq> 0 \<or> year smod 400 = 0"

definition daysInYear :: "int \<Rightarrow> int" where
  "daysInYear year = (if isLeapYear year then 366 else 365)"

definition createDate :: "zone \<Rightarrow> int \<Rightarrow> int \<Rightarrow> int \<Rightarrow> int \<Rightarrow> int \<Rightarrow> int \<Rightarrow> int \<Rightarrow> int option" where
  "createDate z y m d h mi s ms =
     (let date = Date_local z y m d h mi s ms
      in if y < 1970
         then TimeClip (UTC z (date_set_field FullYear y (case date of None \<Rightarrow> 0 | Some t \<Rightarrow> LocalTime z t)))
         else date)"

definition createUTCDate :: "int \<Rightarrow> int \<Rightarrow> int \<Rightarrow> int \<Rightarrow> int \<Rightarrow> int \<Rightarrow> int \<Rightarrow> int option" where
  "createUTCDate y m d h mi s ms =
     (let date = Date_UTC y m d h mi s ms
      in if y < 1970 then TimeClip (date_set_field FullYear y (case date of None \<Rightarrow> 0 | Some t \<Rightarrow> t)) else date)"

section \<open>Getters and setters\<close>

definition get_set__get :: "zone \<Rightarrow> date_unit \<Rightarrow> moment \<Rightarrow> int option" where
  "get_set__get z u m = map_option (date_field u) (moment_local z m)"

text \<open>An invalid date stays invalid, except that \<open>setFullYear\<close> starts from time zero.\<close>

definition get_set__set :: "zone \<Rightarrow> date_unit \<Rightarrow> int option \<Rightarrow> moment \<Rightarrow> moment" where
  "get_set__set z u v m =
     (case v of
        None \<Rightarrow> m\<lparr>m_d := None\<rparr>
      | Some n \<Rightarrow>
          (case moment_local z m of
             Some t \<Rightarrow> put_local z m (date_set_field u n t)
           | None \<Rightarrow> if u = FullYear then put_local z m (date_set_field u n 0) else m))"

definition setMonth :: "zone \<Rightarrow> int option \<Rightarrow> moment \<Rightarrow> moment" where
  "setMonth z v m =
     (case (v, moment_local z m) of
        (Some n, Some t) \<Rightarrow>
          (case daysInMonth (date_field FullYear t) n of
             None \<Rightarrow> m\<lparr>m_d := None\<rparr>
           | Some k \<Rightarrow> put_local z m (date_set_month n (min (date_field Date t) k) t))
      | _ \<Rightarrow> m\<lparr>m_d := None\<rparr>)"

definition year :: "zone \<Rightarrow> moment \<Rightarrow> int option" where
  "year z m = get_set__get z FullYear m"

definition month :: "zone \<Rightarrow> moment \<Rightarrow> int option" where
  "month z m = get_set__get z Month m"

definition getSetMonth :: "zone \<Rightarrow> int \<Rightarrow> moment \<Rightarrow> moment" where
  "getSetMonth z n m = setMonth z (Some n) m"

definition makeGetSet :: "zone \<Rightarrow> date_unit \<Rightarrow> int \<Rightarrow> moment \<Rightarrow> moment" where
  "makeGetSet z u n m = get_set__set z u (Some n) m"

definition day :: "zone \<Rightarrow> moment \<Rightarrow> int option" where
  "day z m = map_option (\<lambda>t. WeekDay (Day t)) (moment_local z m)"

definition getDaysInMonth :: "zone \<Rightarrow> moment \<Rightarrow> int option" where
  "getDaysInMonth z m = (case (year z m, month z m) of (Some y, Some mo) \<Rightarrow> daysInMonth y mo | _ \<Rightarrow> None)"

definition getIsLeapYear :: "zone \<Rightarrow> moment \<Rightarrow> bool" where
  "getIsLeapYear z m = (case year z m of None \<Rightarrow> False | Some y \<Rightarrow> isLeapYear y)"

section \<open>Addition\<close>

definition add_option :: "int option \<Rightarrow> int \<Rightarrow> int option" where
  "add_option v n = map_option (\<lambda>x. x + n) v"

definition addSubtract :: "zone \<Rightarrow> moment \<Rightarrow> duration \<Rightarrow> int \<Rightarrow> moment" where
  "addSubtract z mom dur isAdding =
     (let milliseconds = du_milliseconds dur; days = du_days dur; months = du_months dur;
          m1 = (if milliseconds \<noteq> 0
                then mom\<lparr>m_d := Option.bind (m_d mom) (\<lambda>t. TimeClip (t + milliseconds * isAdding))\<rparr> else mom);
          m2 = (if days \<noteq> 0
                then get_set__set z Date (add_option (get_set__get z Date m1) (days * isAdding)) m1 else m1)
      in if months \<noteq> 0
         then setMonth z (add_option (get_set__get z Month m2) (months * isAdding)) m2 else m2)"

text \<open>
  \<open>add\<close> and \<open>subtract\<close> of a number and a unit. (Only the amounts of the duration are used,
  so its locale is immaterial.)
\<close>

definition add :: "zone \<Rightarrow> int \<Rightarrow> string \<Rightarrow> moment \<Rightarrow> moment" where
  "add z n period m = addSubtract z m (duration_of_number (m_locale m) n (Some period)) 1"

definition subtract :: "zone \<Rightarrow> int \<Rightarrow> string \<Rightarrow> moment \<Rightarrow> moment" where
  "subtract z n period m = addSubtract z m (duration_of_number (m_locale m) n (Some period)) (- 1)"

text \<open>An addition whose amount was read off an invalid moment leaves it invalid.\<close>

definition add_days_option :: "zone \<Rightarrow> int option \<Rightarrow> moment \<Rightarrow> moment" where
  "add_days_option z n m = (case n of None \<Rightarrow> m\<lparr>m_d := None\<rparr> | Some k \<Rightarrow> add z k ''d'' m)"

section \<open>Days of the week\<close>

definition set_day :: "zone \<Rightarrow> int \<Rightarrow> moment \<Rightarrow> moment" where
  "set_day z input m = add_days_option z (map_option (\<lambda>d. input - d) (day z m)) m"

definition weekday :: "zone \<Rightarrow> moment \<Rightarrow> int option" where
  "weekday z m = map_option (\<lambda>d. (d + 7 - l_dow (m_locale m)) smod 7) (day z m)"

definition set_weekday :: "zone \<Rightarrow> int \<Rightarrow> moment \<Rightarrow> moment" where
  "set_weekday z input m = add_days_option z (map_option (\<lambda>w. input - w) (weekday z m)) m"

definition isoWeekday :: "zone \<Rightarrow> moment \<Rightarrow> int option" where
  "isoWeekday z m = map_option (\<lambda>d. if d = 0 then 7 else d) (day z m)"

definition set_isoWeekday :: "zone \<Rightarrow> int \<Rightarrow> moment \<Rightarrow> moment" where
  "set_isoWeekday z input m =
     (case day z m of
        None \<Rightarrow> m\<lparr>m_d := None\<rparr>
      | Some d \<Rightarrow> set_day z (if d smod 7 \<noteq> 0 then input else input - 7) m)"

section \<open>Quarters\<close>

definition quarter :: "zone \<Rightarrow> moment \<Rightarrow> int option" where
  "quarter z m = map_option (\<lambda>mo. (mo + 1 + 2) div 3) (month z m)"

definition set_quarter :: "zone \<Rightarrow> int \<Rightarrow> moment \<Rightarrow> moment" where
  "set_quarter z input m =
     (case month z m of
        None \<Rightarrow> m\<lparr>m_d := None\<rparr>
      | Some mo \<Rightarrow> getSetMonth z ((input - 1) * 3 + mo smod 3) m)"

section \<open>Start and end of a unit\<close>

definition startOf_seconds :: "zone \<Rightarrow> moment \<Rightarrow> moment" where
  "startOf_seconds z m = makeGetSet z Milliseconds 0 m"

definition startOf_minutes :: "zone \<Rightarrow> moment \<Rightarrow> moment" where
  "startOf_minutes z m = startOf_seconds z (makeGetSet z Seconds 0 m)"

definition startOf_hours :: "zone \<Rightarrow> moment \<Rightarrow> moment" where
  "startOf_hours z m = startOf_minutes z (makeGetSet z Minutes 0 m)"

definition startOf_days :: "zone \<Rightarrow> moment \<Rightarrow> moment" where
  "startOf_days z m = startOf_hours z (makeGetSet z Hours 0 m)"

definition startOf_months :: "zone \<Rightarrow> moment \<Rightarrow> moment" where
  "startOf_months z m = startOf_days z (makeGetSet z Date 1 m)"

definition startOf_years :: "zone \<Rightarrow> moment \<Rightarrow> moment" where
  "startOf_years z m = startOf_months z (getSetMonth z 0 m)"

text \<open>The cases of the switch fall through from the longest unit to the milliseconds.\<close>

definition startOf_unit :: "zone \<Rightarrow> string option \<Rightarrow> moment \<Rightarrow> moment" where
  "startOf_unit z u m =
     (if u = Some ''year'' then startOf_years z m
      else if u = Some ''quarter'' then
        (let m1 = startOf_months z m
         in case month z m1 of None \<Rightarrow> m1\<lparr>m_d := None\<rparr> | Some mo \<Rightarrow> getSetMonth z (mo div 3 * 3) m1)
      else if u = Some ''month'' then startOf_months z m
      else if u = Some ''week'' then set_weekday z 0 (startOf_days z m)
      else if u = Some ''isoWeek'' then set_isoWeekday z 1 (startOf_days z m)
      else if u = Some ''day'' then startOf_days z m
      else if u = Some ''hour'' then startOf_hours z m
      else if u = Some ''minute'' then startOf_minutes z m
      else if u = Some ''second'' then startOf_seconds z m
      else m)"

definition startOf :: "zone \<Rightarrow> string \<Rightarrow> moment \<Rightarrow> moment" where
  "startOf z units m = startOf_unit z (normalizeUnits units) m"

definition endOf :: "zone \<Rightarrow> string \<Rightarrow> moment \<Rightarrow> moment" where
  "endOf z units m =
     (let u = normalizeUnits units in
      if u = None \<or> u = Some ''millisecond'' then m
      else subtract z 1 ''ms'' (add z 1 (if u = Some ''isoWeek'' then ''week'' else the u) (startOf_unit z u m)))"

section \<open>Day of the year, weeks\<close>

text \<open>The difference of two moments divided by a day, rounded (\<open>Math.round\<close>).\<close>

definition dayOfYear :: "zone \<Rightarrow> moment \<Rightarrow> int option" where
  "dayOfYear z m =
     (case (valueOf (startOf z ''day'' m), valueOf (startOf z ''year'' m)) of
        (Some a, Some b) \<Rightarrow> Some ((2 * (a - b) + 86400000) div (2 * 86400000) + 1)
      | _ \<Rightarrow> None)"

definition set_dayOfYear :: "zone \<Rightarrow> int \<Rightarrow> moment \<Rightarrow> moment" where
  "set_dayOfYear z input m = add_days_option z (map_option (\<lambda>d. input - d) (dayOfYear z m)) m"

text \<open>
  \<open>weekOfYear\<close> works on \<open>local__createLocal(mom)\<close>, a copy of the moment: \<open>prepareConfig\<close>
  returns \<open>new Moment\<close> of a moment input, with its UTC mode. The result is week and year.
\<close>

definition weekOfYear :: "zone \<Rightarrow> moment \<Rightarrow> int \<Rightarrow> int \<Rightarrow> (int \<times> int) option" where
  "weekOfYear z mom firstDayOfWeek firstDayOfWeekOfYear =
     (let last = firstDayOfWeekOfYear - firstDayOfWeek in
      case day z mom of
        None \<Rightarrow> None
      | Some d \<Rightarrow>
          (let k0 = firstDayOfWeekOfYear - d;
               k1 = (if k0 > last then k0 - 7 else k0);
               k2 = (if k1 < last - 7 then k1 + 7 else k1);
               adjustedMoment = add z k2 ''d'' mom
           in case (dayOfYear z adjustedMoment, year z adjustedMoment) of
                (Some n, Some y) \<Rightarrow> Some ((n + 6) div 7, y)
              | _ \<Rightarrow> None))"

definition week :: "zone \<Rightarrow> moment \<Rightarrow> int option" where
  "week z m = map_option fst (weekOfYear z m (l_dow (m_locale m)) (l_doy (m_locale m)))"

definition isoWeek :: "zone \<Rightarrow> moment \<Rightarrow> int option" where
  "isoWeek z m = map_option fst (weekOfYear z m 1 4)"

definition weekYear :: "zone \<Rightarrow> moment \<Rightarrow> int option" where
  "weekYear z m = map_option snd (weekOfYear z m (l_dow (m_locale m)) (l_doy (m_locale m)))"

definition isoWeekYear :: "zone \<Rightarrow> moment \<Rightarrow> int option" where
  "isoWeekYear z m = map_option snd (weekOfYear z m 1 4)"

definition set_week :: "zone \<Rightarrow> int \<Rightarrow> moment \<Rightarrow> moment" where
  "set_week z input m = add_days_option z (map_option (\<lambda>w. (input - w) * 7) (week z m)) m"

definition set_isoWeek :: "zone \<Rightarrow> int \<Rightarrow> moment \<Rightarrow> moment" where
  "set_isoWeek z input m = add_days_option z (map_option (\<lambda>w. (input - w) * 7) (isoWeek z m)) m"

definition set_weekYear :: "zone \<Rightarrow> int \<Rightarrow> moment \<Rightarrow> moment" where
  "set_weekYear z input m = (case weekYear z m of None \<Rightarrow> m\<lparr>m_d := None\<rparr> | Some y \<Rightarrow> add z (input - y) ''y'' m)"

definition set_isoWeekYear :: "zone \<Rightarrow> int \<Rightarrow> moment \<Rightarrow> moment" where
  "set_isoWeekYear z input m =
     (case isoWeekYear z m of None \<Rightarrow> m\<lparr>m_d := None\<rparr> | Some y \<Rightarrow> add z (input - y) ''y'' m)"

definition dayOfYearFromWeeks :: "int \<Rightarrow> int \<Rightarrow> int option \<Rightarrow> int \<Rightarrow> int \<Rightarrow> (int \<times> int) option" where
  "dayOfYearFromWeeks y wk wday firstDayOfWeekOfYear firstDayOfWeek =
     (let week1Jan = 6 + firstDayOfWeek - firstDayOfWeekOfYear in
      case createUTCDate y 0 (1 + week1Jan) 0 0 0 0 of
        None \<Rightarrow> None
      | Some janX \<Rightarrow>
          (let d0 = WeekDay (Day janX);
               d = (if d0 < firstDayOfWeek then d0 + 7 else d0);
               w = (case wday of None \<Rightarrow> firstDayOfWeek | Some x \<Rightarrow> x);
               doy = 1 + week1Jan + 7 * (wk - 1) - d + w
           in Some (if doy > 0 then (y, doy) else (y - 1, daysInYear (y - 1) + doy))))"

end
