(* ===== verification/MomentCalendar.thy ===== *)
theory MomentCalendar imports Main Prelude JsDate MomentLocale MomentDuration MomentCore begin

text \<open>
  What the operations of MomentCore do to the calendar fields. The lemmas work on the wall
  time of a moment (\<open>moment_local\<close>); they hold for moments in UTC mode, with any fixed offset,
  and for local moments in a zone without transitions (\<open>steady\<close>), as long as the values stay
  in the range of ECMAScript dates (\<open>in_span\<close>, one day short of it for the offset).
\<close>

section \<open>Leap years and lengths of months\<close>

lemma smod_0_iff: "0 < k \<Longrightarrow> (y smod k = 0) = (y mod (k::int) = 0)"
  by (simp add: smod_int_alt_def sgn_if mod_eq_0_iff_dvd abs_if)

lemma isLeapYear_leap: "isLeapYear y = leap y"
  using mod_chain [of y] by (auto simp: isLeapYear_def leap_def smod_0_iff)

text \<open>
  The leap year rule and the day numbers agree: \<open>daysInYear\<close> is the distance from
  the first day of a year to the first day of the next.
\<close>

theorem daysInYear_calendar: "daysInYear y = DayFromYear (y + 1) - DayFromYear y"
  by (simp add: daysInYear_def isLeapYear_leap DayFromYear_Suc DaysInYear_def)

definition safe_year :: "int \<Rightarrow> bool" where
  "safe_year y \<longleftrightarrow> - 271000 \<le> y \<and> y \<le> 275000"

definition in_span :: "int \<Rightarrow> bool" where
  "in_span v \<longleftrightarrow> \<bar>v\<bar> \<le> 8640000000000000 - 86400000"

lemma month_start_bounds: "0 \<le> month_start l m" "month_start l m \<le> 366"
  by (simp_all add: month_start_def)

lemma MakeDay_span:
  assumes "safe_year (y + m div 12)" and "\<bar>d\<bar> \<le> 1000"
  shows "\<bar>MakeDay y m d\<bar> \<le> 99990000"
proof -
  have "400 * DayFromYear (y + m div 12) \<le> 39888864499"
    using DayFromYear_bounds(1) [of "y + m div 12"] assms(1) by (simp add: safe_year_def)
  moreover have "- 39880098596 \<le> 400 * DayFromYear (y + m div 12)"
    using DayFromYear_bounds(2) [of "y + m div 12"] assms(1) by (simp add: safe_year_def)
  ultimately show ?thesis
    using month_start_bounds [of "leap (y + m div 12)" "m mod 12"] assms(2)
    unfolding MakeDay_def Let_def by linarith
qed

lemma MakeDate_span:
  "\<bar>n\<bar> \<le> 99990000 \<Longrightarrow> 0 \<le> s \<Longrightarrow> s < msPerDay \<Longrightarrow> in_span (MakeDate n s)"
  by (simp add: in_span_def MakeDate_def msPerDay_def)

lemma civil_span:
  "safe_year (y + m div 12) \<Longrightarrow> \<bar>d\<bar> \<le> 1000 \<Longrightarrow> 0 \<le> s \<Longrightarrow> s < msPerDay \<Longrightarrow> in_span (MakeDate (MakeDay y m d) s)"
  by (rule MakeDate_span [OF MakeDay_span])

lemma TimeClip_span: "in_span v \<Longrightarrow> TimeClip v = Some v"
  by (simp add: in_span_def TimeClip_def)

lemma month_length_range: "28 \<le> month_length l (m mod 12)" "month_length l (m mod 12) \<le> 31"
proof -
  have "0 \<le> m mod 12" "m mod 12 \<le> 11" by simp_all
  then have "m mod 12 \<in> {0, 1, 2, 3, 4, 5, 6, 7, 8, 9, 10, 11}" by (rule month_cases)
  then show "28 \<le> month_length l (m mod 12)" "month_length l (m mod 12) \<le> 31"
    by (auto simp: month_length_def month_start_def)
qed

text \<open>Day zero of the next month is the last day of the month.\<close>

lemma MakeDay_last:
  "MakeDay y (m + 1) 0 = MakeDay (y + m div 12) (m mod 12) (month_length (leap (y + m div 12)) (m mod 12))"
proof -
  define q r where "q = m div 12" and "r = m mod 12"
  have m: "m = 12 * q + r" "0 \<le> r" "r \<le> 11" by (simp_all add: q_def r_def)
  have rr: "r div 12 = 0" "r mod 12 = r" using m by simp_all
  show ?thesis
  proof (cases "r = 11")
    case True
    then have "(m + 1) div 12 = q + 1" "(m + 1) mod 12 = 0" using m(1) by simp_all
    then have "MakeDay y (m + 1) 0 = DayFromYear (y + q) + DaysInYear (y + q) - 1"
      by (simp add: MakeDay_def month_start_def DayFromYear_Suc add.assoc [symmetric])
    then show ?thesis
      unfolding q_def [symmetric] r_def [symmetric]
      by (simp add: True MakeDay_def month_length_def month_start_def DaysInYear_def)
  next
    case False
    then have s: "0 \<le> r + 1" "r + 1 < 12" using m by simp_all
    have e: "m + 1 = 12 * q + (r + 1)" using m(1) by simp
    have "(m + 1) div 12 = q" "(m + 1) mod 12 = r + 1"
      using int_div_pos_eq [OF e s] int_mod_pos_eq [OF e s] .
    then show ?thesis
      unfolding q_def [symmetric] r_def [symmetric]
      by (simp add: MakeDay_def rr month_length_def Let_def)
  qed
qed

lemma valid_last: "valid_civil y (m mod 12) (month_length (leap y) (m mod 12))"
  using month_length_range [of "leap y" m] by (simp add: valid_civil_def)

lemma date_last: "date_field Date (MakeDate (MakeDay y (m + 1) 0) 0) = month_length (leap (y + m div 12)) (m mod 12)"
  using civil_of_day(3) [OF valid_last] by (simp add: MakeDay_last Day_MakeDate msPerDay_def)

lemma civil_time_midnight: "civil_time y m d 0 0 0 0 = MakeDate (MakeDay y m d) 0"
  by (simp add: civil_time_def MakeTime_def)

lemma daysInMonth_eq:
  assumes "safe_year (MakeFullYear y + (m + 1) div 12)"
  shows "daysInMonth y m = Some (month_length (leap (MakeFullYear y + m div 12)) (m mod 12))"
  using TimeClip_span [OF civil_span [OF assms, of 0 0]]
  by (simp add: daysInMonth_def Date_UTC_def civil_time_midnight date_last [unfolded date_field.simps] msPerDay_def)

lemma leap_1900: "1 \<le> y \<Longrightarrow> y \<le> 99 \<Longrightarrow> leap (1900 + y) = leap y"
  by (simp add: leap_def) presburger

lemma daysInMonth_civil:
  assumes "safe_year (y + (m + 1) div 12)" and "y < 0 \<or> 99 < y \<or> y \<noteq> 0 \<and> 0 \<le> m \<and> m \<le> 11"
  shows "daysInMonth y m = Some (month_length (leap (y + m div 12)) (m mod 12))"
proof (cases "y < 0 \<or> 99 < y")
  case True
  then have "MakeFullYear y = y" by (auto simp: MakeFullYear_def)
  then show ?thesis using daysInMonth_eq [of y m] assms(1) by simp
next
  case False
  then have y: "1 \<le> y" "y \<le> 99" "0 \<le> m" "m \<le> 11" using assms(2) by auto
  have "MakeFullYear y = 1900 + y" using y by (simp add: MakeFullYear_def)
  moreover have "(m + 1) div 12 \<le> 1" "0 \<le> (m + 1) div 12" using y div_range(1) [of 12 "m + 1"] by (linarith, simp)
  ultimately show ?thesis
    using daysInMonth_eq [of y m] y by (simp add: safe_year_def leap_1900)
qed

text \<open>
  For every year but 0 and every month of it, \<open>daysInMonth\<close> is the length of that
  month in the Gregorian calendar, although \<open>Date.UTC\<close> moves the years 1 to 99 into the
  twentieth century; months beyond December, or before January, are those of the years
  after and before.
\<close>

theorem daysInMonth_calendar:
  assumes "safe_year (y + (m + 1) div 12)" and "y < 0 \<or> 99 < y \<or> y \<noteq> 0 \<and> 0 \<le> m \<and> m \<le> 11"
  shows "daysInMonth y m = Some (month_length (leap (y + m div 12)) (m mod 12))"
  by (rule daysInMonth_civil [OF assms])

lemma daysInMonth_calendar_witness: "daysInMonth 4 1 = Some 29"
proof -
  have h: "safe_year (4 + (1 + 1) div 12)" "(4::int) < 0 \<or> 99 < (4::int) \<or> (4::int) \<noteq> 0 \<and> 0 \<le> (1::int) \<and> (1::int) \<le> 11"
    by (simp_all add: safe_year_def)
  show ?thesis
    using daysInMonth_calendar [OF h] by (simp add: leap_def month_length_def month_start_def)
qed

text \<open>
  The year 0 is the exception: it is a leap year, also for \<open>isLeapYear\<close>, yet
  \<open>daysInMonth\<close> gives its February the 28 days of February 1900.
\<close>

theorem february_of_year_zero:
  "isLeapYear 0 \<and> daysInMonth 0 1 = Some 28 \<and> month_length (leap 0) 1 = 29"
  by (simp add: isLeapYear_leap leap_def daysInMonth_eq safe_year_def MakeFullYear_def month_length_def month_start_def)


section \<open>Construction\<close>

lemma TimeWithinDay_civil: "valid_time h mi s ms \<Longrightarrow> TimeWithinDay (civil_time y m d h mi s ms) = MakeTime h mi s ms"
  using MakeTime_bounds [of h mi s ms] by (simp add: civil_time_def Day_MakeDate)

lemma valid_div_mod: "valid_civil y m d \<Longrightarrow> m div 12 = 0 \<and> m mod 12 = m \<and> \<bar>d\<bar> \<le> 1000"
  using month_length_range [of "leap y" m] by (simp add: valid_civil_def)

lemma civil_time_span:
  "valid_civil y m d \<Longrightarrow> valid_time h mi s ms \<Longrightarrow> safe_year y \<Longrightarrow> in_span (civil_time y m d h mi s ms)"
  unfolding civil_time_def using valid_div_mod [of y m d] MakeTime_bounds [of h mi s ms]
  by (intro civil_span) simp_all

lemma set_year_civil:
  "valid_civil y' m d \<Longrightarrow> valid_time h mi s ms \<Longrightarrow>
   date_set_field FullYear y (civil_time y' m d h mi s ms) = civil_time y m d h mi s ms"
  using fields_of_civil [of y' m d h mi s ms] TimeWithinDay_civil [of h mi s ms y' m d]
  by (simp add: civil_time_def)

lemma createUTCDate_civil:
  assumes "valid_civil y m d" and "valid_time h mi s ms" and "safe_year y"
    and "y \<noteq> 0 \<or> m \<noteq> 1 \<or> d \<noteq> 29"
  shows "createUTCDate y m d h mi s ms = Some (civil_time y m d h mi s ms)"
proof -
  let ?y = "MakeFullYear y"
  have v: "valid_civil ?y m d"
  proof (cases "1 \<le> y \<and> y \<le> 99")
    case True
    then show ?thesis using assms(1) by (simp add: MakeFullYear_def valid_civil_def leap_1900)
  next
    case False
    show ?thesis
    proof (cases "y = 0")
      case True
      have "0 \<le> m" "m \<le> 11" using assms(1) by (simp_all add: valid_civil_def)
      then have "m \<in> {0, 1, 2, 3, 4, 5, 6, 7, 8, 9, 10, 11}" by (rule month_cases)
      then show ?thesis
        using True assms(1,4)
        by (auto simp: MakeFullYear_def valid_civil_def leap_def month_length_def month_start_def)
    next
      case F: False
      then have "MakeFullYear y = y" using False by (auto simp: MakeFullYear_def)
      then show ?thesis using assms(1) by simp
    qed
  qed
  have s: "safe_year ?y" using assms(3) by (simp add: MakeFullYear_def safe_year_def)
  have u: "Date_UTC y m d h mi s ms = Some (civil_time ?y m d h mi s ms)"
    by (simp add: Date_UTC_def TimeClip_span [OF civil_time_span [OF v assms(2) s]])
  show ?thesis
  proof (cases "y < 1970")
    case True
    then show ?thesis
      using TimeClip_span [OF civil_time_span [OF assms(1-3)]]
      by (simp add: createUTCDate_def u set_year_civil [OF v assms(2)] del: date_set_field.simps)
  next
    case False
    then show ?thesis by (simp add: createUTCDate_def u MakeFullYear_def)
  qed
qed

text \<open>
  For every valid date and time of every year (the 29th of February of the year 0
  excepted) \<open>createUTCDate\<close> creates exactly that date: the detour of the years 0 to 99 over the
  twentieth century, which \<open>Date.UTC\<close> takes, is undone by setting the year again.
\<close>

theorem createUTCDate_exact:
  assumes "valid_civil y m d" and "valid_time h mi s ms" and "safe_year y"
    and "y \<noteq> 0 \<or> m \<noteq> 1 \<or> d \<noteq> 29"
  shows "\<exists>t. createUTCDate y m d h mi s ms = Some t \<and> t = civil_time y m d h mi s ms \<and>
    date_field FullYear t = y \<and> date_field Month t = m \<and> date_field Date t = d \<and> date_field Hours t = h \<and>
    date_field Minutes t = mi \<and> date_field Seconds t = s \<and> date_field Milliseconds t = ms"
  using createUTCDate_civil [OF assms] fields_of_civil [OF assms(1,2)] by simp

lemma createUTCDate_exact_witness: "\<exists>t. createUTCDate 4 1 29 12 0 0 0 = Some t \<and> date_field FullYear t = 4"
proof -
  have h: "valid_civil 4 1 29" "valid_time 12 0 0 0" "safe_year 4" "(4::int) \<noteq> 0 \<or> (1::int) \<noteq> 1 \<or> (29::int) \<noteq> 29"
    by (simp_all add: valid_civil_def valid_time_def safe_year_def leap_def month_length_def month_start_def)
  show ?thesis using createUTCDate_exact [OF h] by blast
qed

section \<open>Wall time\<close>

definition steady :: "zone \<Rightarrow> moment \<Rightarrow> bool" where
  "steady z m \<longleftrightarrow> m_isUTC m \<or> (\<exists>k. z = fixed_zone k \<and> \<bar>k\<bar> \<le> 1440)"

lemma put_local_frame [simp]:
  "m_isUTC (put_local z m v) = m_isUTC m" "m_offset (put_local z m v) = m_offset m"
  "m_locale (put_local z m v) = m_locale m" "m_flags_ok (put_local z m v) = m_flags_ok m"
  "steady z (put_local z m v) = steady z m"
  by (simp_all add: put_local_def steady_def)

lemma put_local_wall:
  assumes "steady z m" and "in_span v"
  shows "moment_local z (put_local z m v) = Some v"
proof (cases "m_isUTC m")
  case True
  then show ?thesis using TimeClip_span [OF assms(2)] by (simp add: put_local_def moment_local_def)
next
  case False
  then obtain k where k: "z = fixed_zone k" "\<bar>k\<bar> \<le> 1440" using assms(1) by (auto simp: steady_def)
  then have "TimeClip (v - k * 60000) = Some (v - k * 60000)"
    using assms(2) unfolding in_span_def TimeClip_def by simp
  then show ?thesis
    using False k by (simp add: put_local_def moment_local_def fixed_zone_def UTC_def LocalTime_def)
qed

lemma put_local_put: "moment_local z m = Some t \<Longrightarrow> put_local z (put_local z m u) v = put_local z m v"
  by (simp add: put_local_def)

text \<open>A value of the wall time determines the value of the moment up to a constant.\<close>

definition wall_shift :: "zone \<Rightarrow> moment \<Rightarrow> int" where
  "wall_shift z m = (if m_isUTC m then 0 else off_utc z 0) + (case m_offset m of None \<Rightarrow> 0 | Some n \<Rightarrow> n) * 60000"

lemma wall_value: "steady z m \<Longrightarrow> moment_local z m = Some t \<Longrightarrow> valueOf m = Some (t - wall_shift z m)"
  by (auto simp: steady_def moment_local_def valueOf_def wall_shift_def fixed_zone_def LocalTime_def)

lemma wall_shift_put [simp]: "wall_shift z (put_local z m v) = wall_shift z m"
  by (simp add: wall_shift_def)

lemma set_wall:
  assumes "moment_local z m = Some t"
  shows "get_set__set z u (Some n) m = put_local z m (date_set_field u n t)"
  using assms by (simp add: get_set__set_def)

text \<open>The decomposition of a time value.\<close>

lemma civil_cases:
  obtains y m d h mi s ms where "t = civil_time y m d h mi s ms" "valid_civil y m d" "valid_time h mi s ms"
  using civil_of_fields [of t] valid_fields [of t] by metis

lemma set_fields_civil:
  assumes "valid_civil y m d" and "valid_time h mi s ms"
  shows "date_set_field Milliseconds v (civil_time y m d h mi s ms) = civil_time y m d h mi s v"
    "date_set_field Seconds v (civil_time y m d h mi s ms) = civil_time y m d h mi v ms"
    "date_set_field Minutes v (civil_time y m d h mi s ms) = civil_time y m d h v s ms"
    "date_set_field Hours v (civil_time y m d h mi s ms) = civil_time y m d v mi s ms"
    "date_set_field Date v (civil_time y m d h mi s ms) = civil_time y m v h mi s ms"
    "date_set_month k v (civil_time y m d h mi s ms) = civil_time y k v h mi s ms"
proof -
  have day: "Day (civil_time y m d h mi s ms) = MakeDay y m d"
    using MakeTime_bounds [OF assms(2)] by (simp add: civil_time_def Day_MakeDate)
  note f = fields_of_civil [OF assms] TimeWithinDay_civil [OF assms(2), of y m d] day
  show "date_set_field Milliseconds v (civil_time y m d h mi s ms) = civil_time y m d h mi s v"
    "date_set_field Seconds v (civil_time y m d h mi s ms) = civil_time y m d h mi v ms"
    "date_set_field Minutes v (civil_time y m d h mi s ms) = civil_time y m d h v s ms"
    "date_set_field Hours v (civil_time y m d h mi s ms) = civil_time y m d v mi s ms"
    "date_set_field Date v (civil_time y m d h mi s ms) = civil_time y m v h mi s ms"
    "date_set_month k v (civil_time y m d h mi s ms) = civil_time y k v h mi s ms"
    using f by (simp_all add: civil_time_def date_set_month_def)
qed

end
