(* ===== verification/MomentUnits.thy ===== *)
theory MomentUnits imports Main Prelude JsDate MomentLocale MomentDuration MomentCore MomentCalendar begin

text \<open>
  \<open>add\<close>, \<open>startOf\<close> and \<open>endOf\<close> of MomentCore against the calendar: what they do to the wall
  time of a steady moment, and that the starts and ends of each unit cut time into intervals.
\<close>

section \<open>Adding\<close>

lemma steady_put_self:
  assumes "steady z m" and "moment_local z m = Some t" and "in_span t"
  shows "put_local z m t = m"
proof (cases "m_isUTC m")
  case True
  then show ?thesis
    using assms(2) TimeClip_span [OF assms(3)] by (auto simp: put_local_def moment_local_def)
next
  case False
  then obtain k where k: "z = fixed_zone k" "\<bar>k\<bar> \<le> 1440" using assms(1) by (auto simp: steady_def)
  obtain e where e: "m_d m = Some e" "e + k * 60000 = t"
    using assms(2) False k by (auto simp: moment_local_def LocalTime_def fixed_zone_def)
  have "TimeClip e = Some e" using e k(2) assms(3) unfolding in_span_def TimeClip_def by simp
  moreover have "UTC z t = e" using e k by (simp add: UTC_def fixed_zone_def)
  ultimately show ?thesis using False e by (simp add: put_local_def)
qed

lemma bubble_amounts [simp]:
  "du_milliseconds (bubble d) = du_milliseconds d" "du_days (bubble d) = du_days d"
  "du_months (bubble d) = du_months d"
  by (simp_all add: bubble_def)

lemma number_amounts:
  "du_milliseconds (duration_of_number l n (Some ''ms'')) = n" "du_days (duration_of_number l n (Some ''ms'')) = 0"
  "du_months (duration_of_number l n (Some ''ms'')) = 0"
  "du_milliseconds (duration_of_number l n (Some ''second'')) = n * 1000" "du_days (duration_of_number l n (Some ''second'')) = 0"
  "du_months (duration_of_number l n (Some ''second'')) = 0"
  "du_milliseconds (duration_of_number l n (Some ''minute'')) = n * 60000" "du_days (duration_of_number l n (Some ''minute'')) = 0"
  "du_months (duration_of_number l n (Some ''minute'')) = 0"
  "du_milliseconds (duration_of_number l n (Some ''hour'')) = n * 3600000" "du_days (duration_of_number l n (Some ''hour'')) = 0"
  "du_months (duration_of_number l n (Some ''hour'')) = 0"
  "du_milliseconds (duration_of_number l n (Some ''d'')) = 0" "du_days (duration_of_number l n (Some ''d'')) = n"
  "du_months (duration_of_number l n (Some ''d'')) = 0"
  "du_milliseconds (duration_of_number l n (Some ''day'')) = 0" "du_days (duration_of_number l n (Some ''day'')) = n"
  "du_months (duration_of_number l n (Some ''day'')) = 0"
  "du_milliseconds (duration_of_number l n (Some ''week'')) = 0" "du_days (duration_of_number l n (Some ''week'')) = n * 7"
  "du_months (duration_of_number l n (Some ''week'')) = 0"
  "du_milliseconds (duration_of_number l n (Some ''month'')) = 0" "du_days (duration_of_number l n (Some ''month'')) = 0"
  "du_months (duration_of_number l n (Some ''month'')) = n"
  "du_milliseconds (duration_of_number l n (Some ''M'')) = 0" "du_days (duration_of_number l n (Some ''M'')) = 0"
  "du_months (duration_of_number l n (Some ''M'')) = n"
  "du_milliseconds (duration_of_number l n (Some ''quarter'')) = 0" "du_days (duration_of_number l n (Some ''quarter'')) = 0"
  "du_months (duration_of_number l n (Some ''quarter'')) = n * 3"
  "du_milliseconds (duration_of_number l n (Some ''year'')) = 0" "du_days (duration_of_number l n (Some ''year'')) = 0"
  "du_months (duration_of_number l n (Some ''year'')) = n * 12"
  by (simp_all add: duration_of_number_def new_Duration_def normalizeObjectUnits_def or_zero_def Let_def)

lemma bind_clip_put:
  assumes "steady z m" and "moment_local z m = Some t"
  shows "m\<lparr>m_d := Option.bind (m_d m) (\<lambda>e. TimeClip (e + x))\<rparr> = put_local z m (t + x)"
  using assms
  by (auto simp: steady_def moment_local_def put_local_def fixed_zone_def LocalTime_def UTC_def algebra_simps)

lemma add_time:
  assumes "steady z m" and "moment_local z m = Some t" and "in_span t"
    and "du_days dur = 0" and "du_months dur = 0"
  shows "addSubtract z m dur k = put_local z m (t + du_milliseconds dur * k)"
  using assms by (simp add: addSubtract_def Let_def bind_clip_put steady_put_self)

lemma add_days:
  assumes "steady z m" and "moment_local z m = Some (civil_time y mo d h mi s ms)"
    and "in_span (civil_time y mo d h mi s ms)" and "valid_civil y mo d" and "valid_time h mi s ms"
    and "du_milliseconds dur = 0" and "du_months dur = 0"
  shows "addSubtract z m dur k = put_local z m (civil_time y mo (d + du_days dur * k) h mi s ms)"
proof (cases "du_days dur = 0")
  case True
  then show ?thesis using steady_put_self [OF assms(1-3)] assms(6,7) by (simp add: addSubtract_def Let_def)
next
  case False
  have "get_set__get z Date m = Some d"
    using assms(2) fields_of_civil(3) [OF assms(4,5)] by (simp only: get_set__get_def option.map)
  then show ?thesis
    using False assms(6,7)
    by (simp add: addSubtract_def Let_def add_option_def set_wall [OF assms(2)] set_fields_civil [OF assms(4,5)]
        del: date_set_field.simps)
qed

text \<open>Setting the month clamps the date to the length of the month that \<open>daysInMonth\<close> reports.\<close>

lemma setMonth_civil:
  assumes "moment_local z m = Some (civil_time y mo d h mi s ms)" and "valid_civil y mo d" and "valid_time h mi s ms"
    and "daysInMonth y n = Some k"
  shows "setMonth z (Some n) m = put_local z m (civil_time y n (min d k) h mi s ms)"
  using assms(4) fields_of_civil(1,3) [OF assms(2,3)]
  by (simp add: setMonth_def assms(1) set_fields_civil [OF assms(2,3)] del: date_field.simps)

lemma add_months:
  assumes "steady z m" and "moment_local z m = Some (civil_time y mo d h mi s ms)"
    and "valid_civil y mo d" and "valid_time h mi s ms"
    and "du_milliseconds dur = 0" and "du_days dur = 0" and "du_months dur \<noteq> 0"
    and "daysInMonth y (mo + du_months dur * i) = Some k"
  shows "addSubtract z m dur i = put_local z m (civil_time y (mo + du_months dur * i) (min d k) h mi s ms)"
proof -
  have "get_set__get z Month m = Some mo"
    using assms(2) fields_of_civil(2) [OF assms(3,4)] by (simp only: get_set__get_def option.map)
  then show ?thesis
    using assms(5-7) setMonth_civil [OF assms(2-4,8)] by (simp add: addSubtract_def Let_def add_option_def)
qed

lemma civil_time_norm: "civil_time y n d h mi s ms = civil_time (y + n div 12) (n mod 12) d h mi s ms"
  by (simp add: civil_time_def MakeDay_def)

text \<open>
  Adding months (years are twelve of them) moves the month by that number, carrying
  into the year, keeps the time of day, and keeps the date unless the target month is
  shorter, when it becomes the last of that month. (The years 0 to 99 are left out: there
  \<open>daysInMonth\<close> looks at another century.)
\<close>

theorem add_months_clamps:
  assumes "steady z m" and "moment_local z m = Some t" and "n \<noteq> 0"
    and y: "y = date_field FullYear t + (date_field Month t + n) div 12"
    and mo: "mo = (date_field Month t + n) mod 12"
    and safe: "safe_year y" "safe_year (date_field FullYear t + (date_field Month t + n + 1) div 12)"
    and "date_field FullYear t < 0 \<or> 99 < date_field FullYear t"
  shows "\<exists>t'. moment_local z (add z n ''M'' m) = Some t' \<and> date_field FullYear t' = y \<and> date_field Month t' = mo \<and>
    date_field Date t' = min (date_field Date t) (month_length (leap y) mo) \<and> TimeWithinDay t' = TimeWithinDay t"
proof -
  obtain y0 mo0 d h mi s ms where t: "t = civil_time y0 mo0 d h mi s ms"
    and v: "valid_civil y0 mo0 d" and w: "valid_time h mi s ms" by (rule civil_cases)
  have f: "date_field FullYear t = y0" "date_field Month t = mo0" "date_field Date t = d"
    using fields_of_civil [OF v w] unfolding t by simp_all
  let ?k = "month_length (leap y) mo"
  have k: "daysInMonth y0 (mo0 + n) = Some ?k"
  proof -
    have a: "y0 < 0 \<or> 99 < y0 \<or> y0 \<noteq> 0 \<and> 0 \<le> mo0 + n \<and> mo0 + n \<le> 11"
      using assms(8) unfolding f by blast
    have s: "safe_year (y0 + (mo0 + n + 1) div 12)" using safe(2) unfolding f .
    show ?thesis using daysInMonth_civil [OF s a] y mo unfolding f by simp
  qed
  have l: "mo = mo mod 12" unfolding mo by simp
  have d: "1 \<le> min d ?k" "min d ?k \<le> ?k"
    using v month_length_range [of "leap y" mo] unfolding l [symmetric] by (simp_all add: valid_civil_def)
  have vn: "valid_civil y mo (min d ?k)"
    using d unfolding valid_civil_def mo by simp
  have c: "civil_time y0 (mo0 + n) (min d ?k) h mi s ms = civil_time y mo (min d ?k) h mi s ms"
    using civil_time_norm [of y0 "mo0 + n"] y mo f by simp
  have "add z n ''M'' m = put_local z m (civil_time y mo (min d ?k) h mi s ms)"
    unfolding add_def
    using add_months [OF assms(1) assms(2) [unfolded t] v w, of "duration_of_number (m_locale m) n (Some ''M'')" 1 ?k]
      k assms(3) by (simp add: number_amounts c)
  then have "moment_local z (add z n ''M'' m) = Some (civil_time y mo (min d ?k) h mi s ms)"
    using put_local_wall [OF assms(1) civil_time_span [OF vn w safe(1)]] by simp
  then show ?thesis
    using fields_of_civil [OF vn w] TimeWithinDay_civil [OF w] f unfolding t by simp
qed

definition utc_moment :: "int \<Rightarrow> moment" where
  "utc_moment t = \<lparr>m_d = Some t, m_isUTC = True, m_offset = None, m_locale = en_locale, m_flags_ok = True, m_tzm = None\<rparr>"

lemma utc_moment_wall [simp]: "moment_local z (utc_moment t) = Some t" "steady z (utc_moment t)"
  by (simp_all add: utc_moment_def moment_local_def steady_def)

lemma add_months_clamps_witness:
  "\<exists>t'. moment_local (fixed_zone 0) (add (fixed_zone 0) 1 ''M'' (utc_moment (civil_time 2015 0 31 10 0 0 0))) = Some t'
     \<and> date_field Month t' = 1 \<and> date_field Date t' = 28"
proof -
  have v: "valid_civil 2015 0 31" "valid_time 10 0 0 0"
    by (simp_all add: valid_civil_def valid_time_def month_length_def month_start_def)
  note f = fields_of_civil [OF v]
  show ?thesis
    using add_months_clamps [OF utc_moment_wall(2,1), of 1 2015 "civil_time 2015 0 31 10 0 0 0" 1 "fixed_zone 0"]
    unfolding f by (simp add: safe_year_def month_length_def month_start_def leap_def del: date_field.simps) blast
qed


section \<open>Start and end of a unit\<close>

text \<open>
  The specification: \<open>unit_floor\<close> is the first instant of the unit that contains a wall time,
  \<open>unit_next\<close> the first of the unit after it; \<open>w\<close> is the first day of the locale's week.
\<close>

definition week_day :: "int \<Rightarrow> int \<Rightarrow> int" where
  "week_day w t = (WeekDay (Day t) - w) mod 7"

definition unit_floor :: "int \<Rightarrow> string \<Rightarrow> int \<Rightarrow> int" where
  "unit_floor w u t =
     (let y = date_field FullYear t; mo = date_field Month t in
      if u = ''year'' then MakeDate (MakeDay y 0 1) 0
      else if u = ''quarter'' then MakeDate (MakeDay y (mo div 3 * 3) 1) 0
      else if u = ''month'' then MakeDate (MakeDay y mo 1) 0
      else if u = ''week'' then MakeDate (Day t - week_day w t) 0
      else if u = ''isoWeek'' then MakeDate (Day t - week_day 1 t) 0
      else if u = ''day'' then MakeDate (Day t) 0
      else if u = ''hour'' then t div 3600000 * 3600000
      else if u = ''minute'' then t div 60000 * 60000
      else t div 1000 * 1000)"

definition unit_next :: "int \<Rightarrow> string \<Rightarrow> int \<Rightarrow> int" where
  "unit_next w u t =
     (let y = date_field FullYear t; mo = date_field Month t in
      if u = ''year'' then MakeDate (MakeDay (y + 1) 0 1) 0
      else if u = ''quarter'' then MakeDate (MakeDay y (mo div 3 * 3 + 3) 1) 0
      else if u = ''month'' then MakeDate (MakeDay y (mo + 1) 1) 0
      else if u = ''week'' then MakeDate (Day t - week_day w t + 7) 0
      else if u = ''isoWeek'' then MakeDate (Day t - week_day 1 t + 7) 0
      else if u = ''day'' then MakeDate (Day t + 1) 0
      else if u = ''hour'' then (t div 3600000 + 1) * 3600000
      else if u = ''minute'' then (t div 60000 + 1) * 60000
      else (t div 1000 + 1) * 1000)"

definition calendar_units :: "string list" where
  "calendar_units = [''year'', ''quarter'', ''month'', ''week'', ''isoWeek'', ''day'', ''hour'', ''minute'', ''second'']"

text \<open>A moment at a given civil wall time.\<close>

definition at_civil :: "zone \<Rightarrow> moment \<Rightarrow> int \<Rightarrow> int \<Rightarrow> int \<Rightarrow> int \<Rightarrow> int \<Rightarrow> int \<Rightarrow> int \<Rightarrow> moment \<Rightarrow> bool" where
  "at_civil z m y mo d h mi s ms m' \<longleftrightarrow> m' = put_local z m (civil_time y mo d h mi s ms) \<and>
     steady z m \<and> valid_civil y mo d \<and> valid_time h mi s ms \<and> safe_year y"

lemma at_civil_wall: "at_civil z m y mo d h mi s ms m' \<Longrightarrow> moment_local z m' = Some (civil_time y mo d h mi s ms)"
  by (simp add: at_civil_def put_local_wall civil_time_span)

lemma put_put: "steady z m \<Longrightarrow> put_local z (put_local z m u) v = put_local z m v"
  by (simp add: put_local_def)

lemma at_civil_put:
  "at_civil z m y mo d h mi s ms m' \<Longrightarrow> put_local z m' v = put_local z m v"
  by (simp add: at_civil_def put_put)

lemma at_civil_set:
  assumes "at_civil z m y mo d h mi s ms m'"
  shows "makeGetSet z Milliseconds v m' = put_local z m (civil_time y mo d h mi s v)"
    "makeGetSet z Seconds v m' = put_local z m (civil_time y mo d h mi v ms)"
    "makeGetSet z Minutes v m' = put_local z m (civil_time y mo d h v s ms)"
    "makeGetSet z Hours v m' = put_local z m (civil_time y mo d v mi s ms)"
    "makeGetSet z Date v m' = put_local z m (civil_time y mo v h mi s ms)"
proof -
  have v: "valid_civil y mo d" "valid_time h mi s ms" using assms by (simp_all add: at_civil_def)
  show "makeGetSet z Milliseconds v m' = put_local z m (civil_time y mo d h mi s v)"
    "makeGetSet z Seconds v m' = put_local z m (civil_time y mo d h mi v ms)"
    "makeGetSet z Minutes v m' = put_local z m (civil_time y mo d h v s ms)"
    "makeGetSet z Hours v m' = put_local z m (civil_time y mo d v mi s ms)"
    "makeGetSet z Date v m' = put_local z m (civil_time y mo v h mi s ms)"
    by (simp_all add: makeGetSet_def set_wall [OF at_civil_wall [OF assms]] set_fields_civil [OF v]
        at_civil_put [OF assms] del: date_set_field.simps)
qed

lemma at_seconds: "at_civil z m y mo d h mi s ms m' \<Longrightarrow> at_civil z m y mo d h mi s 0 (startOf_seconds z m')"
  using at_civil_set(1) [of z m y mo d h mi s ms m' 0]
  by (simp add: startOf_seconds_def at_civil_def valid_time_def)

lemma at_minutes: "at_civil z m y mo d h mi s ms m' \<Longrightarrow> at_civil z m y mo d h mi 0 0 (startOf_minutes z m')"
  using at_civil_set(2) [of z m y mo d h mi s ms m' 0]
  unfolding startOf_minutes_def by (intro at_seconds [of z m y mo d h mi 0 ms]) (simp add: at_civil_def valid_time_def)

lemma at_hours: "at_civil z m y mo d h mi s ms m' \<Longrightarrow> at_civil z m y mo d h 0 0 0 (startOf_hours z m')"
  using at_civil_set(3) [of z m y mo d h mi s ms m' 0]
  unfolding startOf_hours_def by (intro at_minutes [of z m y mo d h 0 s ms]) (simp add: at_civil_def valid_time_def)

lemma at_days: "at_civil z m y mo d h mi s ms m' \<Longrightarrow> at_civil z m y mo d 0 0 0 0 (startOf_days z m')"
  using at_civil_set(4) [of z m y mo d h mi s ms m' 0]
  unfolding startOf_days_def by (intro at_hours [of z m y mo d 0 mi s ms]) (simp add: at_civil_def valid_time_def)

lemma month_length_pos: "0 \<le> mo \<Longrightarrow> mo \<le> 11 \<Longrightarrow> 28 \<le> month_length l mo"
  using month_length_range(1) [of l mo] by simp

lemma at_months: "at_civil z m y mo d h mi s ms m' \<Longrightarrow> at_civil z m y mo 1 0 0 0 0 (startOf_months z m')"
  using at_civil_set(5) [of z m y mo d h mi s ms m' 1] month_length_pos [of mo "leap y"]
  unfolding startOf_months_def by (intro at_days [of z m y mo 1 h mi s ms]) (simp add: at_civil_def valid_civil_def)

lemma month_of_first:
  assumes "at_civil z m y mo d h mi s ms m'" and "safe_year (MakeFullYear y + (n + 1) div 12)"
  shows "\<exists>k\<ge>28. getSetMonth z n m' = put_local z m (civil_time y n (min d k) h mi s ms)"
proof -
  have v: "valid_civil y mo d" "valid_time h mi s ms" using assms(1) by (simp_all add: at_civil_def)
  obtain k where k: "daysInMonth y n = Some k" "28 \<le> k"
    using daysInMonth_eq [OF assms(2)] month_length_range(1) by blast
  then show ?thesis
    using setMonth_civil [OF at_civil_wall [OF assms(1)] v k(1)] at_civil_put [OF assms(1)]
    by (auto simp: getSetMonth_def)
qed

lemma safe_full_year: "safe_year y \<Longrightarrow> 0 \<le> n \<Longrightarrow> n \<le> 11 \<Longrightarrow> y < 275000 \<Longrightarrow> safe_year (MakeFullYear y + (n + 1) div 12)"
proof -
  assume a: "safe_year y" "0 \<le> n" "n \<le> 11" "y < 275000"
  have "0 \<le> (n + 1) div 12" "(n + 1) div 12 \<le> 1" using a div_range(1) [of 12 "n + 1"] by (simp, linarith)
  then show ?thesis using a(1,4) by (auto simp: safe_year_def MakeFullYear_def)
qed

lemma at_years:
  assumes "at_civil z m y mo d h mi s ms m'" and "y < 275000"
  shows "at_civil z m y 0 1 0 0 0 0 (startOf_years z m')"
proof -
  have s: "safe_year (MakeFullYear y + (0 + 1) div 12)"
    using assms by (intro safe_full_year) (simp_all add: at_civil_def)
  obtain k where k: "28 \<le> k" "getSetMonth z 0 m' = put_local z m (civil_time y 0 (min d k) h mi s ms)"
    using month_of_first [OF assms(1) s] by blast
  have d: "1 \<le> d" "d \<le> 31"
    using assms(1) month_length_range(2) [of "leap y" mo] by (auto simp: at_civil_def valid_civil_def)
  then have "valid_civil y 0 (min d k)" using k(1) by (simp add: valid_civil_def month_length_def month_start_def)
  then have "at_civil z m y 0 (min d k) h mi s ms (getSetMonth z 0 m')"
    using assms(1) k(2) by (simp add: at_civil_def)
  then show ?thesis unfolding startOf_years_def by (rule at_months)
qed

lemma at_quarter:
  assumes "at_civil z m y mo d h mi s ms m'" and "y < 275000"
  shows "at_civil z m y (mo div 3 * 3) 1 0 0 0 0 (startOf_unit z (Some ''quarter'') m')"
proof -
  have a: "at_civil z m y mo 1 0 0 0 0 (startOf_months z m')" by (rule at_months [OF assms(1)])
  have v: "valid_civil y mo 1" "valid_time 0 0 0 0" "0 \<le> mo" "mo \<le> 11"
    using a by (simp_all add: at_civil_def valid_civil_def)
  have q: "0 \<le> mo div 3 * 3" "mo div 3 * 3 \<le> 11" using v div_range(1) [of 3 mo] by (simp, linarith)
  have mm: "month z (startOf_months z m') = Some mo"
    using fields_of_civil(2) [OF v(1,2)] by (simp only: month_def get_set__get_def at_civil_wall [OF a] option.map)
  have s: "safe_year (MakeFullYear y + (mo div 3 * 3 + 1) div 12)"
    using assms q by (intro safe_full_year) (simp_all add: at_civil_def)
  obtain k where "28 \<le> k" "getSetMonth z (mo div 3 * 3) (startOf_months z m') =
      put_local z m (civil_time y (mo div 3 * 3) (min 1 k) 0 0 0 0)"
    using month_of_first [OF a s] by blast
  then have "startOf_unit z (Some ''quarter'') m' = put_local z m (civil_time y (mo div 3 * 3) 1 0 0 0 0)"
    by (simp add: startOf_unit_def mm Let_def)
  then show ?thesis
    using a q month_length_pos [OF q, of "leap y"] by (simp add: at_civil_def valid_civil_def)
qed


lemma civil_day_shift: "civil_time y mo (d + k) 0 0 0 0 = MakeDate (MakeDay y mo d + k) 0"
proof -
  have "MakeDay y mo (d + k) = MakeDay y mo d + k" by (simp add: MakeDay_def Let_def)
  then show ?thesis by (simp add: civil_time_def MakeTime_def)
qed

lemma at_civil_day:
  assumes "at_civil z m y mo d 0 0 0 0 m'"
  shows "day z m' = Some (WeekDay (MakeDay y mo d))"
  by (simp add: day_def at_civil_wall [OF assms] civil_time_midnight Day_MakeDate msPerDay_def)

lemma at_civil_span: "at_civil z m y mo d h mi s ms m' \<Longrightarrow> in_span (civil_time y mo d h mi s ms)"
  by (simp add: at_civil_def civil_time_span)

lemma at_civil_add_days:
  assumes "at_civil z m y mo d 0 0 0 0 m'"
  shows "add z k ''d'' m' = put_local z m (MakeDate (MakeDay y mo d + k) 0)"
proof -
  have a: "steady z m'" "valid_civil y mo d" "valid_time 0 0 0 0" using assms by (simp_all add: at_civil_def)
  show ?thesis
    unfolding add_def using add_days [OF a(1) at_civil_wall [OF assms] at_civil_span [OF assms] a(2,3),
        of "duration_of_number (m_locale m') k (Some ''d'')" 1]
    by (simp add: number_amounts civil_day_shift at_civil_put [OF assms])
qed

lemma WeekDay_range: "0 \<le> WeekDay n" "WeekDay n \<le> 6"
  by (simp_all add: WeekDay_def)

lemma week_start:
  assumes "at_civil z m y mo d 0 0 0 0 m'" and "0 \<le> l_dow (m_locale m)" and "l_dow (m_locale m) \<le> 6"
  shows "set_weekday z 0 m' = put_local z m (MakeDate (MakeDay y mo d - (WeekDay (MakeDay y mo d) - l_dow (m_locale m)) mod 7) 0)"
proof -
  let ?n = "MakeDay y mo d"
  let ?w = "(WeekDay ?n - l_dow (m_locale m)) mod 7"
  have "m_locale m' = m_locale m" using assms(1) by (simp add: at_civil_def)
  moreover have "(WeekDay ?n + 7 - l_dow (m_locale m)) smod 7 = ?w"
  proof -
    have "0 \<le> WeekDay ?n + 7 - l_dow (m_locale m)" using WeekDay_range [of ?n] assms(3) by linarith
    then have "(WeekDay ?n + 7 - l_dow (m_locale m)) smod 7 = (WeekDay ?n - l_dow (m_locale m) + 7) mod 7"
      by (simp add: smod_nonneg algebra_simps)
    then show ?thesis by simp
  qed
  ultimately have "weekday z m' = Some ?w" by (simp add: weekday_def at_civil_day [OF assms(1)])
  then show ?thesis
    using at_civil_add_days [OF assms(1), of "- ?w"] by (simp add: set_weekday_def add_days_option_def)
qed

lemma isoWeek_start:
  assumes "at_civil z m y mo d 0 0 0 0 m'"
  shows "set_isoWeekday z 1 m' = put_local z m (MakeDate (MakeDay y mo d - (WeekDay (MakeDay y mo d) - 1) mod 7) 0)"
proof -
  let ?n = "MakeDay y mo d"
  have r: "0 \<le> WeekDay ?n" "WeekDay ?n \<le> 6" by (rule WeekDay_range)+
  show ?thesis
  proof (cases "WeekDay ?n = 0")
    case True
    then show ?thesis
      using at_civil_add_days [OF assms, of "- 6"]
      by (simp add: set_isoWeekday_def set_day_def add_days_option_def at_civil_day [OF assms] smod_nonneg)
  next
    case False
    then have "WeekDay ?n smod 7 \<noteq> 0" "(WeekDay ?n - 1) mod 7 = WeekDay ?n - 1"
      using r by (simp_all add: smod_nonneg)
    moreover have "?n + (1 - WeekDay ?n) = ?n - (WeekDay ?n - 1)" by simp
    ultimately show ?thesis
      using at_civil_add_days [OF assms, of "1 - WeekDay ?n"]
      by (simp only:) (simp add: set_isoWeekday_def set_day_def add_days_option_def at_civil_day [OF assms])
  qed
qed

lemma civil_parts:
  assumes "valid_time h mi s ms"
  shows "civil_time y mo d h mi s ms div 3600000 * 3600000 = civil_time y mo d h 0 0 0"
    "civil_time y mo d h mi s ms div 60000 * 60000 = civil_time y mo d h mi 0 0"
    "civil_time y mo d h mi s ms div 1000 * 1000 = civil_time y mo d h mi s 0"
proof -
  have e: "civil_time y mo d h mi s ms = 3600000 * (MakeDay y mo d * 24 + h) + (mi * 60000 + s * 1000 + ms)"
    "civil_time y mo d h mi s ms = 60000 * (MakeDay y mo d * 1440 + h * 60 + mi) + (s * 1000 + ms)"
    "civil_time y mo d h mi s ms = 1000 * (MakeDay y mo d * 86400 + h * 3600 + mi * 60 + s) + ms"
    by (simp_all add: civil_time_def MakeDate_def MakeTime_def msPerDay_def)
  have b: "0 \<le> mi * 60000 + s * 1000 + ms" "mi * 60000 + s * 1000 + ms < 3600000" "0 \<le> s * 1000 + ms"
    "s * 1000 + ms < 60000" "0 \<le> ms" "ms < 1000"
    using assms by (simp_all add: valid_time_def)
  show "civil_time y mo d h mi s ms div 3600000 * 3600000 = civil_time y mo d h 0 0 0"
    unfolding int_div_pos_eq [OF e(1) b(1,2)] by (simp add: civil_time_def MakeDate_def MakeTime_def msPerDay_def)
  show "civil_time y mo d h mi s ms div 60000 * 60000 = civil_time y mo d h mi 0 0"
    unfolding int_div_pos_eq [OF e(2) b(3,4)] by (simp add: civil_time_def MakeDate_def MakeTime_def msPerDay_def)
  show "civil_time y mo d h mi s ms div 1000 * 1000 = civil_time y mo d h mi s 0"
    unfolding int_div_pos_eq [OF e(3) b(5,6)] by (simp add: civil_time_def MakeDate_def MakeTime_def msPerDay_def)
qed

lemma Day_civil: "valid_time h mi s ms \<Longrightarrow> Day (civil_time y mo d h mi s ms) = MakeDay y mo d"
  using MakeTime_bounds [of h mi s ms] by (simp add: civil_time_def Day_MakeDate)

lemma unit_cases:
  assumes "u \<in> set calendar_units"
  obtains "u = ''year''" | "u = ''quarter''" | "u = ''month''" | "u = ''week''" | "u = ''isoWeek''" | "u = ''day''"
    | "u = ''hour''" | "u = ''minute''" | "u = ''second''"
proof -
  from assms have "u = ''year'' \<or> u = ''quarter'' \<or> u = ''month'' \<or> u = ''week'' \<or> u = ''isoWeek'' \<or> u = ''day''
      \<or> u = ''hour'' \<or> u = ''minute'' \<or> u = ''second''"
    unfolding calendar_units_def list.set insert_iff empty_iff simp_thms .
  then show thesis by (elim disjE) (rule that, assumption)+
qed

lemma startOf_floor:
  assumes a: "at_civil z m y mo d h mi s ms m" and "y < 275000" and u: "u \<in> set calendar_units"
    and "0 \<le> l_dow (m_locale m)" and "l_dow (m_locale m) \<le> 6"
  shows "startOf_unit z (Some u) m = put_local z m (unit_floor (l_dow (m_locale m)) u (civil_time y mo d h mi s ms))"
proof -
  have v: "valid_civil y mo d" and w: "valid_time h mi s ms" using a by (simp_all add: at_civil_def)
  note f = fields_of_civil [OF v w] Day_civil [OF w, of y mo d]
  note defs = startOf_unit_def unit_floor_def Let_def week_day_def f
  from u show ?thesis
  proof (cases rule: unit_cases)
    case 1
    then show ?thesis using at_years [OF a assms(2)]
      by (simp add: defs at_civil_def civil_time_midnight del: date_field.simps)
  next
    case 2
    then show ?thesis using at_quarter [OF a assms(2)]
      by (simp add: unit_floor_def Let_def f at_civil_def civil_time_midnight del: date_field.simps)
  next
    case 3
    then show ?thesis using at_months [OF a] by (simp add: defs at_civil_def civil_time_midnight del: date_field.simps)
  next
    case 4
    then show ?thesis using week_start [OF at_days [OF a] assms(4,5)] by (simp add: defs del: date_field.simps)
  next
    case 5
    then show ?thesis using isoWeek_start [OF at_days [OF a]] by (simp add: defs del: date_field.simps)
  next
    case 6
    then show ?thesis using at_days [OF a] by (simp add: defs at_civil_def civil_time_midnight del: date_field.simps)
  next
    case 7
    then show ?thesis using at_hours [OF a] by (simp add: defs at_civil_def civil_parts [OF w] del: date_field.simps)
  next
    case 8
    then show ?thesis using at_minutes [OF a] by (simp add: defs at_civil_def civil_parts [OF w] del: date_field.simps)
  next
    case 9
    then show ?thesis using at_seconds [OF a] by (simp add: defs at_civil_def civil_parts [OF w] del: date_field.simps)
  qed
qed


section \<open>The units cut time into intervals\<close>

lemma MakeDate_le: "MakeDate n 0 \<le> t \<longleftrightarrow> n \<le> Day t"
  and less_MakeDate: "t < MakeDate n 0 \<longleftrightarrow> Day t < n"
proof -
  have r: "msPerDay * Day t \<le> t" "t < msPerDay * Day t + msPerDay" "0 < msPerDay"
    using div_range [of msPerDay t] by (simp_all add: Day_def msPerDay_def)
  have a: "n \<le> Day t \<Longrightarrow> MakeDate n 0 \<le> t"
  proof -
    assume "n \<le> Day t"
    then have "n * msPerDay \<le> Day t * msPerDay" using r(3) by (simp add: mult_right_mono)
    then show ?thesis using r(1) by (simp add: MakeDate_def mult.commute)
  qed
  have b: "Day t < n \<Longrightarrow> t < MakeDate n 0"
  proof -
    assume "Day t < n"
    then have "(Day t + 1) * msPerDay \<le> n * msPerDay" using r(3) by (intro mult_right_mono) simp_all
    then show ?thesis using r(2) by (simp add: MakeDate_def algebra_simps)
  qed
  show "MakeDate n 0 \<le> t \<longleftrightarrow> n \<le> Day t" "t < MakeDate n 0 \<longleftrightarrow> Day t < n"
    using a b by (meson linorder_not_less)+
qed

lemma month_start_step: "0 \<le> a \<Longrightarrow> a \<le> 11 \<Longrightarrow> month_start l a \<le> month_start l (a + 1)"
  using month_length_pos [of a l] by (simp add: month_length_def)

lemma month_start_steps: "0 \<le> a \<Longrightarrow> a + int k \<le> 12 \<Longrightarrow> month_start l a \<le> month_start l (a + int k)"
proof (induction k)
  case (Suc k)
  then show ?case using month_start_step [of "a + int k" l] by (simp add: algebra_simps)
qed simp

lemma month_start_mono: "0 \<le> a \<Longrightarrow> a \<le> b \<Longrightarrow> b \<le> 12 \<Longrightarrow> month_start l a \<le> month_start l b"
  using month_start_steps [of a "nat (b - a)" l] by simp

lemma month_start_12: "month_start (leap y) 12 = DaysInYear y"
  by (simp add: month_start_def DaysInYear_def)

lemma first_of_month: "0 \<le> a \<Longrightarrow> a \<le> 12 \<Longrightarrow> MakeDay y a 1 = DayFromYear y + month_start (leap y) a"
proof (cases "a = 12")
  case True
  then show ?thesis using DayFromYear_Suc [of y] month_start_12 [of y] by (simp add: MakeDay_def month_start_def)
next
  case False
  moreover assume "0 \<le> a" "a \<le> 12"
  ultimately show ?thesis by (simp add: MakeDay_def)
qed

lemma day_in_year:
  fixes n :: int
  defines "y \<equiv> YearFromDay n" and "mo \<equiv> MonthFromDay n"
  shows "0 \<le> mo" "mo \<le> 11" "DayFromYear y + month_start (leap y) mo \<le> n"
    "n < DayFromYear y + month_start (leap y) (mo + 1)"
proof -
  have k: "0 \<le> n - DayFromYear y" "n - DayFromYear y < (if leap y then 366 else 365)"
    using YearFromDay_bounds [of n] by (auto simp: y_def DayFromYear_Suc DaysInYear_def split: if_splits)
  show "0 \<le> mo" "mo \<le> 11" "DayFromYear y + month_start (leap y) mo \<le> n"
    "n < DayFromYear y + month_start (leap y) (mo + 1)"
    using MonthFromYearDay_bounds [OF k] by (simp_all add: mo_def MonthFromDay_def y_def)
qed

lemma months_interval:
  assumes "0 \<le> a" and "a \<le> b" and "b \<le> 12"
    and "DayFromYear y + month_start (leap y) a \<le> n" and "n < DayFromYear y + month_start (leap y) b"
  shows "YearFromDay n = y" "a \<le> MonthFromDay n" "MonthFromDay n < b"
proof -
  have "0 \<le> month_start (leap y) a" "month_start (leap y) b \<le> month_start (leap y) 12"
    using month_start_bounds(1) month_start_mono [of b 12 "leap y"] assms by simp_all
  then show y: "YearFromDay n = y"
    using assms(4,5) by (intro YearFromDay_eq) (simp_all add: month_start_12)
  note d = day_in_year [of n, unfolded y]
  show "a \<le> MonthFromDay n"
  proof (rule ccontr)
    assume "\<not> a \<le> MonthFromDay n"
    then have "month_start (leap y) (MonthFromDay n + 1) \<le> month_start (leap y) a"
      using d(1) assms by (intro month_start_mono) simp_all
    then show False using d(4) assms(4) by linarith
  qed
  show "MonthFromDay n < b"
  proof (rule ccontr)
    assume "\<not> MonthFromDay n < b"
    then have "month_start (leap y) b \<le> month_start (leap y) (MonthFromDay n)"
      using d(2) assms by (intro month_start_mono) simp_all
    then show False using d(3) assms(5) by linarith
  qed
qed

text \<open>
  \<open>day_floor\<close> and \<open>day_next\<close>: the first day of the unit of a day, and of the one after it, for
  the units of a day and more.
\<close>

definition day_floor :: "int \<Rightarrow> string \<Rightarrow> int \<Rightarrow> int" where
  "day_floor w u n =
     (let y = YearFromDay n; mo = MonthFromDay n in
      if u = ''year'' then MakeDay y 0 1
      else if u = ''quarter'' then MakeDay y (mo div 3 * 3) 1
      else if u = ''month'' then MakeDay y mo 1
      else if u = ''week'' then n - (WeekDay n - w) mod 7
      else if u = ''isoWeek'' then n - (WeekDay n - 1) mod 7 else n)"

definition day_next :: "int \<Rightarrow> string \<Rightarrow> int \<Rightarrow> int" where
  "day_next w u n =
     (let y = YearFromDay n; mo = MonthFromDay n in
      if u = ''year'' then MakeDay (y + 1) 0 1
      else if u = ''quarter'' then MakeDay y (mo div 3 * 3 + 3) 1
      else if u = ''month'' then MakeDay y (mo + 1) 1
      else if u = ''week'' then n - (WeekDay n - w) mod 7 + 7
      else if u = ''isoWeek'' then n - (WeekDay n - 1) mod 7 + 7 else n + 1)"

definition day_units :: "string list" where
  "day_units = [''year'', ''quarter'', ''month'', ''week'', ''isoWeek'', ''day'']"

lemma day_unit_cases:
  assumes "u \<in> set day_units"
  obtains "u = ''year''" | "u = ''quarter''" | "u = ''month''" | "u = ''week''" | "u = ''isoWeek''" | "u = ''day''"
proof -
  from assms have "u = ''year'' \<or> u = ''quarter'' \<or> u = ''month'' \<or> u = ''week'' \<or> u = ''isoWeek'' \<or> u = ''day''"
    unfolding day_units_def list.set insert_iff empty_iff simp_thms .
  then show thesis by (elim disjE) (rule that, assumption)+
qed

lemma unit_day:
  "u \<in> set day_units \<Longrightarrow> unit_floor w u t = MakeDate (day_floor w u (Day t)) 0
     \<and> unit_next w u t = MakeDate (day_next w u (Day t)) 0"
  by (auto simp: day_units_def unit_floor_def unit_next_def day_floor_def day_next_def week_day_def Let_def)

lemma quarter_months: "0 \<le> mo \<Longrightarrow> mo \<le> 11 \<Longrightarrow> 0 \<le> mo div 3 * 3 \<and> mo div 3 * 3 \<le> mo \<and> mo < mo div 3 * 3 + 3 \<and> mo div 3 * 3 + 3 \<le> (12 :: int)"
  using div_range [of 3 mo] by (auto simp: mult.commute)

lemma quarter_same: "q div 3 * 3 \<le> mo \<Longrightarrow> mo < q div 3 * 3 + 3 \<Longrightarrow> mo div 3 * 3 = q div 3 * (3 :: int)"
  by presburger

lemma week_floor:
  "n - (WeekDay n - w) mod 7 = 7 * ((n + (4 - w)) div 7) - (4 - w)"
proof -
  have "(WeekDay n - w) mod 7 = (n + (4 - w)) mod 7" unfolding WeekDay_def by (simp add: mod_diff_left_eq algebra_simps)
  then show ?thesis using mult_div_mod_eq [of 7 "n + (4 - w)"] by linarith
qed

lemma day_interval:
  assumes "u \<in> set day_units"
  shows "day_floor w u n \<le> n" "n < day_next w u n" "day_next w u n - day_floor w u n \<le> 366"
    "day_floor w u n \<le> n' \<Longrightarrow> n' < day_next w u n \<Longrightarrow> day_floor w u n' = day_floor w u n \<and> day_next w u n' = day_next w u n"
proof -
  let ?y = "YearFromDay n" and ?mo = "MonthFromDay n"
  note d = day_in_year [of n]
  have q: "0 \<le> ?mo div 3 * 3" "?mo div 3 * 3 \<le> ?mo" "?mo < ?mo div 3 * 3 + 3" "?mo div 3 * 3 + 3 \<le> 12"
    using quarter_months [OF d(1,2)] by blast+
  have F: "MakeDay ?y a 1 \<le> n" "n < MakeDay ?y b 1" "MakeDay ?y b 1 - MakeDay ?y a 1 \<le> 366"
    "MakeDay ?y a 1 \<le> n' \<Longrightarrow> n' < MakeDay ?y b 1 \<Longrightarrow>
       YearFromDay n' = ?y \<and> a \<le> MonthFromDay n' \<and> MonthFromDay n' < b"
    if ab: "0 \<le> a" "a \<le> ?mo" "?mo < b" "b \<le> 12" for a b
  proof -
    have e: "MakeDay ?y a 1 = DayFromYear ?y + month_start (leap ?y) a"
      "MakeDay ?y b 1 = DayFromYear ?y + month_start (leap ?y) b"
      using ab d(1,2) by (intro first_of_month; linarith)+
    have "month_start (leap ?y) a \<le> month_start (leap ?y) ?mo" "month_start (leap ?y) (?mo + 1) \<le> month_start (leap ?y) b"
      using ab d(1,2) by (intro month_start_mono; linarith)+
    then show "MakeDay ?y a 1 \<le> n" "n < MakeDay ?y b 1" using d(3,4) e by linarith+
    show "MakeDay ?y b 1 - MakeDay ?y a 1 \<le> 366"
      using e month_start_bounds(1) [of "leap ?y" a] month_start_bounds(2) [of "leap ?y" b] by linarith
    assume "MakeDay ?y a 1 \<le> n'" "n' < MakeDay ?y b 1"
    then show "YearFromDay n' = ?y \<and> a \<le> MonthFromDay n' \<and> MonthFromDay n' < b"
      using months_interval [of a b ?y n'] ab d(1,2) unfolding e by simp
  qed
  have W: "day - (WeekDay day - v) mod 7 \<le> day" "day < day - (WeekDay day - v) mod 7 + 7"
    "day - (WeekDay day - v) mod 7 \<le> n' \<Longrightarrow> n' < day - (WeekDay day - v) mod 7 + 7 \<Longrightarrow>
       n' - (WeekDay n' - v) mod 7 = day - (WeekDay day - v) mod 7" for day v
  proof -
    show "day - (WeekDay day - v) mod 7 \<le> day" "day < day - (WeekDay day - v) mod 7 + 7" by simp_all
    assume "day - (WeekDay day - v) mod 7 \<le> n'" "n' < day - (WeekDay day - v) mod 7 + 7"
    then have "7 * ((day + (4 - v)) div 7) \<le> n' + (4 - v)" "n' + (4 - v) < 7 * ((day + (4 - v)) div 7) + 7"
      unfolding week_floor by linarith+
    then have "(n' + (4 - v)) div 7 = (day + (4 - v)) div 7"
      using int_div_pos_eq [of "n' + (4 - v)" 7 "(day + (4 - v)) div 7" "n' + (4 - v) - 7 * ((day + (4 - v)) div 7)"]
      by simp
    then show "n' - (WeekDay n' - v) mod 7 = day - (WeekDay day - v) mod 7" unfolding week_floor by simp
  qed
  have y12: "MakeDay (?y + 1) 0 1 = MakeDay ?y 12 1" by (simp add: MakeDay_def)
  from assms have "day_floor w u n \<le> n \<and> n < day_next w u n \<and> day_next w u n - day_floor w u n \<le> 366 \<and>
    (day_floor w u n \<le> n' \<longrightarrow> n' < day_next w u n \<longrightarrow> day_floor w u n' = day_floor w u n \<and> day_next w u n' = day_next w u n)"
  proof (cases rule: day_unit_cases)
    case 1
    then show ?thesis using F [of 0 12] d(1,2) by (simp add: day_floor_def day_next_def y12)
  next
    case 2
    have "YearFromDay n' = ?y \<and> MonthFromDay n' div 3 * 3 = ?mo div 3 * 3"
      if "MakeDay ?y (?mo div 3 * 3) 1 \<le> n'" "n' < MakeDay ?y (?mo div 3 * 3 + 3) 1"
      using F(4) [OF q that] quarter_same by blast
    then show ?thesis using 2 F(1-3) [OF q] by (simp add: day_floor_def day_next_def Let_def)
  next
    case 3
    have "YearFromDay n' = ?y \<and> MonthFromDay n' = ?mo" if "MakeDay ?y ?mo 1 \<le> n'" "n' < MakeDay ?y (?mo + 1) 1"
      using F(4) [of ?mo "?mo + 1"] d(1,2) that by simp
    then show ?thesis using 3 F(1-3) [of ?mo "?mo + 1"] d(1,2) by (auto simp: day_floor_def day_next_def Let_def)
  next
    case 4
    then show ?thesis using W [where v = w] by (simp add: day_floor_def day_next_def)
  next
    case 5
    then show ?thesis using W [where v = 1] by (simp add: day_floor_def day_next_def)
  next
    case 6
    then show ?thesis by (simp add: day_floor_def day_next_def)
  qed
  then show "day_floor w u n \<le> n" "n < day_next w u n" "day_next w u n - day_floor w u n \<le> 366"
    "day_floor w u n \<le> n' \<Longrightarrow> n' < day_next w u n \<Longrightarrow> day_floor w u n' = day_floor w u n \<and> day_next w u n' = day_next w u n"
    by blast+
qed

lemma grid_interval:
  fixes k :: int
  assumes "0 < k"
  shows "t div k * k \<le> t" "t < (t div k + 1) * k"
    "t div k * k \<le> t' \<Longrightarrow> t' < (t div k + 1) * k \<Longrightarrow> t' div k = t div k"
proof -
  show "t div k * k \<le> t" "t < (t div k + 1) * k"
    using div_range [OF assms, of t] by (simp_all add: algebra_simps)
  assume "t div k * k \<le> t'" "t' < (t div k + 1) * k"
  then show "t' div k = t div k"
    using int_div_pos_eq [of t' k "t div k" "t' - k * (t div k)"] by (simp add: algebra_simps)
qed

lemma calendar_unit_split:
  "u \<in> set calendar_units \<Longrightarrow> u \<in> set day_units \<or> u = ''hour'' \<or> u = ''minute'' \<or> u = ''second''"
  by (erule unit_cases) (simp_all add: day_units_def)

lemma unit_grid:
  "u = ''hour'' \<or> u = ''minute'' \<or> u = ''second'' \<Longrightarrow>
   \<exists>k. 0 < k \<and> k \<le> 3600000 \<and> (\<forall>t. unit_floor w u t = t div k * k) \<and> (\<forall>t. unit_next w u t = (t div k + 1) * k)"
proof (elim disjE)
  assume "u = ''hour''"
  then show ?thesis by (intro exI [of _ 3600000]) (simp add: unit_floor_def unit_next_def)
next
  assume "u = ''minute''"
  then show ?thesis by (intro exI [of _ 60000]) (simp add: unit_floor_def unit_next_def)
next
  assume "u = ''second''"
  then show ?thesis by (intro exI [of _ 1000]) (simp add: unit_floor_def unit_next_def)
qed

lemma unit_interval:
  assumes "u \<in> set calendar_units"
  shows "unit_floor w u t \<le> t \<and> t < unit_next w u t \<and> unit_next w u t - unit_floor w u t \<le> 366 * msPerDay \<and>
    (unit_floor w u t \<le> t' \<longrightarrow> t' < unit_next w u t \<longrightarrow>
       unit_floor w u t' = unit_floor w u t \<and> unit_next w u t' = unit_next w u t)"
proof (cases "u \<in> set day_units")
  case True
  have i: "day_floor w u (Day t) \<le> Day t" "Day t < day_next w u (Day t)"
    "day_next w u (Day t) - day_floor w u (Day t) \<le> 366"
    "day_floor w u (Day t) \<le> Day t' \<Longrightarrow> Day t' < day_next w u (Day t) \<Longrightarrow>
       day_floor w u (Day t') = day_floor w u (Day t) \<and> day_next w u (Day t') = day_next w u (Day t)"
    using day_interval [OF True] by blast+
  have "(day_next w u (Day t) - day_floor w u (Day t)) * msPerDay \<le> 366 * msPerDay"
    using i(3) by (intro mult_right_mono) (simp_all add: msPerDay_def)
  then have "MakeDate (day_next w u (Day t)) 0 - MakeDate (day_floor w u (Day t)) 0 \<le> 366 * msPerDay"
    by (simp add: MakeDate_def left_diff_distrib)
  then show ?thesis
    using i by (simp add: unit_day [OF True] MakeDate_le less_MakeDate)
next
  case False
  then obtain k where k: "0 < k" "k \<le> 3600000"
    and e: "\<And>t. unit_floor w u t = t div k * k" "\<And>t. unit_next w u t = (t div k + 1) * k"
    using calendar_unit_split [OF assms] unit_grid by blast
  have "(t div k + 1) * k - t div k * k = k" by (simp add: distrib_right)
  then have d: "(t div k + 1) * k - t div k * k \<le> 366 * msPerDay" using k(2) by (simp only: msPerDay_def)
  have s: "t' div k = t div k" if "t div k * k \<le> t'" "t' < (t div k + 1) * k"
    by (rule grid_interval(3) [OF k(1) that])
  show ?thesis
    unfolding e
  proof (intro conjI impI)
    show "t div k * k \<le> t" "t < (t div k + 1) * k" by (rule grid_interval(1,2) [OF k(1)])+
    show "(t div k + 1) * k - t div k * k \<le> 366 * msPerDay" by (rule d)
    assume b: "t div k * k \<le> t'" "t' < (t div k + 1) * k"
    show "t' div k * k = t div k * k" "(t' div k + 1) * k = (t div k + 1) * k" by (simp_all only: s [OF b])
  qed
qed

section \<open>The end of a unit\<close>

text \<open>A civil time of a safe year is far enough from the limit of ECMAScript dates.\<close>

lemma safe_near:
  assumes "valid_civil y mo d" and "valid_time h mi s ms" and "safe_year y"
    and "\<bar>x - civil_time y mo d h mi s ms\<bar> \<le> 1000 * msPerDay"
  shows "in_span x"
proof -
  have "\<bar>MakeDay y mo d\<bar> \<le> 99990000"
    using valid_div_mod [OF assms(1)] assms(3) by (intro MakeDay_span) simp_all
  then show ?thesis
    using MakeTime_bounds [OF assms(2)] assms(4)
    unfolding in_span_def civil_time_def MakeDate_def msPerDay_def by linarith
qed

lemma at_civil_refl:
  assumes "steady z m" and "moment_local z m = Some (civil_time y mo d h mi s ms)" and "valid_civil y mo d"
    and "valid_time h mi s ms" and "safe_year y"
  shows "at_civil z m y mo d h mi s ms m"
  using assms steady_put_self [OF assms(1,2) civil_time_span [OF assms(3-5)]] by (simp add: at_civil_def)

lemma add_months_first:
  assumes "at_civil z m y mo 1 0 0 0 0 m'" and "y < 274000" and "0 < n" and "n \<le> 12"
    and "du_milliseconds dur = 0" and "du_days dur = 0" and "du_months dur = n"
  shows "addSubtract z m' dur 1 = put_local z m (MakeDate (MakeDay y (mo + n) 1) 0)"
proof -
  have v: "valid_civil y mo 1" "valid_time 0 0 0 0" "steady z m'" "0 \<le> mo" "mo \<le> 11" "safe_year y"
    using assms(1) by (simp_all add: at_civil_def valid_civil_def)
  have "0 \<le> (mo + n + 1) div 12" "(mo + n + 1) div 12 \<le> 2"
    using v(4,5) assms(3,4) div_range(1) [of 12 "mo + n + 1"] by (simp add: pos_imp_zdiv_nonneg_iff, linarith)
  then have "safe_year (MakeFullYear y + (mo + n + 1) div 12)"
    using assms(2) v(6) by (auto simp: safe_year_def MakeFullYear_def)
  then obtain k where k: "daysInMonth y (mo + n) = Some k" "28 \<le> k"
    using daysInMonth_eq month_length_range(1) by blast
  have "addSubtract z m' dur 1 = put_local z m' (civil_time y (mo + n) (min 1 k) 0 0 0 0)"
    using add_months [OF v(3) at_civil_wall [OF assms(1)] v(1,2) assms(5,6), of 1 k] k(1) assms(3,7) by simp
  then show ?thesis using k(2) at_civil_put [OF assms(1)] by (simp add: civil_time_midnight)
qed

lemma add_days_wall:
  assumes "steady z m" and "moment_local z m = Some t" and "in_span t"
    and "du_milliseconds dur = 0" and "du_months dur = 0"
  shows "addSubtract z m dur 1 = put_local z m (t + du_days dur * msPerDay)"
proof -
  obtain y mo d h mi s ms where t: "t = civil_time y mo d h mi s ms" "valid_civil y mo d" "valid_time h mi s ms"
    by (rule civil_cases)
  have "civil_time y mo (d + k) h mi s ms = t + k * msPerDay" for k
    by (simp add: t(1) civil_time_def MakeDate_def MakeDay_def Let_def algebra_simps)
  then show ?thesis
    using add_days [OF assms(1) assms(2,3) [unfolded t(1)] t(2,3) assms(4,5), of 1] by simp
qed

lemma steady_put [simp]: "steady z m \<Longrightarrow> steady z (put_local z m v)"
  by simp

lemma normalize_calendar_unit: "u \<in> set calendar_units \<Longrightarrow> normalizeUnits u = Some u"
  by (erule unit_cases) simp_all

lemma unit_amounts:
  defines "A \<equiv> \<lambda>l u. duration_of_number l 1 (Some (if Some u = Some ''isoWeek'' then ''week'' else u))"
  shows "u \<in> {''week'', ''isoWeek''} \<Longrightarrow> du_milliseconds (A l u) = 0 \<and> du_days (A l u) = 7 \<and> du_months (A l u) = 0"
  by (auto simp: A_def number_amounts)

lemma add_unit:
  assumes a: "at_civil z m y mo d h mi s ms m" and y: "y < 274000" and u: "u \<in> set calendar_units"
    and w: "0 \<le> l_dow (m_locale m)" "l_dow (m_locale m) \<le> 6"
  defines "t \<equiv> civil_time y mo d h mi s ms"
  shows "add z 1 (if u = ''isoWeek'' then ''week'' else u) (startOf_unit z (Some u) m)
    = put_local z m (unit_next (l_dow (m_locale m)) u t)"
proof -
  let ?w = "l_dow (m_locale m)"
  have v: "valid_civil y mo d" and vt: "valid_time h mi s ms" and st: "steady z m" and sy: "safe_year y"
    using a by (simp_all add: at_civil_def)
  have y2: "y < 275000" using y by simp
  note start = startOf_floor [OF a y2 u w, folded t_def]
  have "\<bar>unit_floor ?w u t - t\<bar> \<le> 1000 * msPerDay"
    using unit_interval [OF u, of ?w t t] by (simp add: msPerDay_def)
  then have fs: "in_span (unit_floor ?w u t)" unfolding t_def by (rule safe_near [OF v vt sy])
  have fw: "moment_local z (put_local z m (unit_floor ?w u t)) = Some (unit_floor ?w u t)"
    by (rule put_local_wall [OF st fs])
  note f = fields_of_civil [OF v vt, folded t_def] Day_civil [OF vt, of y mo d, folded t_def]
  have days: "addSubtract z (put_local z m (unit_floor ?w u t)) dur 1 = put_local z m (unit_floor ?w u t + du_days dur * msPerDay)"
    if "du_milliseconds dur = 0" "du_months dur = 0" for dur
    using add_days_wall [OF steady_put [OF st] fw fs that] by (simp add: put_put [OF st])
  have time: "addSubtract z (put_local z m (unit_floor ?w u t)) dur 1 = put_local z m (unit_floor ?w u t + du_milliseconds dur)"
    if "du_days dur = 0" "du_months dur = 0" for dur
    using add_time [OF steady_put [OF st] fw fs that, of 1] by (simp add: put_put [OF st])
  have mo: "0 \<le> mo" "mo \<le> 11" using v by (simp_all add: valid_civil_def)
  from u show ?thesis
  proof (cases rule: unit_cases)
    case 1
    have "at_civil z m y 0 1 0 0 0 0 (startOf_unit z (Some ''year'') m)"
      using at_years [OF a y2] by (simp add: startOf_unit_def)
    from add_months_first [OF this y, of 12 "duration_of_number l 1 (Some ''year'')" for l]
    show ?thesis using 1 by (simp add: add_def number_amounts unit_next_def f MakeDay_def del: date_field.simps)
  next
    case 2
    from add_months_first [OF at_quarter [OF a y2] y, of 3 "duration_of_number l 1 (Some ''quarter'')" for l]
    show ?thesis using 2 by (simp add: add_def number_amounts unit_next_def f del: date_field.simps)
  next
    case 3
    have "at_civil z m y mo 1 0 0 0 0 (startOf_unit z (Some ''month'') m)"
      using at_months [OF a] by (simp add: startOf_unit_def)
    from add_months_first [OF this y, of 1 "duration_of_number l 1 (Some ''month'')" for l]
    show ?thesis using 3 by (simp add: add_def number_amounts unit_next_def f del: date_field.simps)
  next
    case 4
    show ?thesis using days [of "duration_of_number l 1 (Some ''week'')" for l, unfolded 4] start [unfolded 4]
      by (simp add: 4 add_def number_amounts unit_next_def unit_floor_def Let_def MakeDate_def algebra_simps)
  next
    case 5
    show ?thesis using days [of "duration_of_number l 1 (Some ''week'')" for l, unfolded 5] start [unfolded 5]
      by (simp add: 5 add_def number_amounts unit_next_def unit_floor_def Let_def MakeDate_def algebra_simps)
  next
    case 6
    show ?thesis using days [of "duration_of_number l 1 (Some ''day'')" for l, unfolded 6] start [unfolded 6]
      by (simp add: 6 add_def number_amounts unit_next_def unit_floor_def Let_def MakeDate_def algebra_simps)
  next
    case 7
    show ?thesis using time [of "duration_of_number l 1 (Some ''hour'')" for l, unfolded 7] start [unfolded 7]
      by (simp add: 7 add_def number_amounts unit_next_def unit_floor_def Let_def algebra_simps)
  next
    case 8
    show ?thesis using time [of "duration_of_number l 1 (Some ''minute'')" for l, unfolded 8] start [unfolded 8]
      by (simp add: 8 add_def number_amounts unit_next_def unit_floor_def Let_def algebra_simps)
  next
    case 9
    show ?thesis using time [of "duration_of_number l 1 (Some ''second'')" for l, unfolded 9] start [unfolded 9]
      by (simp add: 9 add_def number_amounts unit_next_def unit_floor_def Let_def algebra_simps)
  qed
qed

lemma startOf_endOf_wall:
  assumes "steady z m" and "moment_local z m = Some t" and "safe_year (date_field FullYear t)"
    and "date_field FullYear t < 274000" and u: "u \<in> set calendar_units"
    and w: "0 \<le> l_dow (m_locale m)" "l_dow (m_locale m) \<le> 6"
  shows "startOf z u m = put_local z m (unit_floor (l_dow (m_locale m)) u t)"
    "endOf z u m = put_local z m (unit_next (l_dow (m_locale m)) u t - 1)"
    "moment_local z (startOf z u m) = Some (unit_floor (l_dow (m_locale m)) u t)"
    "moment_local z (endOf z u m) = Some (unit_next (l_dow (m_locale m)) u t - 1)"
proof -
  let ?w = "l_dow (m_locale m)"
  obtain y mo d h mi s ms where t: "t = civil_time y mo d h mi s ms"
    and v: "valid_civil y mo d" and vt: "valid_time h mi s ms" by (rule civil_cases)
  have y: "date_field FullYear t = y" using fields_of_civil(1) [OF v vt] by (simp only: t)
  have sy: "safe_year y" "y < 274000" "y < 275000" using assms(3,4) unfolding y by simp_all
  have a: "at_civil z m y mo d h mi s ms m"
    by (rule at_civil_refl [OF assms(1) assms(2) [unfolded t] v vt sy(1)])
  show s1: "startOf z u m = put_local z m (unit_floor ?w u t)"
    using startOf_floor [OF a sy(3) u w] by (simp add: startOf_def normalize_calendar_unit [OF u] t)
  have b: "\<bar>unit_floor ?w u t - t\<bar> \<le> 1000 * msPerDay" "\<bar>unit_next ?w u t - t\<bar> \<le> 1000 * msPerDay"
    "\<bar>unit_next ?w u t - 1 - t\<bar> \<le> 1000 * msPerDay"
    using unit_interval [OF u, of ?w t t] by (simp_all add: msPerDay_def)
  have sp: "in_span (unit_floor ?w u t)" "in_span (unit_next ?w u t)" "in_span (unit_next ?w u t - 1)"
    using b safe_near [OF v vt sy(1)] unfolding t by blast+
  have "addSubtract z (put_local z m (unit_next ?w u t)) (duration_of_number l 1 (Some ''ms'')) (- 1)
      = put_local z m (unit_next ?w u t - 1)" for l
    using add_time [OF steady_put [OF assms(1)] put_local_wall [OF assms(1) sp(2)] sp(2),
        of "duration_of_number l 1 (Some ''ms'')" "- 1"]
    by (simp add: number_amounts put_put [OF assms(1)])
  moreover have "Some u \<noteq> Some ''millisecond''" using u by (cases rule: unit_cases) simp_all
  ultimately show s2: "endOf z u m = put_local z m (unit_next ?w u t - 1)"
    using add_unit [OF a sy(2) u w]
    unfolding endOf_def normalize_calendar_unit [OF u] Let_def option.sel
    by (simp add: subtract_def t split del: if_split)
  show "moment_local z (startOf z u m) = Some (unit_floor ?w u t)"
    "moment_local z (endOf z u m) = Some (unit_next ?w u t - 1)"
    unfolding s1 s2 using sp by (simp_all add: put_local_wall [OF assms(1)])
qed

text \<open>
  Claim C9: for moments in UTC mode or in a zone without transitions, of the years -271000 to 273999 and with a first day of
  the week between 0 and 6, \<open>startOf\<close> and \<open>endOf\<close> cut the wall time into disjoint intervals. For every unit of
  \<open>startOf\<close> the moment lies between the two, and another moment of the same locale lies between them as well exactly
  when it has the same start and the same end, so two moments are in one day, week, month, quarter
  or year exactly when the library computes one start and one end for them. In a zone with transitions this
  fails (\<open>MomentManip.repeated_hour_has_passed\<close>).
\<close>

theorem startOf_endOf_partition:
  assumes "steady z m" and "moment_local z m = Some t" and "steady z m'" and "moment_local z m' = Some t'"
    and "safe_year (date_field FullYear t)" and "date_field FullYear t < 274000"
    and "safe_year (date_field FullYear t')" and "date_field FullYear t' < 274000"
    and u: "u \<in> set calendar_units" and l: "m_locale m' = m_locale m"
    and w: "0 \<le> l_dow (m_locale m)" "l_dow (m_locale m) \<le> 6"
  shows "\<exists>a b. moment_local z (startOf z u m) = Some a \<and> moment_local z (endOf z u m) = Some b \<and> a \<le> t \<and> t \<le> b \<and>
    (a \<le> t' \<and> t' \<le> b \<longleftrightarrow>
       moment_local z (startOf z u m') = Some a \<and> moment_local z (endOf z u m') = Some b)"
proof -
  let ?w = "l_dow (m_locale m)"
  note s = startOf_endOf_wall(3,4) [OF assms(1,2,5,6) u w]
  note s' = startOf_endOf_wall(3,4) [OF assms(3,4,7,8) u, unfolded l, OF w]
  define f n f' n' where d: "f = unit_floor ?w u t" "n = unit_next ?w u t" "f' = unit_floor ?w u t'" "n' = unit_next ?w u t'"
  have i: "f \<le> t \<and> t < n \<and> n - f \<le> 366 * msPerDay \<and> (f \<le> t' \<longrightarrow> t' < n \<longrightarrow> f' = f \<and> n' = n)"
    unfolding d by (rule unit_interval [OF u])
  have i': "f' \<le> t' \<and> t' < n' \<and> n' - f' \<le> 366 * msPerDay \<and> (f' \<le> t \<longrightarrow> t < n' \<longrightarrow> f = f' \<and> n = n')"
    unfolding d by (rule unit_interval [OF u])
  note q = i [THEN conjunct1] i [THEN conjunct2, THEN conjunct1] i' [THEN conjunct1] i' [THEN conjunct2, THEN conjunct1]
    i [THEN conjunct2, THEN conjunct2, THEN conjunct2]
  have "f \<le> t' \<and> t' \<le> n - 1 \<longleftrightarrow> f' = f \<and> n' - 1 = n - 1" using q by linarith
  then show ?thesis unfolding s s' d [symmetric] using q(1,2) by simp
qed

lemma startOf_endOf_partition_witness:
  "\<exists>a b. moment_local (fixed_zone 0) (startOf (fixed_zone 0) ''week'' (utc_moment 0)) = Some a \<and>
     moment_local (fixed_zone 0) (endOf (fixed_zone 0) ''week'' (utc_moment 0)) = Some b \<and> a \<le> 0 \<and> 0 \<le> b"
proof -
  have y: "date_field FullYear 0 = 1970" by code_simp
  have l: "0 \<le> l_dow (m_locale (utc_moment 0))" "l_dow (m_locale (utc_moment 0)) \<le> 6"
    by (simp_all add: utc_moment_def en_locale_def new_Locale_def)
  have "safe_year 1970" "(1970::int) < 274000" "''week'' \<in> set calendar_units"
    by (simp_all add: safe_year_def calendar_units_def)
  then show ?thesis
    using startOf_endOf_partition [OF utc_moment_wall(2,1) utc_moment_wall(2,1), of 0 0 "''week''" "fixed_zone 0"]
      l y by auto
qed

end
