(* ===== verification/MomentManip.thy ===== *)
theory MomentManip imports Main Prelude JsDate MomentLocale MomentDuration MomentCore MomentCalendar MomentUnits begin

text \<open>
  moment.js: offsets, the units' getters and setters by name, comparison, difference, minimum
  and maximum, and the conversions of a moment to plain values. A moment argument that the
  code passes through \<open>local__createLocal\<close> is a moment here, which that function copies.
  Comparisons with an invalid moment compare with \<open>NaN\<close> and are false.
\<close>

section \<open>Offsets\<close>

text \<open>\<open>getTimezoneOffset\<close> is minutes west of UTC; the code rounds it to quarters of an hour.\<close>

definition getDateOffset :: "zone \<Rightarrow> moment \<Rightarrow> int option" where
  "getDateOffset z m = map_option (\<lambda>t. - ((- 2 * off_utc z t + 900000) div 1800000) * 15) (m_d m)"

definition offset_or_zero :: "moment \<Rightarrow> int" where
  "offset_or_zero m = (case m_offset m of None \<Rightarrow> 0 | Some n \<Rightarrow> n)"

definition utcOffset :: "zone \<Rightarrow> moment \<Rightarrow> int option" where
  "utcOffset z m = (if m_isUTC m then Some (offset_or_zero m) else getDateOffset z m)"

definition set_utcOffset :: "zone \<Rightarrow> int \<Rightarrow> bool \<Rightarrow> moment \<Rightarrow> moment" where
  "set_utcOffset z input keepLocalTime m =
     (let offset = offset_or_zero m;
          minutes = (if \<bar>input\<bar> < 16 then input * 60 else input);
          localAdjust = (if \<not> m_isUTC m \<and> keepLocalTime then getDateOffset z m else None);
          m1 = m\<lparr>m_offset := Some minutes, m_isUTC := True\<rparr>;
          m2 = (case localAdjust of None \<Rightarrow> m1 | Some a \<Rightarrow> add z a ''m'' m1)
      in if offset \<noteq> minutes \<and> \<not> keepLocalTime
         then addSubtract z m2 (duration_of_number (m_locale m) (minutes - offset) (Some ''m'')) 1
         else m2)"

definition set_zone :: "zone \<Rightarrow> int \<Rightarrow> bool \<Rightarrow> moment \<Rightarrow> moment" where
  "set_zone z input keepLocalTime m = set_utcOffset z (- input) keepLocalTime m"

definition get_zone :: "zone \<Rightarrow> moment \<Rightarrow> int option" where
  "get_zone z m = map_option uminus (utcOffset z m)"

definition setOffsetToUTC :: "zone \<Rightarrow> bool \<Rightarrow> moment \<Rightarrow> moment" where
  "setOffsetToUTC z keepLocalTime m = set_utcOffset z 0 keepLocalTime m"

definition setOffsetToLocal :: "zone \<Rightarrow> bool \<Rightarrow> moment \<Rightarrow> moment" where
  "setOffsetToLocal z keepLocalTime m =
     (if m_isUTC m then
        (let m1 = (set_utcOffset z 0 keepLocalTime m)\<lparr>m_isUTC := False\<rparr>
         in if keepLocalTime
            then (case getDateOffset z m1 of None \<Rightarrow> m1 | Some a \<Rightarrow> subtract z a ''m'' m1)
            else m1)
      else m)"

definition hasAlignedHourOffset :: "zone \<Rightarrow> moment option \<Rightarrow> moment \<Rightarrow> bool" where
  "hasAlignedHourOffset z input m =
     (case (utcOffset z m, case input of None \<Rightarrow> Some 0 | Some other \<Rightarrow> utcOffset z other) of
        (Some a, Some b) \<Rightarrow> (a - b) smod 60 = 0
      | _ \<Rightarrow> False)"

definition less_opt :: "int option \<Rightarrow> int option \<Rightarrow> bool" where
  "less_opt a b = (case (a, b) of (Some x, Some y) \<Rightarrow> x < y | _ \<Rightarrow> False)"

definition isDaylightSavingTime :: "zone \<Rightarrow> moment \<Rightarrow> bool" where
  "isDaylightSavingTime z m \<longleftrightarrow>
     less_opt (utcOffset z (getSetMonth z 0 m)) (utcOffset z m) \<or>
     less_opt (utcOffset z (getSetMonth z 5 m)) (utcOffset z m)"

definition isLocal :: "moment \<Rightarrow> bool" where
  "isLocal m \<longleftrightarrow> \<not> m_isUTC m"

definition isUtcOffset :: "moment \<Rightarrow> bool" where
  "isUtcOffset m \<longleftrightarrow> m_isUTC m"

definition isUtc :: "moment \<Rightarrow> bool" where
  "isUtc m \<longleftrightarrow> m_isUTC m \<and> m_offset m = Some 0"

definition getZoneAbbr :: "moment \<Rightarrow> string" where
  "getZoneAbbr m = (if m_isUTC m then ''UTC'' else [])"

definition getZoneName :: "moment \<Rightarrow> string" where
  "getZoneName m = (if m_isUTC m then ''Coordinated Universal Time'' else [])"

text \<open>The moment at the instant of the input, in the mode of the model.\<close>

definition cloneWithOffset :: "zone \<Rightarrow> moment \<Rightarrow> moment \<Rightarrow> moment" where
  "cloneWithOffset z input model =
     (if m_isUTC model then
        (case (m_d model, valueOf input, valueOf model) of
           (Some t, Some a, Some b) \<Rightarrow> model\<lparr>m_d := TimeClip (t + (a - b))\<rparr>
         | _ \<Rightarrow> model\<lparr>m_d := None\<rparr>)
      else setOffsetToLocal z False input)"

section \<open>Getting and setting by name\<close>

text \<open>
  \<open>getSet\<close> looks the normalised unit up among the methods of the prototype; a name that is no
  unit is ignored by the setter, and the getter returns the moment itself (\<open>None\<close> here, and
  \<open>Some None\<close> is \<open>NaN\<close>).
\<close>

definition get_unit :: "zone \<Rightarrow> string \<Rightarrow> moment \<Rightarrow> int option option" where
  "get_unit z units m =
     (let u = normalizeUnits units in
      if u = Some ''year'' then Some (year z m)
      else if u = Some ''weekYear'' then Some (weekYear z m)
      else if u = Some ''isoWeekYear'' then Some (isoWeekYear z m)
      else if u = Some ''quarter'' then Some (quarter z m)
      else if u = Some ''month'' then Some (month z m)
      else if u = Some ''week'' then Some (week z m)
      else if u = Some ''isoWeek'' then Some (isoWeek z m)
      else if u = Some ''date'' then Some (get_set__get z Date m)
      else if u = Some ''day'' then Some (day z m)
      else if u = Some ''weekday'' then Some (weekday z m)
      else if u = Some ''isoWeekday'' then Some (isoWeekday z m)
      else if u = Some ''dayOfYear'' then Some (dayOfYear z m)
      else if u = Some ''hour'' then Some (get_set__get z Hours m)
      else if u = Some ''minute'' then Some (get_set__get z Minutes m)
      else if u = Some ''second'' then Some (get_set__get z Seconds m)
      else if u = Some ''millisecond'' then Some (get_set__get z Milliseconds m)
      else None)"

definition set_unit :: "zone \<Rightarrow> string \<Rightarrow> int \<Rightarrow> moment \<Rightarrow> moment" where
  "set_unit z units v m =
     (let u = normalizeUnits units in
      if u = Some ''year'' then makeGetSet z FullYear v m
      else if u = Some ''weekYear'' then set_weekYear z v m
      else if u = Some ''isoWeekYear'' then set_isoWeekYear z v m
      else if u = Some ''quarter'' then set_quarter z v m
      else if u = Some ''month'' then getSetMonth z v m
      else if u = Some ''week'' then set_week z v m
      else if u = Some ''isoWeek'' then set_isoWeek z v m
      else if u = Some ''date'' then makeGetSet z Date v m
      else if u = Some ''day'' then set_day z v m
      else if u = Some ''weekday'' then set_weekday z v m
      else if u = Some ''isoWeekday'' then set_isoWeekday z v m
      else if u = Some ''dayOfYear'' then set_dayOfYear z v m
      else if u = Some ''hour'' then makeGetSet z Hours v m
      else if u = Some ''minute'' then makeGetSet z Minutes v m
      else if u = Some ''second'' then makeGetSet z Seconds v m
      else if u = Some ''millisecond'' then makeGetSet z Milliseconds v m
      else m)"

text \<open>\<open>set\<close> of an object sets its properties one after the other, in their order.\<close>

definition set_units :: "zone \<Rightarrow> (string \<times> int) list \<Rightarrow> moment \<Rightarrow> moment" where
  "set_units z obj m = fold (\<lambda>(u, v). set_unit z u v) obj m"

section \<open>Comparison\<close>

definition isAfter :: "zone \<Rightarrow> moment \<Rightarrow> string \<Rightarrow> moment \<Rightarrow> bool" where
  "isAfter z input units m =
     (if normalizeUnits units = Some ''millisecond'' then less_opt (valueOf input) (valueOf m)
      else less_opt (valueOf input) (valueOf (startOf z units m)))"

definition isBefore :: "zone \<Rightarrow> moment \<Rightarrow> string \<Rightarrow> moment \<Rightarrow> bool" where
  "isBefore z input units m =
     (if normalizeUnits units = Some ''millisecond'' then less_opt (valueOf m) (valueOf input)
      else less_opt (valueOf (endOf z units m)) (valueOf input))"

definition isBetween :: "zone \<Rightarrow> moment \<Rightarrow> moment \<Rightarrow> string \<Rightarrow> moment \<Rightarrow> bool" where
  "isBetween z from_time to_time units m \<longleftrightarrow> isAfter z from_time units m \<and> isBefore z to_time units m"

definition leq_opt :: "int option \<Rightarrow> int option \<Rightarrow> bool" where
  "leq_opt a b = (case (a, b) of (Some x, Some y) \<Rightarrow> x \<le> y | _ \<Rightarrow> False)"

definition isSame :: "zone \<Rightarrow> moment \<Rightarrow> string \<Rightarrow> moment \<Rightarrow> bool" where
  "isSame z input units m =
     (if normalizeUnits units = Some ''millisecond''
      then valueOf m = valueOf input \<and> valueOf m \<noteq> None
      else leq_opt (valueOf (startOf z units m)) (valueOf input) \<and>
           leq_opt (valueOf input) (valueOf (endOf z units m)))"

section \<open>Difference\<close>

text \<open>
  The difference in months as a fraction. The divisor is the length of a month; it vanishes
  only for months that the browser's date range cuts off, where the result is no number.
\<close>

definition monthDiff :: "zone \<Rightarrow> moment \<Rightarrow> moment \<Rightarrow> rat option" where
  "monthDiff z a b =
     (case (year z a, month z a, year z b, month z b) of
        (Some ya, Some ma, Some yb, Some mb) \<Rightarrow>
          (let wholeMonthDiff = (yb - ya) * 12 + (mb - ma);
               anchor = add z wholeMonthDiff ''months'' a;
               before = less_opt (valueOf b) (valueOf anchor);
               anchor2 = add z (if before then wholeMonthDiff - 1 else wholeMonthDiff + 1) ''months'' a
           in case (valueOf b, valueOf anchor, valueOf anchor2) of
                (Some vb, Some v1, Some v2) \<Rightarrow>
                  (let len = (if before then v1 - v2 else v2 - v1)
                   in if len = 0 then None
                      else Some (- (of_int wholeMonthDiff + of_int (vb - v1) / of_int len)))
              | _ \<Rightarrow> None)
      | _ \<Rightarrow> None)"

definition diff_units :: "string option \<Rightarrow> int \<Rightarrow> int \<Rightarrow> rat" where
  "diff_units u delta zoneDelta =
     (if u = Some ''second'' then of_int delta / 1000
      else if u = Some ''minute'' then of_int delta / 60000
      else if u = Some ''hour'' then of_int delta / 3600000
      else if u = Some ''day'' then of_int (delta - zoneDelta) / 86400000
      else if u = Some ''week'' then of_int (delta - zoneDelta) / 604800000
      else of_int delta)"

definition diff_float :: "zone \<Rightarrow> moment \<Rightarrow> string \<Rightarrow> moment \<Rightarrow> rat option" where
  "diff_float z input units m =
     (let that = cloneWithOffset z input m; u = normalizeUnits units in
      if u = Some ''year'' \<or> u = Some ''month'' \<or> u = Some ''quarter'' then
        map_option (\<lambda>output. if u = Some ''quarter'' then output / 3
            else if u = Some ''year'' then output / 12 else output) (monthDiff z m that)
      else (case (valueOf m, valueOf that, utcOffset z that, utcOffset z m) of
              (Some a, Some b, Some p, Some q) \<Rightarrow> Some (diff_units u (a - b) ((p - q) * 60000))
            | _ \<Rightarrow> None))"

definition diff :: "zone \<Rightarrow> moment \<Rightarrow> string \<Rightarrow> moment \<Rightarrow> int option" where
  "diff z input units m = map_option absFloor (diff_float z input units m)"

text \<open>Milliseconds and months between two moments, as \<open>from\<close> and \<open>to\<close> use them.\<close>

definition positiveMomentsDifference :: "zone \<Rightarrow> moment \<Rightarrow> moment \<Rightarrow> (int \<times> int) option" where
  "positiveMomentsDifference z base other =
     (case (year z base, month z base, year z other, month z other) of
        (Some yb, Some mb, Some yo, Some mo) \<Rightarrow>
          (let months0 = mo - mb + (yo - yb) * 12;
               months = (if isAfter z other ''millisecond'' (add z months0 ''M'' base) then months0 - 1 else months0)
           in case (valueOf other, valueOf (add z months ''M'' base)) of
                (Some a, Some b) \<Rightarrow> Some (a - b, months)
              | _ \<Rightarrow> None)
      | _ \<Rightarrow> None)"

definition momentsDifference :: "zone \<Rightarrow> moment \<Rightarrow> moment \<Rightarrow> (int \<times> int) option" where
  "momentsDifference z base other0 =
     (let other = cloneWithOffset z other0 base in
      if isBefore z other ''millisecond'' base then positiveMomentsDifference z base other
      else map_option (\<lambda>(ms, mo). (- ms, - mo)) (positiveMomentsDifference z other base))"

text \<open>The duration of two moments, for \<open>from\<close>, \<open>to\<close> and \<open>createDuration({from, to})\<close>.\<close>

definition duration_between :: "zone \<Rightarrow> mlocale \<Rightarrow> moment \<Rightarrow> moment \<Rightarrow> duration option" where
  "duration_between z global from_time to_time =
     map_option (\<lambda>(ms, mo). new_Duration global [(''ms'', ms), (''M'', mo)]) (momentsDifference z from_time to_time)"

section \<open>Minimum and maximum\<close>

text \<open>\<open>None\<close> stands for the current time, the result without arguments.\<close>

fun pick :: "(moment \<Rightarrow> moment \<Rightarrow> bool) \<Rightarrow> moment list \<Rightarrow> moment \<Rightarrow> moment" where
  "pick f [] res = res"
| "pick f (m # ms) res = pick f ms (if \<not> valid__isValid m \<or> f m res then m else res)"

definition pickBy :: "(moment \<Rightarrow> moment \<Rightarrow> bool) \<Rightarrow> moment list \<Rightarrow> moment option" where
  "pickBy f moments = (case moments of [] \<Rightarrow> None | m # ms \<Rightarrow> Some (pick f ms m))"

definition moment_min :: "zone \<Rightarrow> moment list \<Rightarrow> moment option" where
  "moment_min z = pickBy (\<lambda>m res. isBefore z res ''millisecond'' m)"

definition moment_max :: "zone \<Rightarrow> moment list \<Rightarrow> moment option" where
  "moment_max z = pickBy (\<lambda>m res. isAfter z res ''millisecond'' m)"

definition prototypeMin :: "moment \<Rightarrow> moment \<Rightarrow> moment" where
  "prototypeMin other m = (if less_opt (valueOf other) (valueOf m) then m else other)"

definition prototypeMax :: "moment \<Rightarrow> moment \<Rightarrow> moment" where
  "prototypeMax other m = (if less_opt (valueOf m) (valueOf other) then m else other)"

section \<open>Calendar phrases\<close>

definition calendar_key :: "zone \<Rightarrow> moment \<Rightarrow> moment \<Rightarrow> string" where
  "calendar_key z now m =
     (let sod = startOf z ''day'' (cloneWithOffset z now m)
      in case diff_float z sod ''days'' m of
           None \<Rightarrow> ''sameElse''
         | Some d \<Rightarrow>
             if d < - 6 then ''sameElse'' else if d < - 1 then ''lastWeek'' else if d < 0 then ''lastDay''
             else if d < 1 then ''sameDay'' else if d < 2 then ''nextDay''
             else if d < 7 then ''nextWeek'' else ''sameElse'')"

section \<open>Conversions\<close>

definition unix :: "moment \<Rightarrow> int option" where
  "unix m = map_option (\<lambda>v. v div 1000) (valueOf m)"

definition toDate :: "moment \<Rightarrow> int option" where
  "toDate m = (if offset_or_zero m \<noteq> 0 then Option.bind (valueOf m) TimeClip else m_d m)"

definition toArray :: "zone \<Rightarrow> moment \<Rightarrow> int option list" where
  "toArray z m = [year z m, month z m, get_set__get z Date m, get_set__get z Hours m, get_set__get z Minutes m,
     get_set__get z Seconds m, get_set__get z Milliseconds m]"

definition toObject :: "zone \<Rightarrow> moment \<Rightarrow> (string \<times> int option) list" where
  "toObject z m = [(''years'', year z m), (''months'', month z m), (''date'', get_set__get z Date m),
     (''hours'', get_set__get z Hours m), (''minutes'', get_set__get z Minutes m),
     (''seconds'', get_set__get z Seconds m), (''milliseconds'', get_set__get z Milliseconds m)]"

definition local_moment :: "mlocale \<Rightarrow> int option \<Rightarrow> moment" where
  "local_moment l t = \<lparr>m_d = t, m_isUTC = False, m_offset = None, m_locale = l, m_flags_ok = True, m_tzm = None\<rparr>"

definition createUnix :: "mlocale \<Rightarrow> int \<Rightarrow> moment" where
  "createUnix l input = local_moment l (TimeClip (input * 1000))"

definition weeksInYear :: "zone \<Rightarrow> mlocale \<Rightarrow> int \<Rightarrow> int \<Rightarrow> int \<Rightarrow> int option" where
  "weeksInYear z l y dow doy =
     map_option fst (weekOfYear z (local_moment l (createDate z y 11 (31 + dow - doy) 0 0 0 0)) dow doy)"

definition getISOWeeksInYear :: "zone \<Rightarrow> moment \<Rightarrow> int option" where
  "getISOWeeksInYear z m = Option.bind (year z m) (\<lambda>y. weeksInYear z (m_locale m) y 1 4)"

definition getWeeksInYear :: "zone \<Rightarrow> moment \<Rightarrow> int option" where
  "getWeeksInYear z m =
     Option.bind (year z m) (\<lambda>y. weeksInYear z (m_locale m) y (l_dow (m_locale m)) (l_doy (m_locale m)))"

section \<open>Lists of names\<close>

definition locale_names :: "string \<Rightarrow> zone \<Rightarrow> moment \<Rightarrow> mlocale \<Rightarrow> string option" where
  "locale_names field z m l =
     (let pick_name = (\<lambda>names i. case i of None \<Rightarrow> None
            | Some n \<Rightarrow> if 0 \<le> n \<and> nat n < length names then Some (names ! nat n) else None)
      in if field = ''months'' then pick_name (l_months l) (month z m)
         else if field = ''monthsShort'' then pick_name (l_monthsShort l) (month z m)
         else if field = ''weekdays'' then pick_name (l_weekdays l) (day z m)
         else if field = ''weekdaysShort'' then pick_name (l_weekdaysShort l) (day z m)
         else if field = ''weekdaysMin'' then pick_name (l_weekdaysMin l) (day z m)
         else None)"

text \<open>\<open>now\<close> is the current time, which \<open>lists__get\<close> takes in UTC mode.\<close>

definition lists__get :: "zone \<Rightarrow> moment \<Rightarrow> mlocale \<Rightarrow> int \<Rightarrow> string \<Rightarrow> string \<Rightarrow> string option" where
  "lists__get z now global index field setter =
     locale_names field z (set_unit z setter index now) global"

definition list_all_names :: "zone \<Rightarrow> moment \<Rightarrow> mlocale \<Rightarrow> string \<Rightarrow> nat \<Rightarrow> string \<Rightarrow> string option list" where
  "list_all_names z now global field count setter =
     map (\<lambda>i. lists__get z now global (int i) field setter) [0..<count]"

definition listMonths :: "zone \<Rightarrow> moment \<Rightarrow> mlocale \<Rightarrow> string option list" where
  "listMonths z now global = list_all_names z now global ''months'' 12 ''month''"

definition listMonthsShort :: "zone \<Rightarrow> moment \<Rightarrow> mlocale \<Rightarrow> string option list" where
  "listMonthsShort z now global = list_all_names z now global ''monthsShort'' 12 ''month''"

definition listWeekdays :: "zone \<Rightarrow> moment \<Rightarrow> mlocale \<Rightarrow> string option list" where
  "listWeekdays z now global = list_all_names z now global ''weekdays'' 7 ''day''"

definition listWeekdaysShort :: "zone \<Rightarrow> moment \<Rightarrow> mlocale \<Rightarrow> string option list" where
  "listWeekdaysShort z now global = list_all_names z now global ''weekdaysShort'' 7 ''day''"

definition listWeekdaysMin :: "zone \<Rightarrow> moment \<Rightarrow> mlocale \<Rightarrow> string option list" where
  "listWeekdaysMin z now global = list_all_names z now global ''weekdaysMin'' 7 ''day''"

section \<open>Changing the offset\<close>

lemma short_amounts:
  "du_milliseconds (duration_of_number l n (Some ''m'')) = n * 60000" "du_days (duration_of_number l n (Some ''m'')) = 0"
  "du_months (duration_of_number l n (Some ''m'')) = 0"
  by (simp_all add: duration_of_number_def new_Duration_def normalizeObjectUnits_def or_zero_def Let_def)

lemma add_minutes:
  "addSubtract z m (duration_of_number l n (Some ''m'')) k =
     (if n = 0 then m else m\<lparr>m_d := Option.bind (m_d m) (\<lambda>t. TimeClip (t + n * 60000 * k))\<rparr>)"
  by (simp add: addSubtract_def short_amounts)

lemma valueOf_offset: "valueOf m = map_option (\<lambda>t. t - offset_or_zero m * 60000) (m_d m)"
  by (simp add: valueOf_def offset_or_zero_def)

lemma TimeClip_near: "\<bar>e\<bar> \<le> 8639000000000000 \<Longrightarrow> \<bar>x\<bar> \<le> 1000000000000 \<Longrightarrow> TimeClip (e + x) = Some (e + x)"
  by (simp add: TimeClip_def)

definition offset_minutes :: "int \<Rightarrow> int" where
  "offset_minutes input = (if \<bar>input\<bar> < 16 then input * 60 else input)"

lemma set_utcOffset_moves:
  assumes "m_d m = Some e" and "\<bar>e\<bar> \<le> 8639000000000000" and "\<bar>n\<bar> \<le> 1440" and "\<bar>offset_or_zero m\<bar> \<le> 1440"
  shows "set_utcOffset z n False m = m\<lparr>m_offset := Some (offset_minutes n), m_isUTC := True,
    m_d := Some (e + (offset_minutes n - offset_or_zero m) * 60000)\<rparr>"
proof -
  have "\<bar>(offset_minutes n - offset_or_zero m) * 60000\<bar> \<le> 1000000000000"
    using assms(3,4) by (simp add: offset_minutes_def abs_if split: if_splits)
  then have "TimeClip (e + (offset_minutes n - offset_or_zero m) * 60000) =
      Some (e + (offset_minutes n - offset_or_zero m) * 60000)"
    by (rule TimeClip_near [OF assms(2)])
  then show ?thesis
    using assms(1) by (simp add: set_utcOffset_def Let_def add_minutes offset_minutes_def)
qed

lemma date_offset_exact:
  assumes "m_d m = Some e" and "off_utc z e mod 900000 = 0"
  shows "getDateOffset z m = Some (off_utc z e div 60000)" "off_utc z e div 60000 * 60000 = off_utc z e"
proof -
  obtain q where q: "off_utc z e = 900000 * q" using assms(2) by (auto simp: mod_eq_0_iff_dvd)
  have "(- 2 * off_utc z e + 900000) div 1800000 = - q"
    unfolding q by (rule int_div_pos_eq [where r = 900000]) simp_all
  then show "getDateOffset z m = Some (off_utc z e div 60000)"
    using assms(1) by (simp add: getDateOffset_def q)
  show "off_utc z e div 60000 * 60000 = off_utc z e" unfolding q by simp
qed

lemma to_local:
  assumes "m_isUTC m" and "m_d m = Some d"
  shows "valueOf (setOffsetToLocal z False m) =
    (if offset_or_zero m = 0 then Some d else TimeClip (d - offset_or_zero m * 60000))"
  using assms by (simp add: setOffsetToLocal_def Let_def set_utcOffset_def add_minutes valueOf_offset offset_or_zero_def
      option.map_ident)

lemma utcOffset_keeps:
  assumes "m_d m = Some e" and "\<bar>e\<bar> \<le> 8639000000000000" and "\<bar>n\<bar> \<le> 1440" and "\<bar>offset_or_zero m\<bar> \<le> 1440"
  shows "valueOf (set_utcOffset z n False m) = valueOf m"
    and "m_isUTC m \<or> off_utc z e mod 900000 = 0 \<and> \<bar>off_utc z e\<bar> \<le> 86400000 \<Longrightarrow>
      moment_local z (set_utcOffset z n True m) = moment_local z m"
    and "utcOffset z (set_utcOffset z n keep m) = Some (if \<bar>n\<bar> < 16 then n * 60 else n)"
    and "valueOf (setOffsetToLocal z False (set_utcOffset z n False m)) = valueOf m"
    and "\<not> m_isUTC m \<and> offset_or_zero m = 0 \<Longrightarrow>
      moment_local z (setOffsetToLocal z False (set_utcOffset z n False m)) = moment_local z m"
proof -
  note moved = set_utcOffset_moves [OF assms(1-4)]
  show v: "valueOf (set_utcOffset z n False m) = valueOf m"
    unfolding moved using assms(1) by (simp add: valueOf_offset offset_or_zero_def algebra_simps)
  show "moment_local z (set_utcOffset z n True m) = moment_local z m"
    if zone: "m_isUTC m \<or> off_utc z e mod 900000 = 0 \<and> \<bar>off_utc z e\<bar> \<le> 86400000"
  proof (cases "m_isUTC m")
    case True
    then show ?thesis by (simp add: set_utcOffset_def Let_def moment_local_def)
  next
    case False
    then have zone: "off_utc z e mod 900000 = 0" "\<bar>off_utc z e\<bar> \<le> 86400000" using zone by blast+
    note off = date_offset_exact [OF assms(1) zone(1)]
    have "TimeClip (e + off_utc z e) = Some (e + off_utc z e)" using assms(2) zone(2) by (intro TimeClip_near) simp_all
    then show ?thesis
      using assms(1) False off
      by (simp add: set_utcOffset_def Let_def add_def add_minutes moment_local_def LocalTime_def)
  qed
  show "utcOffset z (set_utcOffset z n keep m) = Some (if \<bar>n\<bar> < 16 then n * 60 else n)"
  proof (cases keep)
    case False
    then show ?thesis by (simp add: moved utcOffset_def offset_or_zero_def offset_minutes_def)
  next
    case True
    then show ?thesis
      by (simp add: set_utcOffset_def Let_def add_def add_minutes utcOffset_def offset_or_zero_def split: option.splits)
  qed
  let ?m = "set_utcOffset z n False m"
  have m: "m_d ?m = Some (e + (offset_minutes n - offset_or_zero m) * 60000)" "m_isUTC ?m" "offset_or_zero ?m = offset_minutes n"
    by (simp_all add: moved offset_or_zero_def)
  have "TimeClip (e - offset_or_zero m * 60000) = Some (e - offset_or_zero m * 60000)"
    using TimeClip_near [OF assms(2), of "(- offset_or_zero m) * 60000"] assms(4) by simp
  then show "valueOf (setOffsetToLocal z False ?m) = valueOf m"
    using to_local [OF m(2,1)] m(3) assms(1) by (simp add: valueOf_offset algebra_simps)
  show "moment_local z (setOffsetToLocal z False ?m) = moment_local z m" if h: "\<not> m_isUTC m \<and> offset_or_zero m = 0"
  proof -
    let ?r = "setOffsetToLocal z False ?m"
    have "\<not> m_isUTC ?r" "offset_or_zero ?r = 0"
      using m(2) by (simp_all add: setOffsetToLocal_def Let_def set_utcOffset_def add_minutes offset_or_zero_def)
    moreover have "valueOf ?r = Some e"
      using to_local [OF m(2,1)] m(3) h TimeClip_near [OF assms(2), of 0] by simp
    ultimately show ?thesis using h assms(1) by (auto simp: moment_local_def valueOf_offset split: option.splits)
  qed
qed

text \<open>
  Claim C36: take a valid moment, its date at least a day inside the span of dates, with an offset of at most a day, and a new
  offset of at most a day. Changing the offset keeps the instant. Changing it with \<open>keepLocalTime\<close> keeps the time the moment shows, if
  it is in UTC mode or the browser's offset at its date is a whole number of quarters of an hour and at most a day; otherwise
  the time is not kept (\<open>keepLocalTime_rounds_offset\<close>). The offset is then the new one, where a number below 16 counts
  hours. Switching back to local mode keeps the instant, and a moment that was in local mode without an offset shows the time
  it showed before.
\<close>

theorem utcOffset_keeps_time:
  assumes "m_d m = Some e" and "\<bar>e\<bar> \<le> 8639000000000000" and "\<bar>n\<bar> \<le> 1440" and "\<bar>offset_or_zero m\<bar> \<le> 1440"
  shows "valueOf (set_utcOffset z n False m) = valueOf m \<and>
    (m_isUTC m \<or> off_utc z e mod 900000 = 0 \<and> \<bar>off_utc z e\<bar> \<le> 86400000 \<longrightarrow>
      moment_local z (set_utcOffset z n True m) = moment_local z m) \<and>
    utcOffset z (set_utcOffset z n keep m) = Some (if \<bar>n\<bar> < 16 then n * 60 else n) \<and>
    valueOf (setOffsetToLocal z False (set_utcOffset z n False m)) = valueOf m \<and>
    (\<not> m_isUTC m \<and> offset_or_zero m = 0 \<longrightarrow>
      moment_local z (setOffsetToLocal z False (set_utcOffset z n False m)) = moment_local z m)"
  by (intro conjI impI; rule utcOffset_keeps [OF assms]; assumption?)

lemma utcOffset_keeps_time_witness:
  "valueOf (set_utcOffset (fixed_zone 420) 330 False (local_moment en_locale (Some 86400000))) = Some 86400000
   \<and> moment_local (fixed_zone 420) (set_utcOffset (fixed_zone 420) 330 True (local_moment en_locale (Some 86400000)))
     = moment_local (fixed_zone 420) (local_moment en_locale (Some 86400000))
   \<and> utcOffset (fixed_zone 420) (set_utcOffset (fixed_zone 420) 7 True (local_moment en_locale (Some 86400000))) = Some 420"
proof -
  have h: "m_d (local_moment en_locale (Some 86400000)) = Some 86400000" "\<bar>86400000\<bar> \<le> (8639000000000000::int)"
    "\<bar>330\<bar> \<le> (1440::int)" "\<bar>offset_or_zero (local_moment en_locale (Some 86400000))\<bar> \<le> 1440"
    by (simp_all add: local_moment_def offset_or_zero_def)
  have z: "off_utc (fixed_zone 420) 86400000 mod 900000 = 0 \<and> \<bar>off_utc (fixed_zone 420) 86400000\<bar> \<le> 86400000"
    by (simp add: fixed_zone_def)
  have h7: "\<bar>7\<bar> \<le> (1440::int)" by simp
  have v: "valueOf (local_moment en_locale (Some 86400000)) = Some 86400000" by (simp add: local_moment_def valueOf_def)
  show ?thesis
    using utcOffset_keeps_time [OF h, of "fixed_zone 420" True] utcOffset_keeps_time [OF h(1,2) h7 h(4), of "fixed_zone 420" True] z v by simp
qed

text \<open>
  The condition on the zone matters: with an offset that is no whole number of quarters,
  as in the local mean times before the standard zones, \<open>utc(true)\<close> moves the wall time.
\<close>

lemma keepLocalTime_rounds_offset:
  "let z = fixed_zone (- 44); m = local_moment en_locale (Some 0)
   in moment_local z m = Some (- 44 * 60000) \<and> moment_local z (setOffsetToUTC z True m) = Some (- 45 * 60000)"
  by (simp add: Let_def local_moment_def fixed_zone_def moment_local_def LocalTime_def setOffsetToUTC_def
      set_utcOffset_def getDateOffset_def add_def add_minutes TimeClip_def offset_or_zero_def)

section \<open>Comparing by unit\<close>

lemma opt_simps [simp]:
  "less_opt (Some a) (Some b) \<longleftrightarrow> a < b" "leq_opt (Some a) (Some b) \<longleftrightarrow> a \<le> b"
  "less_opt None y \<longleftrightarrow> False" "less_opt x None \<longleftrightarrow> False"
  by (simp_all add: less_opt_def leq_opt_def split: option.splits)

lemma unit_values:
  assumes "steady z m" and "moment_local z m = Some t" and "safe_year (date_field FullYear t)"
    and "date_field FullYear t < 274000" and "u \<in> set calendar_units"
    and "0 \<le> l_dow (m_locale m)" "l_dow (m_locale m) \<le> 6"
  defines "w \<equiv> l_dow (m_locale m)" and "c \<equiv> wall_shift z m"
  shows "valueOf m = Some (t - c)" "valueOf (startOf z u m) = Some (unit_floor w u t - c)"
    "valueOf (endOf z u m) = Some (unit_next w u t - 1 - c)"
proof -
  note s = startOf_endOf_wall [OF assms(1-7), folded w_def]
  show "valueOf m = Some (t - c)" unfolding c_def by (rule wall_value [OF assms(1,2)])
  have "steady z (startOf z u m)" "wall_shift z (startOf z u m) = c"
    "steady z (endOf z u m)" "wall_shift z (endOf z u m) = c"
    unfolding s(1,2) c_def using assms(1) by simp_all
  then show "valueOf (startOf z u m) = Some (unit_floor w u t - c)"
    "valueOf (endOf z u m) = Some (unit_next w u t - 1 - c)"
    using wall_value s(3,4) by metis+
qed

lemma interval_order:
  fixes f n f' n' t t' :: int
  assumes "f \<le> t" "t < n" "f' \<le> t'" "t' < n'"
    and "f \<le> t' \<Longrightarrow> t' < n \<Longrightarrow> f' = f \<and> n' = n" and "f' \<le> t \<Longrightarrow> t < n' \<Longrightarrow> f = f' \<and> n = n'"
  shows "n - 1 < t' \<longleftrightarrow> t < f'" "f \<le> t' \<and> t' \<le> n - 1 \<longleftrightarrow> f' \<le> t \<and> t \<le> n' - 1"
    "f \<le> t' \<and> t' \<le> n - 1 \<longleftrightarrow> f = f'"
proof -
  consider "t' < f" | "n \<le> t'" | "f \<le> t'" "t' < n" by linarith
  then have "(n - 1 < t' \<longleftrightarrow> t < f') \<and> (f \<le> t' \<and> t' \<le> n - 1 \<longleftrightarrow> f' \<le> t \<and> t \<le> n' - 1) \<and>
      (f \<le> t' \<and> t' \<le> n - 1 \<longleftrightarrow> f = f')"
  proof cases
    case 1
    have "n' \<le> t" using 1 assms by linarith
    then show ?thesis using 1 assms by linarith
  next
    case 2
    have "t < f'" using 2 assms by linarith
    then show ?thesis using 2 assms by linarith
  next
    case 3
    then show ?thesis using assms by linarith
  qed
  then show "n - 1 < t' \<longleftrightarrow> t < f'" "f \<le> t' \<and> t' \<le> n - 1 \<longleftrightarrow> f' \<le> t \<and> t \<le> n' - 1"
    "f \<le> t' \<and> t' \<le> n - 1 \<longleftrightarrow> f = f'" by blast+
qed

text \<open>
  Comparing two moments by a unit is an order of the units: exactly one of
  \<open>isBefore\<close>, \<open>isSame\<close> and \<open>isAfter\<close> holds, \<open>isSame\<close> does not depend on which of the two
  is asked and holds exactly when the units start at one instant, and one moment is before the
  other exactly when the other is after it.
\<close>

theorem comparison_by_unit:
  assumes "steady z m" and "moment_local z m = Some t" and "steady z m'" and "moment_local z m' = Some t'"
    and "safe_year (date_field FullYear t)" and "date_field FullYear t < 274000"
    and "safe_year (date_field FullYear t')" and "date_field FullYear t' < 274000"
    and u: "u \<in> set calendar_units" and l: "m_locale m' = m_locale m" and c: "wall_shift z m' = wall_shift z m"
    and w: "0 \<le> l_dow (m_locale m)" "l_dow (m_locale m) \<le> 6"
  shows "length (filter (\<lambda>b. b) [isBefore z m' u m, isSame z m' u m, isAfter z m' u m]) = 1 \<and>
    (isBefore z m' u m \<longleftrightarrow> isAfter z m u m') \<and> (isSame z m' u m \<longleftrightarrow> isSame z m u m') \<and>
    (isSame z m' u m \<longleftrightarrow> valueOf (startOf z u m) = valueOf (startOf z u m'))"
proof -
  let ?w = "l_dow (m_locale m)"
  note v = unit_values [OF assms(1,2,5,6) u w] and v' = unit_values [OF assms(3,4,7,8) u, unfolded l c, OF w]
  define f n f' n' where d: "f = unit_floor ?w u t" "n = unit_next ?w u t" "f' = unit_floor ?w u t'" "n' = unit_next ?w u t'"
  have i: "f \<le> t \<and> t < n \<and> n - f \<le> 366 * msPerDay \<and> (f \<le> t' \<longrightarrow> t' < n \<longrightarrow> f' = f \<and> n' = n)"
    unfolding d by (rule unit_interval [OF u])
  have i': "f' \<le> t' \<and> t' < n' \<and> n' - f' \<le> 366 * msPerDay \<and> (f' \<le> t \<longrightarrow> t < n' \<longrightarrow> f = f' \<and> n = n')"
    unfolding d by (rule unit_interval [OF u])
  have "normalizeUnits u \<noteq> Some ''millisecond''"
    using u normalize_calendar_unit [OF u] by (cases rule: unit_cases) simp_all
  then have e: "isBefore z m' u m \<longleftrightarrow> n - 1 < t'" "isAfter z m' u m \<longleftrightarrow> t' < f" "isSame z m' u m \<longleftrightarrow> f \<le> t' \<and> t' \<le> n - 1"
    "isAfter z m u m' \<longleftrightarrow> t < f'" "isSame z m u m' \<longleftrightarrow> f' \<le> t \<and> t \<le> n' - 1"
    "valueOf (startOf z u m) = valueOf (startOf z u m') \<longleftrightarrow> f = f'"
    unfolding isBefore_def isAfter_def isSame_def d using v v' by simp_all
  have o: "n - 1 < t' \<longleftrightarrow> t < f'" "f \<le> t' \<and> t' \<le> n - 1 \<longleftrightarrow> f' \<le> t \<and> t \<le> n' - 1"
    "f \<le> t' \<and> t' \<le> n - 1 \<longleftrightarrow> f = f'"
    using interval_order [of f t n f' t' n'] i i' by blast+
  have k: "length (filter (\<lambda>b. b) [n - 1 < t', f \<le> t' \<and> t' \<le> n - 1, t' < f]) = 1"
    using i by (cases "t' < f"; cases "n - 1 < t'") simp_all
  show ?thesis unfolding e using k o by blast
qed

lemma comparison_by_unit_witness:
  "isBefore (fixed_zone 0) (utc_moment 86400000) ''day'' (utc_moment 0) \<longleftrightarrow>
   isAfter (fixed_zone 0) (utc_moment 0) ''day'' (utc_moment 86400000)"
proof -
  have y: "date_field FullYear 0 = 1970" "date_field FullYear 86400000 = 1970" by code_simp+
  have c: "wall_shift (fixed_zone 0) (utc_moment 86400000) = wall_shift (fixed_zone 0) (utc_moment 0)"
    "m_locale (utc_moment 86400000) = m_locale (utc_moment 0)"
    "0 \<le> l_dow (m_locale (utc_moment 0))" "l_dow (m_locale (utc_moment 0)) \<le> 6"
    by (simp_all add: wall_shift_def utc_moment_def en_locale_def new_Locale_def)
  have s: "safe_year (date_field FullYear 0)" "date_field FullYear 0 < 274000"
    "safe_year (date_field FullYear 86400000)" "date_field FullYear 86400000 < 274000" "''day'' \<in> set calendar_units"
    unfolding y by (simp_all add: safe_year_def calendar_units_def)
  show ?thesis
    using comparison_by_unit [OF utc_moment_wall(2,1) utc_moment_wall(2,1) s c(2,1,3,4)] by blast
qed

section \<open>Difference undoes addition\<close>

lemma months_amounts:
  "du_milliseconds (duration_of_number l n (Some ''months'')) = 0" "du_days (duration_of_number l n (Some ''months'')) = 0"
  "du_months (duration_of_number l n (Some ''months'')) = n"
  by (simp_all add: duration_of_number_def new_Duration_def normalizeObjectUnits_def or_zero_def Let_def)

lemma add_months_early:
  assumes "steady z m" and "moment_local z m = Some (civil_time y mo d h mi s ms)" and "valid_civil y mo d"
    and "valid_time h mi s ms" and "d \<le> 28" and "99 < y" and "safe_year y" and "safe_year (y + (mo + N + 1) div 12)"
    and "du_milliseconds dur = 0" and "du_days dur = 0" and "du_months dur = N"
  shows "addSubtract z m dur 1 = put_local z m (civil_time y (mo + N) d h mi s ms)"
proof (cases "N = 0")
  case True
  then show ?thesis
    using steady_put_self [OF assms(1,2) civil_time_span [OF assms(3,4,7)]] assms(9-11)
    by (simp add: addSubtract_def Let_def)
next
  case False
  obtain k where k: "daysInMonth y (mo + N) = Some k" "28 \<le> k"
    using daysInMonth_civil [OF assms(8)] assms(6) month_length_range(1) by auto
  have "min d k = d" using k(2) assms(5) by simp
  then show ?thesis
    using add_months [OF assms(1-4) assms(9,10), of 1 k] False k(1) assms(11) by simp
qed

lemma MakeDay_plus: "MakeDay y m (d + k) = MakeDay y m d + k"
  by (simp add: MakeDay_def Let_def)

lemma MakeDay_norm: "MakeDay y m d = MakeDay (y + m div 12) (m mod 12) d"
  by (simp add: MakeDay_def)

lemma month_step: "MakeDay y (m + 1) d - MakeDay y m d = month_length (leap (y + m div 12)) (m mod 12)"
  using MakeDay_plus [of y "m + 1" 0 d] MakeDay_plus [of "y + m div 12" "m mod 12" 0 d] MakeDay_norm [of y m d]
    MakeDay_plus [of "y + m div 12" "m mod 12" 0 "month_length (leap (y + m div 12)) (m mod 12)"] MakeDay_last [of y m]
  unfolding add_0 by linarith

lemma civil_norm_back:
  "civil_time (y + (mo + N) div 12) ((mo + N) mod 12 + k) d h mi s ms = civil_time y (mo + N + k) d h mi s ms"
proof -
  have a: "mo + N + k = ((mo + N) mod 12 + k) + (mo + N) div 12 * 12"
    using div_mult_mod_eq [of "mo + N" 12] by linarith
  have "(mo + N + k) div 12 = (mo + N) div 12 + ((mo + N) mod 12 + k) div 12"
    by (subst a, rule div_mult_self1) simp
  moreover have "(mo + N + k) mod 12 = ((mo + N) mod 12 + k) mod 12"
    by (subst a, rule mod_mult_self1)
  ultimately show ?thesis unfolding civil_time_def MakeDay_def Let_def by (simp only: add.assoc)
qed

lemma clone_back:
  assumes "steady z m" and "moment_local z m = Some t" and "in_span t" and "in_span v"
  shows "cloneWithOffset z m (put_local z m v) = m"
proof (cases "m_isUTC m")
  case True
  have t: "m_d m = Some t" using assms(2) True by (auto simp: moment_local_def)
  have p: "put_local z m v = m\<lparr>m_d := Some v\<rparr>" using True TimeClip_span [OF assms(4)] by (simp add: put_local_def)
  have e: "(m\<lparr>m_d := Some v\<rparr>)\<lparr>m_d := Some t\<rparr> = m" using t by simp
  show ?thesis
    unfolding p using t True TimeClip_span [OF assms(3)] e
    by (simp add: cloneWithOffset_def valueOf_offset offset_or_zero_def)
next
  case False
  then show ?thesis by (simp add: cloneWithOffset_def setOffsetToLocal_def)
qed

lemma offset_put:
  assumes "steady z m" and "moment_local z m = Some t" and "in_span v"
  shows "\<exists>q. utcOffset z m = Some q \<and> utcOffset z (put_local z m v) = Some q"
proof (cases "m_isUTC m")
  case True
  then show ?thesis by (simp add: utcOffset_def offset_or_zero_def)
next
  case False
  then obtain k where k: "z = fixed_zone k" "\<bar>k\<bar> \<le> 1440" using assms(1) by (auto simp: steady_def)
  obtain e where "m_d m = Some e" using assms(2) by (auto simp: moment_local_def)
  moreover have "m_d (put_local z m v) \<noteq> None"
    using put_local_wall [OF assms(1,3)] by (auto simp: moment_local_def)
  ultimately show ?thesis using False k by (auto simp: utcOffset_def getDateOffset_def fixed_zone_def)
qed

lemma absFloor_int [simp]: "absFloor (of_int n) = n"
  by (simp add: absFloor_def)

lemma diff_put:
  assumes "steady z m" and "moment_local z m = Some t" and "in_span t" and "in_span v"
    and "normalizeUnits u \<notin> {Some ''year'', Some ''month'', Some ''quarter''}"
    and "\<And>e. diff_units (normalizeUnits u) (v - t) 0 = of_int n"
  shows "diff z m u (put_local z m v) = Some n"
proof -
  obtain q where q: "utcOffset z m = Some q" "utcOffset z (put_local z m v) = Some q"
    using offset_put [OF assms(1,2,4)] by blast
  have v: "valueOf (put_local z m v) = Some (v - wall_shift z m)" "valueOf m = Some (t - wall_shift z m)"
    using wall_value [OF assms(1,2)] wall_value [OF _ put_local_wall [OF assms(1,4)]] assms(1) by simp_all
  show ?thesis
    using assms(5,6) by (simp add: diff_def diff_float_def Let_def clone_back [OF assms(1-4)] q v)
qed

lemma monthDiff_back:
  assumes "steady z m" and "moment_local z m = Some (civil_time y mo d h mi s ms)" and "valid_civil y mo d"
    and "valid_time h mi s ms" and "d \<le> 28" and "1200 \<le> y" and "y \<le> 200000" and "\<bar>N\<bar> \<le> 12000"
  shows "add z N ''months'' m = put_local z m (civil_time y (mo + N) d h mi s ms)"
    and "in_span (civil_time y (mo + N) d h mi s ms)"
    and "monthDiff z (put_local z m (civil_time y (mo + N) d h mi s ms)) m = Some (of_int N)"
proof -
  have mo: "0 \<le> mo" "mo \<le> 11" "1 \<le> d" using assms(3) by (simp_all add: valid_civil_def)
  have sy: "safe_year (y + (mo + k) div 12)" "99 < y + (mo + k) div 12" if "\<bar>k\<bar> \<le> 12013" for k
  proof -
    have "- 1002 \<le> (mo + k) div 12" "(mo + k) div 12 \<le> 1002"
      using that mo div_range [of 12 "mo + k"] by linarith+
    then show "safe_year (y + (mo + k) div 12)" "99 < y + (mo + k) div 12"
      using assms(6,7) by (simp_all add: safe_year_def)
  qed
  have y0: "safe_year y" "99 < y" using assms(6,7) by (simp_all add: safe_year_def)
  let ?t = "\<lambda>k. civil_time y (mo + k) d h mi s ms"
  have A: "add z N ''months'' m = put_local z m (?t N)"
    unfolding add_def using sy(1) [of "N + 1"] assms(8)
    by (intro add_months_early [OF assms(1-5) y0(2,1)]) (simp_all add: months_amounts add_ac)
  then show "add z N ''months'' m = put_local z m (?t N)" .
  let ?y = "y + (mo + N) div 12" and ?mo = "(mo + N) mod 12"
  have n: "?t N = civil_time ?y ?mo d h mi s ms" by (rule civil_time_norm)
  have v: "valid_civil ?y ?mo d" using mo assms(5) month_length_range(1) [of "leap ?y" "mo + N"] by (simp add: valid_civil_def)
  have sN: "safe_year ?y" "99 < ?y" using sy [of N] assms(8) by simp_all
  show sp: "in_span (?t N)" unfolding n by (rule civil_time_span [OF v assms(4) sN(1)])
  let ?m = "put_local z m (?t N)"
  have w: "moment_local z ?m = Some (civil_time ?y ?mo d h mi s ms)" unfolding n [symmetric] by (rule put_local_wall [OF assms(1) sp])
  have st: "steady z ?m" using assms(1) by simp
  have moved: "add z (k - N) ''months'' ?m = put_local z m (?t k)" if k: "\<bar>k\<bar> \<le> 12" for k
  proof -
    have "(?mo + (k - N) + 1) div 12 + (mo + N) div 12 = (mo + (k + 1)) div 12"
    proof -
      have "mo + (k + 1) = (?mo + (k - N) + 1) + (mo + N) div 12 * 12" using div_mult_mod_eq [of "mo + N" 12] by linarith
      then show ?thesis using div_mult_self1 [of 12 "?mo + (k - N) + 1" "(mo + N) div 12"] by simp
    qed
    then have "safe_year (?y + (?mo + (k - N) + 1) div 12)" using sy(1) [of "k + 1"] k by (simp add: add.assoc add.commute)
    then have "add z (k - N) ''months'' ?m = put_local z ?m (civil_time ?y (?mo + (k - N)) d h mi s ms)"
      unfolding add_def
      by (intro add_months_early [OF st w v assms(4,5) sN(2,1)]) (simp_all add: months_amounts)
    then show ?thesis by (simp add: put_put [OF assms(1)] civil_norm_back)
  qed
  have f: "year z ?m = Some ?y" "month z ?m = Some ?mo" "year z m = Some y" "month z m = Some mo"
    using w assms(2) fields_of_civil [OF v assms(4)] fields_of_civil [OF assms(3,4)]
    by (simp_all only: year_def month_def get_set__get_def option.map)
  have "(y - ?y) * 12 = - ((mo + N) div 12 * 12)" by simp
  then have g: "(y - ?y) * 12 + (mo - ?mo) = - N" using div_mult_mod_eq [of "mo + N" 12] by linarith
  have sp0: "in_span (?t 0)" "in_span (?t 1)"
  proof -
    show "in_span (?t 0)" using civil_time_span [OF assms(3,4) y0(1)] by simp
    have "valid_civil (y + (mo + 1) div 12) ((mo + 1) mod 12) d"
      using mo assms(5) month_length_range(1) [of "leap (y + (mo + 1) div 12)" "mo + 1"] by (simp add: valid_civil_def)
    then show "in_span (?t 1)"
      using civil_time_span [OF _ assms(4) sy(1) [of 1]] civil_time_norm [of y "mo + 1"] by simp
  qed
  have vm: "valueOf (put_local z m x) = Some (x - wall_shift z m)" if "in_span x" for x
    using wall_value [OF _ put_local_wall [OF assms(1) that]] assms(1) by simp
  have v0: "valueOf m = Some (?t 0 - wall_shift z m)" using wall_value [OF assms(1,2)] by simp
  have len: "?t 1 - ?t 0 \<noteq> 0"
  proof -
    have "28 \<le> MakeDay y (mo + 1) d - MakeDay y mo d" unfolding month_step by (rule month_length_range(1))
    then show ?thesis by (simp add: civil_time_def MakeDate_def msPerDay_def)
  qed
  have b: "add z (- N) ''months'' ?m = put_local z m (?t 0)" "add z (- N + 1) ''months'' ?m = put_local z m (?t 1)"
    using moved [of 0] moved [of 1] by (simp_all add: add.commute)
  have irrefl: "(x < x) = False" for x :: int by simp
  show "monthDiff z ?m m = Some (of_int N)"
    unfolding monthDiff_def f option.case prod.case g Let_def b vm [OF sp0(1)] vm [OF sp0(2)] v0 opt_simps
      irrefl if_False
    using len by simp
qed

lemma mid_span:
  assumes "valid_civil y mo d" and "valid_time h mi s ms" and "1200 \<le> y" and "y \<le> 200000"
    and "\<bar>x - civil_time y mo d h mi s ms\<bar> \<le> 7000 * msPerDay"
  shows "in_span x"
proof -
  have m: "mo div 12 = 0" "mo mod 12 = mo" "\<bar>d\<bar> \<le> 1000" using valid_div_mod [OF assms(1)] by simp_all
  have "400 * DayFromYear y \<le> 28931600000" "- 200000000 \<le> 400 * DayFromYear y"
    using DayFromYear_bounds [of y] assms(3,4) by simp_all
  then have "\<bar>MakeDay y mo d\<bar> \<le> 90000000"
    using month_start_bounds [of "leap y" mo] m(3)
    unfolding MakeDay_def Let_def m(1,2) add_0_right by linarith
  then show ?thesis
    using MakeTime_bounds [OF assms(2)] assms(5)
    unfolding in_span_def civil_time_def MakeDate_def msPerDay_def by linarith
qed

lemma diff_unit_cases:
  assumes "u \<in> set [''second'', ''minute'', ''hour'', ''day'', ''week'', ''month'', ''quarter'', ''year'']"
  obtains "u = ''second''" | "u = ''minute''" | "u = ''hour''" | "u = ''day''" | "u = ''week''"
    | "u = ''month''" | "u = ''quarter''" | "u = ''year''"
  using assms unfolding list.set by (elim insertE emptyE)

text \<open>
  Claim C33: \<open>diff\<close> undoes \<open>add\<close> for a moment in UTC mode or in a zone without transitions, of the years 1200 to 200000, and at most
  1000 units, if the date is not after the 28th: the difference between the moment and the one \<open>n\<close> units later (or
  earlier) is \<open>n\<close>, for seconds, minutes, hours, days, weeks, months, quarters and years. After the 28th a month may be too
  short for the date, and the difference is smaller (\<open>diff_of_clamped_month\<close>).
\<close>

theorem diff_undoes_add:
  assumes "steady z m" and "moment_local z m = Some t" and "date_field Date t \<le> 28"
    and "1200 \<le> date_field FullYear t" and "date_field FullYear t \<le> 200000" and "\<bar>n\<bar> \<le> 1000"
    and "u \<in> set [''second'', ''minute'', ''hour'', ''day'', ''week'', ''month'', ''quarter'', ''year'']"
  shows "diff z m u (add z n u m) = Some n"
proof -
  obtain y mo d h mi s ms where t: "t = civil_time y mo d h mi s ms"
    and v: "valid_civil y mo d" and vt: "valid_time h mi s ms" by (rule civil_cases)
  have y: "d \<le> 28" "1200 \<le> y" "y \<le> 200000"
    using assms(3-5) fields_of_civil(1,3) [OF v vt] unfolding t by (simp_all only:)
  have sy: "safe_year y" using y by (simp add: safe_year_def)
  have sp: "in_span t" unfolding t by (rule civil_time_span [OF v vt sy])
  have time: "diff z m u (add z n u m) = Some n"
    if "add z n u m = put_local z m (t + n * L)" "\<bar>L\<bar> \<le> 604800000" "normalizeUnits u \<notin> {Some ''year'', Some ''month'', Some ''quarter''}"
      "diff_units (normalizeUnits u) (n * L) 0 = of_int n" for L
  proof -
    have "\<bar>n * L\<bar> \<le> 1000 * 604800000" unfolding abs_mult using assms(6) that(2) by (intro mult_mono) simp_all
    then have "in_span (t + n * L)"
      unfolding t by (intro mid_span [OF v vt y(2,3)]) (simp add: msPerDay_def)
    then show ?thesis unfolding that(1) by (intro diff_put [OF assms(1,2) sp _ that(3)]) (simp_all add: that(4))
  qed
  have months: "diff z m u (add z n u m) = Some n"
    if "add z n u m = add z (n * k) ''months'' m" "k \<in> {1, 3, 12}"
      "\<And>x. (if normalizeUnits u = Some ''quarter'' then x / 3 else if normalizeUnits u = Some ''year'' then x / 12 else x) = x / (of_int k :: rat)"
      "normalizeUnits u \<in> {Some ''year'', Some ''month'', Some ''quarter''}" for k
  proof -
    have N: "\<bar>n * k\<bar> \<le> 12000" using assms(6) that(2) by (auto simp: abs_mult)
    note b = monthDiff_back [OF assms(1) assms(2) [unfolded t] v vt y N]
    have "diff_float z m u (add z n u m) = Some (of_int (n * k) / of_int k)"
      unfolding that(1) b(1) diff_float_def Let_def clone_back [OF assms(1,2) sp b(2)] b(3)
      using that(3,4) by auto
    then show ?thesis using that(2) by (auto simp: diff_def)
  qed
  have days: "add z n u m = put_local z m (t + k * 86400000)"
    if "du_milliseconds (duration_of_number (m_locale m) n (Some u)) = 0" "du_days (duration_of_number (m_locale m) n (Some u)) = k"
      "du_months (duration_of_number (m_locale m) n (Some u)) = 0" for k
    using add_days_wall [OF assms(1,2) sp that(1,3)] that(2) by (simp add: add_def msPerDay_def)
  note time_add = add_time [OF assms(1,2) sp, of "duration_of_number (m_locale m) n (Some u)" 1]
  show ?thesis
    using assms(7)
  proof (cases rule: diff_unit_cases)
    case 1
    show ?thesis by (rule time [of 1000]) (use time_add in \<open>simp_all add: 1 add_def number_amounts diff_units_def\<close>)
  next
    case 2
    show ?thesis by (rule time [of 60000]) (use time_add in \<open>simp_all add: 2 add_def number_amounts diff_units_def\<close>)
  next
    case 3
    show ?thesis by (rule time [of 3600000]) (use time_add in \<open>simp_all add: 3 add_def number_amounts diff_units_def\<close>)
  next
    case 4
    show ?thesis by (rule time [of 86400000]) (use days [of n] in \<open>simp_all add: 4 number_amounts diff_units_def\<close>)
  next
    case 5
    show ?thesis by (rule time [of 604800000]) (use days [of "n * 7"] in \<open>simp_all add: 5 number_amounts diff_units_def mult.commute\<close>)
  next
    case 6
    show ?thesis by (rule months [of 1]) (simp_all add: 6 add_def addSubtract_def number_amounts months_amounts)
  next
    case 7
    show ?thesis by (rule months [of 3]) (simp_all add: 7 add_def addSubtract_def number_amounts months_amounts)
  next
    case 8
    show ?thesis by (rule months [of 12]) (simp_all add: 8 add_def addSubtract_def number_amounts months_amounts)
  qed
qed

lemma diff_undoes_add_witness:
  "diff (fixed_zone 0) (utc_moment 0) ''month'' (add (fixed_zone 0) (- 14) ''month'' (utc_moment 0)) = Some (- 14)"
proof -
  have h: "date_field Date 0 \<le> 28" "1200 \<le> date_field FullYear 0" "date_field FullYear 0 \<le> 200000"
    by code_simp+
  show ?thesis by (rule diff_undoes_add [OF utc_moment_wall(2,1) h]) simp_all
qed

text \<open>
  Without the condition on the date the two do not fit: a month after the 31st of January
  is the 28th of February, which \<open>diff\<close> finds less than a month away.
\<close>

lemma diff_of_clamped_month:
  "diff (fixed_zone 0) (utc_moment 1422662400000) ''month'' (add (fixed_zone 0) 1 ''month'' (utc_moment 1422662400000)) = Some 0"
  by code_simp

section \<open>Minimum and maximum of a list\<close>

text \<open>
  \<open>pickBy\<close> scans the list with a comparison that it only needs to be transitive: what it
  returns comes first in the order that the comparison decides on valid moments.
\<close>

locale picking =
  fixes better :: "moment \<Rightarrow> moment \<Rightarrow> bool" and precedes :: "moment \<Rightarrow> moment \<Rightarrow> bool"
  assumes better: "valid__isValid m \<Longrightarrow> valid__isValid r \<Longrightarrow> better m r \<Longrightarrow> precedes m r"
    and not_better: "valid__isValid m \<Longrightarrow> valid__isValid r \<Longrightarrow> \<not> better m r \<Longrightarrow> precedes r m"
    and precedes_refl: "valid__isValid m \<Longrightarrow> precedes m m"
    and precedes_trans: "precedes a b \<Longrightarrow> precedes b c \<Longrightarrow> precedes a c"
begin

lemma pick_best:
  assumes "\<forall>m\<in>set (res # ms). valid__isValid m"
  shows "pick better ms res \<in> set (res # ms) \<and> (\<forall>m\<in>set (res # ms). precedes (pick better ms res) m)"
  using assms
proof (induction ms arbitrary: res)
  case Nil
  then show ?case by (simp add: precedes_refl)
next
  case (Cons m ms)
  let ?r = "if \<not> valid__isValid m \<or> better m res then m else res"
  have v: "valid__isValid m" "valid__isValid res" using Cons.prems by simp_all
  have "\<forall>m\<in>set (?r # ms). valid__isValid m" using Cons.prems by simp
  note IH = Cons.IH [OF this]
  have r: "precedes ?r m" "precedes ?r res"
    using better [OF v] not_better [OF v] precedes_refl v by simp_all
  have p: "precedes (pick better ms ?r) ?r" using IH by simp
  have "precedes (pick better ms ?r) m" "precedes (pick better ms ?r) res"
    by (rule precedes_trans [OF p r(1)], rule precedes_trans [OF p r(2)])
  then show ?case using IH by auto
qed

lemma pickBy_best:
  assumes "ms \<noteq> []" and "\<forall>m\<in>set ms. valid__isValid m"
  shows "\<exists>m. pickBy better ms = Some m \<and> m \<in> set ms \<and> (\<forall>x\<in>set ms. precedes m x)"
proof (cases ms)
  case Nil
  then show ?thesis using assms(1) by simp
next
  case (Cons r rs)
  then have "\<forall>m\<in>set (r # rs). valid__isValid m" using assms(2) by simp
  from pick_best [OF this] show ?thesis by (simp add: pickBy_def Cons)
qed

end

lemma valid_value: "valid__isValid m \<Longrightarrow> \<exists>v. valueOf m = Some v"
  by (auto simp: valid__isValid_def valueOf_def)

interpretation earliest: picking "\<lambda>m res. isBefore z res ''millisecond'' m" "\<lambda>a b. leq_opt (valueOf a) (valueOf b)" for z
  by unfold_locales (auto simp: isBefore_def leq_opt_def less_opt_def split: option.splits dest: valid_value)

interpretation latest: picking "\<lambda>m res. isAfter z res ''millisecond'' m" "\<lambda>a b. leq_opt (valueOf b) (valueOf a)" for z
  by unfold_locales (auto simp: isAfter_def leq_opt_def less_opt_def split: option.splits dest: valid_value)

text \<open>
  \<open>moment.min\<close> and \<open>moment.max\<close> of valid moments return one of them, and none of
  the others is earlier, or later.
\<close>

theorem min_max_extremal:
  assumes "ms \<noteq> []" and "\<forall>m\<in>set ms. valid__isValid m"
  shows "(\<exists>m. moment_min z ms = Some m \<and> m \<in> set ms \<and> (\<forall>x\<in>set ms. leq_opt (valueOf m) (valueOf x))) \<and>
    (\<exists>m. moment_max z ms = Some m \<and> m \<in> set ms \<and> (\<forall>x\<in>set ms. leq_opt (valueOf x) (valueOf m)))"
  using earliest.pickBy_best [OF assms] latest.pickBy_best [OF assms]
  unfolding moment_min_def moment_max_def by blast

lemma min_max_extremal_witness:
  "\<exists>m. moment_min (fixed_zone 0) [utc_moment 5, utc_moment 3] = Some m \<and> leq_opt (valueOf m) (Some 3)"
proof -
  have h: "[utc_moment 5, utc_moment 3] \<noteq> []" "\<forall>m\<in>set [utc_moment 5, utc_moment 3]. valid__isValid m"
    by (simp_all add: utc_moment_def valid__isValid_def)
  have "valueOf (utc_moment 3) = Some 3" by (simp add: utc_moment_def valueOf_def)
  then show ?thesis using min_max_extremal [OF h, of "fixed_zone 0"] by auto
qed

text \<open>
  With an invalid moment in the list the result depends on the order: a moment that is invalid
  only by its parsing flags still has a value, so a valid earlier one after it wins, although the
  loop means to return the invalid one.
\<close>

lemma min_forgets_invalid:
  "let bad = (utc_moment 5)\<lparr>m_flags_ok := False\<rparr>
   in moment_min (fixed_zone 0) [utc_moment 9, bad, utc_moment 3] = Some (utc_moment 3) \<and>
      moment_min (fixed_zone 0) [utc_moment 9, utc_moment 3, bad] = Some bad"
  by (simp add: Let_def moment_min_def pickBy_def isBefore_def utc_moment_def valid__isValid_def valueOf_def)

section \<open>Lists of names\<close>

lemma month_of_set:
  assumes "steady z m" and "moment_local z m = Some t" and "safe_year (date_field FullYear t)"
    and "99 < date_field FullYear t" and "date_field FullYear t < 275000" and "0 \<le> i" and "i \<le> 11"
  shows "month z (set_unit z ''month'' i m) = Some i"
proof -
  obtain y mo d h mi s ms where t: "t = civil_time y mo d h mi s ms"
    and v: "valid_civil y mo d" and vt: "valid_time h mi s ms" by (rule civil_cases)
  have y: "date_field FullYear t = y" using fields_of_civil(1) [OF v vt] by (simp only: t)
  have i: "i div 12 = 0" "i mod 12 = i" "(i + 1) div 12 \<le> 1" "0 \<le> (i + 1) div 12" using assms(6,7) by simp_all
  have "safe_year (y + (i + 1) div 12)" using assms(3,5) i(3,4) unfolding y by (simp add: safe_year_def)
  then have k: "daysInMonth y i = Some (month_length (leap y) i)"
    using daysInMonth_civil [of y i] assms(4) i(1,2) unfolding y by simp
  let ?d = "min d (month_length (leap y) i)"
  have e: "set_unit z ''month'' i m = put_local z m (civil_time y i ?d h mi s ms)"
    using setMonth_civil [OF assms(2) [unfolded t] v vt k] by (simp add: set_unit_def getSetMonth_def)
  have w: "valid_civil y i ?d"
    using v month_length_pos [OF assms(6,7), of "leap y"] assms(6,7) by (simp add: valid_civil_def)
  show ?thesis
    unfolding e using fields_of_civil(2) [OF w vt] put_local_wall [OF assms(1) civil_time_span [OF w vt assms(3) [unfolded y]]]
    by (simp only: month_def get_set__get_def option.map)
qed

lemma day_of_set:
  assumes "steady z m" and "moment_local z m = Some t" and "safe_year (date_field FullYear t)"
    and "0 \<le> i" and "i \<le> 6"
  shows "day z (set_unit z ''day'' i m) = Some i"
proof -
  obtain y mo d h mi s ms where t: "t = civil_time y mo d h mi s ms"
    and v: "valid_civil y mo d" and vt: "valid_time h mi s ms" by (rule civil_cases)
  have sy: "safe_year y" using fields_of_civil(1) [OF v vt] assms(3) by (simp only: t)
  have sp: "in_span t" unfolding t by (rule civil_time_span [OF v vt sy])
  let ?k = "i - WeekDay (Day t)"
  have k: "\<bar>?k\<bar> \<le> 6" using assms(4,5) WeekDay_range [of "Day t"] by linarith
  have e: "set_unit z ''day'' i m = put_local z m (t + ?k * msPerDay)"
    using add_days_wall [OF assms(1,2) sp, of "duration_of_number (m_locale m) ?k (Some ''d'')"]
    by (simp add: set_unit_def set_day_def add_days_option_def day_def assms(2) add_def number_amounts)
  have "in_span (t + ?k * msPerDay)"
    unfolding t by (rule safe_near [OF v vt sy]) (use k in \<open>simp add: t abs_mult msPerDay_def\<close>)
  then have w: "moment_local z (put_local z m (t + ?k * msPerDay)) = Some (t + ?k * msPerDay)"
    by (rule put_local_wall [OF assms(1)])
  have "Day (t + ?k * msPerDay) = Day t + ?k" by (simp add: Day_def msPerDay_def)
  moreover have "WeekDay (Day t + ?k) = i"
  proof -
    have "(Day t + ?k + 4) mod 7 = (i + (Day t + 4 - (Day t + 4) mod 7)) mod 7" by (simp add: WeekDay_def algebra_simps)
    also have "\<dots> = (i + (Day t + 4) div 7 * 7) mod 7" by (simp add: minus_mod_eq_div_mult)
    also have "\<dots> = i" using assms(4,5) by simp
    finally show ?thesis by (simp add: WeekDay_def)
  qed
  ultimately show ?thesis unfolding e by (simp add: day_def w)
qed

lemma names_list:
  assumes "length ns = n" and "\<And>i. i < n \<Longrightarrow> f i = Some (ns ! i)"
  shows "map f [0..<n] = map Some ns"
  using assms by (intro nth_equalityI) simp_all

text \<open>
  \<open>moment.months()\<close>, \<open>weekdays()\<close> and their short forms list the locale's names in
  order, whatever the current date is. In particular the last days of a long month, which the
  shorter months do not have, do not make a month appear twice.
\<close>

theorem lists_names:
  assumes "steady z now" and "moment_local z now = Some t" and "safe_year (date_field FullYear t)"
    and "99 < date_field FullYear t" and "date_field FullYear t < 275000"
    and "length (l_months l) = 12" and "length (l_monthsShort l) = 12"
    and "length (l_weekdays l) = 7" and "length (l_weekdaysShort l) = 7" and "length (l_weekdaysMin l) = 7"
  shows "listMonths z now l = map Some (l_months l) \<and> listMonthsShort z now l = map Some (l_monthsShort l) \<and>
    listWeekdays z now l = map Some (l_weekdays l) \<and> listWeekdaysShort z now l = map Some (l_weekdaysShort l) \<and>
    listWeekdaysMin z now l = map Some (l_weekdaysMin l)"
  unfolding listMonths_def listMonthsShort_def listWeekdays_def listWeekdaysShort_def listWeekdaysMin_def list_all_names_def
  using assms(6-) month_of_set [OF assms(1-5)] day_of_set [OF assms(1-3)]
  by (intro conjI names_list) (simp_all add: lists__get_def locale_names_def)

lemma lists_names_witness:
  "listMonths (fixed_zone 0) (utc_moment 0) en_locale = map Some defaultLocaleMonths"
proof -
  have y: "date_field FullYear 0 = 1970" by code_simp
  have h: "safe_year (date_field FullYear 0)" "99 < date_field FullYear 0" "date_field FullYear 0 < 275000"
    unfolding y by (simp_all add: safe_year_def)
  have n: "length (l_months en_locale) = 12" "length (l_monthsShort en_locale) = 12" "length (l_weekdays en_locale) = 7"
    "length (l_weekdaysShort en_locale) = 7" "length (l_weekdaysMin en_locale) = 7"
    by code_simp+
  show ?thesis
    using lists_names [OF utc_moment_wall(2,1) h n, of "fixed_zone 0"] by (simp add: en_locale_def new_Locale_def)
qed

text \<open>
  In a zone with transitions an hour that the clock shows twice is one hour for \<open>startOf\<close> and \<open>endOf\<close>, and the browser takes it
  for the first of the two: ten minutes into the second one, the end of the hour is already past.
\<close>

definition autumn_zone :: zone where
  "autumn_zone = \<lparr>off_utc = (\<lambda>t. if t < 0 then 3600000 else 0), off_local = (\<lambda>v. if v < 3600000 then 3600000 else 0)\<rparr>"

lemma repeated_hour_has_passed:
  "m_d (startOf autumn_zone ''hour'' (local_moment en_locale (Some 600000))) = Some (- 3600000)
    \<and> m_d (endOf autumn_zone ''hour'' (local_moment en_locale (Some 600000))) = Some (- 1)"
  by code_simp

end
