(* ===== verification/MomentFormat.thy ===== *)
theory MomentFormat imports Main Prelude JsValue Decimal JsDate MomentLocale MomentDuration MomentCore MomentCalendar MomentUnits MomentManip begin

text \<open>
  moment.js: formatting. The table of token functions is built by the calls of
  \<open>addFormatToken\<close> in the order of the script; a format is first expanded by the locale's long
  formats and then cut into tokens by the regular expression \<open>formattingTokens\<close>, whose
  alternatives are tried from left to right. The two regular expressions are matchers on strings here.
\<close>

section \<open>Token functions\<close>

text \<open>What a token function returns: a number, a text, \<open>undefined\<close> or \<open>NaN\<close>.\<close>

datatype shown = Num int | Txt string | Undefined | NaN

fun show_value :: "shown \<Rightarrow> string" where
  "show_value (Num n) = show_int n"
| "show_value (Txt s) = s"
| "show_value Undefined = ''undefined''"
| "show_value NaN = ''NaN''"

fun zeroFill_value :: "nat \<Rightarrow> bool \<Rightarrow> shown \<Rightarrow> shown" where
  "zeroFill_value n forceSign (Num k) = Txt (zeroFill k n forceSign)"
| "zeroFill_value n forceSign v = Txt (''-'' @ replicate (n - 3) (CHR ''0'') @ ''NaN'')"

fun ordinal_value :: "mlocale \<Rightarrow> shown \<Rightarrow> shown" where
  "ordinal_value l (Num k) = Txt (l_ordinal l k)"
| "ordinal_value l v = Txt (show_value v)"

type_synonym callback = "zone \<Rightarrow> moment \<Rightarrow> shown"
type_synonym token_table = "string \<Rightarrow> callback option"

definition addFormatToken ::
  "string option \<Rightarrow> (string \<times> nat \<times> bool) option \<Rightarrow> string option \<Rightarrow> callback \<Rightarrow> token_table \<Rightarrow> token_table" where
  "addFormatToken token padded ordinal_token func T =
     (let T1 = (case token of None \<Rightarrow> T | Some k \<Rightarrow> T(k \<mapsto> func));
          T2 = (case padded of None \<Rightarrow> T1
                | Some (k, n, forceSign) \<Rightarrow> T1(k \<mapsto> (\<lambda>z m. zeroFill_value n forceSign (func z m))))
      in case ordinal_token of None \<Rightarrow> T2
         | Some k \<Rightarrow> T2(k \<mapsto> (\<lambda>z m. ordinal_value (m_locale m) (func z m))))"

definition num :: "(zone \<Rightarrow> moment \<Rightarrow> int option) \<Rightarrow> callback" where
  "num f z m = (case f z m of None \<Rightarrow> NaN | Some n \<Rightarrow> Num n)"

definition num_map :: "(int \<Rightarrow> int) \<Rightarrow> (zone \<Rightarrow> moment \<Rightarrow> int option) \<Rightarrow> callback" where
  "num_map g f z m = (case f z m of None \<Rightarrow> NaN | Some n \<Rightarrow> Num (g n))"

definition name_of :: "string \<Rightarrow> callback" where
  "name_of field z m = (case locale_names field z m (m_locale m) of None \<Rightarrow> Undefined | Some s \<Rightarrow> Txt s)"

definition pad :: "string \<Rightarrow> nat \<Rightarrow> (string \<times> nat \<times> bool) option" where
  "pad k n = Some (k, n, False)"

definition month_tokens :: "token_table \<Rightarrow> token_table" where
  "month_tokens T =
     (let T1 = addFormatToken (Some ''M'') (pad ''MM'' 2) (Some ''Mo'') (num_map (\<lambda>n. n + 1) month) T;
          T2 = addFormatToken (Some ''MMM'') None None (name_of ''monthsShort'') T1
      in addFormatToken (Some ''MMMM'') None None (name_of ''months'') T2)"

definition year_tokens :: "token_table \<Rightarrow> token_table" where
  "year_tokens T =
     (let T1 = addFormatToken None (pad ''YY'' 2) None (num_map (\<lambda>n. n smod 100) year) T;
          T2 = addFormatToken None (pad ''YYYY'' 4) None (num year) T1;
          T3 = addFormatToken None (pad ''YYYYY'' 5) None (num year) T2
      in addFormatToken None (Some (''YYYYYY'', 6, True)) None (num year) T3)"

definition week_tokens :: "token_table \<Rightarrow> token_table" where
  "week_tokens T =
     addFormatToken (Some ''W'') (pad ''WW'' 2) (Some ''Wo'') (num isoWeek)
       (addFormatToken (Some ''w'') (pad ''ww'' 2) (Some ''wo'') (num week) T)"

definition day_of_year_tokens :: "token_table \<Rightarrow> token_table" where
  "day_of_year_tokens T = addFormatToken (Some ''DDD'') (pad ''DDDD'' 3) (Some ''DDDo'') (num dayOfYear) T"

text \<open>\<open>~~\<close> truncates; the minutes are those of the offset's absolute value.\<close>

definition offset_text :: "string \<Rightarrow> int \<Rightarrow> string" where
  "offset_text separator offset =
     (let sign = (if offset < 0 then ''-'' else ''+''); n = \<bar>offset\<bar>
      in sign @ zeroFill (n div 60) 2 False @ separator @ zeroFill (n mod 60) 2 False)"

definition offset_token :: "string \<Rightarrow> string \<Rightarrow> token_table \<Rightarrow> token_table" where
  "offset_token token separator T =
     addFormatToken (Some token) None None
       (\<lambda>z m. case utcOffset z m of None \<Rightarrow> NaN | Some n \<Rightarrow> Txt (offset_text separator n)) T"

definition offset_tokens :: "token_table \<Rightarrow> token_table" where
  "offset_tokens T = offset_token ''ZZ'' [] (offset_token ''Z'' '':'' T)"

definition addWeekYearFormatToken :: "string \<Rightarrow> (zone \<Rightarrow> moment \<Rightarrow> int option) \<Rightarrow> token_table \<Rightarrow> token_table" where
  "addWeekYearFormatToken token getter T = addFormatToken None (pad token (length token)) None (num getter) T"

definition week_year_tokens :: "token_table \<Rightarrow> token_table" where
  "week_year_tokens T =
     (let T1 = addFormatToken None (pad ''gg'' 2) None (num_map (\<lambda>n. n smod 100) weekYear) T;
          T2 = addFormatToken None (pad ''GG'' 2) None (num_map (\<lambda>n. n smod 100) isoWeekYear) T1;
          T3 = addWeekYearFormatToken ''gggg'' weekYear T2;
          T4 = addWeekYearFormatToken ''ggggg'' weekYear T3;
          T5 = addWeekYearFormatToken ''GGGG'' isoWeekYear T4
      in addWeekYearFormatToken ''GGGGG'' isoWeekYear T5)"

definition quarter_tokens :: "token_table \<Rightarrow> token_table" where
  "quarter_tokens T = addFormatToken (Some ''Q'') None None (num quarter) T"

definition date_tokens :: "token_table \<Rightarrow> token_table" where
  "date_tokens T = addFormatToken (Some ''D'') (pad ''DD'' 2) (Some ''Do'') (num (\<lambda>z. get_set__get z Date)) T"

definition weekday_tokens :: "token_table \<Rightarrow> token_table" where
  "weekday_tokens T =
     (let T1 = addFormatToken (Some ''d'') None (Some ''do'') (num day) T;
          T2 = addFormatToken (Some ''dd'') None None (name_of ''weekdaysMin'') T1;
          T3 = addFormatToken (Some ''ddd'') None None (name_of ''weekdaysShort'') T2;
          T4 = addFormatToken (Some ''dddd'') None None (name_of ''weekdays'') T3;
          T5 = addFormatToken (Some ''e'') None None (num weekday) T4
      in addFormatToken (Some ''E'') None None (num isoWeekday) T5)"

definition meridiem :: "string \<Rightarrow> bool \<Rightarrow> token_table \<Rightarrow> token_table" where
  "meridiem token lowercase T =
     addFormatToken (Some token) None None
       (\<lambda>z m. case (get_set__get z Hours m, get_set__get z Minutes m) of
                (Some h, Some mi) \<Rightarrow> Txt (l_meridiem (m_locale m) h mi lowercase) | _ \<Rightarrow> Undefined) T"

definition hour_tokens :: "token_table \<Rightarrow> token_table" where
  "hour_tokens T =
     (let T1 = addFormatToken (Some ''H'') (pad ''HH'' 2) None (num (\<lambda>z. get_set__get z Hours)) T;
          T2 = addFormatToken (Some ''h'') (pad ''hh'' 2) None
                 (num_map (\<lambda>n. if n smod 12 = 0 then 12 else n smod 12) (\<lambda>z. get_set__get z Hours)) T1
      in meridiem ''A'' False (meridiem ''a'' True T2))"

definition minute_tokens :: "token_table \<Rightarrow> token_table" where
  "minute_tokens T = addFormatToken (Some ''m'') (pad ''mm'' 2) None (num (\<lambda>z. get_set__get z Minutes)) T"

definition second_tokens :: "token_table \<Rightarrow> token_table" where
  "second_tokens T = addFormatToken (Some ''s'') (pad ''ss'' 2) None (num (\<lambda>z. get_set__get z Seconds)) T"

definition millisecond_tokens :: "token_table \<Rightarrow> token_table" where
  "millisecond_tokens T =
     (let ms = (\<lambda>z. get_set__get z Milliseconds);
          T1 = addFormatToken (Some ''S'') None None (num_map (\<lambda>n. n sdiv 100) ms) T;
          T2 = addFormatToken None (pad ''SS'' 2) None (num_map (\<lambda>n. n sdiv 10) ms) T1;
          T3 = addFormatToken None (pad ''SSS'' 3) None (num ms) T2;
          T4 = addFormatToken None (pad ''SSSS'' 4) None (num_map (\<lambda>n. n * 10) ms) T3;
          T5 = addFormatToken None (pad ''SSSSS'' 5) None (num_map (\<lambda>n. n * 100) ms) T4;
          T6 = addFormatToken None (pad ''SSSSSS'' 6) None (num_map (\<lambda>n. n * 1000) ms) T5;
          T7 = addFormatToken None (pad ''SSSSSSS'' 7) None (num_map (\<lambda>n. n * 10000) ms) T6;
          T8 = addFormatToken None (pad ''SSSSSSSS'' 8) None (num_map (\<lambda>n. n * 100000) ms) T7
      in addFormatToken None (pad ''SSSSSSSSS'' 9) None (num_map (\<lambda>n. n * 1000000) ms) T8)"

definition zone_tokens :: "token_table \<Rightarrow> token_table" where
  "zone_tokens T =
     addFormatToken (Some ''zz'') None None (\<lambda>z m. Txt (getZoneName m))
       (addFormatToken (Some ''z'') None None (\<lambda>z m. Txt (getZoneAbbr m)) T)"

definition timestamp_tokens :: "token_table \<Rightarrow> token_table" where
  "timestamp_tokens T =
     addFormatToken (Some ''x'') None None (num (\<lambda>z. valueOf))
       (addFormatToken (Some ''X'') None None (num (\<lambda>z. unix)) T)"

definition formatTokenFunctions :: token_table where
  "formatTokenFunctions =
     timestamp_tokens (zone_tokens (millisecond_tokens (second_tokens (minute_tokens (hour_tokens
       (weekday_tokens (date_tokens (quarter_tokens (week_year_tokens (offset_tokens (day_of_year_tokens
         (week_tokens (year_tokens (month_tokens Map.empty))))))))))))))"

section \<open>Cutting a format into tokens\<close>

definition is_prefix :: "string \<Rightarrow> string \<Rightarrow> bool" where
  "is_prefix p s \<longleftrightarrow> take (length p) s = p"

text \<open>
  The alternatives of \<open>formattingTokens\<close> after the optional backslash, in the order in which
  the matcher tries them (a greedy optional character first with it, then without).
\<close>

definition token_literals :: "string list" where
  "token_literals =
     [''Mo'', ''MMMM'', ''MMM'', ''MM'', ''M'', ''Do'', ''DDDo'', ''DDDD'', ''DDD'', ''DD'', ''D'',
      ''dddd'', ''ddd'', ''dd'', ''do'', ''d'', ''wo'', ''w|'', ''ww'', ''w'', ''Wo'', ''W|'', ''WW'', ''W'', ''Q'',
      ''YYYYYY'', ''YYYYY'', ''YYYY'', ''YY'', ''ggggg'', ''gggg'', ''gg'', ''GGGGG'', ''GGGG'', ''GG'',
      ''e'', ''E'', ''a'', ''A'', ''hh'', ''h'', ''HH'', ''H'', ''mm'', ''m'', ''ss'', ''s'',
      ''SSSSSSSSS'', ''SSSSSSSS'', ''SSSSSSS'', ''SSSSSS'', ''SSSSS'', ''SSSS'', ''SSS'', ''SS'', ''S'',
      ''x'', ''X'', ''zz'', ''z'', ''ZZ'', ''Z'']"

definition line_end :: "char \<Rightarrow> bool" where
  "line_end c \<longleftrightarrow> c = CHR 0x0A \<or> c = CHR 0x0D"

text \<open>The group without its backslash: a literal, or any character but a line end.\<close>

definition plain_token :: "string \<Rightarrow> string option" where
  "plain_token s =
     (case find (\<lambda>p. is_prefix p s) token_literals of
        Some p \<Rightarrow> Some p
      | None \<Rightarrow> (case s of [] \<Rightarrow> None | c # cs \<Rightarrow> if line_end c then None else Some [c]))"

text \<open>\<open>\[[^\[]*\]\<close>: from the bracket to the last closing one before the next opening one.\<close>

fun upto_last :: "char \<Rightarrow> string \<Rightarrow> string option" where
  "upto_last c [] = None"
| "upto_last c (x # xs) =
     (case upto_last c xs of Some ys \<Rightarrow> Some (x # ys) | None \<Rightarrow> if x = c then Some [x] else None)"

definition bracket_token :: "string \<Rightarrow> string option" where
  "bracket_token s =
     (case s of [] \<Rightarrow> None
      | c # cs \<Rightarrow> if c = CHR ''['' then map_option (Cons c) (upto_last (CHR '']'') (takeWhile (\<lambda>x. x \<noteq> CHR ''['') cs))
                 else None)"

definition next_token :: "string \<Rightarrow> string option" where
  "next_token s =
     (case bracket_token s of
        Some t \<Rightarrow> Some t
      | None \<Rightarrow>
          (case s of
             [] \<Rightarrow> None
           | c # cs \<Rightarrow>
               (if c = CHR 0x5C then
                  (case plain_token cs of Some t \<Rightarrow> Some (c # t) | None \<Rightarrow> plain_token s)
                else plain_token s)))"

function tokenize :: "string \<Rightarrow> string list" where
  "tokenize [] = []"
| "tokenize (c # cs) =
     (case next_token (c # cs) of
        None \<Rightarrow> tokenize cs
      | Some t \<Rightarrow> t # tokenize (drop (length t - 1) cs))"
  by pat_completeness auto

termination tokenize
  by (relation "measure length") auto

text \<open>\<open>removeFormattingTokens\<close>: brackets that enclose something, or every backslash.\<close>

fun bracket_inside :: "string \<Rightarrow> bool" where
  "bracket_inside (c # d # cs) = (c = CHR ''['' \<or> bracket_inside (d # cs))"
| "bracket_inside s = False"

definition strip_brackets :: "string \<Rightarrow> string" where
  "strip_brackets s =
     (let s1 = (case s of c # cs \<Rightarrow> if c = CHR ''['' then cs else s | [] \<Rightarrow> [])
      in if s1 \<noteq> [] \<and> last s1 = CHR '']'' then butlast s1 else s1)"

definition removeFormattingTokens :: "string \<Rightarrow> string" where
  "removeFormattingTokens input =
     (if bracket_inside input then strip_brackets input else filter (\<lambda>c. c \<noteq> CHR 0x5C) input)"

definition token_output :: "zone \<Rightarrow> moment \<Rightarrow> string \<Rightarrow> string" where
  "token_output z m t =
     (case formatTokenFunctions t of Some f \<Rightarrow> show_value (f z m) | None \<Rightarrow> removeFormattingTokens t)"

text \<open>A format without any token makes \<open>match\<close> return \<open>null\<close>: the \<open>TypeError\<close> is \<open>None\<close>.\<close>

definition makeFormatFunction :: "string \<Rightarrow> (zone \<Rightarrow> moment \<Rightarrow> string) option" where
  "makeFormatFunction fmt =
     (case tokenize fmt of [] \<Rightarrow> None | ts \<Rightarrow> Some (\<lambda>z m. concat (map (token_output z m) ts)))"

section \<open>Long formats\<close>

definition slice_pattern :: "string \<Rightarrow> nat" where
  "slice_pattern s =
     (if is_prefix ''MMMM'' s then 4 else if is_prefix ''MM'' s then 2 else if is_prefix ''DD'' s then 2
      else if is_prefix ''dddd'' s then 4 else 0)"

text \<open>Each \<open>MMMM\<close>, \<open>MM\<close>, \<open>DD\<close> or \<open>dddd\<close> of an upper-case format loses its first letter.\<close>

function slice_names :: "string \<Rightarrow> string" where
  "slice_names [] = []"
| "slice_names (c # cs) =
     (let n = slice_pattern (c # cs) in
      if n = 0 then c # slice_names cs else take (n - 1) cs @ slice_names (drop (n - 1) cs))"
  by pat_completeness auto

termination slice_names
  by (relation "measure length") (auto simp: Let_def)

text \<open>
  \<open>longDateFormat\<close> with the table it leaves behind: a lower-case name is derived from the
  upper-case one and stored.
\<close>

definition longDateFormat :: "(string \<Rightarrow> string option) \<Rightarrow> string \<Rightarrow> string option \<times> (string \<Rightarrow> string option)" where
  "longDateFormat T key =
     (let fmt = T key; formatUpper = T (toUpperCase key) in
      if fmt \<noteq> None \<and> fmt \<noteq> Some [] \<or> formatUpper = None \<or> formatUpper = Some [] then (fmt, T)
      else let v = slice_names (the formatUpper) in (Some v, T(key \<mapsto> v)))"

definition long_format :: "mlocale \<Rightarrow> string \<Rightarrow> string" where
  "long_format l input =
     (case fst (longDateFormat (l_longDateFormat l) input) of
        None \<Rightarrow> input | Some f \<Rightarrow> if f = [] then input else f)"

definition local_literals :: "string list" where
  "local_literals = [''LTS'', ''LT'', ''LLLL'', ''LLL'', ''LL'', ''L'', ''llll'', ''lll'', ''ll'', ''l'']"

definition next_local :: "string \<Rightarrow> string option" where
  "next_local s =
     (case bracket_token s of
        Some t \<Rightarrow> Some t
      | None \<Rightarrow>
          (case s of
             [] \<Rightarrow> None
           | c # cs \<Rightarrow>
               (if c = CHR 0x5C then map_option (Cons c) (find (\<lambda>p. is_prefix p cs) local_literals)
                else find (\<lambda>p. is_prefix p s) local_literals)))"

function replace_local :: "mlocale \<Rightarrow> string \<Rightarrow> string" where
  "replace_local l [] = []"
| "replace_local l (c # cs) =
     (case next_local (c # cs) of
        None \<Rightarrow> c # replace_local l cs
      | Some t \<Rightarrow> long_format l t @ replace_local l (drop (length t - 1) cs))"
  by pat_completeness auto

termination replace_local
  by (relation "measure (\<lambda>(l, s). length s)") auto

fun has_local :: "string \<Rightarrow> bool" where
  "has_local [] = False"
| "has_local (c # cs) = (next_local (c # cs) \<noteq> None \<or> has_local cs)"

text \<open>The loop's own counter bounds it: at most six rounds.\<close>

fun expand_rounds :: "nat \<Rightarrow> mlocale \<Rightarrow> string \<Rightarrow> string" where
  "expand_rounds 0 l fmt = fmt"
| "expand_rounds (Suc i) l fmt = (if has_local fmt then expand_rounds i l (replace_local l fmt) else fmt)"

definition expandFormat :: "string \<Rightarrow> mlocale \<Rightarrow> string" where
  "expandFormat fmt l = expand_rounds 6 l fmt"

section \<open>Formatting a moment\<close>

definition formatMoment :: "zone \<Rightarrow> moment \<Rightarrow> string \<Rightarrow> string option" where
  "formatMoment z m fmt =
     (if \<not> valid__isValid m then Some (l_invalidDate (m_locale m))
      else map_option (\<lambda>f. f z m) (makeFormatFunction (expandFormat fmt (m_locale m))))"

definition defaultFormat :: string where
  "defaultFormat = ''YYYY-MM-DDTHH:mm:ssZ''"

definition moment_format :: "zone \<Rightarrow> string \<Rightarrow> moment \<Rightarrow> string option" where
  "moment_format z inputString m = formatMoment z m (if inputString = [] then defaultFormat else inputString)"

definition moment_toString :: "zone \<Rightarrow> moment \<Rightarrow> string option" where
  "moment_toString z m = moment_format z ''ddd MMM DD YYYY HH:mm:ss [GMT]ZZ'' (m\<lparr>m_locale := en_locale\<rparr>)"

text \<open>\<open>Date.prototype.toISOString\<close> for the years 1 to 9999, for which alone the code calls it.\<close>

definition native_toISOString :: "int \<Rightarrow> string" where
  "native_toISOString t =
     zeroFill (date_field FullYear t) 4 False @ ''-'' @ zeroFill (date_field Month t + 1) 2 False @ ''-''
     @ zeroFill (date_field Date t) 2 False @ ''T'' @ zeroFill (date_field Hours t) 2 False @ '':''
     @ zeroFill (date_field Minutes t) 2 False @ '':'' @ zeroFill (date_field Seconds t) 2 False @ ''.''
     @ zeroFill (date_field Milliseconds t) 3 False @ ''Z''"

definition moment_toISOString :: "zone \<Rightarrow> moment \<Rightarrow> string option" where
  "moment_toISOString z m =
     (let u = setOffsetToUTC z False m in
      case year z u of
        Some y \<Rightarrow>
          if 0 < y \<and> y \<le> 9999 then map_option native_toISOString (toDate m)
          else formatMoment z u ''YYYYYY-MM-DD[T]HH:mm:ss.SSS[Z]''
      | None \<Rightarrow> formatMoment z u ''YYYYYY-MM-DD[T]HH:mm:ss.SSS[Z]'')"

section \<open>Relative and calendar time\<close>

text \<open>\<open>createDuration({to, from}).locale(this.locale()).humanize(!withoutSuffix)\<close>.\<close>

definition with_locale :: "registry \<Rightarrow> string \<Rightarrow> duration \<Rightarrow> duration" where
  "with_locale r key d = (case getLocale r (Some key) of None \<Rightarrow> d | Some l \<Rightarrow> d\<lparr>du_locale := l\<rparr>)"

definition time_from :: "zone \<Rightarrow> registry \<Rightarrow> thresholds \<Rightarrow> moment \<Rightarrow> bool \<Rightarrow> moment \<Rightarrow> string option" where
  "time_from z r t time withoutSuffix m =
     (if \<not> valid__isValid m then Some (l_invalidDate (m_locale m))
      else map_option (\<lambda>d. humanize t (\<not> withoutSuffix) (with_locale r (l_abbr (m_locale m)) d))
        (duration_between z (reg_global r) time m))"

definition time_to :: "zone \<Rightarrow> registry \<Rightarrow> thresholds \<Rightarrow> moment \<Rightarrow> bool \<Rightarrow> moment \<Rightarrow> string option" where
  "time_to z r t time withoutSuffix m =
     (if \<not> valid__isValid m then Some (l_invalidDate (m_locale m))
      else map_option (\<lambda>d. humanize t (\<not> withoutSuffix) (with_locale r (l_abbr (m_locale m)) d))
        (duration_between z (reg_global r) m time))"

definition moment_locale :: "registry \<Rightarrow> string \<Rightarrow> moment \<Rightarrow> moment" where
  "moment_locale r key m = (case getLocale r (Some key) of None \<Rightarrow> m | Some l \<Rightarrow> m\<lparr>m_locale := l\<rparr>)"

definition locale_calendar :: "mlocale \<Rightarrow> string \<Rightarrow> string option" where
  "locale_calendar l key = l_calendar l key"

definition moment_calendar :: "zone \<Rightarrow> moment \<Rightarrow> (string \<Rightarrow> string option) option \<Rightarrow> moment \<Rightarrow> string option" where
  "moment_calendar z now formats m =
     (let key = calendar_key z now m;
          own = (case formats of None \<Rightarrow> None | Some f \<Rightarrow> f key)
      in moment_format z
           (case own of
              Some f \<Rightarrow> if f \<noteq> [] then f else (case locale_calendar (m_locale m) key of None \<Rightarrow> [] | Some g \<Rightarrow> g)
            | None \<Rightarrow> (case locale_calendar (m_locale m) key of None \<Rightarrow> [] | Some g \<Rightarrow> g)) m)"

section \<open>Tokens are pieces of the format\<close>

lemma prefix_append: "is_prefix p s \<Longrightarrow> \<exists>r. s = p @ r"
  unfolding is_prefix_def by (metis append_take_drop_id)

lemma find_prefix: "find (\<lambda>p. is_prefix p s) ps = Some t \<Longrightarrow> t \<in> set ps \<and> (\<exists>r. s = t @ r)"
  using prefix_append by (induction ps) (auto split: if_splits)

lemma token_literals_nonempty: "t \<in> set token_literals \<Longrightarrow> t \<noteq> []"
  by (auto simp: token_literals_def)

lemma plain_token_piece: "plain_token s = Some t \<Longrightarrow> t \<noteq> [] \<and> (\<exists>r. s = t @ r)"
proof -
  assume a: "plain_token s = Some t"
  show ?thesis
  proof (cases "find (\<lambda>p. is_prefix p s) token_literals")
    case None
    then show ?thesis using a by (auto simp: plain_token_def split: list.splits if_splits)
  next
    case (Some p)
    then have "t = p" using a by (simp add: plain_token_def)
    then show ?thesis using find_prefix [OF Some] token_literals_nonempty by blast
  qed
qed

lemma upto_last_piece: "upto_last c xs = Some ys \<Longrightarrow> ys \<noteq> [] \<and> last ys = c \<and> (\<exists>r. xs = ys @ r)"
  by (induction xs arbitrary: ys) (auto split: option.splits if_splits)

lemma bracket_token_piece: "bracket_token s = Some t \<Longrightarrow> t \<noteq> [] \<and> (\<exists>r. s = t @ r)"
proof -
  assume a: "bracket_token s = Some t"
  then obtain cs where s: "s = CHR ''['' # cs" by (cases s) (auto simp: bracket_token_def split: if_splits)
  then obtain ys where y: "upto_last (CHR '']'') (takeWhile (\<lambda>x. x \<noteq> CHR ''['') cs) = Some ys" "t = CHR ''['' # ys"
    using a by (auto simp: bracket_token_def)
  obtain r where "takeWhile (\<lambda>x. x \<noteq> CHR ''['') cs = ys @ r" using upto_last_piece [OF y(1)] by blast
  then have "cs = ys @ r @ dropWhile (\<lambda>x. x \<noteq> CHR ''['') cs"
    by (metis append.assoc takeWhile_dropWhile_id)
  then show ?thesis using s y(2) by auto
qed

lemma next_token_piece: "next_token s = Some t \<Longrightarrow> t \<noteq> [] \<and> (\<exists>r. s = t @ r)"
proof (cases "bracket_token s")
  case (Some b)
  assume "next_token s = Some t"
  then show ?thesis using Some bracket_token_piece by (auto simp: next_token_def)
next
  case None
  assume a: "next_token s = Some t"
  obtain c cs where s: "s = c # cs" using a None by (cases s) (auto simp: next_token_def)
  show ?thesis
  proof (cases "c = CHR 0x5C \<and> plain_token cs \<noteq> None")
    case True
    then obtain u where u: "plain_token cs = Some u" by blast
    then have "t = c # u" using a None s True by (simp add: next_token_def)
    then show ?thesis using plain_token_piece [OF u] s by auto
  next
    case False
    then have "plain_token s = Some t"
      using a None s by (auto simp: next_token_def split: if_splits option.splits)
    then show ?thesis by (rule plain_token_piece)
  qed
qed

lemma tokenize_piece: "next_token s = Some t \<Longrightarrow> s = t @ r \<Longrightarrow> tokenize s = t # tokenize r"
proof (cases s)
  case Nil
  assume "next_token s = Some t"
  then show ?thesis using Nil by (simp add: next_token_def bracket_token_def)
next
  case (Cons c cs)
  assume a: "next_token s = Some t" "s = t @ r"
  obtain u where t: "t = c # u" using next_token_piece [OF a(1)] a(2) Cons by (cases t) auto
  have "drop (length t - 1) cs = r" using a(2) Cons t by simp
  then show ?thesis using a(1) Cons by simp
qed

lemma next_token_some: "\<not> line_end c \<Longrightarrow> next_token (c # cs) \<noteq> None"
  by (auto simp: next_token_def plain_token_def split: option.splits)

text \<open>The tokens of a format without line ends are the whole format.\<close>

lemma concat_tokenize: "\<forall>c\<in>set s. \<not> line_end c \<Longrightarrow> concat (tokenize s) = s"
proof (induction s rule: length_induct)
  case (1 s)
  show ?case
  proof (cases s)
    case Nil
    then show ?thesis by simp
  next
    case (Cons c cs)
    then obtain t where t: "next_token s = Some t" using next_token_some "1.prems" by fastforce
    obtain r where r: "s = t @ r" "t \<noteq> []" using next_token_piece [OF t] by blast
    have "concat (tokenize r) = r" using "1.IH" "1.prems" r by auto
    then show ?thesis using tokenize_piece [OF t r(1)] r(1) by simp
  qed
qed

section \<open>Escaped text\<close>

lemma upto_last_only: "c \<notin> set xs \<Longrightarrow> upto_last c (xs @ [c]) = Some (xs @ [c])"
  by (induction xs) auto

definition unbracketed :: "string \<Rightarrow> bool" where
  "unbracketed s \<longleftrightarrow> CHR ''['' \<notin> set s \<and> CHR '']'' \<notin> set s"

lemma bracket_token_escaped: "unbracketed s \<Longrightarrow> bracket_token (''['' @ s @ '']'') = Some (''['' @ s @ '']'')"
proof -
  assume a: "unbracketed s"
  have "takeWhile (\<lambda>x. x \<noteq> CHR ''['') (s @ '']'') = s @ '']''"
    using a by (auto simp: unbracketed_def takeWhile_eq_all_conv)
  then show ?thesis using upto_last_only [of "CHR '']''" s] a by (simp add: bracket_token_def unbracketed_def)
qed

text \<open>Every key of the token table starts with a letter.\<close>

definition letter_key :: "string \<Rightarrow> bool" where
  "letter_key k \<longleftrightarrow> k \<noteq> [] \<and> hd k \<in> set ''MYwWDZgGQdeEhHaAmsSzxX''"

definition lettered :: "token_table \<Rightarrow> bool" where
  "lettered T \<longleftrightarrow> (\<forall>k. T k \<noteq> None \<longrightarrow> letter_key k)"

lemma lettered_upd: "lettered T \<Longrightarrow> letter_key k \<Longrightarrow> lettered (T(k \<mapsto> f))"
  by (simp add: lettered_def)

lemma lettered_add:
  assumes "lettered T" and "pred_option letter_key token" and "pred_option (\<lambda>(k, n, b). letter_key k) padded"
    and "pred_option letter_key ord"
  shows "lettered (addFormatToken token padded ord f T)"
proof -
  have 1: "lettered (case token of None \<Rightarrow> T | Some k \<Rightarrow> T(k \<mapsto> f))"
    using assms(1,2) lettered_upd by (cases token) simp_all
  have 2: "lettered T' \<Longrightarrow> lettered (case padded of None \<Rightarrow> T'
      | Some (k, n, forceSign) \<Rightarrow> T'(k \<mapsto> (\<lambda>z m. zeroFill_value n forceSign (f z m))))" for T'
    using assms(3) lettered_upd by (cases padded) auto
  have 3: "lettered T' \<Longrightarrow> lettered (case ord of None \<Rightarrow> T'
      | Some k \<Rightarrow> T'(k \<mapsto> (\<lambda>z m. ordinal_value (m_locale m) (f z m))))" for T'
    using assms(4) lettered_upd by (cases ord) simp_all
  show ?thesis unfolding addFormatToken_def Let_def by (rule 3 [OF 2 [OF 1]])
qed

lemma lettered_table: "lettered formatTokenFunctions"
proof -
  have e: "lettered Map.empty" by (simp add: lettered_def)
  show ?thesis
    unfolding formatTokenFunctions_def timestamp_tokens_def zone_tokens_def millisecond_tokens_def second_tokens_def
      minute_tokens_def hour_tokens_def meridiem_def weekday_tokens_def date_tokens_def quarter_tokens_def
      week_year_tokens_def addWeekYearFormatToken_def offset_tokens_def offset_token_def day_of_year_tokens_def
      week_tokens_def year_tokens_def month_tokens_def pad_def Let_def
    by (rule lettered_add e | simp add: letter_key_def)+
qed

lemma no_bracket_key [simp]: "formatTokenFunctions (CHR ''['' # s) = None"
  using lettered_table by (simp add: lettered_def letter_key_def) fastforce

lemma toUpperCase_bracket [simp]: "toUpperCase (CHR ''['' # s) = CHR ''['' # toUpperCase s"
  by (simp add: toUpperCase_def to_upper_char_def)

lemma expand_escaped:
  assumes "unbracketed s" and "\<And>k. l_longDateFormat l (CHR ''['' # k) = None"
  shows "expand_rounds n l (''['' @ s @ '']'') = ''['' @ s @ '']''"
proof (induction n)
  case 0
  then show ?case by simp
next
  case (Suc n)
  have "next_local (''['' @ s @ '']'') = Some (''['' @ s @ '']'')"
    unfolding next_local_def bracket_token_escaped [OF assms(1)] by simp
  then have "replace_local l (''['' @ s @ '']'') = ''['' @ s @ '']''"
    using assms(2) by (simp add: long_format_def longDateFormat_def Let_def)
  then show ?case using Suc.IH by simp
qed

text \<open>
  A text in square brackets is printed as it is, without the brackets, whatever
  letters of the format language it contains: neither the long formats nor the tokens touch it.
\<close>

theorem format_escapes:
  assumes "valid__isValid m" and "unbracketed s" and "\<And>k. l_longDateFormat (m_locale m) (CHR ''['' # k) = None"
  shows "moment_format z (''['' @ s @ '']'') m = Some s"
proof -
  let ?b = "''['' @ s @ '']''"
  have e: "expandFormat ?b (m_locale m) = ?b" unfolding expandFormat_def by (rule expand_escaped [OF assms(2,3)])
  have "next_token ?b = Some ?b" unfolding next_token_def bracket_token_escaped [OF assms(2)] by simp
  then have t: "tokenize ?b = [?b]" using tokenize_piece [of ?b ?b "[]"] by simp
  have "bracket_inside ?b" by (cases s) simp_all
  then have "removeFormattingTokens ?b = s" by (simp add: removeFormattingTokens_def strip_brackets_def)
  then have "token_output z m ?b = s" by (simp add: token_output_def)
  then show ?thesis
    unfolding moment_format_def formatMoment_def using assms(1) e t by (simp add: makeFormatFunction_def)
qed

lemma format_escapes_witness: "moment_format (fixed_zone 0) ''[Today at LT]'' (utc_moment 0) = Some ''Today at LT''"
proof -
  have h: "valid__isValid (utc_moment 0)" "unbracketed ''Today at LT''"
    by (simp_all add: utc_moment_def valid__isValid_def unbracketed_def)
  have k: "l_longDateFormat (m_locale (utc_moment 0)) (CHR ''['' # k) = None" for k
    by (simp add: utc_moment_def en_locale_def new_Locale_def defaultLongDateFormat_def)
  show ?thesis using format_escapes [OF h k, of "fixed_zone 0"] by simp
qed

section \<open>Numeric formats\<close>

lemmas token_groups =
  formatTokenFunctions_def timestamp_tokens_def zone_tokens_def millisecond_tokens_def second_tokens_def
  minute_tokens_def hour_tokens_def meridiem_def weekday_tokens_def date_tokens_def quarter_tokens_def
  week_year_tokens_def addWeekYearFormatToken_def offset_tokens_def offset_token_def day_of_year_tokens_def
  week_tokens_def year_tokens_def month_tokens_def pad_def Let_def addFormatToken_def option.case prod.case

lemma token_functions:
  "formatTokenFunctions ''YYYY'' = Some (\<lambda>z m. zeroFill_value 4 False (num year z m))"
  "formatTokenFunctions ''MM'' = Some (\<lambda>z m. zeroFill_value 2 False (num_map (\<lambda>n. n + 1) month z m))"
  "formatTokenFunctions ''DD'' = Some (\<lambda>z m. zeroFill_value 2 False (num (\<lambda>z. get_set__get z Date) z m))"
  "formatTokenFunctions ''D'' = Some (num (\<lambda>z. get_set__get z Date))"
  "formatTokenFunctions ''HH'' = Some (\<lambda>z m. zeroFill_value 2 False (num (\<lambda>z. get_set__get z Hours) z m))"
  "formatTokenFunctions ''hh'' = Some (\<lambda>z m. zeroFill_value 2 False
     (num_map (\<lambda>n. if n smod 12 = 0 then 12 else n smod 12) (\<lambda>z. get_set__get z Hours) z m))"
  "formatTokenFunctions ''mm'' = Some (\<lambda>z m. zeroFill_value 2 False (num (\<lambda>z. get_set__get z Minutes) z m))"
  "formatTokenFunctions ''ss'' = Some (\<lambda>z m. zeroFill_value 2 False (num (\<lambda>z. get_set__get z Seconds) z m))"
  "formatTokenFunctions ''SSS'' = Some (\<lambda>z m. zeroFill_value 3 False (num (\<lambda>z. get_set__get z Milliseconds) z m))"
  unfolding token_groups by simp_all

lemma civil_tokens:
  assumes "moment_local z m = Some (civil_time y mo d h mi s ms)" and "valid_civil y mo d" and "valid_time h mi s ms"
  shows "token_output z m ''YYYY'' = zeroFill y 4 False" "token_output z m ''MM'' = zeroFill (mo + 1) 2 False"
    "token_output z m ''DD'' = zeroFill d 2 False" "token_output z m ''D'' = show_int d"
    "token_output z m ''HH'' = zeroFill h 2 False"
    "token_output z m ''hh'' = zeroFill (if h mod 12 = 0 then 12 else h mod 12) 2 False"
    "token_output z m ''mm'' = zeroFill mi 2 False" "token_output z m ''ss'' = zeroFill s 2 False"
    "token_output z m ''SSS'' = zeroFill ms 3 False"
proof -
  have g: "get_set__get z u m = Some (date_field u (civil_time y mo d h mi s ms))" for u
    by (simp add: get_set__get_def assms(1))
  note f = fields_of_civil [OF assms(2,3)]
  have h: "h smod 12 = h mod 12" using assms(3) by (simp add: valid_time_def smod_nonneg)
  show "token_output z m ''YYYY'' = zeroFill y 4 False" "token_output z m ''MM'' = zeroFill (mo + 1) 2 False"
    "token_output z m ''DD'' = zeroFill d 2 False" "token_output z m ''D'' = show_int d"
    "token_output z m ''HH'' = zeroFill h 2 False"
    "token_output z m ''hh'' = zeroFill (if h mod 12 = 0 then 12 else h mod 12) 2 False"
    "token_output z m ''mm'' = zeroFill mi 2 False" "token_output z m ''ss'' = zeroFill s 2 False"
    "token_output z m ''SSS'' = zeroFill ms 3 False"
    by (simp_all only: token_output_def token_functions option.case num_def num_map_def year_def month_def g f h
        zeroFill_value.simps show_value.simps)
qed

lemma literal_tokens:
  "token_output z m ''-'' = ''-''" "token_output z m '':'' = '':''" "token_output z m ''.'' = ''.''"
  "token_output z m '' '' = '' ''" "token_output z m ''[T]'' = ''T''" "token_output z m ''[Z]'' = ''Z''"
  using lettered_table
  by (auto simp: token_output_def removeFormattingTokens_def strip_brackets_def lettered_def letter_key_def split: option.split)

lemma expand_fixed: "replace_local l fmt = fmt \<Longrightarrow> expandFormat fmt l = fmt"
proof -
  assume a: "replace_local l fmt = fmt"
  have "expand_rounds n l fmt = fmt" for n by (induction n) (simp_all add: a)
  then show ?thesis by (simp add: expandFormat_def)
qed

lemma iso_tokens:
  "tokenize ''YYYY-MM-DD[T]HH:mm:ss.SSS[Z]'' = [''YYYY'', ''-'', ''MM'', ''-'', ''DD'', ''[T]'', ''HH'', '':'',
     ''mm'', '':'', ''ss'', ''.'', ''SSS'', ''[Z]'']"
  by code_simp

definition plain_long_formats :: "mlocale \<Rightarrow> bool" where
  "plain_long_formats l \<longleftrightarrow> l_longDateFormat l ''[T]'' = None \<and> l_longDateFormat l ''[Z]'' = None"

lemma iso_expand:
  assumes "plain_long_formats l"
  shows "replace_local l ''YYYY-MM-DD[T]HH:mm:ss.SSS[Z]'' = ''YYYY-MM-DD[T]HH:mm:ss.SSS[Z]''"
proof -
  have "long_format l ''[T]'' = ''[T]''" "long_format l ''[Z]'' = ''[Z]''"
    using assms by (simp_all add: long_format_def longDateFormat_def plain_long_formats_def toUpperCase_def to_upper_char_def Let_def)
  then show ?thesis by (simp add: next_local_def bracket_token_def is_prefix_def local_literals_def)
qed

lemma formatMoment_tokens:
  assumes "valid__isValid m" and "expandFormat fmt (m_locale m) = fmt'" and "tokenize fmt' = t # ts"
  shows "formatMoment z m fmt = Some (concat (map (token_output z m) (t # ts)))"
  using assms by (simp add: formatMoment_def makeFormatFunction_def)

text \<open>
  \<open>toISOString\<close> of the years 1 to 9999 takes the browser's own routine because it is
  faster; that shortcut is exact: it gives the text that the library's formatter would give for the
  moment in UTC, for every moment in any zone and with any offset.
\<close>

theorem toISOString_branches_agree:
  assumes "valid__isValid m" and "m_d m = Some e" and "\<bar>e\<bar> \<le> 8639000000000000" and "\<bar>offset_or_zero m\<bar> \<le> 1440"
    and "year z (setOffsetToUTC z False m) = Some y" and "0 < y" and "y \<le> 9999" and "plain_long_formats (m_locale m)"
  shows "moment_toISOString z m = formatMoment z (setOffsetToUTC z False m) ''YYYY-MM-DD[T]HH:mm:ss.SSS[Z]''"
proof -
  let ?u = "setOffsetToUTC z False m"
  define t where "t = e - offset_or_zero m * 60000"
  have u: "?u = m\<lparr>m_offset := Some 0, m_isUTC := True, m_d := Some t\<rparr>"
    using set_utcOffset_moves [OF assms(2,3) _ assms(4), of 0 z]
    by (simp add: setOffsetToUTC_def offset_minutes_def t_def)
  have "TimeClip (e + - (offset_or_zero m * 60000)) = Some (e + - (offset_or_zero m * 60000))"
    using assms(3,4) by (intro TimeClip_near) (simp_all add: abs_mult)
  then have d: "toDate m = Some t" using assms(2) by (simp add: toDate_def valueOf_offset t_def)
  have l: "moment_local z ?u = Some t" "valid__isValid ?u" "m_locale ?u = m_locale m"
    using assms(1) unfolding u by (simp_all add: moment_local_def valid__isValid_def)
  obtain y' mo d' h mi s ms where c: "t = civil_time y' mo d' h mi s ms" "valid_civil y' mo d'" "valid_time h mi s ms"
    by (rule civil_cases)
  have x: "expandFormat ''YYYY-MM-DD[T]HH:mm:ss.SSS[Z]'' (m_locale ?u) = ''YYYY-MM-DD[T]HH:mm:ss.SSS[Z]''"
    unfolding l(3) by (rule expand_fixed [OF iso_expand [OF assms(8)]])
  have "native_toISOString t = concat (map (token_output z ?u) [''YYYY'', ''-'', ''MM'', ''-'', ''DD'', ''[T]'', ''HH'', '':'',
     ''mm'', '':'', ''ss'', ''.'', ''SSS'', ''[Z]''])"
    unfolding native_toISOString_def c(1) fields_of_civil [OF c(2,3)] list.map concat.simps
      civil_tokens [OF l(1) [unfolded c(1)] c(2,3)] literal_tokens by simp
  then show ?thesis
    unfolding formatMoment_tokens [OF l(2) x iso_tokens] moment_toISOString_def Let_def assms(5) d
    using assms(6,7) by simp
qed

lemma toISOString_branches_agree_witness:
  "moment_toISOString (fixed_zone 420) (utc_moment 0) = formatMoment (fixed_zone 420) (setOffsetToUTC (fixed_zone 420) False (utc_moment 0))
     ''YYYY-MM-DD[T]HH:mm:ss.SSS[Z]''"
proof -
  have h: "valid__isValid (utc_moment 0)" "m_d (utc_moment 0) = Some 0" "\<bar>0\<bar> \<le> (8639000000000000::int)"
    "\<bar>offset_or_zero (utc_moment 0)\<bar> \<le> 1440" "plain_long_formats (m_locale (utc_moment 0))"
    by (simp_all add: utc_moment_def valid__isValid_def offset_or_zero_def plain_long_formats_def en_locale_def
        new_Locale_def defaultLongDateFormat_def)
  have y: "year (fixed_zone 420) (setOffsetToUTC (fixed_zone 420) False (utc_moment 0)) = Some 1970" by code_simp
  show ?thesis by (rule toISOString_branches_agree [OF h(1-4) y _ _ h(5)]) simp_all
qed

section \<open>The date column of the user-data pages\<close>

text \<open>\<open>formatDate\<close> of app.js, for the moment that its argument is parsed to.\<close>

definition formatDate_moment :: "zone \<Rightarrow> moment \<Rightarrow> string option" where
  "formatDate_moment z m = moment_format z ''YYYY-MM-D hh:mm:ss'' m"

lemma date_column_tokens:
  "tokenize ''YYYY-MM-D hh:mm:ss'' = [''YYYY'', ''-'', ''MM'', ''-'', ''D'', '' '', ''hh'', '':'', ''mm'', '':'', ''ss'']"
  by code_simp

lemma date_column_expand: "expandFormat ''YYYY-MM-D hh:mm:ss'' l = ''YYYY-MM-D hh:mm:ss''"
  by (rule expand_fixed) (simp add: next_local_def bracket_token_def is_prefix_def local_literals_def)

lemma date_column_civil:
  assumes "valid__isValid m" and "moment_local z m = Some (civil_time y mo d h mi s ms)" and "valid_civil y mo d"
    and "valid_time h mi s ms"
  shows "formatDate_moment z m = Some (zeroFill y 4 False @ ''-'' @ zeroFill (mo + 1) 2 False @ ''-'' @ show_int d @ '' ''
    @ zeroFill (if h mod 12 = 0 then 12 else h mod 12) 2 False @ '':'' @ zeroFill mi 2 False @ '':'' @ zeroFill s 2 False)"
proof -
  have "formatDate_moment z m = formatMoment z m ''YYYY-MM-D hh:mm:ss''"
    by (simp add: formatDate_moment_def moment_format_def)
  then show ?thesis
    unfolding formatMoment_tokens [OF assms(1) date_column_expand date_column_tokens] list.map
      civil_tokens [OF assms(2-4)] literal_tokens by simp
qed

lemma date_text_inject:
  assumes "0 \<le> y" "y \<le> 9999" "0 \<le> y'" "y' \<le> 9999" "0 \<le> mo" "mo \<le> 11" "0 \<le> mo'" "mo' \<le> 11" "0 \<le> d" "0 \<le> d'"
    and "0 \<le> h" "h < 100" "0 \<le> h'" "h' < 100" "0 \<le> mi" "mi < 60" "0 \<le> mi'" "mi' < 60" "0 \<le> s" "s < 60" "0 \<le> s'" "s' < 60"
  shows "zeroFill y 4 False @ ''-'' @ zeroFill (mo + 1) 2 False @ ''-'' @ show_int d @ '' ''
      @ zeroFill h 2 False @ '':'' @ zeroFill mi 2 False @ '':'' @ zeroFill s 2 False
    = zeroFill y' 4 False @ ''-'' @ zeroFill (mo' + 1) 2 False @ ''-'' @ show_int d' @ '' ''
      @ zeroFill h' 2 False @ '':'' @ zeroFill mi' 2 False @ '':'' @ zeroFill s' 2 False
    \<longleftrightarrow> y = y' \<and> mo = mo' \<and> d = d' \<and> h = h' \<and> mi = mi' \<and> s = s'"
proof -
  have l: "length (zeroFill k n False) = n" if "0 \<le> k" "k < 10 ^ n" "0 < n" for k n using zeroFill_facts(1) that .
  have e: "is_digit CHR '' '' = False" by (simp add: is_digit_def)
  have cut: "show_int d @ CHR '' '' # r = show_int d' @ CHR '' '' # r' \<longleftrightarrow> d = d' \<and> r = r'" for r r'
    using digits_cut [of "show_int d" "show_int d'" "CHR '' ''"] show_int_digits show_int_inject assms(9,10) e by auto
  show ?thesis
    using assms
    by (simp add: l cut zeroFill_inject append_eq_append_conv)
qed

text \<open>
  Claim C37: the date column of the user-data pages shows a date of the years 0 to 9999 to the
  second, but the hour on a twelve-hour clock without saying which half of the day: two valid dates of these years have
  the same text exactly when they agree in year, month, day, minute and second and in the hour modulo twelve.
\<close>

theorem date_column_shows:
  assumes "valid__isValid m" and "moment_local z m = Some (civil_time y mo d h mi s ms)" and "valid_civil y mo d"
    and "valid_time h mi s ms" and "0 \<le> y" and "y \<le> 9999"
    and "valid__isValid m'" and "moment_local z' m' = Some (civil_time y' mo' d' h' mi' s' ms')" and "valid_civil y' mo' d'"
    and "valid_time h' mi' s' ms'" and "0 \<le> y'" and "y' \<le> 9999"
  shows "formatDate_moment z m = formatDate_moment z' m' \<longleftrightarrow>
    y = y' \<and> mo = mo' \<and> d = d' \<and> h mod 12 = h' mod 12 \<and> mi = mi' \<and> s = s'"
proof -
  have b: "0 \<le> (if h mod 12 = 0 then 12 else h mod 12)" "(if h mod 12 = 0 then 12 else h mod 12) < 100" for h :: int
    using pos_mod_bound [of 12 h] by (simp, auto intro: less_trans)
  have m: "(if h mod 12 = 0 then 12 else h mod 12) = (if h' mod 12 = 0 then 12 else h' mod 12) \<longleftrightarrow> h mod 12 = h' mod 12"
    using pos_mod_bound [of 12 h] pos_mod_bound [of 12 h'] by auto
  have v: "0 \<le> mo" "mo \<le> 11" "0 \<le> mo'" "mo' \<le> 11" "0 \<le> d" "0 \<le> d'" "0 \<le> mi" "mi < 60" "0 \<le> mi'" "mi' < 60"
    "0 \<le> s" "s < 60" "0 \<le> s'" "s' < 60"
    using assms(3,4,9,10) by (simp_all add: valid_civil_def valid_time_def)
  show ?thesis
    unfolding date_column_civil [OF assms(1-4)] date_column_civil [OF assms(7-10)] option.inject
      date_text_inject [OF assms(5,6,11,12) v(1-6) b [of h] b [of h'] v(7-14)] m by simp
qed

lemma date_column_shows_witness: "formatDate_moment (fixed_zone 0) (utc_moment 0) = formatDate_moment (fixed_zone 0) (utc_moment 43200000)"
proof -
  have c: "0 = civil_time 1970 0 1 0 0 0 0" "43200000 = civil_time 1970 0 1 12 0 0 0" by code_simp+
  have h: "valid__isValid (utc_moment 0)" "moment_local (fixed_zone 0) (utc_moment 0) = Some (civil_time 1970 0 1 0 0 0 0)"
    "valid__isValid (utc_moment 43200000)"
    "moment_local (fixed_zone 0) (utc_moment 43200000) = Some (civil_time 1970 0 1 12 0 0 0)"
    unfolding c [symmetric] by (simp_all add: utc_moment_def valid__isValid_def moment_local_def)
  have v: "valid_civil 1970 0 1" "valid_time 0 0 0 0" "valid_time 12 0 0 0" "(0::int) \<le> 1970" "(1970::int) \<le> 9999"
    by (simp_all add: valid_civil_def valid_time_def month_length_def month_start_def)
  show ?thesis using date_column_shows [OF h(1,2) v(1,2,4,5) h(3,4) v(1,3,4,5)] by simp
qed

end
