(* ===== verification/MomentParse.thy ===== *)
theory MomentParse imports Main Prelude JsValue Decimal JsDate MomentLocale MomentDuration MomentCore MomentManip MomentFormat begin

text \<open>
  moment.js: parsing. A \<open>config\<close> collects what the input says (the array of date parts, week
  parts, offset) together with the parsing flags; \<open>configFromArray\<close> turns it into a date. Each
  regular expression of a token is a matcher that is tried at every position of the text. The current
  time is a parameter, and so is the browser's own date parser, to which unknown texts fall back.
\<close>

section \<open>The browser\<close>

text \<open>Its parser of texts that are not ISO 8601, and the text of a date.\<close>

record browser_dates =
  native_parse :: "string \<Rightarrow> int option"
  date_text :: "int option \<Rightarrow> string"

section \<open>Matchers\<close>

definition signed :: "matcher \<Rightarrow> matcher" where
  "signed r s =
     (case s of
        [] \<Rightarrow> r s
      | c # cs \<Rightarrow> if c \<in> set ''+-'' then map_option Suc (r cs) else r s)"

definition match1 :: matcher where "match1 = digits_between 1 1"
definition match2 :: matcher where "match2 = digits_between 2 2"
definition match3 :: matcher where "match3 = digits_between 3 3"
definition match4 :: matcher where "match4 = digits_between 4 4"
definition match6 :: matcher where "match6 = signed (digits_between 6 6)"
definition match1to2 :: matcher where "match1to2 = digits_between 1 2"
definition match1to3 :: matcher where "match1to3 = digits_between 1 3"
definition match1to4 :: matcher where "match1to4 = digits_between 1 4"
definition match1to6 :: matcher where "match1to6 = signed (digits_between 1 6)"

definition matchUnsigned :: matcher where
  "matchUnsigned s = (let n = length (takeWhile is_digit s) in if n = 0 then None else Some n)"

definition matchSigned :: matcher where
  "matchSigned = signed matchUnsigned"

text \<open>Z or z, or a sign, two digits, optionally a colon, and two digits.\<close>

definition matchOffset :: matcher where
  "matchOffset s =
     (case s of
        [] \<Rightarrow> None
      | c # cs \<Rightarrow>
          if c \<in> set ''Zz'' then Some 1
          else if c \<in> set ''+-'' \<and> match2 cs \<noteq> None then
            (let r = drop 2 cs
             in if r \<noteq> [] \<and> hd r = CHR '':'' \<and> match2 (tl r) \<noteq> None then Some 6
                else if match2 r \<noteq> None then Some 5 else None)
          else None)"

definition matchTimestamp :: matcher where
  "matchTimestamp s =
     (case matchSigned s of
        None \<Rightarrow> None
      | Some n \<Rightarrow>
          (case drop n s of
             [] \<Rightarrow> Some n
           | c # cs \<Rightarrow> if c = CHR ''.'' then (case digits_between 1 3 cs of None \<Rightarrow> Some n | Some k \<Rightarrow> Some (n + 1 + k))
                       else Some n))"

text \<open>Digits and then letters; of the code units below 256, those from 0xA0 count as letters.\<close>

definition word_char :: "char \<Rightarrow> bool" where
  "word_char c \<longleftrightarrow> c \<in> set ''abcdefghijklmnopqrstuvwxyzABCDEFGHIJKLMNOPQRSTUVWXYZ'' \<or> c = CHR 0x27
     \<or> 160 \<le> (of_char c :: nat)"

definition matchWord :: matcher where
  "matchWord s =
     (let n = length (takeWhile is_digit s); k = length (takeWhile word_char (drop n s))
      in if k = 0 then None else Some (n + k))"

text \<open>A literal text, for tokens without a regular expression.\<close>

definition matchText :: "string \<Rightarrow> matcher" where
  "matchText p s = (if is_prefix p s then Some (length p) else None)"

text \<open>\<open>string.match(regex)[0]\<close>: the text of the first match.\<close>

fun search :: "matcher \<Rightarrow> string \<Rightarrow> string option" where
  "search r [] = map_option (\<lambda>n. []) (r [])"
| "search r (c # cs) = (case r (c # cs) of Some n \<Rightarrow> Some (take n (c # cs)) | None \<Rightarrow> search r cs)"

text \<open>\<open>unescapeFormat\<close>: the text that a token without a regular expression stands for.\<close>

function unescape :: "string \<Rightarrow> string" where
  "unescape [] = []"
| "unescape (c # cs) =
     (if c = CHR 0x5C then
        (case cs of [] \<Rightarrow> [c] | d # ds \<Rightarrow> if line_end d then c # unescape cs else d # unescape ds)
      else if c = CHR ''['' then
        (let inner = takeWhile (\<lambda>x. x \<noteq> CHR '']'' \<and> x \<noteq> CHR ''['') cs; r = drop (length inner) cs
         in if r \<noteq> [] \<and> hd r = CHR '']''
            then (if inner = [] then ''undefined'' else inner) @ unescape (drop (Suc (length inner)) cs)
            else c # unescape cs)
      else c # unescape cs)"
  by pat_completeness auto

termination unescape
  by (relation "measure length") (auto simp: Let_def)

definition unescapeFormat :: "string \<Rightarrow> string" where
  "unescapeFormat s = unescape (js_replace s [CHR 0x5C] [])"

section \<open>Numbers in texts\<close>

definition toInt_text :: "string \<Rightarrow> int" where
  "toInt_text s =
     (case s of
        [] \<Rightarrow> 0
      | c # cs \<Rightarrow> if c = CHR ''-'' then - int (digits_value cs)
                  else if c = CHR ''+'' then int (digits_value cs) else int (digits_value s))"

definition parseTwoDigitYear :: "string \<Rightarrow> int" where
  "parseTwoDigitYear input = toInt_text input + (if toInt_text input > 68 then 1900 else 2000)"

text \<open>
  \<open>toInt(('0.' + input) * 1000)\<close>: the first three decimals, missing ones counting as zeros. (The
  browser computes with doubles, which does not change the integral part for up to nine digits.)
\<close>

definition parseMs :: "string \<Rightarrow> int" where
  "parseMs input = int (digits_value input * 1000 div 10 ^ length input)"

text \<open>The milliseconds of a timestamp in seconds with up to three decimals.\<close>

definition timestamp_ms :: "string \<Rightarrow> int" where
  "timestamp_ms input =
     (let ip = takeWhile (\<lambda>c. c \<noteq> CHR ''.'') input; fp = drop (Suc (length ip)) input;
          ms = (if fp = [] then 0 else parseMs fp);
          n = \<bar>toInt_text ip\<bar> * 1000 + ms
      in if input \<noteq> [] \<and> hd input = CHR ''-'' then - n else n)"

text \<open>The last offset of the text, in minutes east of UTC; without one it is zero.\<close>

function offsets_in :: "string \<Rightarrow> string list" where
  "offsets_in [] = []"
| "offsets_in (c # cs) =
     (case matchOffset (c # cs) of
        None \<Rightarrow> offsets_in cs
      | Some n \<Rightarrow> take n (c # cs) # offsets_in (drop (n - 1) cs))"
  by pat_completeness auto

termination offsets_in
  by (relation "measure length") auto

function chunkOffset :: "string \<Rightarrow> string list" where
  "chunkOffset [] = []"
| "chunkOffset (c # cs) =
     (if c \<in> set ''+-'' then [c] # chunkOffset cs
      else if match2 (c # cs) \<noteq> None then take 2 (c # cs) # chunkOffset (drop 1 cs)
      else chunkOffset cs)"
  by pat_completeness auto

termination chunkOffset
  by (relation "measure length") auto

definition offsetFromString :: "string \<Rightarrow> int" where
  "offsetFromString s =
     (let chunk = (case offsets_in s of [] \<Rightarrow> [] | xs \<Rightarrow> last xs)
      in case chunkOffset chunk of
           [] \<Rightarrow> 0
         | sign # parts \<Rightarrow>
             (let part = (\<lambda>i. if i < length parts then toInt_text (parts ! i) else 0);
                  minutes = part 0 * 60 + part 1
              in if sign = ''+'' then minutes else - minutes))"

section \<open>Configurations\<close>

record flags =
  f_empty :: bool
  f_unusedTokens :: "string list"
  f_unusedInput :: "string list"
  f_overflow :: int
  f_charsLeftOver :: nat
  f_nullInput :: bool
  f_invalidMonth :: "string option"
  f_invalidWeekday :: "string option"
  f_invalidFormat :: bool
  f_userInvalidated :: bool
  f_iso :: bool
  f_bigHour :: bool
  f_overflowDayOfYear :: bool

definition defaultParsingFlags :: flags where
  "defaultParsingFlags = \<lparr>f_empty = False, f_unusedTokens = [], f_unusedInput = [], f_overflow = - 2,
     f_charsLeftOver = 0, f_nullInput = False, f_invalidMonth = None, f_invalidWeekday = None,
     f_invalidFormat = False, f_userInvalidated = False, f_iso = False, f_bigHour = False,
     f_overflowDayOfYear = False\<rparr>"

text \<open>
  An entry of the array \<open>_a\<close> is missing (\<open>None\<close>), \<open>NaN\<close> (\<open>Some None\<close>) or a number. The date
  \<open>_d\<close> is missing, invalid (\<open>Some None\<close>) or a time value; \<open>_w\<close> is missing or a map.
\<close>

type_synonym slot = "int option option"

record config =
  c_a :: "slot list"
  c_w :: "(string \<Rightarrow> int option) option"
  c_dayOfYear :: "int option"
  c_meridiem :: "string option"
  c_tzm :: "int option"
  c_useUTC :: bool
  c_isUTC :: bool
  c_strict :: bool
  c_locale :: mlocale
  c_d :: "int option option"
  c_nextDay :: bool
  c_pf :: flags

definition no_parts :: "slot list" where
  "no_parts = replicate 7 None"

definition YEAR :: nat where "YEAR = 0"
definition MONTH :: nat where "MONTH = 1"
definition DATE :: nat where "DATE = 2"
definition HOUR :: nat where "HOUR = 3"
definition MINUTE :: nat where "MINUTE = 4"
definition SECOND :: nat where "SECOND = 5"
definition MILLISECOND :: nat where "MILLISECOND = 6"

definition put_part :: "nat \<Rightarrow> int \<Rightarrow> config \<Rightarrow> config" where
  "put_part i v c = c\<lparr>c_a := (c_a c)[i := Some (Some v)]\<rparr>"

definition put_week :: "string \<Rightarrow> int \<Rightarrow> config \<Rightarrow> config" where
  "put_week k v c = c\<lparr>c_w := Some ((case c_w c of None \<Rightarrow> Map.empty | Some w \<Rightarrow> w)(k \<mapsto> v))\<rparr>"

definition put_flags :: "(flags \<Rightarrow> flags) \<Rightarrow> config \<Rightarrow> config" where
  "put_flags f c = c\<lparr>c_pf := f (c_pf c)\<rparr>"

definition valid_config :: "config \<Rightarrow> bool" where
  "valid_config c \<longleftrightarrow>
     (let pf = c_pf c in
      c_d c \<noteq> None \<and> c_d c \<noteq> Some None \<and> f_overflow pf < 0 \<and> \<not> f_empty pf \<and>
      (f_invalidMonth pf = None \<or> f_invalidMonth pf = Some []) \<and>
      (f_invalidWeekday pf = None \<or> f_invalidWeekday pf = Some []) \<and>
      \<not> f_nullInput pf \<and> \<not> f_invalidFormat pf \<and> \<not> f_userInvalidated pf \<and>
      (c_strict c \<longrightarrow> f_charsLeftOver pf = 0 \<and> f_unusedTokens pf = [] \<and> \<not> f_bigHour pf))"

section \<open>Names of months and weekdays\<close>

text \<open>
  A locale's names are used as regular expressions; for names of letters, in which at most one
  dot is removed, that is a comparison without regard to case.
\<close>

definition remove_dot :: "string \<Rightarrow> string" where
  "remove_dot s = js_replace s ''.'' []"

text \<open>The first dot of the joined alternatives is removed, so only one of the names loses one.\<close>

fun remove_first_dot :: "string list \<Rightarrow> string list" where
  "remove_first_dot [] = []"
| "remove_first_dot (n # ns) = (if CHR ''.'' \<in> set n then remove_dot n # ns else n # remove_first_dot ns)"

definition starts_with_one :: "string list \<Rightarrow> string \<Rightarrow> bool" where
  "starts_with_one names s \<longleftrightarrow> list_ex (\<lambda>n. is_prefix (toLowerCase n) (toLowerCase s)) (remove_first_dot names)"

definition localeMonthsParse :: "mlocale \<Rightarrow> string \<Rightarrow> string \<Rightarrow> bool \<Rightarrow> int option" where
  "localeMonthsParse l monthName fmt strict =
     map_option int (find (\<lambda>i.
        if strict \<and> fmt = ''MMMM'' then toLowerCase (remove_dot (l_months l ! i)) = toLowerCase monthName
        else if strict \<and> fmt = ''MMM'' then toLowerCase (remove_dot (l_monthsShort l ! i)) = toLowerCase monthName
        else \<not> strict \<and> starts_with_one [l_months l ! i, l_monthsShort l ! i] monthName) [0..<12])"

definition localeWeekdaysParse :: "mlocale \<Rightarrow> string \<Rightarrow> int option" where
  "localeWeekdaysParse l weekdayName =
     map_option int (find (\<lambda>i.
        starts_with_one [l_weekdays l ! i, l_weekdaysShort l ! i, l_weekdaysMin l ! i] weekdayName) [0..<7])"

text \<open>\<open>parseWeekday\<close>, for a text that is no number; \<open>None\<close> is \<open>null\<close>.\<close>

definition parseWeekday :: "mlocale \<Rightarrow> string \<Rightarrow> int option" where
  "parseWeekday l input =
     (if input \<noteq> [] \<and> list_all is_digit input then Some (toInt_text input) else localeWeekdaysParse l input)"

section \<open>Overflow\<close>

definition below :: "slot \<Rightarrow> int \<Rightarrow> bool" where
  "below v k = (case v of Some (Some n) \<Rightarrow> n < k | _ \<Rightarrow> False)"

definition above :: "slot \<Rightarrow> int \<Rightarrow> bool" where
  "above v k = (case v of Some (Some n) \<Rightarrow> n > k | _ \<Rightarrow> False)"

definition days_of_parts :: "slot list \<Rightarrow> int option" where
  "days_of_parts a =
     (case (a ! YEAR, a ! MONTH) of
        (Some (Some y), Some (Some mo)) \<Rightarrow> daysInMonth y mo
      | _ \<Rightarrow> None)"

definition overflow_of :: "slot list \<Rightarrow> int" where
  "overflow_of a =
     (let differs = (\<lambda>i. a ! i \<noteq> Some (Some 0)) in
      if below (a ! MONTH) 0 \<or> above (a ! MONTH) 11 then int MONTH
      else if below (a ! DATE) 1 \<or> (case days_of_parts a of None \<Rightarrow> False | Some k \<Rightarrow> above (a ! DATE) k) then int DATE
      else if below (a ! HOUR) 0 \<or> above (a ! HOUR) 24 \<or>
        a ! HOUR = Some (Some 24) \<and> (differs MINUTE \<or> differs SECOND \<or> differs MILLISECOND) then int HOUR
      else if below (a ! MINUTE) 0 \<or> above (a ! MINUTE) 59 then int MINUTE
      else if below (a ! SECOND) 0 \<or> above (a ! SECOND) 59 then int SECOND
      else if below (a ! MILLISECOND) 0 \<or> above (a ! MILLISECOND) 999 then int MILLISECOND
      else - 1)"

text \<open>A configuration without an array (\<open>c_a = []\<close>) is left alone.\<close>

definition checkOverflow :: "config \<Rightarrow> config" where
  "checkOverflow c =
     (if c_a c \<noteq> [] \<and> f_overflow (c_pf c) = - 2 then
        (let overflow = overflow_of (c_a c);
             shown = (if f_overflowDayOfYear (c_pf c) \<and> (overflow < int YEAR \<or> overflow > int DATE) then int DATE else overflow)
         in put_flags (\<lambda>pf. pf\<lparr>f_overflow := shown\<rparr>) c)
      else c)"

section \<open>From the parts to a date\<close>

definition defaults :: "'a option \<Rightarrow> 'a option \<Rightarrow> 'a \<Rightarrow> 'a" where
  "defaults a b c = (case a of Some x \<Rightarrow> x | None \<Rightarrow> (case b of Some x \<Rightarrow> x | None \<Rightarrow> c))"

definition currentDateArray :: "zone \<Rightarrow> int \<Rightarrow> config \<Rightarrow> int list" where
  "currentDateArray z now c =
     (let t = (if c_useUTC c then now else LocalTime z now)
      in [date_field FullYear t, date_field Month t, date_field Date t])"

definition slot_value :: "slot \<Rightarrow> int option" where
  "slot_value v = (case v of None \<Rightarrow> None | Some w \<Rightarrow> w)"

text \<open>
  \<open>dayOfYearFromWeekInfo\<close>: the year and the day of the year that the week parts give. When the
  year is beyond the browser's dates, the day is \<open>NaN\<close>, which counts as missing.
\<close>

definition week_part :: "config \<Rightarrow> string \<Rightarrow> int option" where
  "week_part c k = (case c_w c of None \<Rightarrow> None | Some w \<Rightarrow> w k)"

definition current_week_year :: "zone \<Rightarrow> int \<Rightarrow> config \<Rightarrow> int \<Rightarrow> int \<Rightarrow> int" where
  "current_week_year z now c dow doy =
     (case weekOfYear z (local_moment (c_locale c) (Some now)) dow doy of None \<Rightarrow> 0 | Some (w, y) \<Rightarrow> y)"

definition dayOfYearFromWeekInfo :: "zone \<Rightarrow> int \<Rightarrow> config \<Rightarrow> config" where
  "dayOfYearFromWeekInfo z now c =
     (let w = week_part c;
          iso = (w ''GG'' \<noteq> None \<or> w ''W'' \<noteq> None \<or> w ''E'' \<noteq> None);
          dow = (if iso then 1 else l_dow (c_locale c));
          doy = (if iso then 4 else l_doy (c_locale c));
          weekYear = defaults (if iso then w ''GG'' else w ''gg'') (slot_value (c_a c ! YEAR)) (current_week_year z now c dow doy);
          week0 = defaults (if iso then w ''W'' else w ''w'') None 1;
          (week, wday) =
            (if iso then (week0, defaults (w ''E'') None 1)
             else case w ''d'' of
                    Some d \<Rightarrow> (if d < dow then week0 + 1 else week0, d)
                  | None \<Rightarrow> (week0, case w ''e'' of Some e \<Rightarrow> e + dow | None \<Rightarrow> dow))
      in case dayOfYearFromWeeks weekYear week (Some wday) doy dow of
           Some (y, n) \<Rightarrow> (put_part YEAR y c)\<lparr>c_dayOfYear := Some n\<rparr>
         | None \<Rightarrow> (put_part YEAR (weekYear - 1) c)\<lparr>c_dayOfYear := None\<rparr>)"

text \<open>The day of the year replaces month and date.\<close>

definition apply_dayOfYear :: "int list \<Rightarrow> config \<Rightarrow> config" where
  "apply_dayOfYear current c =
     (case c_dayOfYear c of
        None \<Rightarrow> c
      | Some n \<Rightarrow>
          if n = 0 then c
          else
            (let yearToUse = defaults (slot_value (c_a c ! YEAR)) None (current ! YEAR);
                 c1 = (if n > daysInYear yearToUse then put_flags (\<lambda>pf. pf\<lparr>f_overflowDayOfYear := True\<rparr>) c else c);
                 date = createUTCDate yearToUse 0 n 0 0 0 0
             in c1\<lparr>c_a := (c_a c1)[MONTH := Some (map_option (date_field Month) date),
                                   DATE := Some (map_option (date_field Date) date)]\<rparr>))"

text \<open>The parts before the first one given are those of today, the others the smallest.\<close>

definition fill_parts :: "int list \<Rightarrow> slot list \<Rightarrow> slot list" where
  "fill_parts current a =
     (let k = length (takeWhile (\<lambda>v. v = None) (take 3 a))
      in map (\<lambda>i. if i < k then Some (Some (current ! i))
                  else case a ! i of None \<Rightarrow> Some (Some (if i = 2 then 1 else 0)) | Some v \<Rightarrow> Some v) [0..<7])"

fun all_values :: "slot list \<Rightarrow> int list option" where
  "all_values [] = Some []"
| "all_values (Some (Some v) # vs) = map_option (Cons v) (all_values vs)"
| "all_values (v # vs) = None"

definition date_of_parts :: "zone \<Rightarrow> bool \<Rightarrow> slot list \<Rightarrow> int option" where
  "date_of_parts z useUTC input =
     (case all_values input of
        Some [y, mo, d, h, mi, s, ms] \<Rightarrow> if useUTC then createUTCDate y mo d h mi s ms else createDate z y mo d h mi s ms
      | _ \<Rightarrow> None)"

text \<open>
  The input for the date keeps the hour 24; \<open>_nextDay\<close> is set, but no moment carries it on. An
  offset found in the text is subtracted (\<open>setUTCMinutes\<close>).
\<close>

definition configFromArray :: "zone \<Rightarrow> int \<Rightarrow> config \<Rightarrow> config" where
  "configFromArray z now c =
     (if c_d c \<noteq> None then c
      else
        (let current = currentDateArray z now c;
             c1 = (if c_w c \<noteq> None \<and> c_a c ! DATE = None \<and> c_a c ! MONTH = None then dayOfYearFromWeekInfo z now c else c);
             c2 = apply_dayOfYear current c1;
             input = fill_parts current (c_a c2);
             midnight = (input ! HOUR = Some (Some 24) \<and> input ! MINUTE = Some (Some 0) \<and>
                         input ! SECOND = Some (Some 0) \<and> input ! MILLISECOND = Some (Some 0));
             d = date_of_parts z (c_useUTC c) input;
             d1 = (case c_tzm c of None \<Rightarrow> d | Some tzm \<Rightarrow> Option.bind d (\<lambda>t. TimeClip (t - tzm * 60000)))
         in c2\<lparr>c_a := input, c_nextDay := midnight, c_d := Some d1\<rparr>))"

section \<open>Regular expressions of the tokens\<close>

type_synonym regex_table = "string \<Rightarrow> (bool \<Rightarrow> mlocale \<Rightarrow> matcher) option"

definition addRegexToken :: "string \<Rightarrow> matcher \<Rightarrow> matcher option \<Rightarrow> regex_table \<Rightarrow> regex_table" where
  "addRegexToken token regex strictRegex R =
     R(token \<mapsto> (\<lambda>isStrict l. case strictRegex of Some r \<Rightarrow> if isStrict then r else regex | None \<Rightarrow> regex))"

definition addRegexFunction :: "string \<Rightarrow> (bool \<Rightarrow> mlocale \<Rightarrow> matcher) \<Rightarrow> regex_table \<Rightarrow> regex_table" where
  "addRegexFunction token f R = R(token \<mapsto> f)"

definition month_regexes :: "regex_table \<Rightarrow> regex_table" where
  "month_regexes R = addRegexToken ''MMMM'' matchWord None (addRegexToken ''MMM'' matchWord None
     (addRegexToken ''MM'' match1to2 (Some match2) (addRegexToken ''M'' match1to2 None R)))"

definition year_regexes :: "regex_table \<Rightarrow> regex_table" where
  "year_regexes R = addRegexToken ''YYYYYY'' match1to6 (Some match6) (addRegexToken ''YYYYY'' match1to6 (Some match6)
     (addRegexToken ''YYYY'' match1to4 (Some match4) (addRegexToken ''YY'' match1to2 (Some match2)
       (addRegexToken ''Y'' matchSigned None R))))"

definition week_regexes :: "regex_table \<Rightarrow> regex_table" where
  "week_regexes R = addRegexToken ''WW'' match1to2 (Some match2) (addRegexToken ''W'' match1to2 None
     (addRegexToken ''ww'' match1to2 (Some match2) (addRegexToken ''w'' match1to2 None R)))"

definition day_of_year_regexes :: "regex_table \<Rightarrow> regex_table" where
  "day_of_year_regexes R = addRegexToken ''DDDD'' match3 None (addRegexToken ''DDD'' match1to3 None R)"

definition offset_regexes :: "regex_table \<Rightarrow> regex_table" where
  "offset_regexes R = addRegexToken ''ZZ'' matchOffset None (addRegexToken ''Z'' matchOffset None R)"

definition week_year_regexes :: "regex_table \<Rightarrow> regex_table" where
  "week_year_regexes R =
     (let R1 = addRegexToken ''g'' matchSigned None (addRegexToken ''G'' matchSigned None R);
          R2 = addRegexToken ''gg'' match1to2 (Some match2) (addRegexToken ''GG'' match1to2 (Some match2) R1);
          R3 = addRegexToken ''gggg'' match1to4 (Some match4) (addRegexToken ''GGGG'' match1to4 (Some match4) R2)
      in addRegexToken ''ggggg'' match1to6 (Some match6) (addRegexToken ''GGGGG'' match1to6 (Some match6) R3))"

definition quarter_regexes :: "regex_table \<Rightarrow> regex_table" where
  "quarter_regexes R = addRegexToken ''Q'' match1 None R"

text \<open>The lenient ordinal also accepts a bare number.\<close>

definition ordinalParseLenient :: "mlocale \<Rightarrow> matcher" where
  "ordinalParseLenient l s = (case l_ordinalParse l s of Some n \<Rightarrow> Some n | None \<Rightarrow> digits_between 1 2 s)"

definition date_regexes :: "regex_table \<Rightarrow> regex_table" where
  "date_regexes R = addRegexFunction ''Do'' (\<lambda>isStrict l. if isStrict then l_ordinalParse l else ordinalParseLenient l)
     (addRegexToken ''DD'' match1to2 (Some match2) (addRegexToken ''D'' match1to2 None R))"

definition weekday_regexes :: "regex_table \<Rightarrow> regex_table" where
  "weekday_regexes R =
     addRegexToken ''dddd'' matchWord None (addRegexToken ''ddd'' matchWord None (addRegexToken ''dd'' matchWord None
       (addRegexToken ''E'' match1to2 None (addRegexToken ''e'' match1to2 None (addRegexToken ''d'' match1to2 None R)))))"

definition matchMeridiem :: "bool \<Rightarrow> mlocale \<Rightarrow> matcher" where
  "matchMeridiem isStrict l = l_meridiemParse l"

definition hour_regexes :: "regex_table \<Rightarrow> regex_table" where
  "hour_regexes R =
     (let R1 = addRegexFunction ''A'' matchMeridiem (addRegexFunction ''a'' matchMeridiem R);
          R2 = addRegexToken ''h'' match1to2 None (addRegexToken ''H'' match1to2 None R1)
      in addRegexToken ''hh'' match1to2 (Some match2) (addRegexToken ''HH'' match1to2 (Some match2) R2))"

definition minute_regexes :: "regex_table \<Rightarrow> regex_table" where
  "minute_regexes R = addRegexToken ''mm'' match1to2 (Some match2) (addRegexToken ''m'' match1to2 None R)"

definition second_regexes :: "regex_table \<Rightarrow> regex_table" where
  "second_regexes R = addRegexToken ''ss'' match1to2 (Some match2) (addRegexToken ''s'' match1to2 None R)"

definition millisecond_regexes :: "regex_table \<Rightarrow> regex_table" where
  "millisecond_regexes R =
     (let R1 = addRegexToken ''S'' match1to3 (Some match1) R;
          R2 = addRegexToken ''SS'' match1to3 (Some match2) R1;
          R3 = addRegexToken ''SSS'' match1to3 (Some match3) R2
      in fold (\<lambda>t. addRegexToken t matchUnsigned None)
           [''SSSS'', ''SSSSS'', ''SSSSSS'', ''SSSSSSS'', ''SSSSSSSS'', ''SSSSSSSSS''] R3)"

definition timestamp_regexes :: "regex_table \<Rightarrow> regex_table" where
  "timestamp_regexes R = addRegexToken ''X'' matchTimestamp None (addRegexToken ''x'' matchSigned None R)"

definition regexes :: regex_table where
  "regexes =
     timestamp_regexes (millisecond_regexes (second_regexes (minute_regexes (hour_regexes (weekday_regexes
       (date_regexes (quarter_regexes (week_year_regexes (offset_regexes (day_of_year_regexes (week_regexes
         (year_regexes (month_regexes Map.empty)))))))))))))"

definition getParseRegexForToken :: "string \<Rightarrow> config \<Rightarrow> matcher" where
  "getParseRegexForToken token c =
     (case regexes token of
        None \<Rightarrow> matchText (unescapeFormat token)
      | Some f \<Rightarrow> f (c_strict c) (c_locale c))"

section \<open>What the tokens set\<close>

type_synonym parse_table = "string \<Rightarrow> (string \<Rightarrow> config \<Rightarrow> config) option"

definition addParseToken :: "string list \<Rightarrow> (string \<Rightarrow> config \<Rightarrow> config) \<Rightarrow> parse_table \<Rightarrow> parse_table" where
  "addParseToken ts f T = fold (\<lambda>t T. T(t \<mapsto> f)) ts T"

definition addIndexToken :: "string list \<Rightarrow> nat \<Rightarrow> parse_table \<Rightarrow> parse_table" where
  "addIndexToken ts i = addParseToken ts (\<lambda>input. put_part i (toInt_text input))"

text \<open>The callback of a week token is told which token it is called for.\<close>

definition addWeekParseToken :: "string list \<Rightarrow> (string \<Rightarrow> string \<Rightarrow> config \<Rightarrow> config) \<Rightarrow> parse_table \<Rightarrow> parse_table" where
  "addWeekParseToken ts f T =
     fold (\<lambda>t T. T(t \<mapsto> (\<lambda>input c. f t input (c\<lparr>c_w := Some (case c_w c of None \<Rightarrow> Map.empty | Some w \<Rightarrow> w)\<rparr>)))) ts T"

definition month_name_parser :: "string \<Rightarrow> string \<Rightarrow> config \<Rightarrow> config" where
  "month_name_parser token input c =
     (case localeMonthsParse (c_locale c) input token (c_strict c) of
        Some mo \<Rightarrow> put_part MONTH mo c
      | None \<Rightarrow> put_flags (\<lambda>pf. pf\<lparr>f_invalidMonth := Some input\<rparr>) c)"

definition month_parsers :: "parse_table \<Rightarrow> parse_table" where
  "month_parsers T =
     addParseToken [''MMMM''] (month_name_parser ''MMMM'')
       (addParseToken [''MMM''] (month_name_parser ''MMM'')
         (addParseToken [''M'', ''MM''] (\<lambda>input. put_part MONTH (toInt_text input - 1)) T))"

definition year_parsers :: "parse_table \<Rightarrow> parse_table" where
  "year_parsers T =
     addParseToken [''YY''] (\<lambda>input. put_part YEAR (parseTwoDigitYear input))
       (addParseToken [''YYYY''] (\<lambda>input. put_part YEAR (if length input = 2 then parseTwoDigitYear input else toInt_text input))
         (addIndexToken [''YYYYY'', ''YYYYYY''] YEAR T))"

definition week_parsers :: "parse_table \<Rightarrow> parse_table" where
  "week_parsers T = addWeekParseToken [''w'', ''ww'', ''W'', ''WW''] (\<lambda>t input. put_week (take 1 t) (toInt_text input)) T"

definition day_of_year_parsers :: "parse_table \<Rightarrow> parse_table" where
  "day_of_year_parsers T = addParseToken [''DDD'', ''DDDD''] (\<lambda>input c. c\<lparr>c_dayOfYear := Some (toInt_text input)\<rparr>) T"

definition offset_parsers :: "parse_table \<Rightarrow> parse_table" where
  "offset_parsers T =
     addParseToken [''Z'', ''ZZ''] (\<lambda>input c. c\<lparr>c_useUTC := True, c_tzm := Some (offsetFromString input)\<rparr>) T"

definition week_year_parsers :: "parse_table \<Rightarrow> parse_table" where
  "week_year_parsers T =
     addWeekParseToken [''gg'', ''GG''] (\<lambda>t input. put_week t (parseTwoDigitYear input))
       (addWeekParseToken [''gggg'', ''ggggg'', ''GGGG'', ''GGGGG''] (\<lambda>t input. put_week (take 2 t) (toInt_text input)) T)"

definition quarter_parsers :: "parse_table \<Rightarrow> parse_table" where
  "quarter_parsers T = addParseToken [''Q''] (\<lambda>input. put_part MONTH ((toInt_text input - 1) * 3)) T"

definition date_parsers :: "parse_table \<Rightarrow> parse_table" where
  "date_parsers T =
     addParseToken [''Do''] (\<lambda>input. put_part DATE (case search match1to2 input of None \<Rightarrow> 0 | Some t \<Rightarrow> toInt_text t))
       (addIndexToken [''D'', ''DD''] DATE T)"

definition weekday_name_parser :: "string \<Rightarrow> config \<Rightarrow> config" where
  "weekday_name_parser input c =
     (case localeWeekdaysParse (c_locale c) input of
        Some d \<Rightarrow> put_week ''d'' d c
      | None \<Rightarrow> put_flags (\<lambda>pf. pf\<lparr>f_invalidWeekday := Some input\<rparr>) c)"

definition weekday_parsers :: "parse_table \<Rightarrow> parse_table" where
  "weekday_parsers T =
     addWeekParseToken [''d'', ''e'', ''E''] (\<lambda>t input. put_week t (toInt_text input))
       (addWeekParseToken [''dd'', ''ddd'', ''dddd''] (\<lambda>t. weekday_name_parser) T)"

definition hour_parsers :: "parse_table \<Rightarrow> parse_table" where
  "hour_parsers T =
     addParseToken [''h'', ''hh''] (\<lambda>input c. put_flags (\<lambda>pf. pf\<lparr>f_bigHour := True\<rparr>) (put_part HOUR (toInt_text input) c))
       (addParseToken [''a'', ''A''] (\<lambda>input c. c\<lparr>c_meridiem := Some input\<rparr>) (addIndexToken [''H'', ''HH''] HOUR T))"

definition minute_parsers :: "parse_table \<Rightarrow> parse_table" where
  "minute_parsers T = addIndexToken [''m'', ''mm''] MINUTE T"

definition second_parsers :: "parse_table \<Rightarrow> parse_table" where
  "second_parsers T = addIndexToken [''s'', ''ss''] SECOND T"

definition millisecond_parsers :: "parse_table \<Rightarrow> parse_table" where
  "millisecond_parsers T =
     addParseToken [''S'', ''SS'', ''SSS'', ''SSSS'', ''SSSSS'', ''SSSSSS'', ''SSSSSSS'', ''SSSSSSSS'', ''SSSSSSSSS'']
       (\<lambda>input. put_part MILLISECOND (parseMs input)) T"

definition timestamp_parsers :: "parse_table \<Rightarrow> parse_table" where
  "timestamp_parsers T =
     addParseToken [''x''] (\<lambda>input c. c\<lparr>c_d := Some (TimeClip (toInt_text input))\<rparr>)
       (addParseToken [''X''] (\<lambda>input c. c\<lparr>c_d := Some (TimeClip (timestamp_ms input))\<rparr>) T)"

definition parse_tokens :: parse_table where
  "parse_tokens =
     timestamp_parsers (millisecond_parsers (second_parsers (minute_parsers (hour_parsers (weekday_parsers
       (date_parsers (quarter_parsers (week_year_parsers (offset_parsers (day_of_year_parsers (week_parsers
         (year_parsers (month_parsers Map.empty)))))))))))))"

definition addTimeToArrayFromToken :: "string \<Rightarrow> string option \<Rightarrow> config \<Rightarrow> config" where
  "addTimeToArrayFromToken token input c =
     (case (input, parse_tokens token) of (Some t, Some f) \<Rightarrow> f t c | _ \<Rightarrow> c)"

section \<open>A text and a format\<close>

definition meridiemFixWrap :: "mlocale \<Rightarrow> slot \<Rightarrow> string option \<Rightarrow> slot" where
  "meridiemFixWrap l hour half =
     (case half of
        None \<Rightarrow> hour
      | Some t \<Rightarrow>
          (let isPm = l_isPM l t
           in if isPm \<and> below hour 12 then map_option (map_option (\<lambda>h. h + 12)) hour
              else if \<not> isPm \<and> hour = Some (Some 12) then Some (Some 0) else hour))"

text \<open>
  One token: the first match of its expression in the rest of the text is consumed together with
  what stands before it. The result is the configuration, the rest and the length matched.
\<close>

definition parse_token :: "string \<Rightarrow> config \<times> string \<times> nat \<Rightarrow> config \<times> string \<times> nat" where
  "parse_token token st =
     (case st of (c, s, n) \<Rightarrow>
       (let found = (case search (getParseRegexForToken token c) s of
                       None \<Rightarrow> None
                     | Some t \<Rightarrow> if t = [] then None else map_option (\<lambda>(pre, post). (pre, t, post)) (split_at_first t s));
            c1 = (case found of
                    Some (pre, t, post) \<Rightarrow> if pre \<noteq> [] then put_flags (\<lambda>pf. pf\<lparr>f_unusedInput := f_unusedInput pf @ [pre]\<rparr>) c else c
                  | None \<Rightarrow> c);
            s1 = (case found of Some (pre, t, post) \<Rightarrow> post | None \<Rightarrow> s);
            n1 = (case found of Some (pre, t, post) \<Rightarrow> n + length t | None \<Rightarrow> n);
            unused = (\<lambda>pf. pf\<lparr>f_unusedTokens := f_unusedTokens pf @ [token]\<rparr>)
        in if formatTokenFunctions token \<noteq> None then
             (let c2 = put_flags (if found = None then unused else (\<lambda>pf. pf\<lparr>f_empty := False\<rparr>)) c1
              in (addTimeToArrayFromToken token (map_option (\<lambda>(pre, t, post). t) found) c2, s1, n1))
           else if c_strict c \<and> found = None then (put_flags unused c1, s1, n1)
           else (c1, s1, n1)))"

definition finish_parse :: "string \<Rightarrow> config \<times> string \<times> nat \<Rightarrow> config" where
  "finish_parse s st =
     (case st of (c, r, n) \<Rightarrow>
       (let c1 = put_flags (\<lambda>pf. pf\<lparr>f_charsLeftOver := length s - n,
                   f_unusedInput := f_unusedInput pf @ (if r \<noteq> [] then [r] else [])\<rparr>) c;
            hour = c_a c1 ! HOUR;
            c2 = (if f_bigHour (c_pf c1) \<and> below hour 13 \<and> above hour 0 then put_flags (\<lambda>pf. pf\<lparr>f_bigHour := False\<rparr>) c1 else c1)
        in c2\<lparr>c_a := (c_a c2)[HOUR := meridiemFixWrap (c_locale c2) hour (c_meridiem c2)]\<rparr>))"

definition configFromStringAndFormat :: "zone \<Rightarrow> int \<Rightarrow> string \<Rightarrow> string \<Rightarrow> config \<Rightarrow> config" where
  "configFromStringAndFormat z now s fmt c0 =
     (let c = put_flags (\<lambda>pf. pf\<lparr>f_empty := True\<rparr>) (c0\<lparr>c_a := no_parts\<rparr>);
          ts = tokenize (expandFormat fmt (c_locale c))
      in checkOverflow (configFromArray z now (finish_parse s (fold parse_token ts (c, s, 0)))))"

section \<open>ISO 8601\<close>

text \<open>
  \<open>from_string__isoRegex\<close> on a text: \<open>None\<close> if it does not match, otherwise the separator
  before the time, \<open>Some None\<close> if there is none. No two alternatives match the same text, so that
  the parts can be cut off from left to right.
\<close>

definition space_char :: "char \<Rightarrow> bool" where
  "space_char c \<longleftrightarrow> c \<in> {CHR '' '', CHR 0x09, CHR 0x0A, CHR 0x0B, CHR 0x0C, CHR 0x0D, CHR 0xA0}"

definition cut :: "matcher \<Rightarrow> string \<Rightarrow> string option" where
  "cut r s = map_option (\<lambda>n. drop n s) (r s)"

definition iso_year :: "string \<Rightarrow> string option" where
  "iso_year s =
     (case s of
        [] \<Rightarrow> None
      | c # cs \<Rightarrow> if c \<in> set ''+-'' then cut (digits_between 6 6) cs else cut match4 s)"

definition iso_day :: "string \<Rightarrow> string option" where
  "iso_day s =
     (case s of
        [] \<Rightarrow> None
      | c # cs \<Rightarrow>
          if c = CHR ''W'' then
            Option.bind (cut match2 cs) (\<lambda>r. if r = [] then Some r else Option.bind (cut (matchText ''-'') r) (cut match1))
          else
            (case Option.bind (cut match2 s) (\<lambda>r. Option.bind (cut (matchText ''-'') r) (cut match2)) of
               Some r \<Rightarrow> Some r
             | None \<Rightarrow> cut match3 s))"

text \<open>Hours, and optionally minutes, seconds and decimals.\<close>

definition iso_time :: "string \<Rightarrow> string" where
  "iso_time s =
     (let more = (\<lambda>mark r t. Option.bind (cut (matchText mark) t) (cut r)) in
      case cut match2 s of
        None \<Rightarrow> s
      | Some a \<Rightarrow>
          (case more '':'' match2 a of
             None \<Rightarrow> a
           | Some b \<Rightarrow>
               (case more '':'' match2 b of
                  None \<Rightarrow> b
                | Some d \<Rightarrow> (case more ''.'' matchUnsigned d of None \<Rightarrow> d | Some e \<Rightarrow> e))))"

definition iso_offset_end :: "string \<Rightarrow> bool" where
  "iso_offset_end s \<longleftrightarrow>
     s = [] \<or> dropWhile space_char s = ''Z'' \<or>
     hd s \<in> set ''+-'' \<and>
       (case cut match2 (tl s) of
          None \<Rightarrow> False
        | Some r \<Rightarrow> r = [] \<or> cut match2 r = Some [] \<or> hd r = CHR '':'' \<and> cut match2 (tl r) = Some [])"

definition isoRegex :: "string \<Rightarrow> char option option" where
  "isoRegex s =
     (case Option.bind (Option.bind (iso_year (dropWhile space_char s)) (cut (matchText ''-''))) iso_day of
        None \<Rightarrow> None
      | Some r \<Rightarrow>
          (case r of
             [] \<Rightarrow> Some None
           | c # cs \<Rightarrow> if (c = CHR ''T'' \<or> c = CHR '' '') \<and> iso_offset_end (iso_time cs) then Some (Some c) else None))"

fun seq_match :: "matcher list \<Rightarrow> matcher" where
  "seq_match [] s = Some 0"
| "seq_match (r # rs) s =
     (case r s of None \<Rightarrow> None | Some n \<Rightarrow> map_option (\<lambda>k. n + k) (seq_match rs (drop n s)))"

definition sign_match :: matcher where
  "sign_match s = (case s of [] \<Rightarrow> None | c # cs \<Rightarrow> if c \<in> set ''+-'' then Some 1 else None)"

definition time_mark :: matcher where
  "time_mark s = (case s of [] \<Rightarrow> None | c # cs \<Rightarrow> if c = CHR ''T'' \<or> c = CHR '' '' then Some 1 else None)"

definition isoDates :: "(string \<times> matcher) list" where
  "isoDates =
     (let dash = matchText ''-'' in
      [(''YYYYYY-MM-DD'', seq_match [sign_match, digits_between 6 6, dash, match2, dash, match2]),
       (''YYYY-MM-DD'', seq_match [match4, dash, match2, dash, match2]),
       (''GGGG-[W]WW-E'', seq_match [match4, matchText ''-W'', match2, dash, match1]),
       (''GGGG-[W]WW'', seq_match [match4, matchText ''-W'', match2]),
       (''YYYY-DDD'', seq_match [match4, dash, match3])])"

definition isoTimes :: "(string \<times> matcher) list" where
  "isoTimes =
     (let colon = matchText '':'' in
      [(''HH:mm:ss.SSSS'', seq_match [time_mark, match2, colon, match2, colon, match2, matchText ''.'', matchUnsigned]),
       (''HH:mm:ss'', seq_match [time_mark, match2, colon, match2, colon, match2]),
       (''HH:mm'', seq_match [time_mark, match2, colon, match2]),
       (''HH'', seq_match [time_mark, match2])])"

definition first_format :: "(string \<times> matcher) list \<Rightarrow> string \<Rightarrow> string option" where
  "first_format table s = map_option fst (find (\<lambda>(f, r). search r s \<noteq> None) table)"

text \<open>
  The format that \<open>configFromISO\<close> derives. When no date format fits, the code appends to
  \<open>undefined\<close>; every text that the expression accepts fits one (the year then may not).
\<close>

definition iso_format :: "string \<Rightarrow> string option" where
  "iso_format s =
     (case isoRegex s of
        None \<Rightarrow> None
      | Some sep \<Rightarrow>
          (let d = (case first_format isoDates s of None \<Rightarrow> ''undefined'' | Some f \<Rightarrow> f);
               t = (case first_format isoTimes s of
                      None \<Rightarrow> [] | Some f \<Rightarrow> (case sep of None \<Rightarrow> '' '' | Some c \<Rightarrow> [c]) @ f);
               offs = (if search matchOffset s \<noteq> None then ''Z'' else [])
           in Some (d @ t @ offs)))"

definition configFromISO :: "zone \<Rightarrow> int \<Rightarrow> string \<Rightarrow> config \<Rightarrow> config option" where
  "configFromISO z now s c =
     map_option (\<lambda>f. configFromStringAndFormat z now s f (put_flags (\<lambda>pf. pf\<lparr>f_iso := True\<rparr>) c)) (iso_format s)"

text \<open>\<open>/Date(1198908717056-0700)/\<close>, without regard to case: the number after the parenthesis.\<close>

definition aspNetJson :: "string \<Rightarrow> int option" where
  "aspNetJson s =
     (let r = (case s of [] \<Rightarrow> [] | c # cs \<Rightarrow> if c = CHR ''/'' then cs else s)
      in if toLowerCase (take 5 r) = ''date('' then
           (let t = drop 5 r; neg = (t \<noteq> [] \<and> hd t = CHR ''-''); ds = takeWhile is_digit (if neg then tl t else t)
            in if ds = [] then None else Some (if neg then - int (digits_value ds) else int (digits_value ds)))
         else None)"

definition configFromString :: "browser_dates \<Rightarrow> zone \<Rightarrow> int \<Rightarrow> string \<Rightarrow> config \<Rightarrow> config" where
  "configFromString br z now s c =
     (case aspNetJson s of
        Some n \<Rightarrow> c\<lparr>c_d := Some (TimeClip n)\<rparr>
      | None \<Rightarrow>
          (case configFromISO z now s c of
             Some c1 \<Rightarrow> c1
           | None \<Rightarrow> c\<lparr>c_d := Some (native_parse br (s @ (if c_useUTC c then '' UTC'' else [])))\<rparr>))"

section \<open>A text and several formats\<close>

definition format_score :: "config \<Rightarrow> nat" where
  "format_score c = f_charsLeftOver (c_pf c) + length (f_unusedTokens (c_pf c)) * 10"

text \<open>The state of the loop: the best configuration with its score, and the last one tried.\<close>

definition try_format :: "zone \<Rightarrow> int \<Rightarrow> string \<Rightarrow> config \<Rightarrow> string \<Rightarrow> (config \<times> nat) option \<times> config
    \<Rightarrow> (config \<times> nat) option \<times> config" where
  "try_format z now s c fmt st =
     (let t = configFromStringAndFormat z now s fmt c in
      (if \<not> valid_config t then fst st
       else case fst st of
              None \<Rightarrow> Some (t, format_score t)
            | Some (b, score) \<Rightarrow> if format_score t < score then Some (t, format_score t) else Some (b, score), t))"

definition configFromStringAndArray :: "zone \<Rightarrow> int \<Rightarrow> string \<Rightarrow> string list \<Rightarrow> config \<Rightarrow> config" where
  "configFromStringAndArray z now s formats c =
     (if formats = [] then (put_flags (\<lambda>pf. pf\<lparr>f_invalidFormat := True\<rparr>) c)\<lparr>c_d := Some None\<rparr>
      else (case fold (try_format z now s c) formats (None, c) of
              (Some (b, score), t) \<Rightarrow> b
            | (None, t) \<Rightarrow> t))"

section \<open>Other inputs\<close>

datatype input =
    Missing
  | NullInput
  | DateInput "int option"
  | TextInput string
  | ArrayInput "int list"
  | ObjectInput "(string \<times> int) list"
  | NumberInput int
  | MomentInput moment

datatype format_arg = NoFormat | OneFormat string | Formats "string list" | ISO_8601

definition parts_of_list :: "int list \<Rightarrow> slot list" where
  "parts_of_list xs = map (\<lambda>i. if i < length xs then Some (Some (xs ! i)) else None) [0..<7]"

text \<open>\<open>i.day || i.date\<close>: a day of zero falls back to the date.\<close>

definition configFromObject :: "zone \<Rightarrow> int \<Rightarrow> (string \<times> int) list \<Rightarrow> config \<Rightarrow> config" where
  "configFromObject z now obj c =
     (let i = normalizeObjectUnits obj; slot = (\<lambda>k. map_option Some (i k));
          date = (case i ''day'' of Some n \<Rightarrow> if n \<noteq> 0 then Some (Some n) else slot ''date'' | None \<Rightarrow> slot ''date'')
      in configFromArray z now (c\<lparr>c_a := [slot ''year'', slot ''month'', date, slot ''hour'', slot ''minute'',
           slot ''second'', slot ''millisecond'']\<rparr>))"

definition configFromInput :: "browser_dates \<Rightarrow> zone \<Rightarrow> int \<Rightarrow> input \<Rightarrow> config \<Rightarrow> config" where
  "configFromInput br z now inp c =
     (case inp of
        Missing \<Rightarrow> c\<lparr>c_d := Some (Some now)\<rparr>
      | DateInput t \<Rightarrow> c\<lparr>c_d := Some t\<rparr>
      | TextInput s \<Rightarrow> configFromString br z now s c
      | ArrayInput xs \<Rightarrow> configFromArray z now (c\<lparr>c_a := parts_of_list xs\<rparr>)
      | ObjectInput obj \<Rightarrow> configFromObject z now obj c
      | NumberInput n \<Rightarrow> c\<lparr>c_d := Some (TimeClip n)\<rparr>
      | _ \<Rightarrow> c)"

definition fresh_config :: "mlocale \<Rightarrow> bool \<Rightarrow> bool \<Rightarrow> config" where
  "fresh_config l strict isUTC = \<lparr>c_a = [], c_w = None, c_dayOfYear = None, c_meridiem = None, c_tzm = None,
     c_useUTC = isUTC, c_isUTC = isUTC, c_strict = strict, c_locale = l, c_d = None, c_nextDay = False,
     c_pf = defaultParsingFlags\<rparr>"

text \<open>
  \<open>new Moment(config)\<close>: of what the configuration holds, a moment keeps the date, mode, offset
  found in the text, locale and flags.
\<close>

definition moment_of_config :: "config \<Rightarrow> moment" where
  "moment_of_config c =
     (let d = (case c_d c of None \<Rightarrow> None | Some t \<Rightarrow> t)
      in \<lparr>m_d = d, m_isUTC = c_isUTC c, m_offset = None, m_locale = c_locale c,
          m_flags_ok = valid_config (c\<lparr>c_d := Some (Some 0)\<rparr>), m_tzm = c_tzm c\<rparr>)"

definition createInvalid :: "mlocale \<Rightarrow> (flags \<Rightarrow> flags) option \<Rightarrow> moment" where
  "createInvalid l f =
     (let pf = (case f of None \<Rightarrow> defaultParsingFlags\<lparr>f_userInvalidated := True\<rparr> | Some g \<Rightarrow> g defaultParsingFlags);
          c = (fresh_config l False True)\<lparr>c_d := Some None, c_pf := pf\<rparr>
      in (moment_of_config c)\<lparr>m_offset := Some 0\<rparr>)"

text \<open>A text or \<open>null\<close> is checked before the format; any other input with a format is printed first.\<close>

definition input_text :: "browser_dates \<Rightarrow> input \<Rightarrow> string" where
  "input_text br inp =
     (case inp of TextInput s \<Rightarrow> s | NumberInput n \<Rightarrow> show_int n
      | ArrayInput xs \<Rightarrow> join_with '','' (map show_int xs) | ObjectInput obj \<Rightarrow> ''[object Object]'' | DateInput t \<Rightarrow> date_text br t
      | _ \<Rightarrow> ''undefined'')"

definition prepareConfig ::
  "browser_dates \<Rightarrow> zone \<Rightarrow> int \<Rightarrow> input \<Rightarrow> format_arg \<Rightarrow> config \<Rightarrow> moment" where
  "prepareConfig br z now inp fmt c =
     (case inp of
        NullInput \<Rightarrow> createInvalid (c_locale c) (Some (\<lambda>pf. pf\<lparr>f_nullInput := True\<rparr>))
      | MomentInput m \<Rightarrow> m
      | _ \<Rightarrow>
          if inp = TextInput [] \<and> fmt = NoFormat then createInvalid (c_locale c) (Some (\<lambda>pf. pf\<lparr>f_nullInput := True\<rparr>))
          else moment_of_config (checkOverflow
            (case fmt of
               Formats fs \<Rightarrow> configFromStringAndArray z now (input_text br inp) fs c
             | OneFormat f \<Rightarrow> if f = [] then configFromInput br z now inp c
                             else configFromStringAndFormat z now (input_text br inp) f c
             | ISO_8601 \<Rightarrow> (case configFromISO z now (input_text br inp) c of None \<Rightarrow> c | Some c1 \<Rightarrow> c1)
             | NoFormat \<Rightarrow> configFromInput br z now inp c)))"

definition createLocalOrUTC ::
  "browser_dates \<Rightarrow> zone \<Rightarrow> int \<Rightarrow> mlocale \<Rightarrow> input \<Rightarrow> format_arg \<Rightarrow> bool \<Rightarrow> bool \<Rightarrow> moment" where
  "createLocalOrUTC br z now l inp fmt strict isUTC =
     prepareConfig br z now inp fmt (fresh_config l strict isUTC)"

definition createLocal :: "browser_dates \<Rightarrow> zone \<Rightarrow> int \<Rightarrow> mlocale \<Rightarrow> input \<Rightarrow> format_arg \<Rightarrow> bool \<Rightarrow> moment" where
  "createLocal br z now l inp fmt strict = createLocalOrUTC br z now l inp fmt strict False"

definition createUTC :: "browser_dates \<Rightarrow> zone \<Rightarrow> int \<Rightarrow> mlocale \<Rightarrow> input \<Rightarrow> format_arg \<Rightarrow> bool \<Rightarrow> moment" where
  "createUTC br z now l inp fmt strict =
     setOffsetToUTC z False (createLocalOrUTC br z now l inp fmt strict True)"

definition setOffsetToParsedOffset :: "zone \<Rightarrow> string option \<Rightarrow> moment \<Rightarrow> moment" where
  "setOffsetToParsedOffset z text m =
     (case m_tzm m of
        Some n \<Rightarrow> if n \<noteq> 0 then set_utcOffset z n False m
                 else (case text of None \<Rightarrow> m | Some s \<Rightarrow> set_utcOffset z (offsetFromString s) False m)
      | None \<Rightarrow> (case text of None \<Rightarrow> m | Some s \<Rightarrow> set_utcOffset z (offsetFromString s) False m))"

definition createInZone :: "browser_dates \<Rightarrow> zone \<Rightarrow> int \<Rightarrow> mlocale \<Rightarrow> string \<Rightarrow> format_arg \<Rightarrow> bool \<Rightarrow> moment" where
  "createInZone br z now l s fmt strict =
     setOffsetToParsedOffset z (Some s) (createLocal br z now l (TextInput s) fmt strict)"

text \<open>\<open>formatDate\<close> of app.js: \<open>moment(date).format('YYYY-MM-D hh:mm:ss')\<close>.\<close>

definition formatDate :: "browser_dates \<Rightarrow> zone \<Rightarrow> int \<Rightarrow> mlocale \<Rightarrow> string \<Rightarrow> string option" where
  "formatDate br z now l date = formatDate_moment z (createLocal br z now l (TextInput date) NoFormat False)"

section \<open>Matching digits\<close>

lemma takeWhile_digits: "\<forall>c\<in>set p. is_digit c \<Longrightarrow> takeWhile is_digit (p @ r) = p @ takeWhile is_digit r"
  by (induction p) simp_all

lemma digits_between_full:
  "\<forall>c\<in>set p. is_digit c \<Longrightarrow> length p = b \<Longrightarrow> a \<le> b \<Longrightarrow> digits_between a b (p @ r) = Some b"
  by (simp add: digits_between_def takeWhile_digits Let_def)

lemma digits_between_stop:
  "\<forall>c\<in>set p. is_digit c \<Longrightarrow> a \<le> length p \<Longrightarrow> length p \<le> b \<Longrightarrow> \<not> is_digit c \<Longrightarrow>
     digits_between a b (p @ c # r) = Some (length p)"
  by (simp add: digits_between_def takeWhile_digits Let_def)

lemma two_digits:
  assumes "0 \<le> k" and "k < 100"
  obtains a b where "zeroFill k 2 False = [a, b]" "is_digit a" "is_digit b" "digits_value [a, b] = nat k"
proof -
  have k: "k < 10 ^ 2" "0 < (2::nat)" using assms(2) by simp_all
  note f = zeroFill_facts [OF assms(1) k]
  obtain a b where e: "zeroFill k 2 False = [a, b]"
    using f(1) by (auto simp: length_Suc_conv numeral_2_eq_2)
  show thesis using that [OF e] f(2,3) unfolding e by simp
qed

lemma match2_two [simp]: "is_digit a \<Longrightarrow> is_digit b \<Longrightarrow> match2 (a # b # r) = Some 2"
  by (simp add: match2_def digits_between_def Let_def)

lemma digit_not_mark:
  "is_digit c \<Longrightarrow> c \<noteq> CHR ''+'' \<and> c \<noteq> CHR ''-'' \<and> c \<noteq> CHR '':'' \<and> c \<noteq> CHR ''.'' \<and> c \<noteq> CHR ''Z'' \<and> c \<noteq> CHR ''z''
     \<and> c \<noteq> CHR ''T'' \<and> c \<noteq> CHR '' '' \<and> c \<noteq> CHR ''W'' \<and> c \<noteq> CHR ''/'' \<and> c \<noteq> CHR ''D'' \<and> c \<noteq> CHR ''d''"
  by (auto simp: is_digit_def)

lemma toInt_digits: "is_digit c \<Longrightarrow> toInt_text (c # cs) = int (digits_value (c # cs))"
  using digit_not_mark by (auto simp: toInt_text_def)

section \<open>Offsets\<close>

lemma offsets_in_hit: "matchOffset (c # cs) = Some n \<Longrightarrow> offsets_in (c # cs) = take n (c # cs) # offsets_in (drop (n - 1) cs)"
  by simp

lemma chunk_sign: "c \<in> set ''+-'' \<Longrightarrow> chunkOffset (c # cs) = [c] # chunkOffset cs"
  by simp

lemma chunk_digits:
  "c \<noteq> CHR ''+'' \<Longrightarrow> c \<noteq> CHR ''-'' \<Longrightarrow> match2 (c # d # r) = Some 2 \<Longrightarrow> chunkOffset (c # d # r) = [c, d] # chunkOffset r"
  by simp

lemma chunk_other:
  "c \<noteq> CHR ''+'' \<Longrightarrow> c \<noteq> CHR ''-'' \<Longrightarrow> match2 (c # cs) = None \<Longrightarrow> chunkOffset (c # cs) = chunkOffset cs"
  by simp

declare offsets_in.simps(2) [simp del] chunkOffset.simps(2) [simp del]

text \<open>
  Claim C12: the text of an offset, with or without the colon, is read back as the offset, for every
  offset of less than a hundred hours, negative ones included.
\<close>

theorem offset_roundtrip:
  assumes "\<bar>n\<bar> < 6000" and "separator = [] \<or> separator = '':''"
  shows "offsetFromString (offset_text separator n) = n"
proof -
  have q: "0 \<le> \<bar>n\<bar> div 60" "\<bar>n\<bar> div 60 < 100" "0 \<le> \<bar>n\<bar> mod 60" "\<bar>n\<bar> mod 60 < 100"
    using assms(1) pos_mod_bound [of 60 "\<bar>n\<bar>"] div_range(1) [of 60 "\<bar>n\<bar>"]
    by (simp add: pos_imp_zdiv_nonneg_iff, linarith, simp, linarith)
  obtain a b where ab: "zeroFill (\<bar>n\<bar> div 60) 2 False = [a, b]" "is_digit a" "is_digit b" "digits_value [a, b] = nat (\<bar>n\<bar> div 60)"
    using two_digits [OF q(1,2)] by blast
  obtain c d where cd: "zeroFill (\<bar>n\<bar> mod 60) 2 False = [c, d]" "is_digit c" "is_digit d" "digits_value [c, d] = nat (\<bar>n\<bar> mod 60)"
    using two_digits [OF q(3,4)] by blast
  define sign where "sign = (if n < 0 then CHR ''-'' else CHR ''+'')"
  have t: "offset_text separator n = sign # [a, b] @ separator @ [c, d]"
    by (simp add: offset_text_def sign_def ab cd Let_def)
  have s: "sign \<in> set ''+-''" "sign \<noteq> CHR ''Z''" "sign \<noteq> CHR ''z''" by (simp_all add: sign_def)
  have nd: "c \<noteq> CHR '':''" "a \<noteq> CHR ''+''" "a \<noteq> CHR ''-''" "b \<noteq> CHR ''+''" "b \<noteq> CHR ''-''" "c \<noteq> CHR ''+''" "c \<noteq> CHR ''-''"
    using digit_not_mark ab cd by blast+
  have m: "\<not> is_digit CHR '':''" by (simp add: is_digit_def)
  have m': "match2 (CHR '':'' # r) = None" for r by (simp add: match2_def digits_between_def m)
  have m2: "match2 (a # b # r) = Some 2" "match2 (c # d # r) = Some 2" for r using ab cd by simp_all
  have "matchOffset (sign # [a, b] @ separator @ [c, d]) = Some (length (sign # [a, b] @ separator @ [c, d]))"
    using assms(2)
  proof
    assume "separator = []"
    then show ?thesis using s nd(1) m2 by (simp add: matchOffset_def Let_def)
  next
    assume "separator = '':''"
    then show ?thesis using s m2 by (simp add: matchOffset_def Let_def)
  qed
  then have w: "offsets_in (sign # [a, b] @ separator @ [c, d]) = [sign # [a, b] @ separator @ [c, d]]"
    using offsets_in_hit by simp
  have "chunkOffset (separator @ [c, d]) = [[c, d]]"
    using assms(2)
  proof
    assume "separator = []"
    then show ?thesis using chunk_digits [OF nd(6,7) m2(2)] by simp
  next
    assume "separator = '':''"
    then show ?thesis using chunk_digits [OF nd(6,7) m2(2)] chunk_other [of "CHR '':''"] m' by simp
  qed
  then have k: "chunkOffset (sign # [a, b] @ separator @ [c, d]) = [[sign], [a, b], [c, d]]"
    using chunk_digits [OF nd(2,3) m2(1)] chunk_sign [OF s(1)] by simp
  have v: "toInt_text [a, b] = \<bar>n\<bar> div 60" "toInt_text [c, d] = \<bar>n\<bar> mod 60"
    using ab cd q by (simp_all add: toInt_digits)
  have "\<bar>n\<bar> div 60 * 60 + \<bar>n\<bar> mod 60 = \<bar>n\<bar>" by simp
  then show ?thesis
    unfolding t offsetFromString_def w using k v by (simp add: Let_def sign_def)
qed

lemma offset_roundtrip_witness: "offsetFromString (offset_text '':'' (- 330)) = - 330"
  by (rule offset_roundtrip) simp_all

end
