(* ===== verification/MomentRoundtrip.thy ===== *)
theory MomentRoundtrip imports Main Prelude JsValue Decimal JsDate MomentLocale MomentDuration MomentCore MomentCalendar
  MomentUnits MomentManip MomentFormat MomentParse begin

text \<open>
  The parser of moment.js against its formatter: which parts a date is accepted with, how one token
  consumes the text, and that the ISO 8601 text of a moment is read back as that moment.
\<close>

section \<open>Overflow\<close>

definition parts :: "int list \<Rightarrow> slot list" where
  "parts xs = map (\<lambda>x. Some (Some x)) xs"

lemma part_simps [simp]:
  "parts [y, mo, d, h, mi, s, ms] ! YEAR = Some (Some y)" "parts [y, mo, d, h, mi, s, ms] ! MONTH = Some (Some mo)"
  "parts [y, mo, d, h, mi, s, ms] ! DATE = Some (Some d)" "parts [y, mo, d, h, mi, s, ms] ! HOUR = Some (Some h)"
  "parts [y, mo, d, h, mi, s, ms] ! MINUTE = Some (Some mi)" "parts [y, mo, d, h, mi, s, ms] ! SECOND = Some (Some s)"
  "parts [y, mo, d, h, mi, s, ms] ! MILLISECOND = Some (Some ms)"
  by (simp_all add: parts_def YEAR_def MONTH_def DATE_def HOUR_def MINUTE_def SECOND_def MILLISECOND_def numeral_eq_Suc)

lemma slot_simps [simp]:
  "below (Some (Some n)) k \<longleftrightarrow> n < k" "above (Some (Some n)) k \<longleftrightarrow> k < n"
  by (simp_all add: below_def above_def)

lemma index_values:
  "int MONTH = 1" "int DATE = 2" "int HOUR = 3" "int MINUTE = 4" "int SECOND = 5" "int MILLISECOND = 6"
  by (simp_all add: MONTH_def DATE_def HOUR_def MINUTE_def SECOND_def MILLISECOND_def)

lemma overflow_accepts:
  assumes "y \<noteq> 0" and "safe_year y" and "y < 275000"
  shows "overflow_of (parts [y, mo, d, h, mi, s, ms]) = - 1 \<longleftrightarrow>
    valid_civil y mo d \<and> (valid_time h mi s ms \<or> h = 24 \<and> mi = 0 \<and> s = 0 \<and> ms = 0)"
proof (cases "0 \<le> mo \<and> mo \<le> 11")
  case True
  have "0 \<le> (mo + 1) div 12" using True by (simp add: pos_imp_zdiv_nonneg_iff)
  moreover have "(mo + 1) div 12 \<le> 1" using conjunct2 [OF True] div_range(1) [of 12 "mo + 1"] by linarith
  ultimately have "safe_year (y + (mo + 1) div 12)" using assms(2,3) by (simp add: safe_year_def)
  then have "daysInMonth y mo = Some (month_length (leap y) mo)"
    using daysInMonth_civil [of y mo] assms(1) True by (auto simp: linorder_neq_iff)
  then have k: "days_of_parts (parts [y, mo, d, h, mi, s, ms]) = Some (month_length (leap y) mo)"
    by (simp add: days_of_parts_def)
  have e: "overflow_of (parts [y, mo, d, h, mi, s, ms]) =
      (if d < 1 \<or> month_length (leap y) mo < d then 2
       else if h < 0 \<or> 24 < h \<or> h = 24 \<and> (mi \<noteq> 0 \<or> s \<noteq> 0 \<or> ms \<noteq> 0) then 3
       else if mi < 0 \<or> 59 < mi then 4 else if s < 0 \<or> 59 < s then 5
       else if ms < 0 \<or> 999 < ms then 6 else - 1)"
    unfolding overflow_of_def Let_def part_simps slot_simps k option.case index_values using True by auto
  show ?thesis unfolding e valid_civil_def valid_time_def using True by auto
next
  case False
  then show ?thesis unfolding overflow_of_def Let_def part_simps slot_simps index_values by (auto simp: valid_civil_def)
qed

text \<open>
  Claim C11: for the years from -271000 to 274999 but the year 0, the overflow check of parsed parts that are
  all there and have not been checked before, where no day of the year was out of range, accepts exactly the
  dates of the calendar with a time of the day and midnight written as 24:00:00.000: no other date that does not
  exist is let through and none that exists is refused.
\<close>

theorem overflow_exact:
  assumes "y \<noteq> 0" and "safe_year y" and "y < 275000" and "c_a c = parts [y, mo, d, h, mi, s, ms]"
    and "f_overflow (c_pf c) = - 2" and "\<not> f_overflowDayOfYear (c_pf c)"
  shows "f_overflow (c_pf (checkOverflow c)) = - 1 \<longleftrightarrow>
    valid_civil y mo d \<and> (valid_time h mi s ms \<or> h = 24 \<and> mi = 0 \<and> s = 0 \<and> ms = 0)"
proof -
  have "f_overflow (c_pf (checkOverflow c)) = overflow_of (parts [y, mo, d, h, mi, s, ms])"
    using assms(4-6) by (simp add: checkOverflow_def Let_def put_flags_def parts_def)
  then show ?thesis using overflow_accepts [OF assms(1-3)] by simp
qed

lemma overflow_exact_witness:
  "f_overflow (c_pf (checkOverflow ((fresh_config en_locale False True)\<lparr>c_a := parts [2015, 1, 29, 0, 0, 0, 0]\<rparr>))) \<noteq> - 1"
proof -
  have h: "(2015::int) \<noteq> 0" "safe_year 2015" "(2015::int) < 275000" by (simp_all add: safe_year_def)
  have "\<not> valid_civil 2015 1 29" by (simp add: valid_civil_def month_length_def month_start_def leap_def)
  then show ?thesis
    using overflow_exact [OF h, of "(fresh_config en_locale False True)\<lparr>c_a := parts [2015, 1, 29, 0, 0, 0, 0]\<rparr>" 1 29 0 0 0 0]
    by (simp add: fresh_config_def defaultParsingFlags_def)
qed

section \<open>One token\<close>

lemma split_at_prefix: "t \<noteq> [] \<Longrightarrow> split_at_first t (t @ r) = Some ([], r)"
  by (cases t) simp_all

lemma search_start: "s = t @ r \<Longrightarrow> t \<noteq> [] \<Longrightarrow> f s = Some (length t) \<Longrightarrow> search f s = Some t"
  by (cases t) auto

lemma parse_known:
  assumes "s = t @ r" and "t \<noteq> []" and "regexes token = Some f" and "f (c_strict c) (c_locale c) s = Some (length t)"
    and "formatTokenFunctions token \<noteq> None" and "parse_tokens token = Some g"
  shows "parse_token token (c, s, n) = (g t (put_flags (\<lambda>pf. pf\<lparr>f_empty := False\<rparr>) c), r, n + length t)"
proof -
  have "search (getParseRegexForToken token c) s = Some t"
    using search_start [OF assms(1,2)] assms(3,4) by (simp add: getParseRegexForToken_def)
  then show ?thesis
    using assms(2,5,6) split_at_prefix [OF assms(2), of r] assms(1)
    by (simp add: parse_token_def Let_def addTimeToArrayFromToken_def)
qed

lemma parse_literal:
  assumes "s = t @ r" and "t \<noteq> []" and "regexes token = None" and "unescapeFormat token = t"
    and "formatTokenFunctions token = None"
  shows "parse_token token (c, s, n) = (c, r, n + length t)"
proof -
  have "search (getParseRegexForToken token c) s = Some t"
    using search_start [OF assms(1,2), of "matchText t"] assms(1,3,4)
    by (simp add: getParseRegexForToken_def matchText_def is_prefix_def)
  then show ?thesis
    using assms(2,5) split_at_prefix [OF assms(2), of r] assms(1) by (simp add: parse_token_def Let_def)
qed

lemmas regex_groups =
  regexes_def timestamp_regexes_def millisecond_regexes_def second_regexes_def minute_regexes_def hour_regexes_def
  weekday_regexes_def date_regexes_def quarter_regexes_def week_year_regexes_def offset_regexes_def
  day_of_year_regexes_def week_regexes_def year_regexes_def month_regexes_def addRegexToken_def addRegexFunction_def
  Let_def

lemma regex_tokens:
  "regexes ''YYYY'' = Some (\<lambda>isStrict l. if isStrict then match4 else match1to4)"
  "regexes ''MM'' = Some (\<lambda>isStrict l. if isStrict then match2 else match1to2)"
  "regexes ''DD'' = Some (\<lambda>isStrict l. if isStrict then match2 else match1to2)"
  "regexes ''HH'' = Some (\<lambda>isStrict l. if isStrict then match2 else match1to2)"
  "regexes ''mm'' = Some (\<lambda>isStrict l. if isStrict then match2 else match1to2)"
  "regexes ''ss'' = Some (\<lambda>isStrict l. if isStrict then match2 else match1to2)"
  "regexes ''SSSS'' = Some (\<lambda>isStrict l. matchUnsigned)" "regexes ''Z'' = Some (\<lambda>isStrict l. matchOffset)"
  "regexes ''-'' = None" "regexes ''T'' = None" "regexes '':'' = None" "regexes ''.'' = None"
  unfolding regex_groups by simp_all

lemmas parser_groups =
  parse_tokens_def timestamp_parsers_def millisecond_parsers_def second_parsers_def minute_parsers_def hour_parsers_def
  weekday_parsers_def date_parsers_def quarter_parsers_def week_year_parsers_def offset_parsers_def
  day_of_year_parsers_def week_parsers_def year_parsers_def month_parsers_def addParseToken_def addIndexToken_def
  addWeekParseToken_def

lemma parser_tokens:
  "parse_tokens ''YYYY'' = Some (\<lambda>input. put_part YEAR (if length input = 2 then parseTwoDigitYear input else toInt_text input))"
  "parse_tokens ''MM'' = Some (\<lambda>input. put_part MONTH (toInt_text input - 1))"
  "parse_tokens ''DD'' = Some (\<lambda>input. put_part DATE (toInt_text input))"
  "parse_tokens ''HH'' = Some (\<lambda>input. put_part HOUR (toInt_text input))"
  "parse_tokens ''mm'' = Some (\<lambda>input. put_part MINUTE (toInt_text input))"
  "parse_tokens ''ss'' = Some (\<lambda>input. put_part SECOND (toInt_text input))"
  "parse_tokens ''SSSS'' = Some (\<lambda>input. put_part MILLISECOND (parseMs input))"
  "parse_tokens ''Z'' = Some (\<lambda>input c. c\<lparr>c_useUTC := True, c_tzm := Some (offsetFromString input)\<rparr>)"
  unfolding parser_groups by simp_all

lemma known_tokens:
  "formatTokenFunctions ''YYYY'' \<noteq> None" "formatTokenFunctions ''MM'' \<noteq> None" "formatTokenFunctions ''DD'' \<noteq> None"
  "formatTokenFunctions ''HH'' \<noteq> None" "formatTokenFunctions ''mm'' \<noteq> None" "formatTokenFunctions ''ss'' \<noteq> None"
  "formatTokenFunctions ''SSSS'' \<noteq> None" "formatTokenFunctions ''Z'' \<noteq> None"
  unfolding token_groups by simp_all

lemma unknown_tokens:
  "formatTokenFunctions ''-'' = None" "formatTokenFunctions ''T'' = None" "formatTokenFunctions '':'' = None"
  "formatTokenFunctions ''.'' = None"
  using lettered_table by (auto simp: lettered_def letter_key_def)

lemma unescape_tokens:
  "unescapeFormat ''-'' = ''-''" "unescapeFormat ''T'' = ''T''" "unescapeFormat '':'' = '':''" "unescapeFormat ''.'' = ''.''"
  by (simp_all add: unescapeFormat_def js_replace_def)

section \<open>Reading an ISO 8601 text\<close>

definition digits :: "nat \<Rightarrow> string \<Rightarrow> bool" where
  "digits n p \<longleftrightarrow> length p = n \<and> (\<forall>c\<in>set p. is_digit c)"

lemma digits_nonempty: "digits (Suc n) p \<Longrightarrow> p \<noteq> []"
  by (auto simp: digits_def)

lemma toInt_digits': "digits (Suc n) p \<Longrightarrow> toInt_text p = int (digits_value p)"
  by (cases p) (auto simp: digits_def toInt_digits)

lemma literal_step:
  "parse_token ''-'' (c, CHR ''-'' # r, n) = (c, r, Suc n)" "parse_token ''T'' (c, CHR ''T'' # r, n) = (c, r, Suc n)"
  "parse_token '':'' (c, CHR '':'' # r, n) = (c, r, Suc n)" "parse_token ''.'' (c, CHR ''.'' # r, n) = (c, r, Suc n)"
  using parse_literal [of _ "''-''" r "''-''"] parse_literal [of _ "''T''" r "''T''"] parse_literal [of _ "'':''" r "'':''"]
    parse_literal [of _ "''.''" r "''.''"]
  by (simp_all add: regex_tokens unknown_tokens unescape_tokens)

lemma year_step:
  assumes "digits 4 p"
  shows "parse_token ''YYYY'' (c, p @ r, n) = (put_part YEAR (int (digits_value p)) (put_flags (\<lambda>pf. pf\<lparr>f_empty := False\<rparr>) c), r, n + 4)"
proof -
  have p: "p \<noteq> []" "length p = 4" "toInt_text p = int (digits_value p)" "\<forall>c\<in>set p. is_digit c"
    using assms toInt_digits' [of 3 p] by (auto simp: digits_def)
  have "match4 (p @ r) = Some (length p)" "match1to4 (p @ r) = Some (length p)"
    using digits_between_full [OF p(4)] p(2) by (simp_all add: match4_def match1to4_def)
  then show ?thesis
    using parse_known [where c = c and n = n and r = r, OF refl p(1) regex_tokens(1) _ known_tokens(1) parser_tokens(1)] p(2,3) by simp
qed

lemma pair_step:
  assumes "digits 2 p" and "regexes token = Some (\<lambda>isStrict l. if isStrict then match2 else match1to2)"
    and "formatTokenFunctions token \<noteq> None" and "parse_tokens token = Some g"
  shows "parse_token token (c, p @ r, n) = (g p (put_flags (\<lambda>pf. pf\<lparr>f_empty := False\<rparr>) c), r, n + 2)"
proof -
  have p: "p \<noteq> []" "length p = 2" "\<forall>c\<in>set p. is_digit c" using assms(1) by (auto simp: digits_def)
  have "match2 (p @ r) = Some (length p)" "match1to2 (p @ r) = Some (length p)"
    using digits_between_full [OF p(3)] p(2) by (simp_all add: match2_def match1to2_def)
  then show ?thesis using parse_known [where c = c and n = n and r = r, OF refl p(1) assms(2) _ assms(3,4)] p(2) by simp
qed

lemma millisecond_step:
  assumes "digits 3 p"
  shows "parse_token ''SSSS'' (c, p @ CHR ''Z'' # r, n) =
    (put_part MILLISECOND (int (digits_value p)) (put_flags (\<lambda>pf. pf\<lparr>f_empty := False\<rparr>) c), CHR ''Z'' # r, n + 3)"
proof -
  have p: "p \<noteq> []" "length p = 3" "\<forall>c\<in>set p. is_digit c" using assms by (auto simp: digits_def)
  have "\<not> is_digit CHR ''Z''" by (simp add: is_digit_def)
  then have "matchUnsigned (p @ CHR ''Z'' # r) = Some (length p)"
    using p by (simp add: matchUnsigned_def takeWhile_digits)
  then show ?thesis
    using parse_known [where c = c and n = n and r = "CHR ''Z'' # r", OF refl p(1) regex_tokens(7) _ known_tokens(7) parser_tokens(7)] p(2)
    by (simp add: parseMs_def)
qed

lemma zulu_step:
  "parse_token ''Z'' (c, ''Z'', n) = ((put_flags (\<lambda>pf. pf\<lparr>f_empty := False\<rparr>) c)\<lparr>c_useUTC := True, c_tzm := Some 0\<rparr>, [], Suc n)"
proof -
  have "offsetFromString ''Z'' = 0"
    by (simp add: offsetFromString_def offsets_in_hit [of _ _ 1] matchOffset_def chunk_other match2_def digits_between_def is_digit_def)
  then show ?thesis
    using parse_known [where c = c and n = n and s = "''Z''" and t = "''Z''" and r = "[]", OF _ _ regex_tokens(8) _ known_tokens(8) parser_tokens(8)]
    by (simp add: matchOffset_def)
qed

definition iso_text :: "string \<Rightarrow> string \<Rightarrow> string \<Rightarrow> string \<Rightarrow> string \<Rightarrow> string \<Rightarrow> string \<Rightarrow> string" where
  "iso_text Y M D h mi s ms = Y @ CHR ''-'' # M @ CHR ''-'' # D @ CHR ''T'' # h @ CHR '':'' # mi @ CHR '':'' # s @ CHR ''.'' # ms @ ''Z''"

lemma iso_parse_tokens:
  "tokenize (expandFormat ''YYYY-MM-DDTHH:mm:ss.SSSSZ'' l) = [''YYYY'', ''-'', ''MM'', ''-'', ''DD'', ''T'', ''HH'', '':'',
     ''mm'', '':'', ''ss'', ''.'', ''SSSS'', ''Z'']"
proof -
  have "expandFormat ''YYYY-MM-DDTHH:mm:ss.SSSSZ'' l = ''YYYY-MM-DDTHH:mm:ss.SSSSZ''"
    by (rule expand_fixed) (simp add: next_local_def bracket_token_def is_prefix_def local_literals_def)
  moreover have "tokenize ''YYYY-MM-DDTHH:mm:ss.SSSSZ'' = [''YYYY'', ''-'', ''MM'', ''-'', ''DD'', ''T'', ''HH'', '':'',
     ''mm'', '':'', ''ss'', ''.'', ''SSSS'', ''Z'']" by code_simp
  ultimately show ?thesis by simp
qed

definition read_config :: "config \<Rightarrow> int list \<Rightarrow> config" where
  "read_config c xs = c\<lparr>c_a := parts xs, c_useUTC := True, c_tzm := Some 0,
     c_pf := (c_pf c)\<lparr>f_empty := False, f_charsLeftOver := 0\<rparr>\<rparr>"

lemma iso_fold:
  assumes "digits 4 Y" "digits 2 M" "digits 2 D" "digits 2 h" "digits 2 mi" "digits 2 s" "digits 3 ms"
    and "c_a c = no_parts" and "f_charsLeftOver (c_pf c) = 0"
  defines "v \<equiv> \<lambda>p. int (digits_value p)"
  shows "fold parse_token (tokenize (expandFormat ''YYYY-MM-DDTHH:mm:ss.SSSSZ'' l)) (c, iso_text Y M D h mi s ms, 0)
    = (read_config c [v Y, v M - 1, v D, v h, v mi, v s, v ms], [], 24)"
proof -
  note pair = pair_step [OF _ regex_tokens(2) known_tokens(2) parser_tokens(2)]
    pair_step [OF _ regex_tokens(3) known_tokens(3) parser_tokens(3)]
    pair_step [OF _ regex_tokens(4) known_tokens(4) parser_tokens(4)]
    pair_step [OF _ regex_tokens(5) known_tokens(5) parser_tokens(5)]
    pair_step [OF _ regex_tokens(6) known_tokens(6) parser_tokens(6)]
  have t: "toInt_text p = v p" if "digits 2 p" for p
    using toInt_digits' [of 1 p] that by (simp add: v_def numeral_2_eq_2)
  show ?thesis
    unfolding iso_parse_tokens iso_text_def fold_simps year_step [OF assms(1)] literal_step pair(1) [OF assms(2)]
      pair(2) [OF assms(3)] pair(3) [OF assms(4)] pair(4) [OF assms(5)] pair(5) [OF assms(6)]
      millisecond_step [OF assms(7)] zulu_step t [OF assms(2)] t [OF assms(3)] t [OF assms(4)] t [OF assms(5)] t [OF assms(6)]
      v_def [symmetric]
    using assms(8,9)
    by (simp add: read_config_def put_part_def put_flags_def no_parts_def parts_def YEAR_def MONTH_def DATE_def HOUR_def
        MINUTE_def SECOND_def MILLISECOND_def numeral_eq_Suc v_def)
qed

end
