(* ===== verification/MomentIso.thy ===== *)
theory MomentIso imports Main Prelude MomentRoundtrip begin

text \<open>
  The ISO 8601 text of a moment, read back: the expressions of \<open>configFromISO\<close> recognise the
  text that \<open>toISOString\<close> writes and derive its format, and the moment made from it is the one
  that was printed.
\<close>

section \<open>Recognising the text\<close>

definition never_on :: "(char \<Rightarrow> bool) \<Rightarrow> matcher \<Rightarrow> bool" where
  "never_on P r \<longleftrightarrow> (\<forall>c cs. P c \<longrightarrow> r (c # cs) = None)"

lemma search_skip: "never_on P r \<Longrightarrow> \<forall>c\<in>set p. P c \<Longrightarrow> search r (p @ s) = search r s"
  by (induction p) (simp_all add: never_on_def)

lemma search_miss: "r (c # s) = None \<Longrightarrow> search r (c # s) = search r s"
  by simp

lemma search_hit: "r (c # s) = Some n \<Longrightarrow> search r (c # s) \<noteq> None"
  by simp

lemma digit_not:
  assumes "is_digit c"
  shows "c \<noteq> CHR ''-''" "c \<noteq> CHR ''+''" "c \<noteq> CHR ''T''" "c \<noteq> CHR '' ''" "c \<noteq> CHR ''Z''" "c \<noteq> CHR ''z''" "c \<noteq> CHR ''W''"
    "c \<noteq> CHR ''/''" "c \<noteq> CHR ''d''" "c \<noteq> CHR ''D''" "\<not> space_char c"
  using assms by (auto simp: is_digit_def space_char_def)

lemma mark_no_digit [simp]:
  "\<not> is_digit CHR ''-''" "\<not> is_digit CHR ''T''" "\<not> is_digit CHR '':''" "\<not> is_digit CHR ''.''" "\<not> is_digit CHR ''Z''"
  by (simp_all add: is_digit_def)

lemma digits_match:
  assumes "digits n p" and "a \<le> n"
  shows "digits_between a n (p @ r) = Some n"
  using assms by (simp add: digits_def digits_between_full)

lemma digits_short:
  assumes "digits n p" and "n < a" and "a \<le> b" and "\<not> is_digit c"
  shows "digits_between a b (p @ c # r) = None"
  using assms by (simp add: digits_def digits_between_def takeWhile_digits Let_def)

lemma digits_cons:
  assumes "digits (Suc n) p"
  obtains c q where "p = c # q" "is_digit c"
  using assms by (cases p) (auto simp: digits_def)

lemma never_on_digits:
  "never_on is_digit (seq_match (sign_match # rs))" "never_on is_digit (seq_match (time_mark # rs))"
  "never_on is_digit matchOffset"
  by (auto simp: never_on_def sign_match_def time_mark_def matchOffset_def dest: digit_not)

definition iso_digits :: "string \<Rightarrow> string \<Rightarrow> string \<Rightarrow> string \<Rightarrow> string \<Rightarrow> string \<Rightarrow> string \<Rightarrow> bool" where
  "iso_digits Y M D h mi s ms \<longleftrightarrow>
     digits 4 Y \<and> digits 2 M \<and> digits 2 D \<and> digits 2 h \<and> digits 2 mi \<and> digits 2 s \<and> digits 3 ms"

lemma digits_drop: "digits n p \<Longrightarrow> drop n (p @ r) = r"
  by (simp add: digits_def)

lemma digits_all: "digits n p \<Longrightarrow> \<forall>c\<in>set p. is_digit c"
  by (simp add: digits_def)

lemma mark_match [simp]: "matchText [c] (c # r) = Some 1" "cut (matchText [c]) (c # r) = Some r"
  by (simp_all add: cut_def matchText_def is_prefix_def)

lemma iso_text_regex:
  assumes "iso_digits Y M D h mi s ms"
  shows "isoRegex (iso_text Y M D h mi s ms) = Some (Some (CHR ''T''))"
proof -
  note d = assms [unfolded iso_digits_def]
  obtain y q where y: "Y = y # q" "is_digit y" using d digits_cons [of 3 Y] by auto
  obtain m q' where m: "M = m # q'" "is_digit m" using d digits_cons [of 1 M] by (auto simp: numeral_2_eq_2)
  have "cut match4 (Y @ r) = Some r" for r using d using digits_drop [of 4 Y r]
    by (simp add: cut_def match4_def digits_match del: drop_append)
  then have 1: "iso_year (dropWhile space_char (Y @ r)) = Some r" for r
    using y digit_not [OF y(2)] by (simp add: iso_year_def)
  have 2: "cut match2 (p @ r) = Some r" if "digits 2 p" for p r
    using that digits_drop [of 2 p r] by (simp add: cut_def match2_def digits_match del: drop_append)
  have 3: "iso_day (M @ CHR ''-'' # D @ r) = Some r" for r
    using 2 [of M "CHR ''-'' # D @ r"] 2 [of D r] d m digit_not [OF m(2)] by (simp add: iso_day_def)
  have "cut matchUnsigned (ms @ ''Z'') = Some ''Z''"
    using d takeWhile_digits [OF digits_all, of 3 ms "''Z''"] by (simp add: cut_def matchUnsigned_def digits_def)
  then have 4: "iso_time (h @ CHR '':'' # mi @ CHR '':'' # s @ CHR ''.'' # ms @ ''Z'') = ''Z''"
    using 2 d by (simp add: iso_time_def)
  show ?thesis
    unfolding isoRegex_def iso_text_def 1 using 3 4 by (simp add: iso_offset_end_def space_char_def)
qed

lemma iso_text_date:
  assumes "iso_digits Y M D h mi s ms"
  shows "first_format isoDates (iso_text Y M D h mi s ms) = Some ''YYYY-MM-DD''"
proof -
  note d = assms [unfolded iso_digits_def]
  let ?long = "seq_match [sign_match, digits_between 6 6, matchText ''-'', match2, matchText ''-'', match2]"
  let ?short = "seq_match [match4, matchText ''-'', match2, matchText ''-'', match2]"
  have skip: "search ?long (p @ r) = search ?long r" if "p \<in> {Y, M, D, h, mi, s, ms}" for p r
    by (rule search_skip [OF never_on_digits(1)]) (use that d digits_all in auto)
  have dash: "search ?long (CHR ''-'' # p @ c # r) = search ?long (c # r)" if "p \<in> {M, D}" "\<not> is_digit c" for p c r
    using that d digits_short [of 2 p 6 6 c r] skip [of p "c # r"] by (auto simp: sign_match_def)
  have other: "search ?long (c # p @ r) = search ?long r" if "p \<in> {Y, M, D, h, mi, s, ms}" "c \<notin> set ''+-''" for c p r
    using that(2) skip [OF that(1), of r] by (simp add: sign_match_def)
  have "search ?long (iso_text Y M D h mi s ms) = search ?long ''Z''"
    unfolding iso_text_def by (simp add: skip dash other del: search.simps)
  then have 1: "search ?long (iso_text Y M D h mi s ms) = None" by (simp add: sign_match_def)
  have m: "match2 (p @ r) = Some 2" if "digits 2 p" for p r using that by (simp add: match2_def digits_match)
  have "match4 (Y @ r) = Some 4" for r using d by (simp add: match4_def digits_match)
  then have "?short (iso_text Y M D h mi s ms) = Some 10"
    unfolding iso_text_def using m d digits_drop [of 4 Y] digits_drop [of 2 M] by (simp del: drop_append)
  moreover obtain y q where "Y = y # q" by (rule digits_cons [of 3 Y]) (use d in simp_all)
  ultimately have 2: "search ?short (iso_text Y M D h mi s ms) \<noteq> None" by (simp add: iso_text_def)
  show ?thesis unfolding first_format_def isoDates_def Let_def using 1 2 by simp
qed

lemma iso_text_time:
  assumes "iso_digits Y M D h mi s ms"
  shows "first_format isoTimes (iso_text Y M D h mi s ms) = Some ''HH:mm:ss.SSSS''"
proof -
  note d = assms [unfolded iso_digits_def]
  let ?t = "seq_match [time_mark, match2, matchText '':'', match2, matchText '':'', match2, matchText ''.'', matchUnsigned]"
  have skip: "search ?t (p @ r) = search ?t r" if "p \<in> {Y, M, D, h, mi, s, ms}" for p r
    by (rule search_skip [OF never_on_digits(2)]) (use that d digits_all in auto)
  have dash: "search ?t (CHR ''-'' # r) = search ?t r" for r by (simp add: time_mark_def)
  have "search ?t (iso_text Y M D h mi s ms) = search ?t (CHR ''T'' # h @ CHR '':'' # mi @ CHR '':'' # s @ CHR ''.'' # ms @ ''Z'')"
    unfolding iso_text_def by (simp add: skip dash del: search.simps seq_match.simps)
  moreover have m: "match2 (p @ r) = Some 2" if "digits 2 p" for p r using that by (simp add: match2_def digits_match)
  moreover have "matchUnsigned (ms @ ''Z'') = Some 3"
    using d takeWhile_digits [OF digits_all, of 3 ms "''Z''"] by (simp add: matchUnsigned_def digits_def)
  ultimately have "search ?t (iso_text Y M D h mi s ms) \<noteq> None"
    using d digits_drop [of 2 h] digits_drop [of 2 mi] digits_drop [of 2 s] by (simp add: time_mark_def del: drop_append)
  then show ?thesis unfolding first_format_def isoTimes_def Let_def by simp
qed

lemma iso_text_offset:
  assumes "iso_digits Y M D h mi s ms"
  shows "search matchOffset (iso_text Y M D h mi s ms) \<noteq> None"
proof -
  note d = assms [unfolded iso_digits_def]
  have skip: "search matchOffset (p @ r) = search matchOffset r" if "p \<in> {Y, M, D, h, mi, s, ms}" for p r
    by (rule search_skip [OF never_on_digits(3)]) (use that d digits_all in auto)
  have dash: "search matchOffset (CHR ''-'' # p @ c # r) = search matchOffset (c # r)"
    if "p \<in> {M, D}" "c = CHR ''-'' \<or> c = CHR ''T''" for p c r
  proof -
    have p: "digits 2 p" using that(1) d by auto
    have q: "p \<in> {Y, M, D, h, mi, s, ms}" and c: "c \<noteq> CHR '':''" using that by auto
    have "match2 (p @ c # r) = Some 2" "match2 (c # r) = None"
      using that(2) digits_match [OF p, of 2] by (auto simp: match2_def digits_between_def)
    then have "matchOffset (CHR ''-'' # p @ c # r) = None"
      using digits_drop [OF p, of "c # r"] c by (simp add: matchOffset_def del: drop_append)
    then show ?thesis using skip [OF q, of "c # r"] by simp
  qed
  have other: "search matchOffset (c # p @ r) = search matchOffset r" if "p \<in> {Y, M, D, h, mi, s, ms}" "c \<notin> set ''Zz+-''" for c p r
    using that(2) skip [OF that(1), of r] by (simp add: matchOffset_def)
  have "search matchOffset (iso_text Y M D h mi s ms) = search matchOffset ''Z''"
    unfolding iso_text_def by (simp add: skip dash other del: search.simps)
  then show ?thesis by (simp add: matchOffset_def)
qed

lemma iso_text_format:
  assumes "iso_digits Y M D h mi s ms"
  shows "iso_format (iso_text Y M D h mi s ms) = Some ''YYYY-MM-DDTHH:mm:ss.SSSSZ''"
  unfolding iso_format_def iso_text_regex [OF assms] iso_text_date [OF assms] iso_text_time [OF assms]
  using iso_text_offset [OF assms] by simp

lemma iso_text_aspNet:
  assumes "iso_digits Y M D h mi s ms"
  shows "aspNetJson (iso_text Y M D h mi s ms) = None"
proof -
  obtain y q where y: "Y = y # q" "is_digit y" using assms digits_cons [of 3 Y] by (auto simp: iso_digits_def)
  have "to_lower_char y \<noteq> CHR ''d''" using y(2) by (auto simp: is_digit_def to_lower_char_def)
  then show ?thesis using y digit_not [OF y(2)] by (auto simp: aspNetJson_def iso_text_def toLowerCase_def)
qed

section \<open>The moment that is made from the text\<close>

lemma finish_read:
  assumes "c_pf c = defaultParsingFlags\<lparr>f_empty := True, f_iso := i\<rparr>" and "c_meridiem c = None" and "length text = 24"
  shows "finish_parse text (read_config c [y, mo, d, h, mi, s, ms], [], 24) = read_config c [y, mo, d, h, mi, s, ms]"
proof -
  have "(parts [y, mo, d, h, mi, s, ms])[HOUR := parts [y, mo, d, h, mi, s, ms] ! HOUR] = parts [y, mo, d, h, mi, s, ms]"
    by (rule list_update_id)
  then show ?thesis
    using assms by (simp add: finish_parse_def put_flags_def read_config_def meridiemFixWrap_def defaultParsingFlags_def Let_def)
qed

lemma fill_parts_full: "fill_parts current (parts [y, mo, d, h, mi, s, ms]) = parts [y, mo, d, h, mi, s, ms]"
proof -
  have "[0..<7] = [0, 1, 2, 3, 4, 5, 6 :: nat]" by (simp add: upt_rec numeral_eq_Suc)
  then show ?thesis by (simp add: fill_parts_def parts_def)
qed

lemma read_date:
  assumes "valid_civil y mo d" and "valid_time h mi s ms" and "0 < y" and "y \<le> 9999"
    and "c_d c = None" and "c_w c = None" and "c_dayOfYear c = None"
  shows "configFromArray z now (read_config c [y, mo, d, h, mi, s, ms]) =
    (read_config c [y, mo, d, h, mi, s, ms])\<lparr>c_nextDay := False, c_d := Some (Some (civil_time y mo d h mi s ms))\<rparr>"
proof -
  have y: "safe_year y" using assms(3,4) by (simp add: safe_year_def)
  have e: "createUTCDate y mo d h mi s ms = Some (civil_time y mo d h mi s ms)"
    by (rule createUTCDate_civil [OF assms(1,2) y]) (use assms(3) in simp)
  have p: "date_of_parts z True (parts [y, mo, d, h, mi, s, ms]) = Some (civil_time y mo d h mi s ms)"
    using e by (simp add: date_of_parts_def parts_def)
  have t: "TimeClip (civil_time y mo d h mi s ms) = Some (civil_time y mo d h mi s ms)"
    by (rule TimeClip_span [OF civil_time_span [OF assms(1,2) y]])
  have h: "h \<noteq> 24" using assms(2) by (simp add: valid_time_def)
  let ?r = "read_config c [y, mo, d, h, mi, s, ms]"
  have r: "c_a ?r = parts [y, mo, d, h, mi, s, ms]" "c_d ?r = None" "c_w ?r = None" "c_dayOfYear ?r = None" "c_useUTC ?r" "c_tzm ?r = Some 0"
    using assms(5-7) by (simp_all add: read_config_def)
  show ?thesis
    unfolding configFromArray_def Let_def apply_dayOfYear_def
    using r p t h by (simp add: fill_parts_full)
qed

definition iso_fields :: "int \<Rightarrow> int \<Rightarrow> int \<Rightarrow> int \<Rightarrow> int \<Rightarrow> int \<Rightarrow> int \<Rightarrow> string" where
  "iso_fields y mo d h mi s ms = iso_text (zeroFill y 4 False) (zeroFill (mo + 1) 2 False) (zeroFill d 2 False)
     (zeroFill h 2 False) (zeroFill mi 2 False) (zeroFill s 2 False) (zeroFill ms 3 False)"

lemma zeroFill_digits: "0 \<le> k \<Longrightarrow> k < 10 ^ n \<Longrightarrow> 0 < n \<Longrightarrow> digits n (zeroFill k n False)"
  using zeroFill_facts [of k n] by (simp add: digits_def)

lemma civil_ranges:
  assumes "valid_civil y mo d" and "valid_time h mi s ms" and "0 < y" and "y \<le> 9999"
  shows "0 \<le> y" "y < 10 ^ 4" "0 \<le> mo + 1" "mo + 1 < 10 ^ 2" "0 \<le> d" "d < 10 ^ 2" "0 \<le> h" "h < 10 ^ 2" "0 \<le> mi" "mi < 10 ^ 2"
    "0 \<le> s" "s < 10 ^ 2" "0 \<le> ms" "ms < 10 ^ 3"
proof -
  have "month_length (leap y) mo \<le> 31"
    using month_length_range(2) [of "leap y" mo] assms(1) by (simp add: valid_civil_def)
  then show "0 \<le> y" "y < 10 ^ 4" "0 \<le> mo + 1" "mo + 1 < 10 ^ 2" "0 \<le> d" "d < 10 ^ 2" "0 \<le> h" "h < 10 ^ 2" "0 \<le> mi" "mi < 10 ^ 2"
    "0 \<le> s" "s < 10 ^ 2" "0 \<le> ms" "ms < 10 ^ 3"
    using assms by (auto simp: valid_civil_def valid_time_def)
qed

lemma iso_fields_read:
  assumes "valid_civil y mo d" and "valid_time h mi s ms" and "0 < y" and "y \<le> 9999"
  shows "createLocal br z now l (TextInput (iso_fields y mo d h mi s ms)) NoFormat strict =
    \<lparr>m_d = Some (civil_time y mo d h mi s ms), m_isUTC = False, m_offset = None, m_locale = l, m_flags_ok = True, m_tzm = Some 0\<rparr>"
proof -
  note r = civil_ranges [OF assms]
  let ?t = "iso_fields y mo d h mi s ms"
  let ?c = "put_flags (\<lambda>pf. pf\<lparr>f_empty := True\<rparr>) ((put_flags (\<lambda>pf. pf\<lparr>f_iso := True\<rparr>) (fresh_config l strict False))\<lparr>c_a := no_parts\<rparr>)"
  let ?r = "read_config ?c [y, mo, d, h, mi, s, ms]"
  have dg: "digits 4 (zeroFill y 4 False)" "digits 2 (zeroFill (mo + 1) 2 False)" "digits 2 (zeroFill d 2 False)"
    "digits 2 (zeroFill h 2 False)" "digits 2 (zeroFill mi 2 False)" "digits 2 (zeroFill s 2 False)" "digits 3 (zeroFill ms 3 False)"
    using r by (simp_all add: zeroFill_digits)
  have iso: "iso_digits (zeroFill y 4 False) (zeroFill (mo + 1) 2 False) (zeroFill d 2 False) (zeroFill h 2 False)
      (zeroFill mi 2 False) (zeroFill s 2 False) (zeroFill ms 3 False)"
    using dg by (simp add: iso_digits_def)
  have len: "length ?t = 24" using dg by (simp add: iso_fields_def iso_text_def digits_def)
  have c: "c_a ?c = no_parts" "f_charsLeftOver (c_pf ?c) = 0" "c_pf ?c = defaultParsingFlags\<lparr>f_empty := True, f_iso := True\<rparr>"
    "c_meridiem ?c = None" "c_d ?c = None" "c_w ?c = None" "c_dayOfYear ?c = None"
    by (simp_all add: put_flags_def fresh_config_def defaultParsingFlags_def)
  have v: "int (digits_value (zeroFill y 4 False)) = y" "int (digits_value (zeroFill (mo + 1) 2 False)) - 1 = mo"
    "int (digits_value (zeroFill d 2 False)) = d" "int (digits_value (zeroFill h 2 False)) = h"
    "int (digits_value (zeroFill mi 2 False)) = mi" "int (digits_value (zeroFill s 2 False)) = s"
    "int (digits_value (zeroFill ms 3 False)) = ms"
    using r by (simp_all add: zeroFill_facts(2))
  have fold: "fold parse_token (tokenize (expandFormat ''YYYY-MM-DDTHH:mm:ss.SSSSZ'' l)) (?c, ?t, 0) = (?r, [], 24)"
    using iso_fold [OF dg c(1,2), of l] unfolding v iso_fields_def by simp
  have read: "configFromStringAndFormat z now ?t ''YYYY-MM-DDTHH:mm:ss.SSSSZ'' (put_flags (\<lambda>pf. pf\<lparr>f_iso := True\<rparr>) (fresh_config l strict False))
      = checkOverflow (?r\<lparr>c_nextDay := False, c_d := Some (Some (civil_time y mo d h mi s ms))\<rparr>)"
  proof -
    have "c_locale ?c = l" by (simp add: put_flags_def fresh_config_def)
    then show ?thesis
      unfolding configFromStringAndFormat_def Let_def using fold finish_read [OF c(3,4) len] read_date [OF assms c(5-7)] by simp
  qed
  have y: "y \<noteq> 0" "safe_year y" "y < 275000" using assms(3,4) by (simp_all add: safe_year_def)
  have o: "overflow_of (parts [y, mo, d, h, mi, s, ms]) = - 1" using overflow_accepts [OF y] assms(1,2) by blast
  let ?p = "?r\<lparr>c_nextDay := False, c_d := Some (Some (civil_time y mo d h mi s ms))\<rparr>"
  have p: "parts [y, mo, d, h, mi, s, ms] \<noteq> []" by (simp add: parts_def)
  have checked: "checkOverflow ?p = put_flags (\<lambda>pf. pf\<lparr>f_overflow := - 1\<rparr>) ?p"
    using o p c(3) by (simp add: checkOverflow_def Let_def read_config_def defaultParsingFlags_def)
  then have again: "checkOverflow (checkOverflow ?p) = checkOverflow ?p" by (simp add: checkOverflow_def put_flags_def)
  have "configFromISO z now ?t (fresh_config l strict False) = Some (checkOverflow ?p)"
    using iso_text_format [OF iso] read by (simp add: configFromISO_def iso_fields_def)
  then have "configFromString br z now ?t (fresh_config l strict False) = checkOverflow ?p"
    using iso_text_aspNet [OF iso] by (simp add: configFromString_def iso_fields_def)
  then have "createLocal br z now l (TextInput ?t) NoFormat strict = moment_of_config (checkOverflow ?p)"
    using len again by (auto simp: createLocal_def createLocalOrUTC_def prepareConfig_def configFromInput_def)
  then show ?thesis
    unfolding checked
    by (simp add: moment_of_config_def read_config_def put_flags_def fresh_config_def valid_config_def defaultParsingFlags_def Let_def)
qed

lemma native_fields:
  assumes "valid_civil y mo d" and "valid_time h mi s ms"
  shows "native_toISOString (civil_time y mo d h mi s ms) = iso_fields y mo d h mi s ms"
  unfolding native_toISOString_def fields_of_civil [OF assms] iso_fields_def iso_text_def by simp

text \<open>
  Claim C7: the ISO 8601 text of a moment, read back in any browser, zone and locale, with or without
  strictness, is a valid moment of the same instant, for every valid moment whose year in UTC is
  between 1 and 9999, in whatever zone, mode or offset it was.
\<close>

theorem iso_text_roundtrip:
  assumes "valid__isValid m" and "m_d m = Some e" and "\<bar>e\<bar> \<le> 8639000000000000" and "\<bar>offset_or_zero m\<bar> \<le> 1440"
    and "year z (setOffsetToUTC z False m) = Some y" and "0 < y" and "y \<le> 9999"
  shows "\<exists>iso. moment_toISOString z m = Some iso \<and>
    valid__isValid (createLocal br z' now l (TextInput iso) NoFormat strict) \<and>
    valueOf (createLocal br z' now l (TextInput iso) NoFormat strict) = valueOf m"
proof -
  let ?u = "setOffsetToUTC z False m"
  define t where "t = e - offset_or_zero m * 60000"
  have u: "?u = m\<lparr>m_offset := Some 0, m_isUTC := True, m_d := Some t\<rparr>"
    using set_utcOffset_moves [OF assms(2,3) _ assms(4), of 0 z]
    by (simp add: setOffsetToUTC_def offset_minutes_def t_def)
  have "TimeClip (e + - (offset_or_zero m * 60000)) = Some (e + - (offset_or_zero m * 60000))"
    using assms(3,4) by (intro TimeClip_near) (simp_all add: abs_mult)
  then have d: "toDate m = Some t" using assms(2) by (simp add: toDate_def valueOf_offset t_def)
  obtain y' mo d' h mi s ms where c: "t = civil_time y' mo d' h mi s ms" "valid_civil y' mo d'" "valid_time h mi s ms"
    by (rule civil_cases)
  have "y = y'" using assms(5) fields_of_civil(1) [OF c(2,3)] c(1) unfolding u by (simp add: year_def get_set__get_def moment_local_def)
  then have y: "0 < y'" "y' \<le> 9999" using assms(6,7) by simp_all
  have printed: "moment_toISOString z m = Some (iso_fields y' mo d' h mi s ms)"
    using assms(5-7) d native_fields [OF c(2,3)] by (simp add: moment_toISOString_def Let_def c(1))
  note reread = iso_fields_read [OF c(2,3) y, of br z' now l strict]
  have "valueOf m = Some t" using assms(2) by (simp add: valueOf_offset t_def)
  moreover have "valid__isValid (createLocal br z' now l (TextInput (iso_fields y' mo d' h mi s ms)) NoFormat strict)"
    "valueOf (createLocal br z' now l (TextInput (iso_fields y' mo d' h mi s ms)) NoFormat strict) = Some t"
    unfolding reread by (simp_all add: valid__isValid_def valueOf_def c(1))
  ultimately show ?thesis using printed by simp
qed

lemma iso_text_roundtrip_witness:
  "\<exists>iso. moment_toISOString (fixed_zone 420) (utc_moment 86399999) = Some iso \<and>
    valueOf (createLocal \<lparr>native_parse = (\<lambda>s. None), date_text = (\<lambda>t. [])\<rparr> (fixed_zone (- 210)) 0 en_locale (TextInput iso) NoFormat True)
      = Some 86399999"
proof -
  have h: "valid__isValid (utc_moment 86399999)" "m_d (utc_moment 86399999) = Some 86399999"
    "\<bar>86399999\<bar> \<le> (8639000000000000::int)" "\<bar>offset_or_zero (utc_moment 86399999)\<bar> \<le> 1440"
    by (simp_all add: utc_moment_def valid__isValid_def offset_or_zero_def)
  have y: "year (fixed_zone 420) (setOffsetToUTC (fixed_zone 420) False (utc_moment 86399999)) = Some 1970" by code_simp
  have v: "valueOf (utc_moment 86399999) = Some 86399999" by (simp add: utc_moment_def valueOf_def)
  show ?thesis
    using iso_text_roundtrip [OF h y, of "\<lparr>native_parse = (\<lambda>s. None), date_text = (\<lambda>t. [])\<rparr>" "fixed_zone (- 210)" 0 en_locale True]
    unfolding v by auto
qed

end
