(* ===== verification/MomentDurationText.thy ===== *)
theory MomentDurationText imports Main Prelude Decimal MomentDuration MomentParse begin

text \<open>
  Durations from texts: the \<open>[-][d.]hh:mm[:ss[.fff]]\<close> form of ASP.NET, found anywhere in the text, and
  the ISO 8601 form. Both expressions are matched from left to right; where they could backtrack, the
  next character leaves only one way. Numbers with decimals are rationals, and the text of a duration
  whose days or months are not whole is outside the model (\<open>None\<close>).
\<close>

section \<open>The ASP.NET form\<close>

text \<open>The groups after the sign: days, hours, minutes, seconds, milliseconds.\<close>

definition digits_then :: "char \<Rightarrow> string \<Rightarrow> (string \<times> string) option" where
  "digits_then c s =
     (let p = takeWhile is_digit s; r = dropWhile is_digit s in
      if p \<noteq> [] \<and> r \<noteq> [] \<and> hd r = c then Some (p, tl r) else None)"

definition aspNet_seconds :: "string \<Rightarrow> string option \<times> string option" where
  "aspNet_seconds s =
     (case s of
        [] \<Rightarrow> (None, None)
      | c # cs \<Rightarrow>
          (let p = takeWhile is_digit cs; r = dropWhile is_digit cs;
               r' = (case r of [] \<Rightarrow> [] | x # xs \<Rightarrow> if x = CHR ''.'' then xs else r)
           in if c \<noteq> CHR '':'' \<or> p = [] then (None, None)
              else (Some p, if match3 r' \<noteq> None then Some (take 3 r') else None)))"

definition aspNet_time :: "string \<Rightarrow> (string \<times> string \<times> string option \<times> string option) option" where
  "aspNet_time s =
     (case digits_then (CHR '':'') s of
        None \<Rightarrow> None
      | Some (h, r) \<Rightarrow>
          (let m = takeWhile is_digit r in
           if m = [] then None else (case aspNet_seconds (dropWhile is_digit r) of (sec, ms) \<Rightarrow> Some (h, m, sec, ms))))"

definition aspNet_here :: "string \<Rightarrow> (bool \<times> string option \<times> string \<times> string \<times> string option \<times> string option) option" where
  "aspNet_here s =
     (let neg = (s \<noteq> [] \<and> hd s = CHR ''-''); t = (if neg then tl s else s);
          p = takeWhile is_digit t; r = dropWhile is_digit t;
          plain = map_option (\<lambda>x. (neg, None, x)) (aspNet_time t)
      in if r \<noteq> [] \<and> hd r = CHR ''.'' then
           (case aspNet_time (tl r) of Some x \<Rightarrow> Some (neg, Some p, x) | None \<Rightarrow> plain)
         else plain)"

fun aspNetRegex :: "string \<Rightarrow> (bool \<times> string option \<times> string \<times> string \<times> string option \<times> string option) option" where
  "aspNetRegex [] = None"
| "aspNetRegex (c # cs) = (case aspNet_here (c # cs) of Some x \<Rightarrow> Some x | None \<Rightarrow> aspNetRegex cs)"

section \<open>The ISO 8601 form\<close>

definition number_char :: "char \<Rightarrow> bool" where
  "number_char c \<longleftrightarrow> is_digit c \<or> c = CHR '','' \<or> c = CHR ''.''"

text \<open>\<open>(?:([0-9,.]*)Y)?\<close>: the number, and the rest of the text.\<close>

definition iso_field :: "char \<Rightarrow> string \<Rightarrow> string option \<times> string" where
  "iso_field c s =
     (let r = dropWhile number_char s in
      if r \<noteq> [] \<and> hd r = c then (Some (takeWhile number_char s), tl r) else (None, s))"

text \<open>The groups \<open>Y\<close>, \<open>M\<close>, \<open>D\<close>, \<open>H\<close>, \<open>M\<close>, \<open>S\<close> and \<open>W\<close> with the sign.\<close>

definition create__isoRegex :: "string \<Rightarrow> (bool \<times> string option list) option" where
  "create__isoRegex s =
     (let neg = (s \<noteq> [] \<and> hd s = CHR ''-''); t = (if neg then tl s else s) in
      case t of
        [] \<Rightarrow> None
      | p # r0 \<Rightarrow>
          if p \<noteq> CHR ''P'' then None
          else
            (let (Y, r1) = iso_field (CHR ''Y'') r0; (M, r2) = iso_field (CHR ''M'') r1; (D, r3) = iso_field (CHR ''D'') r2;
                 timed = (r3 \<noteq> [] \<and> hd r3 = CHR ''T'');
                 (h, r4) = (if timed then iso_field (CHR ''H'') (tl r3) else (None, r3));
                 (m, r5) = (if timed then iso_field (CHR ''M'') r4 else (None, r4));
                 (sec, r6) = (if timed then iso_field (CHR ''S'') r5 else (None, r5))
             in if r6 = [] then Some (neg, [Y, M, D, h, m, sec, None])
                else (case iso_field (CHR ''W'') r0 of
                        (Some w, []) \<Rightarrow> Some (neg, [None, None, None, None, None, None, Some w])
                      | _ \<Rightarrow> None)))"

text \<open>
  \<open>parseFloat\<close> of digits with at most one point that counts (the first comma is a point); a text
  without any digit is \<open>NaN\<close>, for which \<open>parseIso\<close> takes zero.
\<close>

definition parseFloat :: "string \<Rightarrow> rat" where
  "parseFloat s =
     (let whole = takeWhile is_digit s; r = dropWhile is_digit s;
          decimals = (if r \<noteq> [] \<and> hd r = CHR ''.'' then takeWhile is_digit (tl r) else [])
      in of_nat (digits_value whole) + of_nat (digits_value decimals) / 10 ^ length decimals)"

definition parseIso :: "string option \<Rightarrow> int \<Rightarrow> rat" where
  "parseIso inp sign =
     (case inp of None \<Rightarrow> 0 | Some s \<Rightarrow> parseFloat (js_replace s '','' ''.'') * of_int sign)"

definition whole_amount :: "rat \<Rightarrow> int option" where
  "whole_amount x = (if of_int \<lfloor>x\<rfloor> = x then Some \<lfloor>x\<rfloor> else None)"

section \<open>Creating the duration\<close>

text \<open>
  Years are whole months, weeks whole days and the times whole milliseconds, or the duration is not
  in the model. A text of neither form is a duration of zero.
\<close>

definition duration_of_parts :: "mlocale \<Rightarrow> rat \<Rightarrow> rat \<Rightarrow> rat \<Rightarrow> duration option" where
  "duration_of_parts global ms days months =
     (case (whole_amount ms, whole_amount days, whole_amount months) of
        (Some a, Some b, Some c) \<Rightarrow> Some (new_Duration global [(''ms'', a), (''d'', b), (''M'', c)])
      | _ \<Rightarrow> None)"

definition duration_of_text :: "mlocale \<Rightarrow> string \<Rightarrow> duration option" where
  "duration_of_text global input =
     (case aspNetRegex input of
        Some (neg, d, h, m, s, ms) \<Rightarrow>
          (let sign = (if neg then - 1 else 1); n = (\<lambda>x. case x of None \<Rightarrow> 0 | Some t \<Rightarrow> toInt_text t * sign)
           in Some (new_Duration global [(''y'', 0), (''d'', n d), (''h'', n (Some h)), (''m'', n (Some m)), (''s'', n s), (''ms'', n ms)]))
      | None \<Rightarrow>
          (case create__isoRegex input of
             Some (neg, xs) \<Rightarrow>
               (let n = (\<lambda>i. parseIso (xs ! i) (if neg then - 1 else 1))
                in duration_of_parts global (n 3 * 3600000 + n 4 * 60000 + n 5 * 1000) (n 2 + n 6 * 7) (n 1 + n 0 * 12))
           | None \<Rightarrow> Some (new_Duration global [])))"

section \<open>The ISO 8601 text of a duration, read back\<close>

lemma number_chars:
  "is_digit c \<Longrightarrow> number_char c" "\<not> number_char CHR ''Y''" "\<not> number_char CHR ''M''" "\<not> number_char CHR ''D''"
  "\<not> number_char CHR ''T''" "\<not> number_char CHR ''H''" "\<not> number_char CHR ''S''" "\<not> number_char CHR ''W''"
  by (simp_all add: number_char_def is_digit_def)

definition skips :: "char \<Rightarrow> string \<Rightarrow> bool" where
  "skips c s \<longleftrightarrow> iso_field c s = (None, s)"

definition printed :: "int \<Rightarrow> string option" where
  "printed n = (if n = 0 then None else Some (show_int n))"

lemma number_cut:
  assumes "0 < n" and "\<not> number_char c"
  shows "takeWhile number_char (show_int n @ c # r) = show_int n" "dropWhile number_char (show_int n @ c # r) = c # r"
proof -
  have "\<forall>x\<in>set (show_int n). number_char x" using show_int_digits [of n] assms(1) number_chars(1) by auto
  then show "takeWhile number_char (show_int n @ c # r) = show_int n" "dropWhile number_char (show_int n @ c # r) = c # r"
    using assms(2) by (auto simp: takeWhile_append dropWhile_append)
qed

lemma skips_simple: "skips c []" "c \<noteq> CHR ''T'' \<Longrightarrow> skips c (CHR ''T'' # r)"
  by (simp_all add: skips_def iso_field_def number_chars)

lemma skips_part: "0 \<le> n \<Longrightarrow> c' \<noteq> c \<Longrightarrow> \<not> number_char c' \<Longrightarrow> skips c r \<Longrightarrow> skips c (iso_part n [c'] @ r)"
  by (cases "n = 0") (simp_all add: skips_def iso_part_def iso_field_def number_cut)

lemma field_part: "0 \<le> n \<Longrightarrow> \<not> number_char c \<Longrightarrow> skips c r \<Longrightarrow> iso_field c (iso_part n [c] @ r) = (printed n, r)"
  by (cases "n = 0") (simp_all add: skips_def iso_part_def iso_field_def number_cut printed_def)

lemma split_absent: "c \<notin> set s \<Longrightarrow> split_at_first [c] s = None"
  by (induction s) auto

lemma parseFloat_digits:
  assumes "\<forall>x\<in>set s. is_digit x"
  shows "parseFloat s = of_nat (digits_value s)"
proof -
  have t: "takeWhile is_digit s = s" "dropWhile is_digit s = []" using assms by (simp_all add: takeWhile_eq_all_conv dropWhile_eq_Nil_conv)
  have z: "digits_value [] = 0" by (simp add: digits_value_def)
  show ?thesis unfolding parseFloat_def Let_def t by (simp add: z)
qed

lemma parse_printed:
  assumes "0 \<le> n"
  shows "parseIso (printed n) sign = of_int (n * sign)"
proof (cases "n = 0")
  case False
  have d: "\<forall>x\<in>set (show_int n). is_digit x" using show_int_digits [OF assms] by blast
  then have "CHR '','' \<notin> set (show_int n)" using is_digit_def by fastforce
  then have "js_replace (show_int n) '','' ''.'' = show_int n" by (simp add: js_replace_def split_absent)
  moreover have "digits_value (show_int n) = nat n" using assms by (simp add: show_int_def)
  ultimately have "parseIso (Some (show_int n)) sign = of_nat (nat n) * of_int sign"
    using parseFloat_digits [OF d] by (simp add: parseIso_def)
  then show ?thesis using False assms by (simp add: printed_def)
qed (simp add: parseIso_def printed_def)

lemma no_colon: "CHR '':'' \<notin> set s \<Longrightarrow> aspNetRegex s = None"
proof (induction s)
  case (Cons c cs)
  have "digits_then (CHR '':'') t = None" if "CHR '':'' \<notin> set t" for t
  proof (cases "dropWhile is_digit t")
    case (Cons x xs)
    then have "x \<in> set t" using set_dropWhileD [of x is_digit t] by simp
    then show ?thesis using that Cons by (auto simp: digits_then_def Let_def)
  qed (simp add: digits_then_def Let_def)
  then have "aspNet_time t = None" if "CHR '':'' \<notin> set t" for t using that by (simp add: aspNet_time_def)
  moreover have "CHR '':'' \<notin> set (tl (dropWhile is_digit t))" if "CHR '':'' \<notin> set t" for t
  proof (cases "dropWhile is_digit t")
    case (Cons x xs)
    then show ?thesis using that set_dropWhileD [of "CHR '':''" is_digit t] by auto
  next
    case Nil
    show ?thesis unfolding Nil by simp
  qed
  ultimately show ?case using Cons by (simp add: aspNet_here_def Let_def)
qed simp

lemma iso_letters: "CHR '':'' \<notin> set (iso_part n suffix)" if "0 \<le> n" "CHR '':'' \<notin> set suffix"
proof -
  have "CHR '':'' \<notin> set (show_int n)" using show_int_digits [OF that(1)] by (fastforce simp: is_digit_def)
  then show ?thesis using that by (simp add: iso_part_def)
qed

text \<open>The text of the amounts, all at least zero, and what the expression makes of it.\<close>

definition iso_amounts :: "int \<Rightarrow> int \<Rightarrow> int \<Rightarrow> int \<Rightarrow> int \<Rightarrow> int \<Rightarrow> string" where
  "iso_amounts Y M D h m s = CHR ''P'' # iso_part Y ''Y'' @ iso_part M ''M'' @ iso_part D ''D''
     @ (if h \<noteq> 0 \<or> m \<noteq> 0 \<or> s \<noteq> 0 then ''T'' else []) @ iso_part h ''H'' @ iso_part m ''M'' @ iso_part s ''S''"

lemma amounts_matched:
  assumes "iso_field (CHR ''Y'') r0 = (y, r1)" "iso_field (CHR ''M'') r1 = (mo, r2)" "iso_field (CHR ''D'') r2 = (d, r3)"
    and "r3 = CHR ''T'' # t \<or> r3 = [] \<and> h = None \<and> mi = None \<and> sec = None"
    and "iso_field (CHR ''H'') t = (h, r4)" "iso_field (CHR ''M'') r4 = (mi, r5)" "iso_field (CHR ''S'') r5 = (sec, [])"
  shows "create__isoRegex (CHR ''P'' # r0) = Some (False, [y, mo, d, h, mi, sec, None])"
    "create__isoRegex (CHR ''-'' # CHR ''P'' # r0) = Some (True, [y, mo, d, h, mi, sec, None])"
  using assms by (auto simp: create__isoRegex_def Let_def)

lemma amounts_parsed:
  assumes "0 \<le> Y" "0 \<le> M" "0 \<le> D" "0 \<le> h" "0 \<le> m" "0 \<le> s"
  shows "create__isoRegex (iso_amounts Y M D h m s) =
      Some (False, [printed Y, printed M, printed D, printed h, printed m, printed s, None])"
    "create__isoRegex (CHR ''-'' # iso_amounts Y M D h m s) =
      Some (True, [printed Y, printed M, printed D, printed h, printed m, printed s, None])"
    "CHR '':'' \<notin> set (iso_amounts Y M D h m s)"
proof -
  let ?r5 = "iso_part s ''S''"
  let ?r4 = "iso_part m ''M'' @ ?r5"
  let ?r3 = "iso_part h ''H'' @ ?r4"
  let ?t = "(if h \<noteq> 0 \<or> m \<noteq> 0 \<or> s \<noteq> 0 then ''T'' else []) @ ?r3"
  have t: "?t = (if h \<noteq> 0 \<or> m \<noteq> 0 \<or> s \<noteq> 0 then CHR ''T'' # ?r3 else [])" by (simp add: iso_part_def)
  have skip: "skips (CHR ''Y'') ?t" "skips (CHR ''M'') ?t" "skips (CHR ''D'') ?t"
    unfolding t using skips_simple by simp_all
  note part = skips_part [OF _ _ _ skips_part]
  have Y: "iso_field (CHR ''Y'') (iso_part Y ''Y'' @ iso_part M ''M'' @ iso_part D ''D'' @ ?t) = (printed Y, iso_part M ''M'' @ iso_part D ''D'' @ ?t)"
    by (intro field_part skips_part assms skip) (simp_all add: number_chars)
  have M: "iso_field (CHR ''M'') (iso_part M ''M'' @ iso_part D ''D'' @ ?t) = (printed M, iso_part D ''D'' @ ?t)"
    by (intro field_part skips_part assms skip) (simp_all add: number_chars)
  have D: "iso_field (CHR ''D'') (iso_part D ''D'' @ ?t) = (printed D, ?t)"
    by (intro field_part assms skip) (simp_all add: number_chars)
  have S: "skips c (?r5)" if "c \<noteq> CHR ''S''" for c
    using skips_part [OF assms(6), of "CHR ''S''" c "[]"] that skips_simple(1) by (simp add: number_chars)
  have h: "iso_field (CHR ''H'') ?r3 = (printed h, ?r4)"
    by (intro field_part skips_part assms S) (simp_all add: number_chars)
  have m: "iso_field (CHR ''M'') ?r4 = (printed m, ?r5)"
    by (intro field_part assms S) (simp_all add: number_chars)
  have s: "iso_field (CHR ''S'') ?r5 = (printed s, [])"
    using field_part [OF assms(6), of "CHR ''S''" "[]"] skips_simple(1) by (simp add: number_chars)
  have T: "?t = CHR ''T'' # ?r3 \<or> ?t = [] \<and> printed h = None \<and> printed m = None \<and> printed s = None"
    unfolding t by (simp add: printed_def)
  have shape: "iso_amounts Y M D h m s = CHR ''P'' # iso_part Y ''Y'' @ iso_part M ''M'' @ iso_part D ''D'' @ ?t"
    by (simp only: iso_amounts_def append_assoc)
  show "create__isoRegex (iso_amounts Y M D h m s) =
      Some (False, [printed Y, printed M, printed D, printed h, printed m, printed s, None])"
    unfolding shape by (rule amounts_matched [OF Y M D T h m s])
  show "create__isoRegex (CHR ''-'' # iso_amounts Y M D h m s) =
      Some (True, [printed Y, printed M, printed D, printed h, printed m, printed s, None])"
    unfolding shape by (rule amounts_matched [OF Y M D T h m s])
  show "CHR '':'' \<notin> set (iso_amounts Y M D h m s)"
    unfolding iso_amounts_def using iso_letters assms by simp
qed


lemma seconds_sign:
  assumes "as_unit ''s'' d = Some x"
  shows "0 \<le> du_milliseconds d \<and> 0 \<le> du_days d \<and> 0 \<le> du_months d \<Longrightarrow>
      (x = 0 \<longleftrightarrow> du_milliseconds d = 0 \<and> du_days d = 0 \<and> du_months d = 0) \<and> 0 \<le> x"
    and "du_milliseconds d \<le> 0 \<and> du_days d \<le> 0 \<and> du_months d \<le> 0 \<Longrightarrow>
      (x = 0 \<longleftrightarrow> du_milliseconds d = 0 \<and> du_days d = 0 \<and> du_months d = 0) \<and> x \<le> 0"
proof -
  let ?m = "du_months d" and ?r = "js_round (monthsToDays (of_int (du_months d)))"
  have x: "x = of_int (du_days d + ?r) * 86400 + of_int (du_milliseconds d) / 1000"
    using assms by (simp add: as_unit_def Let_def)
  have r: "0 \<le> ?m \<Longrightarrow> 0 \<le> ?r" "?m \<le> 0 \<Longrightarrow> ?r \<le> 0" "?r = 0 \<longleftrightarrow> ?m = 0"
    unfolding js_round_def monthsToDays_def by linarith+
  show "(x = 0 \<longleftrightarrow> du_milliseconds d = 0 \<and> du_days d = 0 \<and> du_months d = 0) \<and> 0 \<le> x"
    if "0 \<le> du_milliseconds d \<and> 0 \<le> du_days d \<and> 0 \<le> du_months d"
    using that r unfolding x by (auto simp: add_nonneg_eq_0_iff)
  show "(x = 0 \<longleftrightarrow> du_milliseconds d = 0 \<and> du_days d = 0 \<and> du_months d = 0) \<and> x \<le> 0"
    if "du_milliseconds d \<le> 0 \<and> du_days d \<le> 0 \<and> du_months d \<le> 0"
    using that r unfolding x by (auto simp: add_nonpos_eq_0_iff add_nonpos_nonpos mult_nonpos_nonneg)
qed


lemma whole_parts:
  "\<exists>e. duration_of_parts global (of_int a) (of_int b) (of_int c) = Some e
     \<and> du_milliseconds e = a \<and> du_days e = b \<and> du_months e = c"
  by (simp add: duration_of_parts_def whole_amount_def new_Duration_def normalizeObjectUnits_def bubble_def or_zero_def)

lemma amounts_read:
  assumes "0 \<le> Y" "0 \<le> M" "0 \<le> D" "0 \<le> h" "0 \<le> m" "0 \<le> s"
    and shape: "text' = (if neg then ''-'' else []) @ iso_amounts Y M D h m s" and k: "k = (if neg then - 1 else 1)"
  shows "\<exists>e. duration_of_text global text' = Some e \<and> du_milliseconds e = k * (h * 3600000 + m * 60000 + s * 1000)
      \<and> du_days e = k * D \<and> du_months e = k * (M + Y * 12)"
proof -
  note parsed = amounts_parsed [OF assms(1-6)]
  have "aspNetRegex text' = None" using parsed(3) no_colon unfolding shape by simp
  moreover have "create__isoRegex text' = Some (neg, [printed Y, printed M, printed D, printed h, printed m, printed s, None])"
    using parsed(1,2) unfolding shape by simp
  moreover have "parseIso None k = 0" by (simp add: parseIso_def)
  ultimately have "duration_of_text global text' = duration_of_parts global
      (of_int (k * (h * 3600000 + m * 60000 + s * 1000))) (of_int (k * D)) (of_int (k * (M + Y * 12)))"
    using assms(1-6) k by (simp add: duration_of_text_def Let_def parse_printed algebra_simps)
  then show ?thesis using whole_parts by (simp only: ex_simps)
qed

text \<open>
  Claim C32: the ISO text of a duration in whole seconds whose milliseconds, days and months do not
  have opposite signs, read by \<open>moment.duration\<close>, is a duration with the same milliseconds, days and months.
\<close>

theorem duration_text_roundtrip:
  assumes "1000 dvd du_milliseconds d"
    and "0 \<le> du_milliseconds d \<and> 0 \<le> du_days d \<and> 0 \<le> du_months d
       \<or> du_milliseconds d \<le> 0 \<and> du_days d \<le> 0 \<and> du_months d \<le> 0"
  shows "\<exists>e. duration_of_text global (duration_toISOString decimals d) = Some e
      \<and> du_milliseconds e = du_milliseconds d \<and> du_days e = du_days d \<and> du_months e = du_months d"
proof -
  obtain x where x: "as_unit ''s'' d = Some x" by (simp add: as_unit_def Let_def)
  let ?ms = "\<bar>du_milliseconds d\<bar>" and ?mo = "\<bar>du_months d\<bar>"
  let ?h = "?ms div 60000 div 60" and ?m = "?ms div 60000 mod 60" and ?s = "?ms mod 60000 div 1000"
  let ?text = "(if x < 0 then ''-'' else []) @ iso_amounts (?mo div 12) (?mo mod 12) \<bar>du_days d\<bar> ?h ?m ?s"
  let ?k = "if x < 0 then - 1 else 1 :: int"
  obtain k where k: "?ms = k * 1000" using assms(1) by (metis dvd_abs_iff dvd_def mult.commute)
  have "?ms mod 60000 = k mod 60 * 1000" using k mod_mult_mult2 [of k 1000 60] by simp
  then have s: "?ms mod 60000 = ?s * 1000" and whole: "?ms mod 60000 mod 1000 = 0"
    "?ms mod 60000 div 1000 = 0 \<longleftrightarrow> ?ms mod 60000 = 0" by simp_all
  have months: "?mo mod 12 + ?mo div 12 * 12 = ?mo" by (rule mod_div_mult_eq)
  have minutes: "?h * 60 + ?m = ?ms div 60000" by (rule div_mult_mod_eq)
  have total: "?ms div 60000 * 60000 + ?s * 1000 = ?ms" unfolding s [symmetric] by (rule div_mult_mod_eq)
  have "a * 3600000 + b * 60000 + r = t" if "a * 60 + b = c" "c * 60000 + r = t" for a b c r t :: int
    using that by linarith
  from this [OF minutes total] have ms: "?h * 3600000 + ?m * 60000 + ?s * 1000 = ?ms" .
  have read: "\<exists>e. duration_of_text global ?text = Some e
      \<and> du_milliseconds e = ?k * (?h * 3600000 + ?m * 60000 + ?s * 1000) \<and> du_days e = ?k * \<bar>du_days d\<bar>
      \<and> du_months e = ?k * (?mo mod 12 + ?mo div 12 * 12)"
    by (rule amounts_read [of _ _ _ _ _ _ _ "x < 0"]) simp_all
  show ?thesis
  proof (cases "x = 0")
    case True
    then have zero: "du_milliseconds d = 0 \<and> du_days d = 0 \<and> du_months d = 0" using seconds_sign [OF x] assms(2) by blast
    have "aspNetRegex ''P0D'' = None"
      "create__isoRegex ''P0D'' = Some (False, [None, None, Some ''0'', None, None, None, None])"
      "parseIso (Some ''0'') 1 = 0" "parseIso None 1 = 0" by code_simp+
    then have "duration_of_text global ''P0D'' = duration_of_parts global 0 0 0" by (simp add: duration_of_text_def Let_def)
    then show ?thesis using True x zero whole_parts [of global 0 0 0] by (simp add: duration_toISOString_def)
  next
    case False
    have "duration_toISOString decimals d = ?text"
      using False x whole by (simp add: duration_toISOString_def iso_amounts_def iso_part_def Let_def)
    then show ?thesis using read [unfolded ms months] seconds_sign [OF x] assms(2) False by (cases "x < 0") auto
  qed
qed

theorem duration_text_roundtrip_witness:
  "\<exists>e. duration_of_text en_locale (duration_toISOString (\<lambda>_. []) (new_Duration en_locale [(''M'', - 14), (''h'', - 30)])) = Some e
      \<and> du_milliseconds e = - 108000000 \<and> du_days e = 0 \<and> du_months e = - 14"
  using duration_text_roundtrip [of "new_Duration en_locale [(''M'', - 14), (''h'', - 30)]" en_locale "\<lambda>_. []"]
  by (simp add: new_Duration_def normalizeObjectUnits_def bubble_def or_zero_def)

end
