(* ===== verification/AngularQ.thy ===== *)
theory AngularQ imports Main Prelude JsValue begin

text \<open>
  The promises of AngularJS (\<open>$q\<close> of angular.js), on which the continuations of app.js run. Promises,
  the arrays of waiting callbacks, the flags of \<open>callOnce\<close> and the counters of \<open>all\<close> are numbered in
  the order of their creation; a deferred and its promise have the same number. \<open>nextTick\<close> appends to a
  queue of ticks that the digest loop works off from the front. The functions given by callers are
  numbered too: what such a function does to promises and what it returns or throws is a parameter.
  Values with a \<open>then\<close> method that are not promises of this library are not modelled. The fields
  \<open>registered\<close> and \<open>trace\<close> are no part of the library; they record the calls of \<open>then\<close> and the
  callbacks that were reached, with the status and the value they were reached with.
\<close>

section \<open>State\<close>

datatype qvalue =
    Undef
  | Plain json
  | PromiseRef nat
  | Results "(string \<times> qvalue) list"
  | Qcycle nat

text \<open>
  What can be given to \<open>then\<close>: nothing, something that is no function, a caller's function, or one of
  the closures of the library: the two of \<open>callOnce\<close> (flag and deferred), \<open>notify\<close> of a deferred, the
  two of \<open>finally\<close>, those of \<open>handleCallback\<close>, and the two of \<open>all\<close> (counter and key).
\<close>

datatype callback =
    Absent
  | NotFunction
  | User nat
  | Resolver nat nat
  | Rejecter nat nat
  | Notifier nat
  | Finally bool callback
  | Restore bool qvalue
  | RejectWith
  | AllOk nat string
  | AllErr nat string

type_synonym entry = "nat \<times> callback \<times> callback \<times> callback"

record promise_state =
  q_status :: int
  q_value :: qvalue
  q_pending :: "nat option"
  q_scheduled :: bool

datatype tick = ProcessQueue nat | NotifyAll nat qvalue

record collector =
  co_deferred :: nat
  co_counter :: int
  co_results :: "(string \<times> qvalue) list"

record qstate =
  promises :: "promise_state list"
  arrays :: "entry list list"
  flags :: "(nat \<times> bool) list"
  collectors :: "collector list"
  ticks :: "tick list"
  handled_errors :: "qvalue list"
  registered :: "(nat \<times> nat) list"
  trace :: "(nat \<times> nat \<times> int \<times> qvalue) list"

datatype outcome = Return qvalue | Throw qvalue

definition new_promise :: promise_state where
  "new_promise = \<lparr>q_status = 0, q_value = Undef, q_pending = None, q_scheduled = False\<rparr>"

definition initial_q :: qstate where
  "initial_q = \<lparr>promises = [], arrays = [], flags = [], collectors = [], ticks = [], handled_errors = [],
     registered = [], trace = []\<rparr>"

definition put_promise :: "nat \<Rightarrow> promise_state \<Rightarrow> qstate \<Rightarrow> qstate" where
  "put_promise p st s = s\<lparr>promises := (promises s)[p := st]\<rparr>"

definition isFunction :: "callback \<Rightarrow> bool" where
  "isFunction f \<longleftrightarrow> f \<noteq> Absent \<and> f \<noteq> NotFunction"

definition isPromiseLike :: "qvalue \<Rightarrow> bool" where
  "isPromiseLike v \<longleftrightarrow> (case v of PromiseRef p \<Rightarrow> True | _ \<Rightarrow> False)"

section \<open>Promises and deferreds\<close>

definition q_defer :: "qstate \<Rightarrow> nat \<times> qstate" where
  "q_defer s = (length (promises s), s\<lparr>promises := promises s @ [new_promise]\<rparr>)"

definition scheduleProcessQueue :: "nat \<Rightarrow> qstate \<Rightarrow> qstate" where
  "scheduleProcessQueue p s =
     (let st = promises s ! p in
      if q_scheduled st \<or> q_pending st = None then s
      else put_promise p (st\<lparr>q_scheduled := True\<rparr>) s\<lparr>ticks := ticks s @ [ProcessQueue p]\<rparr>)"

text \<open>\<open>pending = pending || []\<close> and the push; the array may be shared with a waiting notification.\<close>

definition push_pending :: "nat \<Rightarrow> entry \<Rightarrow> qstate \<Rightarrow> qstate" where
  "push_pending p e s =
     (let st = promises s ! p in
      case q_pending st of
        None \<Rightarrow> put_promise p (st\<lparr>q_pending := Some (length (arrays s))\<rparr>) s\<lparr>arrays := arrays s @ [[e]]\<rparr>
      | Some a \<Rightarrow> s\<lparr>arrays := (arrays s)[a := arrays s ! a @ [e]]\<rparr>)"

definition q_then :: "nat \<Rightarrow> callback \<Rightarrow> callback \<Rightarrow> callback \<Rightarrow> qstate \<Rightarrow> nat \<times> qstate" where
  "q_then p onFulfilled onRejected progressBack s =
     (if onFulfilled = Absent \<and> onRejected = Absent \<and> progressBack = Absent then (p, s)
      else
        (let (r, s1) = q_defer s;
             s2 = push_pending p (r, onFulfilled, onRejected, progressBack) s1\<lparr>registered := registered s1 @ [(p, r)]\<rparr>
         in (r, if q_status (promises s2 ! p) > 0 then scheduleProcessQueue p s2 else s2)))"

definition q_catch :: "nat \<Rightarrow> callback \<Rightarrow> qstate \<Rightarrow> nat \<times> qstate" where
  "q_catch p cb s = q_then p NotFunction cb Absent s"

definition q_finally :: "nat \<Rightarrow> callback \<Rightarrow> callback \<Rightarrow> qstate \<Rightarrow> nat \<times> qstate" where
  "q_finally p cb progressBack s = q_then p (Finally True cb) (Finally False cb) progressBack s"

definition raw_reject :: "nat \<Rightarrow> qvalue \<Rightarrow> qstate \<Rightarrow> qstate" where
  "raw_reject d reason s =
     scheduleProcessQueue d (put_promise d ((promises s ! d)\<lparr>q_value := reason, q_status := 2\<rparr>) s)"

text \<open>The closures of \<open>callOnce\<close> are only ever called where \<open>val\<close> is a promise; no \<open>then\<close> throws.\<close>

definition raw_resolve :: "nat \<Rightarrow> qvalue \<Rightarrow> qstate \<Rightarrow> qstate" where
  "raw_resolve d val s =
     (case val of
        PromiseRef p \<Rightarrow>
          (let c = length (flags s);
               s1 = put_promise d ((promises s ! d)\<lparr>q_status := - 1\<rparr>) s\<lparr>flags := flags s @ [(d, False)]\<rparr>
           in snd (q_then p (Resolver c d) (Rejecter c d) (Notifier d) s1))
      | _ \<Rightarrow> scheduleProcessQueue d (put_promise d ((promises s ! d)\<lparr>q_value := val, q_status := 1\<rparr>) s))"

definition q_reject :: "nat \<Rightarrow> qvalue \<Rightarrow> qstate \<Rightarrow> qstate" where
  "q_reject d reason s = (if q_status (promises s ! d) \<noteq> 0 then s else raw_reject d reason s)"

definition q_resolve :: "nat \<Rightarrow> qvalue \<Rightarrow> qstate \<Rightarrow> qstate" where
  "q_resolve d val s =
     (if q_status (promises s ! d) \<noteq> 0 then s
      else if val = PromiseRef d then raw_reject d (Qcycle d) s
      else raw_resolve d val s)"

definition q_notify :: "nat \<Rightarrow> qvalue \<Rightarrow> qstate \<Rightarrow> qstate" where
  "q_notify d progress s =
     (let st = promises s ! d in
      case q_pending st of
        Some a \<Rightarrow> if q_status st \<le> 0 \<and> arrays s ! a \<noteq> [] then s\<lparr>ticks := ticks s @ [NotifyAll a progress]\<rparr> else s
      | None \<Rightarrow> s)"

section \<open>Making and combining promises\<close>

definition makePromise :: "qvalue \<Rightarrow> bool \<Rightarrow> qstate \<Rightarrow> nat \<times> qstate" where
  "makePromise v resolved s =
     (let (r, s1) = q_defer s in (r, if resolved then q_resolve r v s1 else q_reject r v s1))"

definition reject_promise :: "qvalue \<Rightarrow> qstate \<Rightarrow> nat \<times> qstate" where
  "reject_promise reason s = (let (r, s1) = q_defer s in (r, q_reject r reason s1))"

definition q_when :: "qvalue \<Rightarrow> callback \<Rightarrow> callback \<Rightarrow> callback \<Rightarrow> qstate \<Rightarrow> nat \<times> qstate" where
  "q_when v cb errback progressBack s =
     (let (r, s1) = q_defer s in q_then r cb errback progressBack (q_resolve r v s1))"

definition all_one :: "nat \<Rightarrow> string \<times> qvalue \<Rightarrow> qstate \<Rightarrow> qstate" where
  "all_one k kv s =
     (let co = collectors s ! k;
          s1 = s\<lparr>collectors := (collectors s)[k := co\<lparr>co_counter := co_counter co + 1\<rparr>]\<rparr>;
          (w, s2) = q_when (snd kv) Absent Absent Absent s1
      in snd (q_then w (AllOk k (fst kv)) (AllErr k (fst kv)) Absent s2))"

definition q_all :: "(string \<times> qvalue) list \<Rightarrow> qstate \<Rightarrow> nat \<times> qstate" where
  "q_all ps s =
     (let (d, s1) = q_defer s; k = length (collectors s1);
          s2 = fold (all_one k) ps (s1\<lparr>collectors := collectors s1 @ [\<lparr>co_deferred = d, co_counter = 0, co_results = []\<rparr>]\<rparr>);
          co = collectors s2 ! k
      in (d, if co_counter co = 0 then q_resolve d (Results (co_results co)) s2 else s2))"

text \<open>The two continuations of \<open>all\<close>.\<close>

definition all_ok :: "nat \<Rightarrow> string \<Rightarrow> qvalue \<Rightarrow> qstate \<Rightarrow> qstate" where
  "all_ok k key v s =
     (let co = collectors s ! k in
      if map_of (co_results co) key \<noteq> None then s
      else
        (let co' = co\<lparr>co_results := co_results co @ [(key, v)], co_counter := co_counter co - 1\<rparr>;
             s1 = s\<lparr>collectors := (collectors s)[k := co']\<rparr>
         in if co_counter co' = 0 then q_resolve (co_deferred co) (Results (co_results co')) s1 else s1))"

definition all_err :: "nat \<Rightarrow> string \<Rightarrow> qvalue \<Rightarrow> qstate \<Rightarrow> qstate" where
  "all_err k key reason s =
     (let co = collectors s ! k in
      if map_of (co_results co) key \<noteq> None then s else q_reject (co_deferred co) reason s)"

section \<open>Callers\<close>

datatype action =
    Defer
  | Resolve nat qvalue
  | Reject nat qvalue
  | Notify nat qvalue
  | Then nat callback callback callback
  | Catch nat callback
  | FinallyDo nat callback callback
  | MakeRejected qvalue
  | When qvalue callback callback callback
  | All "(string \<times> qvalue) list"

fun perform :: "action \<Rightarrow> qstate \<Rightarrow> qstate" where
  "perform Defer s = snd (q_defer s)"
| "perform (Resolve d v) s = q_resolve d v s"
| "perform (Reject d v) s = q_reject d v s"
| "perform (Notify d v) s = q_notify d v s"
| "perform (Then p f g h) s = snd (q_then p f g h s)"
| "perform (Catch p g) s = snd (q_catch p g s)"
| "perform (FinallyDo p f h) s = snd (q_finally p f h s)"
| "perform (MakeRejected v) s = snd (reject_promise v s)"
| "perform (When v f g h) s = snd (q_when v f g h s)"
| "perform (All ps) s = snd (q_all ps s)"

type_synonym user_functions = "nat \<Rightarrow> qvalue \<Rightarrow> qstate \<Rightarrow> action list \<times> outcome"

definition call_user :: "user_functions \<Rightarrow> nat \<Rightarrow> qvalue \<Rightarrow> qstate \<Rightarrow> outcome \<times> qstate" where
  "call_user user i v s = (case user i v s of (acts, out) \<Rightarrow> (out, fold perform acts s))"

text \<open>
  The constructor: \<open>resolver\<close>, if it is a function, is called with the two functions that settle the
  new deferred; what it throws is thrown.
\<close>

definition Q :: "(nat \<Rightarrow> action list \<times> outcome) option \<Rightarrow> qstate \<Rightarrow> (qvalue + nat) \<times> qstate" where
  "Q resolver s =
     (case resolver of
        None \<Rightarrow> (Inl (Plain (JStr ''norslvr'')), s)
      | Some f \<Rightarrow>
          (let (d, s1) = q_defer s; (acts, out) = f d; s2 = fold perform acts s1
           in (case out of Return v \<Rightarrow> (Inr d, s2) | Throw e \<Rightarrow> (Inl e, s2))))"

section \<open>Ticks\<close>

definition handleCallback :: "user_functions \<Rightarrow> qvalue \<Rightarrow> bool \<Rightarrow> callback \<Rightarrow> qstate \<Rightarrow> nat \<times> qstate" where
  "handleCallback user v isResolved cb s =
     (let (out, s1) = (case cb of User i \<Rightarrow> call_user user i Undef s | _ \<Rightarrow> (Return Undef, s)) in
      case out of
        Throw e \<Rightarrow> makePromise e False s1
      | Return w \<Rightarrow>
          (case w of
             PromiseRef p \<Rightarrow> q_then p (Restore isResolved v) RejectWith Absent s1
           | _ \<Rightarrow> makePromise v isResolved s1))"

fun call :: "user_functions \<Rightarrow> callback \<Rightarrow> qvalue \<Rightarrow> qstate \<Rightarrow> outcome \<times> qstate" where
  "call user (User i) v s = call_user user i v s"
| "call user (Resolver c d) v s =
     (Return Undef, if snd (flags s ! c) then s else raw_resolve d v (s\<lparr>flags := (flags s)[c := (d, True)]\<rparr>))"
| "call user (Rejecter c d) v s =
     (Return Undef, if snd (flags s ! c) then s else raw_reject d v (s\<lparr>flags := (flags s)[c := (d, True)]\<rparr>))"
| "call user (Notifier d) v s = (Return Undef, q_notify d v s)"
| "call user (Finally ok cb) v s = (case handleCallback user v ok cb s of (p, s1) \<Rightarrow> (Return (PromiseRef p), s1))"
| "call user (Restore ok w) v s = (case makePromise w ok s of (p, s1) \<Rightarrow> (Return (PromiseRef p), s1))"
| "call user RejectWith v s = (case makePromise v False s of (p, s1) \<Rightarrow> (Return (PromiseRef p), s1))"
| "call user (AllOk k key) v s = (Return Undef, all_ok k key v s)"
| "call user (AllErr k key) v s = (Return Undef, all_err k key v s)"
| "call user Absent v s = (Return Undef, s)"
| "call user NotFunction v s = (Return Undef, s)"

text \<open>One round of the loop of \<open>processQueue\<close>.\<close>

definition process_entry :: "user_functions \<Rightarrow> nat \<Rightarrow> entry \<Rightarrow> qstate \<Rightarrow> qstate" where
  "process_entry user p e s0 =
     (let st = promises s0 ! p; s = s0\<lparr>trace := trace s0 @ [(p, fst e, q_status st, q_value st)]\<rparr> in
      case e of (r, onFulfilled, onRejected, progressBack) \<Rightarrow>
        (let fn = (if q_status st = 1 then onFulfilled else onRejected) in
         if isFunction fn then
           (case call user fn (q_value st) s of
              (Return w, s1) \<Rightarrow> q_resolve r w s1
            | (Throw err, s1) \<Rightarrow> (let s2 = q_reject r err s1 in s2\<lparr>handled_errors := handled_errors s2 @ [err]\<rparr>))
         else if q_status st = 1 then q_resolve r (q_value st) s
         else q_reject r (q_value st) s))"

definition processQueue :: "user_functions \<Rightarrow> nat \<Rightarrow> qstate \<Rightarrow> qstate" where
  "processQueue user p s =
     (let st = promises s ! p;
          pending = (case q_pending st of None \<Rightarrow> [] | Some a \<Rightarrow> arrays s ! a)
      in fold (process_entry user p) pending (put_promise p (st\<lparr>q_scheduled := False, q_pending := None\<rparr>) s))"

definition notify_entry :: "user_functions \<Rightarrow> qvalue \<Rightarrow> entry \<Rightarrow> qstate \<Rightarrow> qstate" where
  "notify_entry user progress e s =
     (case e of (r, _, _, cb) \<Rightarrow>
        if isFunction cb then
          (case call user cb progress s of
             (Return w, s1) \<Rightarrow> q_notify r w s1
           | (Throw err, s1) \<Rightarrow> s1\<lparr>handled_errors := handled_errors s1 @ [err]\<rparr>)
        else q_notify r progress s)"

definition run_tick :: "user_functions \<Rightarrow> tick \<Rightarrow> qstate \<Rightarrow> qstate" where
  "run_tick user t s =
     (case t of
        ProcessQueue p \<Rightarrow> processQueue user p s
      | NotifyAll a progress \<Rightarrow> fold (notify_entry user progress) (arrays s ! a) s)"

datatype event = Outside action | Tick

definition q_step :: "user_functions \<Rightarrow> event \<Rightarrow> qstate \<Rightarrow> qstate" where
  "q_step user ev s =
     (case ev of
        Outside act \<Rightarrow> perform act s
      | Tick \<Rightarrow> (case ticks s of [] \<Rightarrow> s | t # ts \<Rightarrow> run_tick user t (s\<lparr>ticks := ts\<rparr>)))"

definition q_run :: "user_functions \<Rightarrow> event list \<Rightarrow> qstate \<Rightarrow> qstate" where
  "q_run user evs s = fold (q_step user) evs s"

end
