(* ===== verification/AngularQFacts.thy ===== *)
theory AngularQFacts imports Main Prelude AngularQ begin

text \<open>
  What the promises of AngularJS guarantee to the code that uses them: a settled promise stays as it is,
  the callbacks given to \<open>then\<close> are reached once, in order and with the value the promise settled with,
  and none is forgotten.
\<close>

section \<open>Use of the library\<close>

text \<open>Callers name promises that exist, and their callbacks are functions of their own.\<close>

fun own_callback :: "callback \<Rightarrow> bool" where
  "own_callback Absent = True"
| "own_callback NotFunction = True"
| "own_callback (User i) = True"
| "own_callback _ = False"

definition known :: "qstate \<Rightarrow> qvalue \<Rightarrow> bool" where
  "known s v \<longleftrightarrow> (case v of PromiseRef p \<Rightarrow> p < length (promises s) | _ \<Rightarrow> True)"

fun legal :: "qstate \<Rightarrow> action \<Rightarrow> bool" where
  "legal s Defer = True"
| "legal s (Resolve d v) = (d < length (promises s) \<and> known s v)"
| "legal s (Reject d v) = (d < length (promises s) \<and> known s v)"
| "legal s (Notify d v) = (d < length (promises s) \<and> known s v)"
| "legal s (Then p f g h) = (p < length (promises s) \<and> own_callback f \<and> own_callback g \<and> own_callback h)"
| "legal s (Catch p g) = (p < length (promises s) \<and> own_callback g)"
| "legal s (FinallyDo p f h) = (p < length (promises s) \<and> own_callback f \<and> own_callback h)"
| "legal s (MakeRejected v) = known s v"
| "legal s (When v f g h) = (known s v \<and> own_callback f \<and> own_callback g \<and> own_callback h)"
| "legal s (All ps) = (\<forall>kv\<in>set ps. known s (snd kv))"

fun legal_actions :: "qstate \<Rightarrow> action list \<Rightarrow> bool" where
  "legal_actions s [] = True"
| "legal_actions s (a # as) = (legal s a \<and> legal_actions (perform a s) as)"

fun result_of :: "outcome \<Rightarrow> qvalue" where
  "result_of (Return v) = v"
| "result_of (Throw v) = v"

definition legal_functions :: "user_functions \<Rightarrow> bool" where
  "legal_functions user \<longleftrightarrow> (\<forall>i v s. legal_actions s (fst (user i v s))
     \<and> known (fold perform (fst (user i v s)) s) (result_of (snd (user i v s))))"

fun legal_run :: "user_functions \<Rightarrow> event list \<Rightarrow> qstate \<Rightarrow> bool" where
  "legal_run user [] s = True"
| "legal_run user (ev # evs) s =
     ((case ev of Outside a \<Rightarrow> legal s a | Tick \<Rightarrow> True) \<and> legal_run user evs (q_step user ev s))"

section \<open>The invariant\<close>

definition pending_entries :: "qstate \<Rightarrow> nat \<Rightarrow> entry list" where
  "pending_entries s p = (case q_pending (promises s ! p) of None \<Rightarrow> [] | Some a \<Rightarrow> arrays s ! a)"

fun valid_callback :: "qstate \<Rightarrow> callback \<Rightarrow> bool" where
  "valid_callback s (Resolver c d) = (c < length (flags s) \<and> fst (flags s ! c) = d)"
| "valid_callback s (Rejecter c d) = (c < length (flags s) \<and> fst (flags s ! c) = d)"
| "valid_callback s (Notifier d) = (d < length (promises s))"
| "valid_callback s (Restore ok v) = known s v"
| "valid_callback s (AllOk k key) = (k < length (collectors s))"
| "valid_callback s (AllErr k key) = (k < length (collectors s))"
| "valid_callback s _ = True"

definition valid_entry :: "qstate \<Rightarrow> entry \<Rightarrow> bool" where
  "valid_entry s e \<longleftrightarrow> (case e of (r, f, g, h) \<Rightarrow> r < length (promises s) \<and> valid_callback s f \<and> valid_callback s g \<and> valid_callback s h)"

text \<open>Each promise waits with an array of its own, and everything that is named exists.\<close>

definition arrays_ok :: "qstate \<Rightarrow> bool" where
  "arrays_ok s \<longleftrightarrow>
     (\<forall>p<length (promises s). \<forall>a. q_pending (promises s ! p) = Some a \<longrightarrow> a < length (arrays s) \<and> arrays s ! a \<noteq> [])
     \<and> (\<forall>p<length (promises s). \<forall>p'<length (promises s). \<forall>a.
          q_pending (promises s ! p) = Some a \<longrightarrow> q_pending (promises s ! p') = Some a \<longrightarrow> p = p')
     \<and> (\<forall>es\<in>set (arrays s). \<forall>e\<in>set es. valid_entry s e)
     \<and> (\<forall>k<length (collectors s). co_deferred (collectors s ! k) < length (promises s))"

text \<open>A settled promise with waiting callbacks, and no other, has exactly one tick.\<close>

definition ticks_ok :: "qstate \<Rightarrow> bool" where
  "ticks_ok s \<longleftrightarrow>
     (\<forall>p<length (promises s). count_list (ticks s) (ProcessQueue p) = (if q_scheduled (promises s ! p) then 1 else 0))
     \<and> (\<forall>p<length (promises s). q_scheduled (promises s ! p) \<longleftrightarrow>
          0 < q_status (promises s ! p) \<and> q_pending (promises s ! p) \<noteq> None)
     \<and> (\<forall>p. ProcessQueue p \<in> set (ticks s) \<longrightarrow> p < length (promises s))
     \<and> (\<forall>a v. NotifyAll a v \<in> set (ticks s) \<longrightarrow> a < length (arrays s) \<and> known s v)"

text \<open>A deferred with an unused \<open>callOnce\<close> is locked, and has only this one.\<close>

definition flags_ok :: "qstate \<Rightarrow> bool" where
  "flags_ok s \<longleftrightarrow>
     (\<forall>c<length (flags s). fst (flags s ! c) < length (promises s)
        \<and> (\<not> snd (flags s ! c) \<longrightarrow> q_status (promises s ! fst (flags s ! c)) = - 1))
     \<and> (\<forall>c<length (flags s). \<forall>c'<length (flags s). \<not> snd (flags s ! c) \<longrightarrow> \<not> snd (flags s ! c') \<longrightarrow>
          fst (flags s ! c) = fst (flags s ! c') \<longrightarrow> c = c')"

definition values_ok :: "qstate \<Rightarrow> bool" where
  "values_ok s \<longleftrightarrow> (\<forall>p<length (promises s). let st = promises s ! p in
     q_status st \<in> {- 1, 0, 1, 2} \<and> known s (q_value st) \<and> (q_status st = 1 \<longrightarrow> \<not> isPromiseLike (q_value st)))"

text \<open>
  The callbacks of a promise are reached in the order of their registration; \<open>f p\<close> are those that the
  loop of \<open>processQueue\<close> still has before it.
\<close>

definition order_ok :: "qstate \<Rightarrow> (nat \<Rightarrow> entry list) \<Rightarrow> bool" where
  "order_ok s f \<longleftrightarrow>
     (\<forall>p<length (promises s). map snd (filter (\<lambda>x. fst x = p) (registered s)) =
        map (fst \<circ> snd) (filter (\<lambda>x. fst x = p) (trace s)) @ map fst (f p) @ map fst (pending_entries s p))
     \<and> distinct (map snd (registered s))
     \<and> (\<forall>(p, r)\<in>set (registered s). p < length (promises s) \<and> r < length (promises s))
     \<and> (\<forall>(p, r, st, v)\<in>set (trace s). p < length (promises s) \<and> 0 < st \<and> st = q_status (promises s ! p) \<and> v = q_value (promises s ! p))
     \<and> (\<forall>p. (\<forall>e\<in>set (f p). valid_entry s e) \<and> (length (promises s) \<le> p \<longrightarrow> f p = []))"

definition q_inv :: "qstate \<Rightarrow> (nat \<Rightarrow> entry list) \<Rightarrow> bool" where
  "q_inv s f \<longleftrightarrow> arrays_ok s \<and> ticks_ok s \<and> flags_ok s \<and> values_ok s \<and> order_ok s f"

text \<open>What never gets lost: everything that exists, and the state of a settled promise.\<close>

definition extends :: "qstate \<Rightarrow> qstate \<Rightarrow> bool" where
  "extends s s' \<longleftrightarrow> length (promises s) \<le> length (promises s') \<and> length (arrays s) \<le> length (arrays s')
     \<and> (\<forall>p<length (promises s). 0 < q_status (promises s ! p) \<longrightarrow>
          q_status (promises s' ! p) = q_status (promises s ! p) \<and> q_value (promises s' ! p) = q_value (promises s ! p))
     \<and> length (flags s) \<le> length (flags s') \<and> (\<forall>c<length (flags s). fst (flags s' ! c) = fst (flags s ! c))
     \<and> length (collectors s) \<le> length (collectors s')"

lemma extends_refl [simp]: "extends s s"
  by (simp add: extends_def)

lemma extends_trans: "extends s t \<Longrightarrow> extends t u \<Longrightarrow> extends s u"
  by (auto simp: extends_def)

lemma known_extends: "known s v \<Longrightarrow> extends s s' \<Longrightarrow> known s' v"
  by (auto simp: known_def extends_def split: qvalue.splits)

lemma valid_callback_extends: "valid_callback s f \<Longrightarrow> extends s s' \<Longrightarrow> valid_callback s' f"
  by (cases f) (auto simp: extends_def intro: known_extends [unfolded extends_def])

lemma valid_entry_extends: "valid_entry s e \<Longrightarrow> extends s s' \<Longrightarrow> valid_entry s' e"
  by (cases e) (auto simp: valid_entry_def intro: valid_callback_extends dest: extends_def [THEN iffD1])

section \<open>The primitive steps\<close>

lemma defer_fst [simp]: "fst (q_defer s) = length (promises s)"
  by (simp add: q_defer_def)

lemma valid_entry_frame:
  "valid_entry s e \<Longrightarrow> length (promises s) \<le> length (promises s') \<Longrightarrow> flags s' = flags s \<Longrightarrow> collectors s' = collectors s
   \<Longrightarrow> valid_entry s' e"
proof -
  assume "length (promises s) \<le> length (promises s')" "flags s' = flags s" "collectors s' = collectors s"
  then have "valid_callback s f \<Longrightarrow> valid_callback s' f" for f
    by (cases f) (auto simp: known_def split: qvalue.splits)
  then show "valid_entry s e \<Longrightarrow> valid_entry s' e"
    using \<open>length (promises s) \<le> length (promises s')\<close> by (auto simp: valid_entry_def)
qed

lemma defer_extends: "extends s (snd (q_defer s))"
  by (simp add: q_defer_def extends_def nth_append)

lemma nothing_beyond:
  assumes "order_ok s f"
  shows "filter (\<lambda>x. fst x = length (promises s)) (registered s) = []"
    "filter (\<lambda>x. fst x = length (promises s)) (trace s) = []"
  using assms by (auto simp: order_ok_def filter_empty_conv)

lemma defer_inv:
  assumes "q_inv s f"
  shows "q_inv (snd (q_defer s)) f"
proof -
  note x = assms [unfolded q_inv_def]
  let ?s = "snd (q_defer s)"
  have ve: "valid_entry s e \<Longrightarrow> valid_entry ?s e" for e using valid_entry_extends defer_extends by blast
  have kn: "known s v \<Longrightarrow> known ?s v" for v using known_extends defer_extends by blast
  have "arrays_ok ?s" using x ve by (auto simp: arrays_ok_def q_defer_def nth_append new_promise_def less_Suc_eq)
  moreover have "ticks_ok ?s"
    using x kn by (auto simp: ticks_ok_def q_defer_def nth_append new_promise_def less_Suc_eq count_list_0_iff)
  moreover have "flags_ok ?s" using x by (auto simp: flags_ok_def q_defer_def nth_append less_Suc_eq)
  moreover have "values_ok ?s"
    using x kn by (auto simp: values_ok_def q_defer_def nth_append new_promise_def less_Suc_eq known_def Let_def)
  moreover have "order_ok ?s f"
    using x ve nothing_beyond [of s f]
    by (auto simp: order_ok_def q_defer_def nth_append new_promise_def less_Suc_eq pending_entries_def cong: option.case_cong)
  ultimately show ?thesis by (simp add: q_inv_def)
qed

text \<open>Settling a promise, which schedules the callbacks that wait for it.\<close>

definition settle :: "nat \<Rightarrow> int \<Rightarrow> qvalue \<Rightarrow> qstate \<Rightarrow> qstate" where
  "settle d st v s = scheduleProcessQueue d (put_promise d ((promises s ! d)\<lparr>q_value := v, q_status := st\<rparr>) s)"

definition unlocked :: "qstate \<Rightarrow> nat \<Rightarrow> bool" where
  "unlocked s d \<longleftrightarrow> (\<forall>c<length (flags s). fst (flags s ! c) = d \<longrightarrow> snd (flags s ! c))"

lemma settle_simps:
  assumes "d < length (promises s)"
  shows "length (promises (settle d st v s)) = length (promises s)" "arrays (settle d st v s) = arrays s"
    "flags (settle d st v s) = flags s" "collectors (settle d st v s) = collectors s"
    "registered (settle d st v s) = registered s" "trace (settle d st v s) = trace s"
    "promises (settle d st v s) ! p = (if p = d then (promises s ! d)\<lparr>q_value := v, q_status := st,
         q_scheduled := q_scheduled (promises s ! d) \<or> q_pending (promises s ! d) \<noteq> None\<rparr> else promises s ! p)"
    "ticks (settle d st v s) = ticks s @ (if q_scheduled (promises s ! d) \<or> q_pending (promises s ! d) = None then [] else [ProcessQueue d])"
  using assms by (auto simp: settle_def scheduleProcessQueue_def put_promise_def Let_def nth_list_update)

lemma settle_extends:
  assumes "d < length (promises s)" and "q_status (promises s ! d) \<le> 0"
  shows "extends s (settle d st v s)"
  using assms by (auto simp: extends_def settle_simps)

lemma settle_inv:
  assumes "q_inv s f" and d: "d < length (promises s)" and st: "q_status (promises s ! d) \<le> 0" and "unlocked s d"
    and "known s v" and "st = 1 \<and> \<not> isPromiseLike v \<or> st = 2"
  shows "q_inv (settle d st v s) f"
proof -
  note x = assms(1) [unfolded q_inv_def]
  let ?s = "settle d st v s"
  have e: "extends s ?s" using settle_extends assms by blast
  have ve: "valid_entry s e \<Longrightarrow> valid_entry ?s e" for e using valid_entry_extends e by blast
  have kn: "known s v \<Longrightarrow> known ?s v" for v using known_extends e by blast
  have sch: "\<not> q_scheduled (promises s ! d)" using x d st by (auto simp: ticks_ok_def)
  have "arrays_ok ?s" using x d ve by (auto simp: arrays_ok_def settle_simps)
  moreover have "ticks_ok ?s"
    using x d kn sch assms(6) by (auto simp: ticks_ok_def settle_simps)
  moreover have "flags_ok ?s" using x d assms(4) by (auto simp: flags_ok_def settle_simps unlocked_def)
  moreover have "values_ok ?s"
    using x d kn assms(5,6) by (auto simp: values_ok_def settle_simps Let_def)
  moreover have "order_ok ?s f"
    using x d ve st by (auto simp: order_ok_def settle_simps pending_entries_def split: prod.splits cong: option.case_cong)
  ultimately show ?thesis by (simp add: q_inv_def)
qed

text \<open>Locking a deferred to another promise.\<close>

definition lock :: "nat \<Rightarrow> qstate \<Rightarrow> qstate" where
  "lock d s = put_promise d ((promises s ! d)\<lparr>q_status := - 1\<rparr>) s\<lparr>flags := flags s @ [(d, False)]\<rparr>"

lemma lock_simps:
  assumes "d < length (promises s)"
  shows "length (promises (lock d s)) = length (promises s)" "arrays (lock d s) = arrays s"
    "flags (lock d s) = flags s @ [(d, False)]" "collectors (lock d s) = collectors s"
    "registered (lock d s) = registered s" "trace (lock d s) = trace s" "ticks (lock d s) = ticks s"
    "promises (lock d s) ! p = (if p = d then (promises s ! d)\<lparr>q_status := - 1\<rparr> else promises s ! p)"
  using assms by (auto simp: lock_def put_promise_def nth_list_update)

lemma lock_extends: "d < length (promises s) \<Longrightarrow> q_status (promises s ! d) \<le> 0 \<Longrightarrow> extends s (lock d s)"
  by (auto simp: extends_def lock_simps nth_append)

lemma lock_inv:
  assumes "q_inv s f" and d: "d < length (promises s)" and st: "q_status (promises s ! d) \<le> 0" and "unlocked s d"
  shows "q_inv (lock d s) f"
proof -
  note x = assms(1) [unfolded q_inv_def]
  let ?s = "lock d s"
  have e: "extends s ?s" using lock_extends assms by blast
  have ve: "valid_entry s e \<Longrightarrow> valid_entry ?s e" for e using valid_entry_extends e by blast
  have kn: "known s v \<Longrightarrow> known ?s v" for v using known_extends e by blast
  have "arrays_ok ?s" using x d ve by (auto simp: arrays_ok_def lock_simps)
  moreover have "ticks_ok ?s" using x d st kn by (auto simp: ticks_ok_def lock_simps)
  moreover have "flags_ok ?s" using x d assms(4) by (auto simp: flags_ok_def lock_simps unlocked_def nth_append less_Suc_eq)
  moreover have "values_ok ?s" using x d kn by (auto simp: values_ok_def lock_simps Let_def)
  moreover have "order_ok ?s f"
    using x d ve st by (auto simp: order_ok_def lock_simps pending_entries_def split: prod.splits cong: option.case_cong)
  ultimately show ?thesis by (simp add: q_inv_def)
qed

text \<open>Adding callbacks to a promise.\<close>

definition attach :: "nat \<Rightarrow> entry \<Rightarrow> qstate \<Rightarrow> qstate" where
  "attach p e s =
     (let s2 = push_pending p e s\<lparr>registered := registered s @ [(p, fst e)]\<rparr>
      in if q_status (promises s2 ! p) > 0 then scheduleProcessQueue p s2 else s2)"

lemma then_attach:
  "q_then p f g h s = (if f = Absent \<and> g = Absent \<and> h = Absent then (p, s)
     else (length (promises s), attach p (length (promises s), f, g, h) (snd (q_defer s))))"
  by (simp add: q_then_def attach_def q_defer_def Let_def)

lemma attach_simps:
  assumes "p < length (promises s)"
  shows "length (promises (attach p e s)) = length (promises s)"
    "arrays (attach p e s) = (case q_pending (promises s ! p) of None \<Rightarrow> arrays s @ [[e]]
       | Some a \<Rightarrow> (arrays s)[a := arrays s ! a @ [e]])"
    "flags (attach p e s) = flags s" "collectors (attach p e s) = collectors s"
    "registered (attach p e s) = registered s @ [(p, fst e)]" "trace (attach p e s) = trace s"
    "promises (attach p e s) ! p' = (if p' = p then (promises s ! p)\<lparr>
         q_pending := Some (case q_pending (promises s ! p) of None \<Rightarrow> length (arrays s) | Some a \<Rightarrow> a),
         q_scheduled := q_scheduled (promises s ! p) \<or> 0 < q_status (promises s ! p)\<rparr> else promises s ! p')"
    "ticks (attach p e s) = ticks s @ (if q_scheduled (promises s ! p) \<or> q_status (promises s ! p) \<le> 0 then [] else [ProcessQueue p])"
  using assms by (auto simp: attach_def push_pending_def scheduleProcessQueue_def put_promise_def Let_def nth_list_update split: option.splits)

lemma attach_extends: "p < length (promises s) \<Longrightarrow> extends s (attach p e s)"
  by (auto simp: extends_def attach_simps split: option.splits)

lemma attach_pending:
  assumes "arrays_ok s" and "p < length (promises s)" and "p' < length (promises s)"
  shows "pending_entries (attach p e s) p' = pending_entries s p' @ (if p' = p then [e] else [])"
  using assms by (auto simp: pending_entries_def attach_simps arrays_ok_def nth_append nth_list_update split: option.splits)

lemma attach_inv:
  assumes "q_inv s f" and p: "p < length (promises s)" and "valid_entry s e" and "fst e \<notin> set (map snd (registered s))"
  shows "q_inv (attach p e s) f"
proof -
  note x = assms(1) [unfolded q_inv_def]
  let ?s = "attach p e s"
  have ex: "extends s ?s" using attach_extends p by blast
  have ve: "valid_entry s e \<Longrightarrow> valid_entry ?s e" for e using valid_entry_extends ex by blast
  have kn: "known s v \<Longrightarrow> known ?s v" for v using known_extends ex by blast
  have r: "fst e < length (promises s)" using assms(3) by (auto simp: valid_entry_def)
  have "arrays_ok ?s"
  proof (cases "q_pending (promises s ! p)")
    case None
    have own: "q_pending (promises s ! p') = Some a \<Longrightarrow> p' < length (promises s) \<Longrightarrow> a < length (arrays s) \<and> arrays s ! a \<noteq> []" for p' a
      using x by (simp add: arrays_ok_def)
    have "q_pending (promises ?s ! p') = Some a \<Longrightarrow> p' < length (promises s) \<Longrightarrow> a < length (arrays ?s) \<and> arrays ?s ! a \<noteq> []" for p' a
      using own [of p' a] None p by (cases "p' = p") (auto simp: attach_simps nth_append)
    moreover have "q_pending (promises ?s ! p') = Some a \<Longrightarrow> q_pending (promises ?s ! p'') = Some a \<Longrightarrow> p' = p''"
      if "p' < length (promises s)" "p'' < length (promises s)" for p' p'' a
      using own [of p' a] own [of p'' a] that x None p by (auto simp: attach_simps arrays_ok_def split: if_splits)
    moreover have "\<forall>es\<in>set (arrays ?s). \<forall>e'\<in>set es. valid_entry ?s e'"
      using x ve assms(3) None p by (auto simp: arrays_ok_def attach_simps)
    moreover have "\<forall>k<length (collectors ?s). co_deferred (collectors ?s ! k) < length (promises ?s)"
      using x p by (simp add: arrays_ok_def attach_simps)
    ultimately show ?thesis using p by (simp add: arrays_ok_def attach_simps(1))
  next
    case (Some a)
    have "set (arrays ?s) \<subseteq> insert (arrays s ! a @ [e]) (set (arrays s))"
      using p Some set_update_subset_insert [of "arrays s" a "arrays s ! a @ [e]"] by (simp add: attach_simps)
    then have "es = arrays s ! a @ [e] \<or> es \<in> set (arrays s)" if "es \<in> set (arrays ?s)" for es using that by blast
    moreover have "arrays s ! a \<in> set (arrays s)" using x p Some by (auto simp: arrays_ok_def)
    moreover have "\<forall>es\<in>set (arrays s). \<forall>e'\<in>set es. valid_entry ?s e'" using x ve by (auto simp: arrays_ok_def)
    ultimately have "valid_entry ?s e'" if "es \<in> set (arrays ?s)" "e' \<in> set es" for es e'
      using that ve [OF assms(3)] by fastforce
    moreover have "q_pending (promises ?s ! p') = q_pending (promises s ! p')" for p' using p Some by (simp add: attach_simps)
    moreover have "b < length (arrays s) \<Longrightarrow> arrays s ! b \<noteq> [] \<Longrightarrow> arrays ?s ! b \<noteq> []" for b
      using p Some by (cases "b = a") (simp_all add: attach_simps)
    moreover have "length (arrays ?s) = length (arrays s)" using p Some by (simp add: attach_simps)
    ultimately show ?thesis using x p attach_simps(1,4) [OF p, of e] unfolding arrays_ok_def by simp
  qed
  moreover have "ticks_ok ?s" using x p kn by (auto simp: ticks_ok_def attach_simps less_Suc_eq split: option.splits)
  moreover have "flags_ok ?s" using x p by (auto simp: flags_ok_def attach_simps)
  moreover have "values_ok ?s" using x p kn by (auto simp: values_ok_def attach_simps Let_def)
  moreover have "order_ok ?s f"
    using x p ve r assms(4) attach_pending [of s p] by (auto simp: order_ok_def attach_simps split: prod.splits)
  ultimately show ?thesis by (simp add: q_inv_def)
qed

text \<open>The other parts of the state.\<close>

lemma known_updates [simp]:
  "known (s\<lparr>collectors := cs\<rparr>) v = known s v" "known (s\<lparr>handled_errors := es\<rparr>) v = known s v"
  "known (s\<lparr>ticks := ts\<rparr>) v = known s v" "known (s\<lparr>flags := fs\<rparr>) v = known s v"
  "known (s\<lparr>trace := tr\<rparr>) v = known s v"
  by (simp_all add: known_def cong: qvalue.case_cong)

lemma pending_updates [simp]:
  "pending_entries (s\<lparr>collectors := cs\<rparr>) p = pending_entries s p" "pending_entries (s\<lparr>handled_errors := es\<rparr>) p = pending_entries s p"
  "pending_entries (s\<lparr>ticks := ts\<rparr>) p = pending_entries s p" "pending_entries (s\<lparr>flags := fs\<rparr>) p = pending_entries s p"
  "pending_entries (s\<lparr>trace := tr\<rparr>) p = pending_entries s p"
  by (simp_all add: pending_entries_def cong: option.case_cong)

lemma collectors_sound:
  assumes "q_inv s f" and "length (collectors s) \<le> length cs" and "\<forall>k<length cs. co_deferred (cs ! k) < length (promises s)"
  shows "q_inv (s\<lparr>collectors := cs\<rparr>) f \<and> extends s (s\<lparr>collectors := cs\<rparr>)"
proof
  note x = assms(1) [unfolded q_inv_def]
  let ?s = "s\<lparr>collectors := cs\<rparr>"
  show e: "extends s ?s" using assms(2) by (simp add: extends_def)
  have ve: "valid_entry s e \<Longrightarrow> valid_entry ?s e" for e using valid_entry_extends e by blast
  have "arrays_ok ?s" using x ve assms(3) by (auto simp: arrays_ok_def)
  moreover have "ticks_ok ?s" "flags_ok ?s" "values_ok ?s"
    using x by (auto simp: ticks_ok_def flags_ok_def values_ok_def)
  moreover have "order_ok ?s f" using x ve by (auto simp: order_ok_def)
  ultimately show "q_inv ?s f" by (simp add: q_inv_def)
qed

lemma errors_sound: "q_inv s f \<Longrightarrow> q_inv (s\<lparr>handled_errors := es\<rparr>) f \<and> extends s (s\<lparr>handled_errors := es\<rparr>)"
proof -
  have e: "extends s (s\<lparr>handled_errors := es\<rparr>)" by (simp add: extends_def)
  then have ve: "valid_entry s e \<Longrightarrow> valid_entry (s\<lparr>handled_errors := es\<rparr>) e" for e using valid_entry_extends by blast
  assume "q_inv s f"
  then show ?thesis using e ve
    by (auto simp: q_inv_def arrays_ok_def ticks_ok_def flags_ok_def values_ok_def order_ok_def)
qed

lemma notify_tick_sound:
  assumes "q_inv s f" and "a < length (arrays s)" and "known s v"
  shows "q_inv (s\<lparr>ticks := ticks s @ [NotifyAll a v]\<rparr>) f \<and> extends s (s\<lparr>ticks := ticks s @ [NotifyAll a v]\<rparr>)"
proof -
  let ?s = "s\<lparr>ticks := ticks s @ [NotifyAll a v]\<rparr>"
  have e: "extends s ?s" by (simp add: extends_def)
  then have ve: "valid_entry s e \<Longrightarrow> valid_entry ?s e" for e using valid_entry_extends by blast
  show ?thesis using assms e ve
    by (auto simp: q_inv_def arrays_ok_def ticks_ok_def flags_ok_def values_ok_def order_ok_def)
qed

lemma flag_sound:
  assumes "q_inv s f" and "c < length (flags s)" and "fst (flags s ! c) = d" and "\<not> snd (flags s ! c)"
  shows "q_inv (s\<lparr>flags := (flags s)[c := (d, True)]\<rparr>) f \<and> extends s (s\<lparr>flags := (flags s)[c := (d, True)]\<rparr>)
     \<and> unlocked (s\<lparr>flags := (flags s)[c := (d, True)]\<rparr>) d \<and> q_status (promises s ! d) = - 1 \<and> d < length (promises s)"
proof -
  let ?s = "s\<lparr>flags := (flags s)[c := (d, True)]\<rparr>"
  have e: "extends s ?s" using assms(2,3) by (auto simp: extends_def nth_list_update)
  then have ve: "valid_entry s e \<Longrightarrow> valid_entry ?s e" for e using valid_entry_extends by blast
  note x = assms(1) [unfolded q_inv_def]
  have "flags_ok ?s" using x assms(2,3) by (auto simp: flags_ok_def nth_list_update)
  moreover have "unlocked ?s d" using x assms(2,3,4) by (auto simp: flags_ok_def unlocked_def nth_list_update)
  moreover have "arrays_ok ?s" "ticks_ok ?s" "values_ok ?s" using x ve by (auto simp: arrays_ok_def ticks_ok_def values_ok_def)
  moreover have "order_ok ?s f" using x ve by (auto simp: order_ok_def)
  ultimately show ?thesis using e x assms(2,3,4) by (auto simp: q_inv_def flags_ok_def)
qed

section \<open>Locked promises wait\<close>

text \<open>
  A locked deferred, unless it is in \<open>X\<close>, has its two closures of \<open>callOnce\<close>, still unused, among the
  callbacks that wait for some promise.
\<close>

definition linked :: "qstate \<Rightarrow> (nat \<Rightarrow> entry list) \<Rightarrow> nat \<Rightarrow> bool" where
  "linked s F d \<longleftrightarrow> (\<exists>q<length (promises s). \<exists>r c h. (r, Resolver c d, Rejecter c d, h) \<in> set (F q @ pending_entries s q)
     \<and> c < length (flags s) \<and> \<not> snd (flags s ! c))"

definition waiting :: "nat set \<Rightarrow> qstate \<Rightarrow> (nat \<Rightarrow> entry list) \<Rightarrow> bool" where
  "waiting X s F \<longleftrightarrow> (\<forall>d<length (promises s). q_status (promises s ! d) = - 1 \<longrightarrow> d \<notin> X \<longrightarrow> linked s F d)"

lemma linkedI: "(r, Resolver c d, Rejecter c d, h) \<in> set (F q @ pending_entries s q) \<Longrightarrow> q < length (promises s)
    \<Longrightarrow> c < length (flags s) \<Longrightarrow> \<not> snd (flags s ! c) \<Longrightarrow> linked s F d"
  unfolding linked_def by blast

lemma linkedE:
  assumes "linked s F d"
  obtains q r c h where "(r, Resolver c d, Rejecter c d, h) \<in> set (F q @ pending_entries s q)" "q < length (promises s)"
    "c < length (flags s)" "\<not> snd (flags s ! c)"
  using assms unfolding linked_def by blast

lemma waiting_updates [simp]:
  "waiting X (s\<lparr>collectors := cs\<rparr>) F = waiting X s F" "waiting X (s\<lparr>handled_errors := es\<rparr>) F = waiting X s F"
  "waiting X (s\<lparr>ticks := ts\<rparr>) F = waiting X s F" "waiting X (s\<lparr>trace := tr\<rparr>) F = waiting X s F"
  by (simp_all add: waiting_def linked_def)

lemma waiting_mono:
  assumes "waiting X s F" and "length (promises s) \<le> length (promises s')" and "flags s' = flags s @ fs"
    and "\<And>d. d < length (promises s') \<Longrightarrow> q_status (promises s' ! d) = - 1 \<Longrightarrow> d \<notin> Y \<Longrightarrow>
      d < length (promises s) \<and> q_status (promises s ! d) = - 1 \<and> d \<notin> X"
    and "\<And>q. q < length (promises s) \<Longrightarrow> set (pending_entries s q) \<subseteq> set (pending_entries s' q)"
  shows "waiting Y s' F"
  unfolding waiting_def
proof (intro allI impI)
  fix d
  assume "d < length (promises s')" "q_status (promises s' ! d) = - 1" "d \<notin> Y"
  then have "linked s F d" using assms(1,4) unfolding waiting_def by blast
  then show "linked s' F d"
  proof (rule linkedE)
    fix q r c h
    assume "(r, Resolver c d, Rejecter c d, h) \<in> set (F q @ pending_entries s q)" "q < length (promises s)"
      "c < length (flags s)" "\<not> snd (flags s ! c)"
    then show ?thesis using assms(2,3,5) by (intro linkedI [of r c d h F q s']) (auto simp: nth_append)
  qed
qed

lemma waiting_defer: "waiting X s F \<Longrightarrow> waiting X (snd (q_defer s)) F"
  by (erule waiting_mono [where fs = "[]"])
    (auto simp: q_defer_def nth_append new_promise_def pending_entries_def less_Suc_eq split: if_splits cong: option.case_cong)

lemma settle_pending: "d < length (promises s) \<Longrightarrow> pending_entries (settle d st v s) q = pending_entries s q"
  by (simp add: pending_entries_def settle_simps cong: option.case_cong)

lemma waiting_settle: "waiting X s F \<Longrightarrow> d < length (promises s) \<Longrightarrow> 0 < st \<Longrightarrow> X \<subseteq> {d} \<Longrightarrow> waiting {} (settle d st v s) F"
  by (erule waiting_mono [where fs = "[]"]) (auto simp: settle_simps settle_pending split: if_splits)

lemma waiting_attach: "waiting X s F \<Longrightarrow> arrays_ok s \<Longrightarrow> p < length (promises s) \<Longrightarrow> waiting X (attach p e s) F"
  by (erule waiting_mono [where fs = "[]"]) (auto simp: attach_simps attach_pending split: if_splits)

lemma waiting_lock: "waiting X s F \<Longrightarrow> d < length (promises s) \<Longrightarrow> X \<subseteq> {d} \<Longrightarrow> waiting {d} (lock d s) F"
  by (erule waiting_mono [where fs = "[(d, False)]"]) (auto simp: lock_simps pending_entries_def split: if_splits cong: option.case_cong)

text \<open>Linking a locked deferred to the promise it was resolved with.\<close>

lemma waiting_linked:
  assumes "waiting {d} s F" and "arrays_ok s" and "p < length (promises s)" and "c < length (flags s)" and "\<not> snd (flags s ! c)"
  shows "waiting {} (attach p (r, Resolver c d, Rejecter c d, h) s) F"
proof -
  let ?s = "attach p (r, Resolver c d, Rejecter c d, h) s"
  have w: "waiting {d} ?s F" by (rule waiting_attach [OF assms(1-3)])
  have "(r, Resolver c d, Rejecter c d, h) \<in> set (pending_entries ?s p)" using assms(2,3) by (simp add: attach_pending)
  then have "linked ?s F d" using assms(3-5) by (intro linkedI [of r c d h F p]) (simp_all add: attach_simps)
  then show ?thesis using w unfolding waiting_def by blast
qed

lemma order_valid: "q_inv s F \<Longrightarrow> e \<in> set (F p) \<Longrightarrow> valid_entry s e"
  by (auto simp: q_inv_def order_ok_def)

lemma pending_valid:
  assumes "q_inv s F" and "p < length (promises s)" and "e \<in> set (pending_entries s p)"
  shows "valid_entry s e"
proof (cases "q_pending (promises s ! p)")
  case None
  then show ?thesis using assms(3) by (simp add: pending_entries_def)
next
  case (Some a)
  then have "arrays s ! a \<in> set (arrays s)" using assms by (auto simp: q_inv_def arrays_ok_def)
  then show ?thesis using assms Some by (auto simp: q_inv_def arrays_ok_def pending_entries_def)
qed

text \<open>A used closure belongs to one deferred only.\<close>

lemma waiting_flag:
  assumes "waiting {d} s F" and "q_inv s F" and "c < length (flags s)" and "fst (flags s ! c) = d"
  shows "waiting {d} (s\<lparr>flags := (flags s)[c := (d, True)]\<rparr>) F"
  unfolding waiting_def
proof (intro allI impI)
  let ?s = "s\<lparr>flags := (flags s)[c := (d, True)]\<rparr>"
  fix d'
  assume "d' < length (promises ?s)" "q_status (promises ?s ! d') = - 1" and d': "d' \<notin> {d}"
  then have "linked s F d'" using assms(1) unfolding waiting_def by auto
  then obtain q r c' h where e: "(r, Resolver c' d', Rejecter c' d', h) \<in> set (F q @ pending_entries s q)" and q: "q < length (promises s)"
    and c': "c' < length (flags s)" "\<not> snd (flags s ! c')"
    by (rule linkedE)
  have "valid_entry s (r, Resolver c' d', Rejecter c' d', h)"
    using e q pending_valid [OF assms(2)] order_valid [OF assms(2)] by auto
  then have "c' \<noteq> c" using assms(4) d' by (auto simp: valid_entry_def)
  then show "linked ?s F d'" using q e c' by (intro linkedI [of r c' d' h F q]) simp_all
qed

section \<open>The operations\<close>

definition keeps :: "(nat \<Rightarrow> entry list) \<Rightarrow> qstate \<Rightarrow> qstate \<Rightarrow> bool" where
  "keeps f s s' \<longleftrightarrow> q_inv s' f \<and> extends s s' \<and> (waiting {} s f \<longrightarrow> waiting {} s' f)"

lemma keeps_trans: "keeps f s t \<Longrightarrow> keeps f t u \<Longrightarrow> keeps f s u"
  using extends_trans by (auto simp: keeps_def)

lemma keepsD: "keeps F s s' \<Longrightarrow> q_inv s' F" "keeps F s s' \<Longrightarrow> extends s s'" "keeps F s s' \<Longrightarrow> waiting {} s F \<Longrightarrow> waiting {} s' F"
  by (simp_all add: keeps_def)

lemma open_unlocked: "q_inv s f \<Longrightarrow> d < length (promises s) \<Longrightarrow> q_status (promises s ! d) = 0 \<Longrightarrow> unlocked s d"
  by (auto simp: q_inv_def flags_ok_def unlocked_def)

lemma keeps_defer: "q_inv s F \<Longrightarrow> keeps F s (snd (q_defer s))"
  by (simp add: keeps_def defer_inv defer_extends waiting_defer)

lemma keeps_then:
  assumes "q_inv s F" and "p < length (promises s)" and "valid_callback s f" "valid_callback s g" "valid_callback s h"
  shows "keeps F s (snd (q_then p f g h s)) \<and> fst (q_then p f g h s) < length (promises (snd (q_then p f g h s)))"
proof -
  let ?d = "snd (q_defer s)"
  let ?n = "length (promises s)"
  have e: "extends s ?d" and i: "q_inv ?d F" using defer_extends defer_inv [OF assms(1)] .
  have n: "length (promises ?d) = Suc ?n" by (simp add: q_defer_def)
  have "valid_entry ?d (?n, f, g, h)" using valid_callback_extends e assms(3,4,5) n by (auto simp: valid_entry_def)
  moreover have "?n \<notin> set (map snd (registered ?d))"
    using assms(1) by (auto simp: q_defer_def q_inv_def order_ok_def)
  ultimately have "keeps F ?d (attach p (?n, f, g, h) ?d)"
    using attach_inv [OF i, of p "(?n, f, g, h)"] attach_extends [of p ?d] waiting_attach [of "{}" ?d F p] i n assms(2)
    by (simp add: keeps_def q_inv_def)
  then have "keeps F s (attach p (?n, f, g, h) ?d)" using keeps_trans keeps_defer [OF assms(1)] by blast
  then show ?thesis using n assms(1,2) attach_simps(1) [of p ?d "(?n, f, g, h)"] by (simp add: then_attach keeps_def)
qed

lemma raw_simps:
  "raw_reject d v s = settle d 2 v s"
  "raw_resolve d v s = (case v of PromiseRef p \<Rightarrow> snd (q_then p (Resolver (length (flags s)) d) (Rejecter (length (flags s)) d) (Notifier d) (lock d s))
     | _ \<Rightarrow> settle d 1 v s)"
  by (simp_all add: raw_reject_def raw_resolve_def settle_def lock_def Let_def split: qvalue.splits)

lemma keeps_raw_reject:
  assumes "q_inv s F" "d < length (promises s)" "q_status (promises s ! d) \<le> 0" "unlocked s d" "known s v"
  shows "keeps F s (raw_reject d v s)"
  using assms by (simp add: keeps_def raw_simps settle_inv settle_extends waiting_settle)

lemma raw_resolve_sound:
  assumes "q_inv s F" "d < length (promises s)" "q_status (promises s ! d) \<le> 0" "unlocked s d" "known s v"
  shows "q_inv (raw_resolve d v s) F \<and> extends s (raw_resolve d v s) \<and> (waiting {d} s F \<longrightarrow> waiting {} (raw_resolve d v s) F)"
proof (cases "isPromiseLike v")
  case True
  then obtain p where v: "v = PromiseRef p" by (auto simp: isPromiseLike_def split: qvalue.splits)
  let ?l = "lock d s" and ?c = "length (flags s)"
  have i: "q_inv ?l F" and e: "extends s ?l" using lock_inv lock_extends assms by blast+
  have "valid_callback ?l (Resolver ?c d)" "valid_callback ?l (Rejecter ?c d)" "valid_callback ?l (Notifier d)"
    using assms(2) by (simp_all add: lock_simps)
  moreover have p: "p < length (promises ?l)" using assms(2,5) v by (simp add: lock_simps known_def)
  ultimately have k: "keeps F ?l (raw_resolve d v s)" using keeps_then [OF i] by (simp add: raw_simps v)
  have "waiting {} (raw_resolve d v s) F" if "waiting {d} s F"
  proof -
    let ?m = "snd (q_defer ?l)"
    have w: "waiting {d} ?m F" using waiting_defer waiting_lock [OF that assms(2)] by simp
    have "arrays_ok ?m" using defer_inv [OF i] by (simp add: q_inv_def)
    moreover have "p < length (promises ?m)" "?c < length (flags ?m)" "\<not> snd (flags ?m ! ?c)"
      using p assms(2) by (simp_all add: q_defer_def lock_simps)
    ultimately show ?thesis using waiting_linked [OF w] by (simp add: raw_simps v then_attach)
  qed
  then show ?thesis using keepsD(1,2) [OF k] e extends_trans by blast
next
  case False
  then have "raw_resolve d v s = settle d 1 v s" by (auto simp: raw_simps isPromiseLike_def split: qvalue.splits)
  then show ?thesis using settle_inv [OF assms(1-5), of 1] settle_extends waiting_settle [of "{d}" s F d 1 v] assms(2,3) False by simp
qed

lemma waiting_less: "waiting {} s F \<Longrightarrow> waiting X s F"
  by (simp add: waiting_def)

lemma keeps_raw_resolve:
  assumes "q_inv s F" "d < length (promises s)" "q_status (promises s ! d) \<le> 0" "unlocked s d" "known s v"
  shows "keeps F s (raw_resolve d v s)"
  using raw_resolve_sound [OF assms] waiting_less by (auto simp: keeps_def)

lemma raw_reject_sound:
  assumes "q_inv s F" "d < length (promises s)" "q_status (promises s ! d) \<le> 0" "unlocked s d" "known s v"
  shows "q_inv (raw_reject d v s) F \<and> extends s (raw_reject d v s) \<and> (waiting {d} s F \<longrightarrow> waiting {} (raw_reject d v s) F)"
  using assms waiting_settle [of "{d}" s F d 2 v] by (simp add: raw_simps settle_inv settle_extends)

lemma keeps_if: "keeps F s a \<Longrightarrow> keeps F s b \<Longrightarrow> keeps F s (if c then a else b)"
  by simp

lemma keeps_errors: "q_inv s F \<Longrightarrow> keeps F s (s\<lparr>handled_errors := es\<rparr>)"
  using errors_sound by (simp add: keeps_def)

lemma keeps_refl: "q_inv s F \<Longrightarrow> keeps F s s"
  by (simp add: keeps_def)

lemma extends_promises: "extends s s' \<Longrightarrow> p < length (promises s) \<Longrightarrow> p < length (promises s')"
  by (simp add: extends_def)

lemma extends_collectors: "extends s s' \<Longrightarrow> k < length (collectors s) \<Longrightarrow> k < length (collectors s')"
  by (simp add: extends_def)

lemma keeps_reject: "q_inv s F \<Longrightarrow> d < length (promises s) \<Longrightarrow> known s v \<Longrightarrow> keeps F s (q_reject d v s)"
  by (simp add: q_reject_def keeps_refl keeps_raw_reject open_unlocked)

lemma keeps_resolve: "q_inv s F \<Longrightarrow> d < length (promises s) \<Longrightarrow> known s v \<Longrightarrow> keeps F s (q_resolve d v s)"
  by (simp add: q_resolve_def keeps_refl keeps_raw_reject keeps_raw_resolve open_unlocked known_def)

lemma keeps_notify:
  assumes "q_inv s F" and "d < length (promises s)" and "known s v"
  shows "keeps F s (q_notify d v s)"
proof -
  have "a < length (arrays s)" if "q_pending (promises s ! d) = Some a" for a
    using assms(1,2) that by (auto simp: q_inv_def arrays_ok_def)
  then show ?thesis using assms keeps_refl [OF assms(1)] notify_tick_sound [OF assms(1) _ assms(3)]
    by (auto simp: q_notify_def keeps_def Let_def split: option.splits)
qed

lemma keeps_fresh:
  assumes "q_inv s F" and "known s v"
  shows "keeps F s (q_resolve (length (promises s)) v (snd (q_defer s)))"
    "keeps F s (q_reject (length (promises s)) v (snd (q_defer s)))"
proof -
  note d = keeps_defer [OF assms(1)]
  have "length (promises s) < length (promises (snd (q_defer s)))" by (simp add: q_defer_def)
  moreover have "known (snd (q_defer s)) v" using known_extends keepsD(2) d assms(2) by blast
  ultimately show "keeps F s (q_resolve (length (promises s)) v (snd (q_defer s)))"
    "keeps F s (q_reject (length (promises s)) v (snd (q_defer s)))"
    using keeps_trans [OF d keeps_resolve] keeps_trans [OF d keeps_reject] keepsD(1) [OF d] by blast+
qed

lemma fresh_promise: "length (promises s) < length (promises (snd (q_defer s)))"
  by (simp add: q_defer_def)

lemma keeps_makePromise:
  assumes "q_inv s F" and "known s v"
  shows "keeps F s (snd (makePromise v ok s)) \<and> fst (makePromise v ok s) < length (promises (snd (makePromise v ok s)))"
proof -
  note k = keeps_fresh [OF assms]
  have n: "fst (q_defer s) = length (promises s)" by simp
  have m: "snd (makePromise v ok s) = (if ok then q_resolve (length (promises s)) v (snd (q_defer s))
      else q_reject (length (promises s)) v (snd (q_defer s)))" "fst (makePromise v ok s) = length (promises s)"
    by (simp_all add: makePromise_def case_prod_unfold Let_def)
  have "extends (snd (q_defer s)) (snd (makePromise v ok s))"
    unfolding m using fresh_promise keepsD keeps_resolve keeps_reject keeps_defer assms known_extends by (metis (full_types))
  then show ?thesis using k m extends_promises fresh_promise by auto
qed

lemma keeps_when:
  assumes "q_inv s F" and "known s v" and "valid_callback s f" "valid_callback s g" "valid_callback s h"
  shows "keeps F s (snd (q_when v f g h s)) \<and> fst (q_when v f g h s) < length (promises (snd (q_when v f g h s)))"
proof -
  note m = keeps_makePromise [OF assms(1,2), of True]
  let ?s = "snd (makePromise v True s)"
  have "q_when v f g h s = q_then (fst (makePromise v True s)) f g h ?s"
    by (simp add: q_when_def makePromise_def case_prod_unfold Let_def)
  moreover have "valid_callback ?s f" "valid_callback ?s g" "valid_callback ?s h"
    using m valid_callback_extends keepsD(2) assms(3-5) by blast+
  ultimately show ?thesis using m keeps_then keepsD(1) keeps_trans by metis
qed

lemma keeps_catch: "q_inv s F \<Longrightarrow> p < length (promises s) \<Longrightarrow> valid_callback s g \<Longrightarrow> keeps F s (snd (q_catch p g s))"
  by (simp add: q_catch_def keeps_then)

lemma keeps_finally: "q_inv s F \<Longrightarrow> p < length (promises s) \<Longrightarrow> valid_callback s h \<Longrightarrow> keeps F s (snd (q_finally p f h s))"
  by (simp add: q_finally_def keeps_then)

lemma keeps_reject_promise: "q_inv s F \<Longrightarrow> known s v \<Longrightarrow> keeps F s (snd (reject_promise v s))"
  using keeps_fresh(2) by (simp add: reject_promise_def case_prod_unfold Let_def)

lemma collector_deferred: "q_inv s F \<Longrightarrow> k < length (collectors s) \<Longrightarrow> co_deferred (collectors s ! k) < length (promises s)"
  by (simp add: q_inv_def arrays_ok_def)

lemma keeps_collector:
  assumes "q_inv s F" and "k < length (collectors s)" and "co_deferred co = co_deferred (collectors s ! k)"
  shows "keeps F s (s\<lparr>collectors := (collectors s)[k := co]\<rparr>)"
  using collectors_sound [OF assms(1), of "(collectors s)[k := co]"] collector_deferred [OF assms(1)] assms(2,3)
  by (simp add: keeps_def nth_list_update)

lemma keeps_all_one:
  assumes "q_inv s F" and "k < length (collectors s)" and "known s (snd kv)"
  shows "keeps F s (all_one k kv s)"
proof -
  let ?s = "s\<lparr>collectors := (collectors s)[k := (collectors s ! k)\<lparr>co_counter := co_counter (collectors s ! k) + 1\<rparr>]\<rparr>"
  have a: "keeps F s ?s" using keeps_collector [OF assms(1,2)] by simp
  note b = keeps_when [OF keepsD(1) [OF a], of "snd kv" Absent Absent Absent]
  let ?w = "q_when (snd kv) Absent Absent Absent ?s"
  have w: "keeps F ?s (snd ?w)" "fst ?w < length (promises (snd ?w))" using b assms(3) by simp_all
  have k: "k < length (collectors (snd ?w))" using extends_collectors [OF keepsD(2) [OF w(1)]] assms(2) by simp
  have "all_one k kv s = snd (q_then (fst ?w) (AllOk k (fst kv)) (AllErr k (fst kv)) Absent (snd ?w))"
    by (simp add: all_one_def case_prod_unfold Let_def)
  then show ?thesis using keeps_then [OF keepsD(1) [OF w(1)] w(2), of "AllOk k (fst kv)" "AllErr k (fst kv)" Absent] k
      keeps_trans [OF keeps_trans [OF a w(1)]] by simp
qed

lemma keeps_all_fold:
  assumes "q_inv s F" and "k < length (collectors s)" and "\<forall>kv\<in>set ps. known s (snd kv)"
  shows "keeps F s (fold (all_one k) ps s)"
  using assms
proof (induction ps arbitrary: s)
  case (Cons kv ps)
  have a: "keeps F s (all_one k kv s)" using keeps_all_one Cons.prems by simp
  then show ?case using Cons.IH [of "all_one k kv s"] Cons.prems keepsD [OF a] known_extends extends_collectors keeps_trans by fastforce
qed (simp add: keeps_refl)

lemma keeps_all:
  assumes "q_inv s F" and "\<forall>kv\<in>set ps. known s (snd kv)"
  shows "keeps F s (snd (q_all ps s))"
proof -
  let ?d = "length (promises s)" and ?s1 = "snd (q_defer s)"
  let ?s2 = "?s1\<lparr>collectors := collectors ?s1 @ [\<lparr>co_deferred = ?d, co_counter = 0, co_results = []\<rparr>]\<rparr>"
  let ?k = "length (collectors ?s1)"
  have a: "keeps F s ?s1" by (rule keeps_defer [OF assms(1)])
  have b: "keeps F ?s1 ?s2"
    using collectors_sound [OF keepsD(1) [OF a], of "collectors ?s1 @ [\<lparr>co_deferred = ?d, co_counter = 0, co_results = []\<rparr>]"]
      collector_deferred [OF keepsD(1) [OF a]] fresh_promise [of s] by (auto simp: keeps_def nth_append less_Suc_eq)
  have e: "extends s ?s2" using keepsD(2) [OF a] keepsD(2) [OF b] extends_trans by blast
  have c: "keeps F ?s2 (fold (all_one ?k) ps ?s2)"
    using keeps_all_fold [OF keepsD(1) [OF b], of ?k ps] assms(2) known_extends [OF _ e] by simp
  let ?s3 = "fold (all_one ?k) ps ?s2"
  have d: "?d < length (promises ?s3)" using extends_promises [OF keepsD(2) [OF c]] fresh_promise [of s] by simp
  have eq: "snd (q_all ps s) = (if co_counter (collectors ?s3 ! ?k) = 0 then q_resolve ?d (Results (co_results (collectors ?s3 ! ?k))) ?s3 else ?s3)"
    by (simp add: q_all_def case_prod_unfold Let_def)
  have r: "keeps F ?s3 (q_resolve ?d (Results xs) ?s3)" for xs
    using keeps_resolve [OF keepsD(1) [OF c] d] by (simp add: known_def)
  have abc: "keeps F s ?s3" by (rule keeps_trans [OF a keeps_trans [OF b c]])
  show ?thesis unfolding eq by (rule keeps_if [OF keeps_trans [OF abc r] abc])
qed

lemma own_valid: "own_callback f \<Longrightarrow> valid_callback s f"
  by (cases f) auto

lemma keeps_perform: "q_inv s F \<Longrightarrow> legal s act \<Longrightarrow> keeps F s (perform act s)"
  by (cases act) (auto intro!: keeps_defer keeps_resolve keeps_reject keeps_notify keeps_then [THEN conjunct1] keeps_catch
      keeps_finally keeps_reject_promise keeps_when [THEN conjunct1] keeps_all own_valid)

lemma keeps_actions: "q_inv s F \<Longrightarrow> legal_actions s acts \<Longrightarrow> keeps F s (fold perform acts s)"
proof (induction acts arbitrary: s)
  case (Cons act acts)
  have a: "keeps F s (perform act s)" using Cons.prems keeps_perform by simp
  then show ?case using Cons.IH [of "perform act s"] Cons.prems keepsD(1) [OF a] keeps_trans by auto
qed (simp add: keeps_refl)

lemma keeps_call_user:
  assumes "legal_functions user" and "q_inv s F"
  shows "keeps F s (snd (call_user user i v s)) \<and> known (snd (call_user user i v s)) (result_of (fst (call_user user i v s)))"
  using assms(1) keeps_actions [OF assms(2)] by (simp add: legal_functions_def call_user_def case_prod_unfold)

lemma keeps_handleCallback:
  assumes "legal_functions user" and "q_inv s F" and "known s v"
  shows "keeps F s (snd (handleCallback user v ok cb s))
     \<and> fst (handleCallback user v ok cb s) < length (promises (snd (handleCallback user v ok cb s)))"
proof -
  let ?x = "case cb of User i \<Rightarrow> call_user user i Undef s | _ \<Rightarrow> (Return Undef, s)"
  have k: "keeps F s (snd ?x) \<and> known (snd ?x) (result_of (fst ?x))"
    using keeps_call_user [OF assms(1,2)] keeps_refl [OF assms(2)] by (cases cb) (simp_all add: known_def)
  obtain out s1 where x: "?x = (out, s1)" by fastforce
  have s1: "q_inv s1 F" "extends s s1" "keeps F s s1" and v: "known s1 v" and r: "known s1 (result_of out)"
    using k x known_extends assms(3) by (auto simp: keeps_def)
  have m: "keeps F s (snd (makePromise w b s1)) \<and> fst (makePromise w b s1) < length (promises (snd (makePromise w b s1)))"
    if "known s1 w" for w b
    using keeps_makePromise [OF s1(1) that] keeps_trans [OF s1(3)] by blast
  have t: "keeps F s (snd (q_then p (Restore ok v) RejectWith Absent s1))
      \<and> fst (q_then p (Restore ok v) RejectWith Absent s1) < length (promises (snd (q_then p (Restore ok v) RejectWith Absent s1)))"
    if "p < length (promises s1)" for p
    using keeps_then [OF s1(1) that, of "Restore ok v" RejectWith Absent] keeps_trans [OF s1(3)] v by simp
  have eq: "handleCallback user v ok cb s = (case out of Throw e \<Rightarrow> makePromise e False s1
      | Return w \<Rightarrow> (case w of PromiseRef p \<Rightarrow> q_then p (Restore ok v) RejectWith Absent s1 | _ \<Rightarrow> makePromise v ok s1))"
    unfolding handleCallback_def x by simp
  show ?thesis
  proof (cases out)
    case (Throw e)
    then show ?thesis using m [of e False] r by (simp add: eq)
  next
    case (Return w)
    then show ?thesis using m [of v ok] t r v by (cases w) (simp_all add: eq known_def)
  qed
qed

lemma keeps_all_ok:
  assumes "q_inv s F" and "k < length (collectors s)"
  shows "keeps F s (all_ok k key v s)"
proof -
  let ?co = "(collectors s ! k)\<lparr>co_results := co_results (collectors s ! k) @ [(key, v)], co_counter := co_counter (collectors s ! k) - 1\<rparr>"
  let ?s = "s\<lparr>collectors := (collectors s)[k := ?co]\<rparr>"
  have a: "keeps F s ?s" using keeps_collector [OF assms] by simp
  have d: "co_deferred (collectors s ! k) < length (promises ?s)" using collector_deferred [OF assms] by simp
  have r: "keeps F ?s (q_resolve (co_deferred (collectors s ! k)) (Results xs) ?s)" for xs
    using keeps_resolve [OF keepsD(1) [OF a] d] by (simp add: known_def)
  show ?thesis unfolding all_ok_def Let_def
    by (rule keeps_if [OF keeps_refl [OF assms(1)] keeps_if [OF keeps_trans [OF a r] a]])
qed

lemma keeps_all_err: "q_inv s F \<Longrightarrow> k < length (collectors s) \<Longrightarrow> known s v \<Longrightarrow> keeps F s (all_err k key v s)"
  by (simp add: all_err_def Let_def keeps_refl keeps_reject collector_deferred)

text \<open>The deferred that a call of a closure of \<open>callOnce\<close> will unlock.\<close>

definition due :: "callback \<Rightarrow> qstate \<Rightarrow> nat set" where
  "due fn s = (case fn of Resolver c d \<Rightarrow> if snd (flags s ! c) then {} else {d}
     | Rejecter c d \<Rightarrow> if snd (flags s ! c) then {} else {d} | _ \<Rightarrow> {})"

lemma due_none: "\<not> isFunction fn \<Longrightarrow> due fn s = {}"
  by (cases fn) (simp_all add: isFunction_def due_def)

definition keeps_after :: "nat set \<Rightarrow> (nat \<Rightarrow> entry list) \<Rightarrow> qstate \<Rightarrow> qstate \<Rightarrow> bool" where
  "keeps_after X F s s' \<longleftrightarrow> q_inv s' F \<and> extends s s' \<and> (waiting X s F \<longrightarrow> waiting {} s' F)"

lemma after_trans: "keeps_after X F s t \<Longrightarrow> keeps F t u \<Longrightarrow> keeps_after X F s u"
  using extends_trans by (auto simp: keeps_def keeps_after_def)

lemma after_keeps: "keeps_after X F s t \<Longrightarrow> keeps F s t"
  using waiting_less by (auto simp: keeps_def keeps_after_def)

lemma keeps_after_none: "keeps F s t \<Longrightarrow> X = {} \<Longrightarrow> keeps_after X F s t"
  by (simp add: keeps_def keeps_after_def)

lemma call_sound:
  assumes "legal_functions user" and "q_inv s F" and "known s v" and "valid_callback s fn"
  shows "keeps_after (due fn s) F s (snd (call user fn v s)) \<and> known (snd (call user fn v s)) (result_of (fst (call user fn v s)))"
proof (cases fn)
  case (Resolver c d)
  then have c: "c < length (flags s)" "fst (flags s ! c) = d" using assms(4) by simp_all
  let ?s = "s\<lparr>flags := (flags s)[c := (d, True)]\<rparr>"
  have "keeps_after {d} F s (raw_resolve d v ?s)" if "\<not> snd (flags s ! c)"
    using flag_sound [OF assms(2) c that] raw_resolve_sound [of ?s F d v] waiting_flag [OF _ assms(2) c] assms(3)
      extends_trans [of s ?s] by (simp add: keeps_after_def)
  then show ?thesis using Resolver keeps_after_none [OF keeps_refl [OF assms(2)]] by (simp add: known_def due_def)
next
  case (Rejecter c d)
  then have c: "c < length (flags s)" "fst (flags s ! c) = d" using assms(4) by simp_all
  let ?s = "s\<lparr>flags := (flags s)[c := (d, True)]\<rparr>"
  have "keeps_after {d} F s (raw_reject d v ?s)" if "\<not> snd (flags s ! c)"
    using flag_sound [OF assms(2) c that] raw_reject_sound [of ?s F d v] waiting_flag [OF _ assms(2) c] assms(3)
      extends_trans [of s ?s] by (simp add: keeps_after_def)
  then show ?thesis using Rejecter keeps_after_none [OF keeps_refl [OF assms(2)]] by (simp add: known_def due_def)
next
  case (Finally ok cb)
  then show ?thesis using keeps_handleCallback [OF assms(1,2,3)]
    by (simp add: case_prod_unfold known_def due_def keeps_after_none)
next
  case (Restore ok w)
  then show ?thesis using keeps_makePromise [OF assms(2), of w ok] assms(4)
    by (simp add: case_prod_unfold known_def due_def keeps_after_none)
next
  case RejectWith
  then show ?thesis using keeps_makePromise [OF assms(2,3), of False]
    by (simp add: case_prod_unfold known_def due_def keeps_after_none)
qed (use assms keeps_call_user keeps_notify keeps_all_ok keeps_all_err keeps_refl in
    \<open>auto simp: known_def [of _ Undef] due_def intro!: keeps_after_none\<close>)

lemma keeps_call:
  assumes "legal_functions user" and "q_inv s F" and "known s v" and "valid_callback s fn"
  shows "keeps F s (snd (call user fn v s)) \<and> known (snd (call user fn v s)) (result_of (fst (call user fn v s)))"
  using call_sound [OF assms] after_keeps by blast

section \<open>Ticks\<close>

lemma trace_sound:
  assumes "q_inv s (F(p := e # es))" and "0 < q_status (promises s ! p)" and "p < length (promises s)"
  shows "q_inv (s\<lparr>trace := trace s @ [(p, fst e, q_status (promises s ! p), q_value (promises s ! p))]\<rparr>) (F(p := es))"
proof -
  let ?s = "s\<lparr>trace := trace s @ [(p, fst e, q_status (promises s ! p), q_value (promises s ! p))]\<rparr>"
  have "extends s ?s" by (simp add: extends_def)
  then have ve: "valid_entry s e \<Longrightarrow> valid_entry ?s e" for e using valid_entry_extends by blast
  have x: "arrays_ok s" "ticks_ok s" "flags_ok s" "values_ok s" "order_ok s (F(p := e # es))" using assms(1) by (simp_all add: q_inv_def)
  have "arrays_ok ?s" "ticks_ok ?s" "flags_ok ?s" "values_ok ?s"
    using x ve by (auto simp: arrays_ok_def ticks_ok_def flags_ok_def values_ok_def)
  moreover have "order_ok ?s (F(p := es))"
  proof -
    have "\<forall>e\<in>set ((F(p := es)) p'). valid_entry ?s e" for p'
      using x(5) ve by (cases "p' = p") (auto simp: order_ok_def split: if_splits)
    moreover have "length (promises s) \<le> p' \<Longrightarrow> (F(p := es)) p' = []" for p'
      using x(5) assms(3) by (auto simp: order_ok_def split: if_splits)
    ultimately show ?thesis using x(5) assms(2,3) by (auto simp: order_ok_def)
  qed
  ultimately show ?thesis by (simp add: q_inv_def)
qed

lemma value_known: "q_inv s F \<Longrightarrow> p < length (promises s) \<Longrightarrow> known s (q_value (promises s ! p))"
  by (auto simp: q_inv_def values_ok_def Let_def)

lemma waiting_drop:
  assumes "waiting {} s (F(p := (r, f, g, h) # es))" and "fn = f \<or> fn = g"
  shows "waiting (due fn s) s (F(p := es))"
  unfolding waiting_def
proof (intro allI impI)
  fix d
  assume d: "d < length (promises s)" "q_status (promises s ! d) = - 1" "d \<notin> due fn s"
  then have "linked s (F(p := (r, f, g, h) # es)) d" using assms(1) unfolding waiting_def by simp
  then obtain q r' c h' where e: "(r', Resolver c d, Rejecter c d, h') \<in> set ((F(p := (r, f, g, h) # es)) q @ pending_entries s q)"
    and x: "q < length (promises s)" "c < length (flags s)" "\<not> snd (flags s ! c)" by (rule linkedE)
  have "\<not> (f = Resolver c d \<and> g = Rejecter c d)" using d(3) x(3) assms(2) by (auto simp: due_def)
  then have "(r', Resolver c d, Rejecter c d, h') \<in> set ((F(p := es)) q @ pending_entries s q)"
    using e by (cases "q = p") auto
  then show "linked s (F(p := es)) d" using x by (rule linkedI)
qed

lemma process_entry_sound:
  assumes user: "legal_functions user" and "q_inv s (F(p := e # es))" and "0 < q_status (promises s ! p)" and "p < length (promises s)"
  shows "q_inv (process_entry user p e s) (F(p := es)) \<and> extends s (process_entry user p e s)
    \<and> (waiting {} s (F(p := e # es)) \<longrightarrow> waiting {} (process_entry user p e s) (F(p := es)))"
proof -
  let ?st = "promises s ! p" and ?F = "F(p := es)"
  let ?s = "s\<lparr>trace := trace s @ [(p, fst e, q_status ?st, q_value ?st)]\<rparr>"
  obtain r f g h where e: "e = (r, f, g, h)" by (cases e)
  let ?fn = "if q_status ?st = 1 then f else g"
  have i: "q_inv ?s ?F" by (rule trace_sound [OF assms(2-4)])
  have x: "extends s ?s" by (simp add: extends_def)
  have drop: "waiting {} s (F(p := e # es)) \<Longrightarrow> waiting (due ?fn ?s) ?s ?F"
    using waiting_drop [of s F p r f g h es ?fn] by (simp add: e due_def cong: callback.case_cong)
  have "valid_entry s e" using order_valid [OF assms(2), of e p] by simp
  then have "valid_entry ?s e" using x valid_entry_extends by blast
  then have fn: "valid_callback ?s ?fn" and r: "r < length (promises ?s)" by (auto simp: e valid_entry_def)
  have v: "known ?s (q_value ?st)" using value_known [OF assms(2,4)] by simp
  obtain out s1 where c: "call user ?fn (q_value ?st) ?s = (out, s1)" by fastforce
  have k: "keeps_after (due ?fn ?s) ?F ?s s1" and res: "known s1 (result_of out)"
    using call_sound [OF user i v fn] by (simp_all add: c)
  note s1 = keepsD [OF after_keeps [OF k]]
  have r1: "r < length (promises s1)" using extends_promises [OF s1(2) r] .
  have ok: "keeps ?F s1 (q_resolve r w s1)" "keeps ?F s1 (q_reject r w s1)" if "known s1 w" for w
    using keeps_resolve [OF s1(1) r1 that] keeps_reject [OF s1(1) r1 that] .
  have direct: "keeps ?F ?s (q_resolve r (q_value ?st) ?s)" "keeps ?F ?s (q_reject r (q_value ?st) ?s)"
    using keeps_resolve [OF i r v] keeps_reject [OF i r v] .
  have "keeps_after (due ?fn ?s) ?F ?s (process_entry user p e s)"
  proof (cases "isFunction ?fn")
    case True
    then show ?thesis
    proof (cases out)
      case (Return w)
      then have "process_entry user p e s = q_resolve r w s1" using True c by (simp add: process_entry_def Let_def e)
      then show ?thesis using after_trans [OF k ok(1)] res Return by simp
    next
      case (Throw w)
      then have "process_entry user p e s = q_reject r w s1\<lparr>handled_errors := handled_errors (q_reject r w s1) @ [w]\<rparr>"
        using True c by (simp add: process_entry_def Let_def e)
      moreover have j: "keeps_after (due ?fn ?s) ?F ?s (q_reject r w s1)" using after_trans [OF k ok(2)] res Throw by simp
      moreover have "keeps_after (due ?fn ?s) ?F ?s (q_reject r w s1\<lparr>handled_errors := handled_errors (q_reject r w s1) @ [w]\<rparr>)"
        using after_trans [OF j keeps_errors] keepsD(1) [OF after_keeps [OF j]] by blast
      ultimately show ?thesis by simp
    qed
  next
    case False
    then have eq: "process_entry user p e s = (if q_status ?st = 1 then q_resolve r (q_value ?st) ?s else q_reject r (q_value ?st) ?s)"
      by (simp add: process_entry_def Let_def e)
    have "due ?fn ?s = {}" by (rule due_none [OF False])
    then show ?thesis unfolding eq by (intro keeps_after_none keeps_if direct)
  qed
  then show ?thesis using x extends_trans drop by (auto simp: keeps_after_def)
qed

lemma process_fold:
  assumes "legal_functions user" and "q_inv s (F(p := es))" and "0 < q_status (promises s ! p)" and "p < length (promises s)"
  shows "q_inv (fold (process_entry user p) es s) (F(p := [])) \<and> extends s (fold (process_entry user p) es s)
    \<and> (waiting {} s (F(p := es)) \<longrightarrow> waiting {} (fold (process_entry user p) es s) (F(p := [])))"
  using assms(2-4)
proof (induction es arbitrary: s)
  case (Cons e es)
  have a: "q_inv (process_entry user p e s) (F(p := es))" "extends s (process_entry user p e s)"
    "waiting {} s (F(p := e # es)) \<Longrightarrow> waiting {} (process_entry user p e s) (F(p := es))"
    using process_entry_sound [OF assms(1) Cons.prems] by simp_all
  then have "0 < q_status (promises (process_entry user p e s) ! p)" "p < length (promises (process_entry user p e s))"
    using Cons.prems by (auto simp: extends_def)
  moreover have "fold (process_entry user p) (e # es) s = fold (process_entry user p) es (process_entry user p e s)" by simp
  ultimately show ?case using Cons.IH [OF a(1)] extends_trans [OF a(2)] a(3) by metis
qed simp

lemma start_processing:
  assumes "q_inv s (\<lambda>_. [])" and t: "ticks s = ProcessQueue p # ts"
  shows "q_inv (put_promise p ((promises s ! p)\<lparr>q_scheduled := False, q_pending := None\<rparr>) (s\<lparr>ticks := ts\<rparr>)) ((\<lambda>_. [])(p := pending_entries s p))
    \<and> extends s (put_promise p ((promises s ! p)\<lparr>q_scheduled := False, q_pending := None\<rparr>) (s\<lparr>ticks := ts\<rparr>))
    \<and> 0 < q_status (promises s ! p) \<and> p < length (promises s)
    \<and> (waiting {} s (\<lambda>_. []) \<longrightarrow> waiting {} (put_promise p ((promises s ! p)\<lparr>q_scheduled := False, q_pending := None\<rparr>) (s\<lparr>ticks := ts\<rparr>))
         ((\<lambda>_. [])(p := pending_entries s p)))"
proof -
  let ?s = "put_promise p ((promises s ! p)\<lparr>q_scheduled := False, q_pending := None\<rparr>) (s\<lparr>ticks := ts\<rparr>)"
  note x = assms(1) [unfolded q_inv_def]
  have p: "p < length (promises s)" and sch: "q_scheduled (promises s ! p)" and st: "0 < q_status (promises s ! p)"
    using x t by (auto simp: ticks_ok_def split: if_splits)
  have fields: "length (promises ?s) = length (promises s)" "arrays ?s = arrays s" "flags ?s = flags s" "collectors ?s = collectors s"
    "registered ?s = registered s" "trace ?s = trace s" "ticks ?s = ts"
    "promises ?s ! p' = (if p' = p then (promises s ! p)\<lparr>q_scheduled := False, q_pending := None\<rparr> else promises s ! p')" for p'
    using p by (simp_all add: put_promise_def nth_list_update)
  have e: "extends s ?s" by (simp add: extends_def fields)
  have ve: "valid_entry s e \<Longrightarrow> valid_entry ?s e" for e using valid_entry_extends e by blast
  have kn: "known s v \<Longrightarrow> known ?s v" for v using known_extends e by blast
  have "arrays_ok ?s" using x ve by (auto simp: arrays_ok_def fields)
  moreover have "ticks_ok ?s"
  proof -
    have c: "count_list (ticks s) (ProcessQueue p') = (if q_scheduled (promises s ! p') then 1 else 0)" if "p' < length (promises s)" for p'
      using x that by (simp add: ticks_ok_def)
    have "count_list ts (ProcessQueue p') = (if q_scheduled (promises ?s ! p') then 1 else 0)" if "p' < length (promises s)" for p'
      using c [OF that] t sch unfolding fields by (cases "p' = p") simp_all
    moreover have "q_scheduled (promises ?s ! p') \<longleftrightarrow> 0 < q_status (promises ?s ! p') \<and> q_pending (promises ?s ! p') \<noteq> None"
      if "p' < length (promises s)" for p'
      using x that unfolding fields by (cases "p' = p") (simp_all add: ticks_ok_def)
    ultimately show ?thesis using x kn t unfolding ticks_ok_def fields by auto
  qed
  moreover have "flags_ok ?s" using x by (auto simp: flags_ok_def fields)
  moreover have "values_ok ?s" using x kn p by (auto simp: values_ok_def fields Let_def)
  moreover have "order_ok ?s ((\<lambda>_. [])(p := pending_entries s p))"
  proof -
    have "pending_entries ?s p' = (if p' = p then [] else pending_entries s p')" for p'
      by (simp add: pending_entries_def fields cong: option.case_cong)
    moreover have "\<forall>e\<in>set (pending_entries s p). valid_entry ?s e" using pending_valid [OF assms(1) p] ve by blast
    ultimately show ?thesis using x p by (auto simp: order_ok_def fields split: prod.splits)
  qed
  moreover have "waiting {} ?s ((\<lambda>_. [])(p := pending_entries s p))" if w: "waiting {} s (\<lambda>_. [])"
    unfolding waiting_def
  proof (intro allI impI)
    fix d
    assume "d < length (promises ?s)" "q_status (promises ?s ! d) = - 1" "d \<notin> {}"
    then have "linked s (\<lambda>_. []) d" using w st unfolding waiting_def fields by (auto split: if_splits)
    then obtain q r c h where l: "(r, Resolver c d, Rejecter c d, h) \<in> set ([] @ pending_entries s q)" "q < length (promises s)"
      "c < length (flags s)" "\<not> snd (flags s ! c)" by (rule linkedE)
    have "pending_entries ?s q = (if q = p then [] else pending_entries s q)"
      by (simp add: pending_entries_def fields cong: option.case_cong)
    then show "linked ?s ((\<lambda>_. [])(p := pending_entries s p)) d" using l
      by (intro linkedI [of r c d h "(\<lambda>_. [])(p := pending_entries s p)" q]) (auto simp: fields)
  qed
  ultimately show ?thesis using e st p by (simp add: q_inv_def)
qed

lemma notify_entry_sound:
  assumes "legal_functions user" and "q_inv s F" and "valid_entry s e" and "known s v"
  shows "keeps F s (notify_entry user v e s)"
proof -
  obtain r f g h where e: "e = (r, f, g, h)" by (cases e)
  have r: "r < length (promises s)" and h: "valid_callback s h" using assms(3) by (auto simp: e valid_entry_def)
  obtain out s1 where c: "call user h v s = (out, s1)" by fastforce
  have k: "keeps F s s1" and res: "known s1 (result_of out)" using keeps_call [OF assms(1,2,4) h] by (simp_all add: c)
  have r1: "r < length (promises s1)" using extends_promises [OF keepsD(2) [OF k] r] .
  have direct: "keeps F s (q_notify r v s)" using keeps_notify [OF assms(2) r assms(4)] .
  have "keeps F s (q_notify r w s1)" if "out = Return w" for w
    using keeps_trans [OF k keeps_notify [OF keepsD(1) [OF k] r1]] res that by simp
  moreover have "keeps F s (s1\<lparr>handled_errors := handled_errors s1 @ [w]\<rparr>)" for w
    using keeps_trans [OF k keeps_errors] keepsD(1) [OF k] by blast
  ultimately show ?thesis using direct c by (cases out) (simp_all add: notify_entry_def e)
qed

lemma notify_fold:
  assumes "legal_functions user" and "q_inv s F" and "\<forall>e\<in>set es. valid_entry s e" and "known s v"
  shows "keeps F s (fold (notify_entry user v) es s)"
  using assms(2-4)
proof (induction es arbitrary: s)
  case (Cons e es)
  have a: "keeps F s (notify_entry user v e s)" using notify_entry_sound [OF assms(1)] Cons.prems by simp
  then show ?case using Cons.IH [OF keepsD(1) [OF a]] Cons.prems keeps_trans [OF a]
      valid_entry_extends [OF _ keepsD(2) [OF a]] known_extends [OF _ keepsD(2) [OF a]] by simp
qed (simp add: keeps_refl)

definition idle :: "nat \<Rightarrow> entry list" where
  "idle p = []"

lemma step_sound:
  assumes user: "legal_functions user" and i: "q_inv s idle" and "case ev of Outside a \<Rightarrow> legal s a | Tick \<Rightarrow> True"
  shows "keeps idle s (q_step user ev s)"
proof (cases ev)
  case (Outside a)
  then show ?thesis using keeps_perform [OF i] assms(3) by (simp add: q_step_def)
next
  case Tick
  have idle: "idle = (\<lambda>_. [])" by (rule ext) (simp add: idle_def)
  show ?thesis
  proof (cases "ticks s")
    case Nil
    then show ?thesis using Tick keeps_refl [OF i] by (simp add: q_step_def)
  next
    case (Cons t ts)
    show ?thesis
    proof (cases t)
      case (ProcessQueue p)
      note b = start_processing [OF i [unfolded idle] Cons [unfolded ProcessQueue]]
      let ?s = "put_promise p ((promises s ! p)\<lparr>q_scheduled := False, q_pending := None\<rparr>) (s\<lparr>ticks := ts\<rparr>)"
      have "q_step user ev s = fold (process_entry user p) (pending_entries s p) ?s"
        by (simp add: q_step_def Tick Cons run_tick_def ProcessQueue processQueue_def pending_entries_def Let_def cong: option.case_cong)
      moreover have "0 < q_status (promises ?s ! p)" "p < length (promises ?s)" using b by (simp_all add: put_promise_def)
      ultimately show ?thesis using process_fold [OF user, of ?s "\<lambda>_. []" p "pending_entries s p"] b extends_trans
        by (auto simp: keeps_def idle fun_upd_idem)
    next
      case (NotifyAll a v)
      let ?s = "s\<lparr>ticks := ts\<rparr>"
      have x: "extends s ?s" by (simp add: extends_def)
      have i': "q_inv ?s idle" and a: "a < length (arrays s)" and v: "known s v"
        using i Cons NotifyAll valid_entry_extends [OF _ x]
        by (auto simp: q_inv_def arrays_ok_def ticks_ok_def flags_ok_def values_ok_def order_ok_def)
      have "arrays s ! a \<in> set (arrays s)" using a by simp
      then have "\<forall>e\<in>set (arrays s ! a). valid_entry ?s e" using i valid_entry_extends [OF _ x] by (auto simp: q_inv_def arrays_ok_def)
      then have "keeps idle ?s (fold (notify_entry user v) (arrays s ! a) ?s)" using notify_fold [OF user i'] v by simp
      then show ?thesis using x extends_trans by (auto simp: q_step_def Tick Cons run_tick_def NotifyAll keeps_def)
    qed
  qed
qed

lemma run_sound:
  assumes "legal_functions user" and "q_inv s idle" and "legal_run user evs s"
  shows "keeps idle s (q_run user evs s)"
  using assms(2,3)
proof (induction evs arbitrary: s)
  case (Cons ev evs)
  have a: "keeps idle s (q_step user ev s)" using step_sound [OF assms(1)] Cons.prems by simp
  then show ?case using Cons.IH [OF keepsD(1) [OF a]] Cons.prems keeps_trans [OF a] by (simp add: q_run_def)
qed (simp add: q_run_def keeps_refl)

lemma initial_inv: "q_inv initial_q idle" "waiting {} initial_q idle"
  by (simp_all add: waiting_def q_inv_def initial_q_def arrays_ok_def ticks_ok_def flags_ok_def values_ok_def order_ok_def idle_def)

end
