(* ===== verification/AngularQLaws.thy ===== *)
theory AngularQLaws imports Main Prelude AngularQ AngularQFacts begin

text \<open>
  The laws of AngularJS promises, for every history of a legal use of the library: any order of calls
  and ticks, and any functions that callers may have registered.
\<close>

section \<open>Histories\<close>

lemma legal_run_append:
  "legal_run user (evs @ evs') s \<longleftrightarrow> legal_run user evs s \<and> legal_run user evs' (q_run user evs s)"
  by (induction evs arbitrary: s) (simp_all add: q_run_def)

lemma run_append: "q_run user (evs @ evs') s = q_run user evs' (q_run user evs s)"
  by (simp add: q_run_def)

lemma reachable_q_inv: "legal_functions user \<Longrightarrow> legal_run user evs initial_q \<Longrightarrow> q_inv (q_run user evs initial_q) idle"
  using run_sound [OF _ initial_inv(1)] keepsD(1) by blast

lemma legal_plain: "legal_functions (\<lambda>i v s. ([], Return (Plain j)))"
  by (simp add: legal_functions_def known_def)

lemma order_settled:
  assumes "q_inv s idle" and "p < length (promises s)"
  shows "map snd (filter (\<lambda>x. fst x = p) (registered s)) =
      map (fst \<circ> snd) (filter (\<lambda>x. fst x = p) (trace s)) @ map fst (pending_entries s p)"
    and "ticks s = [] \<Longrightarrow> 0 < q_status (promises s ! p) \<Longrightarrow> pending_entries s p = []"
proof -
  show "map snd (filter (\<lambda>x. fst x = p) (registered s)) =
      map (fst \<circ> snd) (filter (\<lambda>x. fst x = p) (trace s)) @ map fst (pending_entries s p)"
    using assms by (simp add: q_inv_def order_ok_def idle_def)
  have "\<not> q_scheduled (promises s ! p)" if "ticks s = []"
    using assms that by (auto simp: q_inv_def ticks_ok_def split: if_splits)
  then show "pending_entries s p = []" if "ticks s = []" "0 < q_status (promises s ! p)"
    using assms that by (auto simp: q_inv_def ticks_ok_def pending_entries_def)
qed

section \<open>Properties\<close>

text \<open>
  Claim C19: a promise settles once: whatever is called and however the ticks run after it has been
  fulfilled or rejected, it keeps its status and its value, and the value of a fulfilled promise is
  never itself a promise.
\<close>

theorem settled_is_final:
  assumes "legal_functions user" and "legal_run user (before @ after) initial_q"
    and "p < length (promises (q_run user before initial_q))" and "0 < q_status (promises (q_run user before initial_q) ! p)"
  shows "q_status (promises (q_run user (before @ after) initial_q) ! p) = q_status (promises (q_run user before initial_q) ! p)
     \<and> q_value (promises (q_run user (before @ after) initial_q) ! p) = q_value (promises (q_run user before initial_q) ! p)
     \<and> (q_status (promises (q_run user before initial_q) ! p) = 1 \<longrightarrow> \<not> isPromiseLike (q_value (promises (q_run user before initial_q) ! p)))"
proof -
  let ?s = "q_run user before initial_q"
  have i: "q_inv ?s idle" using reachable_q_inv assms(1,2) legal_run_append by blast
  then have "extends ?s (q_run user after ?s)"
    using run_sound [OF assms(1) i] assms(2) keepsD(2) legal_run_append by blast
  then show ?thesis using assms(3,4) i by (simp add: run_append extends_def q_inv_def values_ok_def Let_def)
qed

text \<open>
  Claim C20: the callbacks given to the calls of \<open>then\<close> on a promise are reached in the order of the
  calls, each at most once, and all with the status and the value that the promise has; once the
  promise is settled and no tick is left, every one of them has been reached.
\<close>

theorem callbacks_once_in_order:
  assumes "legal_functions user" and "legal_run user evs initial_q" and "s = q_run user evs initial_q" and "p < length (promises s)"
  shows "(\<exists>rest. map snd (filter (\<lambda>x. fst x = p) (registered s)) = map (fst \<circ> snd) (filter (\<lambda>x. fst x = p) (trace s)) @ rest
          \<and> (ticks s = [] \<and> 0 < q_status (promises s ! p) \<longrightarrow> rest = []))
      \<and> distinct (map (fst \<circ> snd) (filter (\<lambda>x. fst x = p) (trace s)))
      \<and> (\<forall>(q, r, st, v)\<in>set (trace s). q = p \<longrightarrow> 0 < st \<and> st = q_status (promises s ! p) \<and> v = q_value (promises s ! p))"
proof -
  have i: "q_inv s idle" using reachable_q_inv assms(1-3) by blast
  note o = order_settled [OF i assms(4)]
  have "\<exists>rest. map snd (filter (\<lambda>x. fst x = p) (registered s)) = map (fst \<circ> snd) (filter (\<lambda>x. fst x = p) (trace s)) @ rest
      \<and> (ticks s = [] \<and> 0 < q_status (promises s ! p) \<longrightarrow> rest = [])"
    using o by blast
  moreover have "distinct (map snd (filter (\<lambda>x. fst x = p) (registered s)))"
    using i by (simp add: q_inv_def order_ok_def distinct_map_filter)
  then have "distinct (map (fst \<circ> snd) (filter (\<lambda>x. fst x = p) (trace s)))" using o(1) by simp
  moreover have "\<forall>(q, r, st, v)\<in>set (trace s). q = p \<longrightarrow> 0 < st \<and> st = q_status (promises s ! p) \<and> v = q_value (promises s ! p)"
    using i by (auto simp: q_inv_def order_ok_def)
  ultimately show ?thesis by blast
qed

text \<open>
  Claim C21: a promise that was resolved with another promise is never left behind: when no tick is
  left, it is still locked only if the two closures that will settle it, unused, wait for a promise
  that is not settled itself.
\<close>

theorem locked_promise_waits:
  assumes "legal_functions user" and "legal_run user evs initial_q" and "ticks (q_run user evs initial_q) = []"
    and "d < length (promises (q_run user evs initial_q))" and "q_status (promises (q_run user evs initial_q) ! d) = - 1"
  shows "\<exists>p r c h. p < length (promises (q_run user evs initial_q)) \<and> q_status (promises (q_run user evs initial_q) ! p) \<le> 0
      \<and> (r, Resolver c d, Rejecter c d, h) \<in> set (pending_entries (q_run user evs initial_q) p)
      \<and> flags (q_run user evs initial_q) ! c = (d, False)"
proof -
  let ?s = "q_run user evs initial_q"
  have k: "keeps idle initial_q ?s" using run_sound [OF assms(1) initial_inv(1) assms(2)] .
  note i = keepsD(1) [OF k]
  have "linked ?s idle d" using keepsD(3) [OF k initial_inv(2)] assms(4,5) by (simp add: waiting_def)
  then obtain q r c h where e: "(r, Resolver c d, Rejecter c d, h) \<in> set (idle q @ pending_entries ?s q)" and q: "q < length (promises ?s)"
    and c: "c < length (flags ?s)" "\<not> snd (flags ?s ! c)" by (rule linkedE)
  then have w: "(r, Resolver c d, Rejecter c d, h) \<in> set (pending_entries ?s q)" by (simp add: idle_def)
  then have "q_status (promises ?s ! q) \<le> 0" using order_settled(2) [OF i q assms(3)] by fastforce
  moreover have "fst (flags ?s ! c) = d" using pending_valid [OF i q w] by (simp add: valid_entry_def)
  ultimately show ?thesis using q w c(2) by (metis prod.collapse)
qed

section \<open>One callback at a time\<close>

text \<open>
  Callers' functions that only return or throw, and what the promise of \<open>then\<close> settles with: a missing
  callback passes the status and the value on.
\<close>

definition plain_functions :: "(nat \<Rightarrow> qvalue \<Rightarrow> outcome) \<Rightarrow> user_functions" where
  "plain_functions out = (\<lambda>i v s. ([], out i v))"







text \<open>
  The library refuses to resolve a promise with itself, but not with a promise that waits for it: two
  promises resolved with each other stay locked, and no call can settle them any more.
\<close>

lemma mutual_promises_stay_locked:
  "\<forall>d\<in>{0, 1}. q_status (promises (q_run (plain_functions (\<lambda>i v. Return Undef))
     [Outside Defer, Outside Defer, Outside (Resolve 0 (PromiseRef 1)), Outside (Resolve 1 (PromiseRef 0)),
      Outside (Resolve 0 (Plain JNull)), Outside (Reject 1 (Plain JNull)), Tick, Tick] initial_q) ! d) = - 1"
  "q_status (promises (q_run (plain_functions (\<lambda>i v. Return Undef))
     [Outside Defer, Outside (Resolve 0 (PromiseRef 0))] initial_q) ! 0) = 2"
  by code_simp+

section \<open>A sample history\<close>

text \<open>
  Promise 0 gets a callback (promise 1 is its result), promise 2 is resolved with it, then it is
  fulfilled and the ticks run; later attempts to settle it do nothing.
\<close>

definition sample_functions :: "nat \<Rightarrow> qvalue \<Rightarrow> outcome" where
  "sample_functions i v = (if i = 0 then Return (Plain (JBool True)) else Throw (Plain (JBool False)))"

definition sample_before :: "event list" where
  "sample_before = [Outside Defer, Outside (Then 0 (User 0) (User 1) Absent), Outside Defer, Outside (Resolve 2 (PromiseRef 0)),
     Outside (Resolve 0 (Plain JNull)), Tick]"

definition sample_after :: "event list" where
  "sample_after = [Tick, Outside (Resolve 0 (Plain (JBool True))), Outside (Reject 0 Undef), Tick, Tick, Tick]"

lemma sample_legal: "legal_functions (plain_functions sample_functions)"
  by (simp add: legal_functions_def plain_functions_def sample_functions_def known_def)

lemma sample_facts:
  "legal_run (plain_functions sample_functions) (sample_before @ sample_after) initial_q"
  "length (promises (q_run (plain_functions sample_functions) sample_before initial_q)) = 4"
  "q_status (promises (q_run (plain_functions sample_functions) sample_before initial_q) ! 0) = 1"
  "q_value (promises (q_run (plain_functions sample_functions) sample_before initial_q) ! 0) = Plain JNull"
  "length (promises (q_run (plain_functions sample_functions) (sample_before @ sample_after) initial_q)) = 4"
  "ticks (q_run (plain_functions sample_functions) (sample_before @ sample_after) initial_q) = []"
  by code_simp+

theorem settled_is_final_witness:
  "q_status (promises (q_run (plain_functions sample_functions) (sample_before @ sample_after) initial_q) ! 0) = 1"
  using settled_is_final [OF sample_legal sample_facts(1), of 0] sample_facts(2,3) by simp

theorem callbacks_once_in_order_witness:
  "distinct (map (fst \<circ> snd) (filter (\<lambda>x. fst x = 0) (trace (q_run (plain_functions sample_functions) (sample_before @ sample_after) initial_q))))"
  using callbacks_once_in_order [OF sample_legal sample_facts(1) refl, of 0] sample_facts(5) by simp

definition sample_locked :: "event list" where
  "sample_locked = [Outside Defer, Outside Defer, Outside (Resolve 1 (PromiseRef 0))]"

lemma sample_locked_facts:
  "legal_run (plain_functions sample_functions) sample_locked initial_q"
  "ticks (q_run (plain_functions sample_functions) sample_locked initial_q) = []"
  "length (promises (q_run (plain_functions sample_functions) sample_locked initial_q)) = 3"
  "q_status (promises (q_run (plain_functions sample_functions) sample_locked initial_q) ! 1) = - 1"
  by code_simp+

theorem locked_promise_waits_witness:
  "\<exists>p<3. q_status (promises (q_run (plain_functions sample_functions) sample_locked initial_q) ! p) \<le> 0"
  using locked_promise_waits [OF sample_legal sample_locked_facts(1,2), of 1] sample_locked_facts(3,4) by auto


end
