(* ===== verification/AngularScope.thy ===== *)
theory AngularScope imports Main Prelude "HOL-Library.Monad_Syntax" begin

text \<open>
  The scopes of angular.js (\<open>$RootScopeProvider\<close>): the tree of scopes with its pointers and counters,
  watches, events, the queues, and the digest. A scope is named by the order of its creation, the root
  scope is 0; each of its properties is a function on these names. Watch expressions, listeners and
  queued expressions are the program's: they are named by numbers, a watch expression reads the model, a
  listener or an expression does a list of actions and may then throw. Listeners of events change the
  model only. What user code does to the digest while it runs is part of the model, so a digest may also
  not return (\<open>None\<close>).
\<close>

section \<open>State\<close>

record 'v watch =
  w_id :: nat
  w_get :: nat
  w_fn :: "nat option"
  w_eq :: bool
  w_last :: "'v option"

datatype phase = Applying | Digesting

text \<open>\<open>Mark_destroyed\<close> is \<open>destroyChildScope\<close>, which \<open>$new\<close> registers itself.\<close>

datatype listener = Mark_destroyed | Listener nat

datatype deferred = FlushAsync | ApplyAsyncTimer

record ('m, 'v) scopes =
  page :: 'm
  created :: nat
  parentOf :: "nat \<Rightarrow> nat option"
  prevSibling :: "nat \<Rightarrow> nat option"
  nextSibling :: "nat \<Rightarrow> nat option"
  childHead :: "nat \<Rightarrow> nat option"
  childTail :: "nat \<Rightarrow> nat option"
  prototypeOf :: "nat \<Rightarrow> nat option"
  watching :: "nat \<Rightarrow> bool"
  watchers :: "nat \<Rightarrow> 'v watch list"
  watchersCount :: "nat \<Rightarrow> int"
  ownDestroyed :: "nat \<Rightarrow> bool option"
  methodsOff :: "nat \<Rightarrow> bool"
  listeners :: "nat \<Rightarrow> string \<Rightarrow> listener option list"
  listenerCount :: "nat \<Rightarrow> string \<Rightarrow> int"
  lastDirtyWatch :: "nat option"
  nextWatch :: nat
  asyncQueue :: "(nat \<times> nat) list"
  postDigestQueue :: "nat list"
  applyAsyncQueue :: "(nat \<times> nat) list"
  applyAsyncId :: bool
  timers :: "deferred list"
  current_phase :: "phase option"
  handled :: "string list"

text \<open>
  What the program's functions do. A listener of an event gives the new model, whether it stops the
  propagation, whether it prevents the default, and what it throws. \<open>same\<close> is \<open>===\<close>, \<open>nan\<close> tells the value that is not a number,
  \<open>equal_values\<close> is \<open>equals\<close> and \<open>copied\<close> is \<open>copy\<close>.
\<close>

datatype 'm action =
    SetModel "'m \<Rightarrow> 'm"
  | NewScope nat bool "nat option"
  | AddWatch nat nat "nat option" bool
  | RemoveWatch nat nat
  | Destroy nat
  | AddListener nat string nat
  | RemoveListener nat string nat
  | Emit nat string
  | Broadcast nat string
  | EvalAsync nat nat
  | PostDigest nat
  | ApplyAsync nat "nat option"

record ('m, 'v) program =
  getter :: "nat \<Rightarrow> nat \<Rightarrow> 'm \<Rightarrow> string + 'v"
  reaction :: "nat \<Rightarrow> 'v \<Rightarrow> 'v \<Rightarrow> nat \<Rightarrow> 'm \<Rightarrow> 'm action list \<times> string option"
  task :: "nat \<Rightarrow> nat \<Rightarrow> 'm \<Rightarrow> 'm action list \<times> string option"
  hook :: "nat \<Rightarrow> 'm \<Rightarrow> 'm action list \<times> string option"
  on_event :: "nat \<Rightarrow> string \<Rightarrow> nat \<Rightarrow> 'm \<Rightarrow> 'm \<times> (bool \<times> bool) \<times> string option"
  same :: "'v \<Rightarrow> 'v \<Rightarrow> bool"
  nan :: "'v \<Rightarrow> bool"
  equal_values :: "'v \<Rightarrow> 'v \<Rightarrow> bool"
  copied :: "'v \<Rightarrow> 'v"

definition TTL :: nat where
  "TTL = 10"

definition initial_scopes :: "'m \<Rightarrow> ('m, 'v) scopes" where
  "initial_scopes m = \<lparr>page = m, created = 1, parentOf = (\<lambda>k. None), prevSibling = (\<lambda>k. None), nextSibling = (\<lambda>k. None),
     childHead = (\<lambda>k. None), childTail = (\<lambda>k. None), prototypeOf = (\<lambda>k. None), watching = (\<lambda>k. False), watchers = (\<lambda>k. []),
     watchersCount = (\<lambda>k. 0), ownDestroyed = (\<lambda>k. if k = 0 then Some False else None), methodsOff = (\<lambda>k. False),
     listeners = (\<lambda>k name. []), listenerCount = (\<lambda>k name. 0), lastDirtyWatch = None, nextWatch = 0, asyncQueue = [],
     postDigestQueue = [], applyAsyncQueue = [], applyAsyncId = False, timers = [], current_phase = None, handled = []\<rparr>"

definition exceptionHandler :: "string option \<Rightarrow> ('m, 'v) scopes \<Rightarrow> ('m, 'v) scopes" where
  "exceptionHandler e s = (case e of None \<Rightarrow> s | Some msg \<Rightarrow> s\<lparr>handled := handled s @ [msg]\<rparr>)"

section \<open>Parents\<close>

text \<open>
  A scope is younger than its parent and than its prototype, so following them ends at the root. The
  comparison is there for the termination; it holds in every state.
\<close>

function ancestors :: "(nat \<Rightarrow> nat option) \<Rightarrow> nat \<Rightarrow> nat list" where
  "ancestors par k = k # (case par k of None \<Rightarrow> [] | Some p \<Rightarrow> if p < k then ancestors par p else [])"
  by pat_completeness auto
termination by (relation "measure snd") auto

declare ancestors.simps [simp del]

text \<open>\<open>$$destroyed\<close> and the methods that \<open>$destroy\<close> replaces are inherited.\<close>

definition destroyed :: "('m, 'v) scopes \<Rightarrow> nat \<Rightarrow> bool" where
  "destroyed s k = (case List.find (\<lambda>j. ownDestroyed s j \<noteq> None) (ancestors (prototypeOf s) k) of
     None \<Rightarrow> False | Some j \<Rightarrow> ownDestroyed s j = Some True)"

definition disabled :: "('m, 'v) scopes \<Rightarrow> nat \<Rightarrow> bool" where
  "disabled s k \<longleftrightarrow> (\<exists>j\<in>set (ancestors (prototypeOf s) k). methodsOff s j)"

definition incrementWatchersCount :: "nat \<Rightarrow> int \<Rightarrow> ('m, 'v) scopes \<Rightarrow> ('m, 'v) scopes" where
  "incrementWatchersCount k n s =
     s\<lparr>watchersCount := (\<lambda>j. if j \<in> set (ancestors (parentOf s) k) then watchersCount s j + n else watchersCount s j)\<rparr>"

text \<open>A count that is absent or not a number is 0; neither can be decremented.\<close>

definition decrementListenerCount :: "nat \<Rightarrow> int \<Rightarrow> string \<Rightarrow> ('m, 'v) scopes \<Rightarrow> ('m, 'v) scopes" where
  "decrementListenerCount k n name s =
     s\<lparr>listenerCount := (\<lambda>j. if j \<in> set (ancestors (parentOf s) k) \<and> listenerCount s j name \<noteq> 0
        then (listenerCount s j)(name := listenerCount s j name - n) else listenerCount s j)\<rparr>"

section \<open>Walking through the tree\<close>

datatype step = Stop | Crash | Next nat

text \<open>
  Up until there is a next sibling; reading a property of the parent that a destroyed scope no longer
  has throws.
\<close>

function climb :: "(nat \<Rightarrow> nat option) \<Rightarrow> (nat \<Rightarrow> nat option) \<Rightarrow> nat \<Rightarrow> nat \<Rightarrow> step" where
  "climb nxt par target current =
     (if current = target then Stop
      else (case nxt current of
              Some n \<Rightarrow> Next n
            | None \<Rightarrow> (case par current of None \<Rightarrow> Crash | Some p \<Rightarrow> if p < current then climb nxt par target p else Crash)))"
  by pat_completeness auto
termination by (relation "measure (\<lambda>(nxt, par, target, current). current)") auto

declare climb.simps [simp del]

definition next_scope :: "bool \<Rightarrow> nat \<Rightarrow> nat \<Rightarrow> ('m, 'v) scopes \<Rightarrow> step" where
  "next_scope down target current s =
     (case (if down then childHead s current else None) of
        Some n \<Rightarrow> Next n
      | None \<Rightarrow> climb (nextSibling s) (parentOf s) target current)"

section \<open>Events\<close>

definition call_listener :: "('m, 'v) program \<Rightarrow> string \<Rightarrow> nat \<Rightarrow> listener \<Rightarrow> bool \<times> bool \<times> ('m, 'v) scopes \<Rightarrow> bool \<times> bool \<times> ('m, 'v) scopes" where
  "call_listener pr name k l r =
     (case r of (stop, prevented, s) \<Rightarrow>
        (case l of
           Mark_destroyed \<Rightarrow> (stop, prevented, s\<lparr>ownDestroyed := (ownDestroyed s)(k := Some True)\<rparr>)
         | Listener f \<Rightarrow>
             (case on_event pr f name k (page s) of (m, (st, pd), e) \<Rightarrow> (stop \<or> st, prevented \<or> pd, exceptionHandler e (s\<lparr>page := m\<rparr>)))))"

text \<open>The listeners of a scope; those that were removed are taken out of the list.\<close>

definition active_listeners :: "('m, 'v) scopes \<Rightarrow> nat \<Rightarrow> string \<Rightarrow> listener list" where
  "active_listeners s k name = map the (filter (\<lambda>l. l \<noteq> None) (listeners s k name))"

definition notify_scope :: "('m, 'v) program \<Rightarrow> string \<Rightarrow> nat \<Rightarrow> bool \<times> bool \<times> ('m, 'v) scopes \<Rightarrow> bool \<times> bool \<times> ('m, 'v) scopes" where
  "notify_scope pr name k r =
     (case r of (stop, prevented, s) \<Rightarrow>
        fold (call_listener pr name k) (active_listeners s k name)
          (stop, prevented, s\<lparr>listeners := (listeners s)(k := (listeners s k)(name := filter (\<lambda>l. l \<noteq> None) (listeners s k name)))\<rparr>))"

fun emit_up :: "('m, 'v) program \<Rightarrow> string \<Rightarrow> nat list \<Rightarrow> bool \<times> bool \<times> ('m, 'v) scopes \<Rightarrow> bool \<times> bool \<times> ('m, 'v) scopes" where
  "emit_up pr name [] r = r"
| "emit_up pr name (k # ks) r = (let r' = notify_scope pr name k r in if fst r' then r' else emit_up pr name ks r')"

definition scope_emit :: "('m, 'v) program \<Rightarrow> nat \<Rightarrow> string \<Rightarrow> ('m, 'v) scopes \<Rightarrow> bool \<times> ('m, 'v) scopes" where
  "scope_emit pr k name s = snd (emit_up pr name (ancestors (parentOf s) k) (False, False, s))"

text \<open>The scopes that \<open>$broadcast\<close> visits; the listeners do not change the tree.\<close>

fun walk :: "nat \<Rightarrow> (nat \<Rightarrow> bool) \<Rightarrow> nat \<Rightarrow> nat \<Rightarrow> ('m, 'v) scopes \<Rightarrow> nat list" where
  "walk 0 down target current s = []"
| "walk (Suc n) down target current s =
     current # (case next_scope (down current) target current s of Next k \<Rightarrow> walk n down target k s | _ \<Rightarrow> [])"

definition scope_broadcast :: "('m, 'v) program \<Rightarrow> nat \<Rightarrow> string \<Rightarrow> ('m, 'v) scopes \<Rightarrow> bool \<times> ('m, 'v) scopes" where
  "scope_broadcast pr target name s =
     (if listenerCount s target name = 0 then (False, s)
      else snd (fold (notify_scope pr name) (walk (created s) (\<lambda>k. listenerCount s k name \<noteq> 0) target target s) (False, False, s)))"

definition scope_on :: "nat \<Rightarrow> string \<Rightarrow> listener \<Rightarrow> ('m, 'v) scopes \<Rightarrow> ('m, 'v) scopes" where
  "scope_on k name l s =
     (if disabled s k then s
      else s\<lparr>listeners := (listeners s)(k := (listeners s k)(name := listeners s k name @ [Some l])),
             listenerCount := (\<lambda>j. if j \<in> set (ancestors (parentOf s) k)
               then (listenerCount s j)(name := listenerCount s j name + 1) else listenerCount s j)\<rparr>)"

text \<open>The function that \<open>$on\<close> returns.\<close>

fun first_index :: "'a \<Rightarrow> 'a list \<Rightarrow> nat option" where
  "first_index x [] = None"
| "first_index x (y # ys) = (if x = y then Some 0 else map_option Suc (first_index x ys))"

definition scope_off :: "nat \<Rightarrow> string \<Rightarrow> listener \<Rightarrow> ('m, 'v) scopes \<Rightarrow> ('m, 'v) scopes" where
  "scope_off k name l s =
     (case first_index (Some l) (listeners s k name) of
        None \<Rightarrow> s
      | Some i \<Rightarrow>
          decrementListenerCount k 1 name
            (s\<lparr>listeners := (listeners s)(k := (listeners s k)(name := (listeners s k name)[i := None]))\<rparr>))"

section \<open>The tree\<close>

definition scope_new :: "nat \<Rightarrow> bool \<Rightarrow> nat option \<Rightarrow> ('m, 'v) scopes \<Rightarrow> nat \<times> ('m, 'v) scopes" where
  "scope_new this isolate parent s =
     (let p = (case parent of None \<Rightarrow> this | Some p \<Rightarrow> p); child = created s;
          s1 = s\<lparr>created := Suc child,
                 prototypeOf := (prototypeOf s)(child := if isolate then None else Some this),
                 ownDestroyed := (ownDestroyed s)(child := if isolate then Some False else None),
                 parentOf := (parentOf s)(child := Some p),
                 prevSibling := (prevSibling s)(child := childTail s p)\<rparr>;
          s2 = (case (childHead s p, childTail s p) of
                  (Some h, Some t) \<Rightarrow> s1\<lparr>nextSibling := (nextSibling s1)(t := Some child), childTail := (childTail s1)(p := Some child)\<rparr>
                | _ \<Rightarrow> s1\<lparr>childHead := (childHead s1)(p := Some child), childTail := (childTail s1)(p := Some child)\<rparr>)
      in (child, if isolate \<or> p \<noteq> this then scope_on child ''$destroy'' Mark_destroyed s2 else s2))"

definition unlink :: "nat \<Rightarrow> ('m, 'v) scopes \<Rightarrow> ('m, 'v) scopes" where
  "unlink k s =
     (let heads = (case parentOf s k of Some p \<Rightarrow> if childHead s p = Some k then (childHead s)(p := nextSibling s k) else childHead s
                   | None \<Rightarrow> childHead s);
          tails = (case parentOf s k of Some p \<Rightarrow> if childTail s p = Some k then (childTail s)(p := prevSibling s k) else childTail s
                   | None \<Rightarrow> childTail s);
          nexts = (case prevSibling s k of Some j \<Rightarrow> (nextSibling s)(j := nextSibling s k) | None \<Rightarrow> nextSibling s);
          prevs = (case nextSibling s k of Some j \<Rightarrow> (prevSibling s)(j := prevSibling s k) | None \<Rightarrow> prevSibling s)
      in s\<lparr>childHead := heads, childTail := tails, nextSibling := nexts, prevSibling := prevs\<rparr>)"

definition cleanUpScope :: "nat \<Rightarrow> ('m, 'v) scopes \<Rightarrow> ('m, 'v) scopes" where
  "cleanUpScope k s =
     s\<lparr>parentOf := (parentOf s)(k := None), nextSibling := (nextSibling s)(k := None), prevSibling := (prevSibling s)(k := None),
       childHead := (childHead s)(k := None), childTail := (childTail s)(k := None), watching := (watching s)(k := False)\<rparr>"

definition scope_destroy :: "('m, 'v) program \<Rightarrow> nat \<Rightarrow> ('m, 'v) scopes \<Rightarrow> ('m, 'v) scopes" where
  "scope_destroy pr k s0 =
     (if disabled s0 k \<or> destroyed s0 k then s0
      else
        (let s1 = snd (scope_broadcast pr k ''$destroy'' s0);
             s2 = s1\<lparr>ownDestroyed := (ownDestroyed s1)(k := Some True)\<rparr>;
             s3 = incrementWatchersCount k (- watchersCount s2 k) s2;
             s4 = s3\<lparr>listenerCount := (\<lambda>j name. if j \<in> set (ancestors (parentOf s3) k) \<and> listenerCount s3 k name \<noteq> 0 \<and> listenerCount s3 j name \<noteq> 0
                       then listenerCount s3 j name - listenerCount s3 k name else listenerCount s3 j name)\<rparr>;
             s5 = unlink k s4
         in cleanUpScope k (s5\<lparr>methodsOff := (methodsOff s5)(k := True), listeners := (listeners s5)(k := (\<lambda>name. []))\<rparr>)))"

section \<open>Watches and queues\<close>

definition scope_watch :: "nat \<Rightarrow> nat \<Rightarrow> nat option \<Rightarrow> bool \<Rightarrow> ('m, 'v) scopes \<Rightarrow> ('m, 'v) scopes" where
  "scope_watch k g f eq s =
     (if disabled s k then s
      else incrementWatchersCount k 1
        (s\<lparr>watchers := (watchers s)(k := \<lparr>w_id = nextWatch s, w_get = g, w_fn = f, w_eq = eq, w_last = None\<rparr> #
               (if watching s k then watchers s k else [])),
           watching := (watching s)(k := True), nextWatch := Suc (nextWatch s), lastDirtyWatch := None\<rparr>))"

text \<open>The function that \<open>$watch\<close> returns.\<close>

definition deregisterWatch :: "nat \<Rightarrow> nat \<Rightarrow> ('m, 'v) scopes \<Rightarrow> ('m, 'v) scopes" where
  "deregisterWatch k w s =
     (let s1 = (if \<exists>x\<in>set (watchers s k). w_id x = w
                then incrementWatchersCount k (- 1) (s\<lparr>watchers := (watchers s)(k := filter (\<lambda>x. w_id x \<noteq> w) (watchers s k))\<rparr>) else s)
      in s1\<lparr>lastDirtyWatch := None\<rparr>)"

definition scope_evalAsync :: "nat \<Rightarrow> nat \<Rightarrow> ('m, 'v) scopes \<Rightarrow> ('m, 'v) scopes" where
  "scope_evalAsync k f s =
     (if disabled s k then s
      else
        (let s1 = (if current_phase s = None \<and> asyncQueue s = [] then s\<lparr>timers := timers s @ [FlushAsync]\<rparr> else s)
         in s1\<lparr>asyncQueue := asyncQueue s1 @ [(k, f)]\<rparr>))"

definition scheduleApplyAsync :: "('m, 'v) scopes \<Rightarrow> ('m, 'v) scopes" where
  "scheduleApplyAsync s = (if applyAsyncId s then s else s\<lparr>applyAsyncId := True, timers := timers s @ [ApplyAsyncTimer]\<rparr>)"

definition scope_applyAsync :: "nat \<Rightarrow> nat option \<Rightarrow> ('m, 'v) scopes \<Rightarrow> ('m, 'v) scopes" where
  "scope_applyAsync k f s =
     (if disabled s k then s
      else scheduleApplyAsync (case f of None \<Rightarrow> s | Some f \<Rightarrow> s\<lparr>applyAsyncQueue := applyAsyncQueue s @ [(k, f)]\<rparr>))"

fun perform :: "('m, 'v) program \<Rightarrow> 'm action \<Rightarrow> ('m, 'v) scopes \<Rightarrow> ('m, 'v) scopes" where
  "perform pr (SetModel f) s = s\<lparr>page := f (page s)\<rparr>"
| "perform pr (NewScope this isolate parent) s = snd (scope_new this isolate parent s)"
| "perform pr (AddWatch k g f eq) s = scope_watch k g f eq s"
| "perform pr (RemoveWatch k w) s = deregisterWatch k w s"
| "perform pr (Destroy k) s = scope_destroy pr k s"
| "perform pr (AddListener k name l) s = scope_on k name (Listener l) s"
| "perform pr (RemoveListener k name l) s = scope_off k name (Listener l) s"
| "perform pr (Emit k name) s = snd (scope_emit pr k name s)"
| "perform pr (Broadcast k name) s = snd (scope_broadcast pr k name s)"
| "perform pr (EvalAsync k f) s = scope_evalAsync k f s"
| "perform pr (PostDigest f) s = s\<lparr>postDigestQueue := postDigestQueue s @ [f]\<rparr>"
| "perform pr (ApplyAsync k f) s = scope_applyAsync k f s"

definition run_user :: "('m, 'v) program \<Rightarrow> 'm action list \<times> string option \<Rightarrow> ('m, 'v) scopes \<Rightarrow> ('m, 'v) scopes" where
  "run_user pr r s = exceptionHandler (snd r) (fold (perform pr) (fst r) s)"

section \<open>The digest\<close>

text \<open>A watch that has never been looked at is dirty; otherwise the values are compared.\<close>

definition is_dirty :: "('m, 'v) program \<Rightarrow> 'v watch \<Rightarrow> 'v \<Rightarrow> bool" where
  "is_dirty pr w value =
     (case w_last w of
        None \<Rightarrow> True
      | Some old \<Rightarrow> \<not> same pr value old \<and> \<not> (if w_eq w then equal_values pr value old else nan pr value \<and> nan pr old))"

text \<open>The watch is dirty: its value is remembered, then its listener runs.\<close>

definition fire :: "('m, 'v) program \<Rightarrow> nat \<Rightarrow> nat \<Rightarrow> 'v watch \<Rightarrow> 'v \<Rightarrow> ('m, 'v) scopes \<Rightarrow> ('m, 'v) scopes" where
  "fire pr k i w value s =
     (let old = (case w_last w of None \<Rightarrow> value | Some v \<Rightarrow> v);
          s1 = s\<lparr>lastDirtyWatch := Some (w_id w),
                 watchers := (watchers s)(k := (watchers s k)[i := w\<lparr>w_last := Some (if w_eq w then copied pr value else value)\<rparr>])\<rparr>
      in (case w_fn w of None \<Rightarrow> s1 | Some f \<Rightarrow> run_user pr (reaction pr f value old k (page s1)) s1))"

text \<open>
  The watches of a scope, from the end of the list to its start: the state, whether a watch was dirty, and
  whether the traversal is cut short.
\<close>

fun process_watchers :: "('m, 'v) program \<Rightarrow> nat \<Rightarrow> nat \<Rightarrow> bool \<Rightarrow> ('m, 'v) scopes \<Rightarrow> ('m, 'v) scopes \<times> bool \<times> bool" where
  "process_watchers pr k 0 dirty s = (s, dirty, False)"
| "process_watchers pr k (Suc i) dirty s =
     (if length (watchers s k) \<le> i then process_watchers pr k i dirty s
      else
        (let w = watchers s k ! i in
         case getter pr (w_get w) k (page s) of
           Inl e \<Rightarrow> process_watchers pr k i dirty (exceptionHandler (Some e) s)
         | Inr value \<Rightarrow>
             if is_dirty pr w value then process_watchers pr k i True (fire pr k i w value s)
             else if lastDirtyWatch s = Some (w_id w) then (s, False, True)
             else process_watchers pr k i dirty s))"

datatype ending = Finished | Crashed | Infdig | InProgress | Skipped

partial_function (option) traverse ::
  "('m, 'v) program \<Rightarrow> nat \<Rightarrow> nat \<Rightarrow> bool \<Rightarrow> ('m, 'v) scopes \<Rightarrow> (('m, 'v) scopes \<times> bool \<times> ending) option" where
  "traverse pr target current dirty s =
     (let r = (if watching s current then process_watchers pr current (length (watchers s current)) dirty s else (s, dirty, False)) in
      if snd (snd r) then Some (fst r, fst (snd r), Finished)
      else (case next_scope (watchersCount (fst r) current \<noteq> 0) target current (fst r) of
              Stop \<Rightarrow> Some (fst r, fst (snd r), Finished)
            | Crash \<Rightarrow> Some (fst r, fst (snd r), Crashed)
            | Next n \<Rightarrow> traverse pr target n (fst (snd r)) (fst r)))"

partial_function (option) run_async :: "('m, 'v) program \<Rightarrow> ('m, 'v) scopes \<Rightarrow> ('m, 'v) scopes option" where
  "run_async pr s =
     (case asyncQueue s of
        [] \<Rightarrow> Some s
      | (k, f) # q \<Rightarrow>
          (let s1 = s\<lparr>asyncQueue := q\<rparr>; s2 = run_user pr (task pr f k (page s1)) s1
           in run_async pr (s2\<lparr>lastDirtyWatch := None\<rparr>)))"

partial_function (option) flushApplyAsync :: "('m, 'v) program \<Rightarrow> ('m, 'v) scopes \<Rightarrow> ('m, 'v) scopes option" where
  "flushApplyAsync pr s =
     (case applyAsyncQueue s of
        [] \<Rightarrow> Some (s\<lparr>applyAsyncId := False\<rparr>)
      | (k, f) # q \<Rightarrow>
          (let s1 = s\<lparr>applyAsyncQueue := q\<rparr> in flushApplyAsync pr (run_user pr (task pr f k (page s1)) s1)))"

partial_function (option) run_postDigest :: "('m, 'v) program \<Rightarrow> ('m, 'v) scopes \<Rightarrow> ('m, 'v) scopes option" where
  "run_postDigest pr s =
     (case postDigestQueue s of
        [] \<Rightarrow> Some s
      | f # q \<Rightarrow> (let s1 = s\<lparr>postDigestQueue := q\<rparr> in run_postDigest pr (run_user pr (hook pr f (page s1)) s1)))"

text \<open>The loop while something is dirty; \<open>ttl\<close> is what is left of the limit.\<close>

fun rounds :: "('m, 'v) program \<Rightarrow> nat \<Rightarrow> nat \<Rightarrow> ('m, 'v) scopes \<Rightarrow> (('m, 'v) scopes \<times> ending) option" where
  "rounds pr ttl target s =
     Option.bind (run_async pr s) (\<lambda>s1.
       Option.bind (traverse pr target target False s1) (\<lambda>(s2, dirty, out).
         if out = Crashed then Some (s2, Crashed)
         else if dirty \<or> asyncQueue s2 \<noteq> [] then
           (case ttl of
              0 \<Rightarrow> Some (s2\<lparr>current_phase := None\<rparr>, Infdig)
            | Suc t \<Rightarrow> rounds pr t target s2)
         else Some (s2, Finished)))"

declare rounds.simps [simp del]

definition digest :: "('m, 'v) program \<Rightarrow> nat \<Rightarrow> ('m, 'v) scopes \<Rightarrow> (('m, 'v) scopes \<times> ending) option" where
  "digest pr k s =
     (if disabled s k then Some (s, Skipped)
      else if current_phase s \<noteq> None then Some (s, InProgress)
      else
        Option.bind
          (if k = 0 \<and> applyAsyncId s
           then flushApplyAsync pr (s\<lparr>current_phase := Some Digesting, timers := filter (\<lambda>t. t \<noteq> ApplyAsyncTimer) (timers s)\<rparr>)
           else Some (s\<lparr>current_phase := Some Digesting\<rparr>))
          (\<lambda>s1. Option.bind (rounds pr TTL k (s1\<lparr>lastDirtyWatch := None\<rparr>)) (\<lambda>(s2, out).
             if out = Finished then map_option (\<lambda>s3. (s3, Finished)) (run_postDigest pr (s2\<lparr>current_phase := None\<rparr>))
             else Some (s2, out))))"

text \<open>What \<open>$digest\<close> throws, and \<open>$apply\<close>, which hands it to the handler before it throws it again.\<close>

definition thrown :: "ending \<Rightarrow> string option" where
  "thrown out =
     (case out of
        Infdig \<Rightarrow> Some ''infdig''
      | InProgress \<Rightarrow> Some ''inprog''
      | Crashed \<Rightarrow> Some ''TypeError''
      | _ \<Rightarrow> None)"

definition root_apply :: "('m, 'v) program \<Rightarrow> ('m, 'v) scopes \<Rightarrow> (('m, 'v) scopes \<times> ending) option" where
  "root_apply pr s = map_option (\<lambda>(s1, out). (exceptionHandler (thrown out) s1, out)) (digest pr 0 s)"

definition scope_apply :: "('m, 'v) program \<Rightarrow> nat \<Rightarrow> nat \<Rightarrow> ('m, 'v) scopes \<Rightarrow> (('m, 'v) scopes \<times> ending) option" where
  "scope_apply pr k f s =
     (if disabled s k then Some (s, Skipped)
      else if current_phase s \<noteq> None then root_apply pr (exceptionHandler (Some ''inprog'') s)
      else
        (let r = task pr f k (page s);
             s1 = fold (perform pr) (fst r) (s\<lparr>current_phase := Some Applying\<rparr>)
         in root_apply pr (exceptionHandler (snd r) (s1\<lparr>current_phase := None\<rparr>))))"

text \<open>A timer of the browser: what \<open>$evalAsync\<close> and \<open>$applyAsync\<close> have deferred.\<close>

definition run_timer :: "('m, 'v) program \<Rightarrow> ('m, 'v) scopes \<Rightarrow> (('m, 'v) scopes \<times> ending) option" where
  "run_timer pr s =
     (case timers s of
        [] \<Rightarrow> Some (s, Skipped)
      | FlushAsync # q \<Rightarrow> if asyncQueue s = [] then Some (s\<lparr>timers := q\<rparr>, Skipped) else digest pr 0 (s\<lparr>timers := q\<rparr>)
      | ApplyAsyncTimer # q \<Rightarrow>
          (let s0 = s\<lparr>timers := q\<rparr> in
           if disabled s0 0 then Some (s0, Skipped)
           else if current_phase s0 \<noteq> None then root_apply pr (exceptionHandler (Some ''inprog'') s0)
           else Option.bind (flushApplyAsync pr (s0\<lparr>current_phase := Some Applying\<rparr>)) (\<lambda>s1. root_apply pr (s1\<lparr>current_phase := None\<rparr>))))"

end
