(* ===== verification/AngularTree.thy ===== *)
theory AngularTree imports Main Prelude AngularScope begin

text \<open>
  The tree that the pointers of the scopes of angular.js stand for, and the traversal that \<open>$digest\<close> and
  \<open>$broadcast\<close> share: it visits the scopes below its target in preorder, without those that the
  counters exclude.
\<close>

section \<open>Linked children\<close>

text \<open>\<open>C k\<close> is the list of the children of \<open>k\<close>: the pointers of \<open>k\<close> and of its children agree with it.\<close>

type_synonym forest = "nat \<Rightarrow> nat list"

definition linked :: "('m, 'v) scopes \<Rightarrow> forest \<Rightarrow> bool" where
  "linked s C \<longleftrightarrow> (\<forall>k. childHead s k = (if C k = [] then None else Some (hd (C k)))
     \<and> childTail s k = (if C k = [] then None else Some (last (C k)))
     \<and> distinct (C k) \<and> (\<forall>c\<in>set (C k). k < c \<and> c < created s)
     \<and> (\<forall>i<length (C k). parentOf s (C k ! i) = Some k
         \<and> nextSibling s (C k ! i) = (if Suc i < length (C k) then Some (C k ! Suc i) else None)
         \<and> prevSibling s (C k ! i) = (if i = 0 then None else Some (C k ! (i - 1)))))"

lemma linkedD:
  assumes "linked s C"
  shows "childHead s k = (if C k = [] then None else Some (hd (C k)))" "childTail s k = (if C k = [] then None else Some (last (C k)))"
    "distinct (C k)" "c \<in> set (C k) \<Longrightarrow> k < c" "c \<in> set (C k) \<Longrightarrow> c < created s" "c \<in> set (C k) \<Longrightarrow> parentOf s c = Some k"
    "i < length (C k) \<Longrightarrow> nextSibling s (C k ! i) = (if Suc i < length (C k) then Some (C k ! Suc i) else None)"
    "i < length (C k) \<Longrightarrow> prevSibling s (C k ! i) = (if i = 0 then None else Some (C k ! (i - 1)))"
  using assms unfolding linked_def by (auto simp: in_set_conv_nth)

text \<open>The scopes at and below \<open>k\<close> in preorder; \<open>down\<close> tells where the traversal goes on to the children.\<close>

function preorder :: "nat \<Rightarrow> forest \<Rightarrow> (nat \<Rightarrow> bool) \<Rightarrow> nat \<Rightarrow> nat list" where
  "preorder n C down k = k # (if down k then concat (map (\<lambda>c. if k < c \<and> c < n then preorder n C down c else []) (C k)) else [])"
  by pat_completeness auto
termination by (relation "measure (\<lambda>(n, C, down, k). n - k)") auto

declare preorder.simps [simp del]

abbreviation below :: "('m, 'v) scopes \<Rightarrow> forest \<Rightarrow> nat \<Rightarrow> nat list" where
  "below s C k \<equiv> preorder (created s) C (\<lambda>j. True) k"

lemma preorder_linked:
  "linked s C \<Longrightarrow> preorder (created s) C down k = k # (if down k then concat (map (preorder (created s) C down) (C k)) else [])"
proof -
  assume l: "linked s C"
  have "map (\<lambda>c. if k < c \<and> c < created s then preorder (created s) C down c else []) (C k) = map (preorder (created s) C down) (C k)"
    using linkedD(4,5) [OF l] by auto
  then show ?thesis unfolding preorder.simps [of "created s" C down k] by (simp only:)
qed

section \<open>The traversal\<close>

inductive visits :: "('m, 'v) scopes \<Rightarrow> (nat \<Rightarrow> bool) \<Rightarrow> nat \<Rightarrow> nat \<Rightarrow> nat list \<Rightarrow> bool" for s down target where
  visits_stop: "next_scope (down k) target k s = Stop \<Longrightarrow> visits s down target k [k]"
| visits_next: "next_scope (down k) target k s = Next m \<Longrightarrow> visits s down target m xs \<Longrightarrow> visits s down target k (k # xs)"

lemma visits_subtree:
  assumes l: "linked s C" and "target \<le> k"
    and "(climb (nextSibling s) (parentOf s) target k = Stop \<and> ys = [])
      \<or> (\<exists>m. climb (nextSibling s) (parentOf s) target k = Next m \<and> visits s down target m ys)"
  shows "visits s down target k (preorder (created s) C down k @ ys)"
  using assms(2,3)
proof (induction "created s - k" arbitrary: k ys rule: less_induct)
  case less
  let ?pre = "preorder (created s) C down"
  show ?case
  proof (cases "down k \<and> C k \<noteq> []")
    case False
    then have "next_scope (down k) target k s = climb (nextSibling s) (parentOf s) target k"
      using linkedD(1) [OF l, of k] by (simp add: next_scope_def)
    moreover have "?pre k = [k]" using False by (auto simp: preorder_linked [OF l])
    ultimately show ?thesis using less.prems(2) visits_stop visits_next by fastforce
  next
    case True
    have tail: "visits s down target (C k ! i) (concat (map ?pre (drop i (C k))) @ ys)" if "i < length (C k)" for i
      using that
    proof (induction "length (C k) - i" arbitrary: i)
      case (Suc d)
      let ?c = "C k ! i"
      have c: "?c \<in> set (C k)" using Suc.prems by simp
      note ch = linkedD(4-6) [OF l c] linkedD(7) [OF l Suc.prems]
      have climb: "climb (nextSibling s) (parentOf s) target ?c = (case nextSibling s ?c of Some n \<Rightarrow> Next n
          | None \<Rightarrow> climb (nextSibling s) (parentOf s) target k)"
        using ch less.prems(1) by (simp add: climb.simps [of _ _ _ ?c] split: option.splits)
      have size: "created s - ?c < created s - k" using ch by simp
      have "visits s down target ?c (?pre ?c @ concat (map ?pre (drop (Suc i) (C k))) @ ys)"
      proof (rule less.hyps [OF size])
        show "target \<le> ?c" using ch less.prems(1) by simp
        show "climb (nextSibling s) (parentOf s) target ?c = Stop \<and> concat (map ?pre (drop (Suc i) (C k))) @ ys = []
          \<or> (\<exists>m. climb (nextSibling s) (parentOf s) target ?c = Next m \<and> visits s down target m (concat (map ?pre (drop (Suc i) (C k))) @ ys))"
        proof (cases "Suc i < length (C k)")
          case True
          then show ?thesis using climb ch(4) Suc by simp
        next
          case False
          then show ?thesis using climb ch(4) less.prems(2) by simp
        qed
      qed
      moreover have "drop i (C k) = ?c # drop (Suc i) (C k)" using Suc.prems by (simp add: Cons_nth_drop_Suc)
      ultimately show ?case by simp
    qed simp
    have "next_scope (down k) target k s = Next (C k ! 0)"
      using True linkedD(1) [OF l, of k] by (simp add: next_scope_def hd_conv_nth)
    then have "visits s down target k (k # concat (map ?pre (C k)) @ ys)"
      using visits_next tail [of 0] True by fastforce
    then show ?thesis using True by (simp add: preorder_linked [OF l, of _ k])
  qed
qed

text \<open>A traversal from its target visits the preorder below it and stops.\<close>

lemma visits_all: "linked s C \<Longrightarrow> visits s down k k (preorder (created s) C down k)"
  using visits_subtree [of s C k k "[]" down] by (simp add: climb.simps)

end
