(* ===== verification/AngularDigest.thy ===== *)
theory AngularDigest imports Main Prelude AngularScope AngularTree begin

text \<open>
  What the digest of angular.js promises where the listeners and expressions that it runs do not change the
  tree or the watches: it sees the watches below its target in one order, round after round, and ends
  with all of them clean although it does not always look at all of them again.
\<close>

section \<open>Calm programs\<close>

definition calm_action :: "'m action \<Rightarrow> bool" where
  "calm_action a \<longleftrightarrow> (case a of NewScope j i p \<Rightarrow> False | AddWatch k g f e \<Rightarrow> False | RemoveWatch k w \<Rightarrow> False | Destroy k \<Rightarrow> False | _ \<Rightarrow> True)"

definition calm :: "('m, 'v) program \<Rightarrow> bool" where
  "calm pr \<longleftrightarrow> (\<forall>f v old k m. list_all calm_action (fst (reaction pr f v old k m))) \<and> (\<forall>f k m. list_all calm_action (fst (task pr f k m)))
     \<and> (\<forall>f m. list_all calm_action (fst (hook pr f m)))"

text \<open>What user code of a calm program leaves as it is, and what a digest does.\<close>

definition same_shape :: "('m, 'v) scopes \<Rightarrow> ('m, 'v) scopes \<Rightarrow> bool" where
  "same_shape s s' \<longleftrightarrow> created s' = created s \<and> parentOf s' = parentOf s \<and> prevSibling s' = prevSibling s \<and> nextSibling s' = nextSibling s
     \<and> childHead s' = childHead s \<and> childTail s' = childTail s \<and> prototypeOf s' = prototypeOf s \<and> methodsOff s' = methodsOff s
     \<and> watching s' = watching s \<and> watchersCount s' = watchersCount s \<and> nextWatch s' = nextWatch s
     \<and> (\<forall>k. map (\<lambda>w. (w_id w, w_get w, w_fn w, w_eq w)) (watchers s' k) = map (\<lambda>w. (w_id w, w_get w, w_fn w, w_eq w)) (watchers s k))"

definition same_watches :: "('m, 'v) scopes \<Rightarrow> ('m, 'v) scopes \<Rightarrow> bool" where
  "same_watches s s' \<longleftrightarrow> same_shape s s' \<and> watchers s' = watchers s \<and> lastDirtyWatch s' = lastDirtyWatch s \<and> current_phase s' = current_phase s"

lemma same_shape_refl [simp]: "same_shape s s"
  by (simp add: same_shape_def)

lemma same_shape_trans: "same_shape s t \<Longrightarrow> same_shape t u \<Longrightarrow> same_shape s u"
  by (simp add: same_shape_def)

declare same_shape_trans [trans]

lemma same_shape_watches [trans]: "same_shape s t \<Longrightarrow> same_watches t u \<Longrightarrow> same_shape s u"
  unfolding same_watches_def by (blast intro: same_shape_trans)

lemma same_watches_refl [simp]: "same_watches s s"
  by (simp add: same_watches_def)

lemma same_watches_trans: "same_watches s t \<Longrightarrow> same_watches t u \<Longrightarrow> same_watches s u"
  using same_shape_trans by (auto simp: same_watches_def)

lemma same_watches_handler [simp]: "same_watches s (exceptionHandler e s)"
  by (simp add: exceptionHandler_def same_watches_def same_shape_def split: option.splits)

lemma same_watches_call: "same_watches s (snd (snd r)) \<Longrightarrow> same_watches s (snd (snd (call_listener pr name k l r)))"
proof -
  assume a: "same_watches s (snd (snd r))"
  obtain stop prevented t where r: "r = (stop, prevented, t)" by (cases r)
  have "same_watches t (snd (snd (call_listener pr name k l r)))"
    by (auto simp: r call_listener_def exceptionHandler_def same_watches_def same_shape_def split: listener.splits prod.splits option.splits)
  then show ?thesis using a r same_watches_trans by fastforce
qed

lemma same_watches_notify: "same_watches s (snd (snd r)) \<Longrightarrow> same_watches s (snd (snd (notify_scope pr name k r)))"
proof -
  assume a: "same_watches s (snd (snd r))"
  obtain stop prevented t where r: "r = (stop, prevented, t)" by (cases r)
  have "same_watches s (snd (snd (fold (call_listener pr name k) ls r')))" if "same_watches s (snd (snd r'))" for ls r'
    using that by (induction ls arbitrary: r') (simp_all add: same_watches_call)
  moreover have "same_watches t (t\<lparr>listeners := ls\<rparr>)" for ls by (simp add: same_watches_def same_shape_def)
  ultimately show ?thesis using a same_watches_trans by (fastforce simp: notify_scope_def r)
qed

lemma same_watches_emit: "same_watches s (snd (snd r)) \<Longrightarrow> same_watches s (snd (snd (emit_up pr name ks r)))"
  by (induction ks arbitrary: r) (simp_all add: Let_def same_watches_notify)

lemma same_watches_broadcast: "same_watches s (snd (scope_broadcast pr k name s))"
proof -
  have "same_watches s (snd (snd (fold (notify_scope pr name) ks r)))" if "same_watches s (snd (snd r))" for ks r
    using that by (induction ks arbitrary: r) (simp_all add: same_watches_notify)
  then show ?thesis by (simp add: scope_broadcast_def)
qed

lemma same_watches_perform: "calm_action a \<Longrightarrow> same_watches s (perform pr a s)"
proof (cases a)
  case (Emit k name)
  then show ?thesis using same_watches_emit [of s "(False, False, s)"] by (simp add: scope_emit_def)
next
  case (Broadcast k name)
  then show ?thesis by (simp add: same_watches_broadcast)
qed (auto simp: calm_action_def same_watches_def same_shape_def scope_on_def scope_off_def decrementListenerCount_def scope_evalAsync_def
    scope_applyAsync_def scheduleApplyAsync_def Let_def split: option.splits)

lemma same_watches_fold: "list_all calm_action as \<Longrightarrow> same_watches s (fold (perform pr) as s)"
  by (induction as arbitrary: s) (simp, metis fold_simps(2) list.pred_inject(2) same_watches_perform same_watches_trans)

lemma same_watches_user: "list_all calm_action (fst r) \<Longrightarrow> same_watches s (run_user pr r s)"
  unfolding run_user_def by (rule same_watches_trans [OF same_watches_fold same_watches_handler])

lemma map_update_same: "i < length xs \<Longrightarrow> f y = f (xs ! i) \<Longrightarrow> map f (xs[i := y]) = map f xs"
  by (metis list_update_id map_update)

lemma fire_facts:
  assumes "calm pr" and "i < length (watchers s k)" and "w = watchers s k ! i"
  shows "same_shape s (fire pr k i w value s)" "lastDirtyWatch (fire pr k i w value s) = Some (w_id w)"
    "current_phase (fire pr k i w value s) = current_phase s"
proof -
  let ?s = "s\<lparr>lastDirtyWatch := Some (w_id w),
     watchers := (watchers s)(k := (watchers s k)[i := w\<lparr>w_last := Some (if w_eq w then copied pr value else value)\<rparr>])\<rparr>"
  have "map (\<lambda>w. (w_id w, w_get w, w_fn w, w_eq w)) ((watchers s k)[i := w\<lparr>w_last := l\<rparr>])
      = map (\<lambda>w. (w_id w, w_get w, w_fn w, w_eq w)) (watchers s k)" for l
    by (rule map_update_same) (simp_all add: assms)
  then have shape: "same_shape s ?s" by (simp add: same_shape_def)
  have "same_watches t (run_user pr (reaction pr f v old j m) t)" for t f v old j m
    by (rule same_watches_user) (use assms(1) in \<open>simp add: calm_def\<close>)
  then have "same_watches ?s (fire pr k i w value s)" by (simp add: fire_def Let_def split: option.split)
  then show "same_shape s (fire pr k i w value s)" "lastDirtyWatch (fire pr k i w value s) = Some (w_id w)"
    "current_phase (fire pr k i w value s) = current_phase s"
    using same_shape_trans [OF shape] by (auto simp: same_watches_def)
qed

section \<open>One list of watches\<close>

text \<open>
  The places of the watches of some scopes in the order in which a round looks at them, and a round over
  such a list.
\<close>

definition slots :: "('m, 'v) scopes \<Rightarrow> nat list \<Rightarrow> (nat \<times> nat) list" where
  "slots s ks = concat (map (\<lambda>k. if watching s k then map (Pair k) (rev [0..<length (watchers s k)]) else []) ks)"

definition slot_watch :: "('m, 'v) scopes \<Rightarrow> nat \<times> nat \<Rightarrow> 'v watch" where
  "slot_watch s p = watchers s (fst p) ! snd p"

definition valid_slot :: "('m, 'v) scopes \<Rightarrow> nat \<times> nat \<Rightarrow> bool" where
  "valid_slot s p \<longleftrightarrow> snd p < length (watchers s (fst p))"

fun process_slots :: "('m, 'v) program \<Rightarrow> (nat \<times> nat) list \<Rightarrow> bool \<Rightarrow> ('m, 'v) scopes \<Rightarrow> ('m, 'v) scopes \<times> bool \<times> bool" where
  "process_slots pr [] dirty s = (s, dirty, False)"
| "process_slots pr (p # ps) dirty s =
     (let w = slot_watch s p in
      case getter pr (w_get w) (fst p) (page s) of
        Inl e \<Rightarrow> process_slots pr ps dirty (exceptionHandler (Some e) s)
      | Inr value \<Rightarrow>
          if is_dirty pr w value then process_slots pr ps True (fire pr (fst p) (snd p) w value s)
          else if lastDirtyWatch s = Some (w_id w) then (s, False, True)
          else process_slots pr ps dirty s)"

lemma same_shapeD:
  assumes "same_shape s s'"
  shows "created s' = created s" "parentOf s' = parentOf s" "nextSibling s' = nextSibling s" "childHead s' = childHead s"
    "watching s' = watching s" "watchersCount s' = watchersCount s" "nextWatch s' = nextWatch s"
    "map (\<lambda>w. (w_id w, w_get w, w_fn w, w_eq w)) (watchers s' k) = map (\<lambda>w. (w_id w, w_get w, w_fn w, w_eq w)) (watchers s k)"
  using assms unfolding same_shape_def by blast+

lemma same_shape_length: "same_shape s s' \<Longrightarrow> length (watchers s' k) = length (watchers s k)"
  using arg_cong [OF same_shapeD(8) [of s s' k], of length] by simp

lemma same_shape_slots: "same_shape s s' \<Longrightarrow> slots s' ks = slots s ks"
  unfolding slots_def by (simp only: same_shape_length same_shapeD(5))

lemma map_eq_nth: "map f xs = map f ys \<Longrightarrow> i < length ys \<Longrightarrow> f (xs ! i) = f (ys ! i)"
  by (metis length_map nth_map)

lemma same_shape_valid: "same_shape s s' \<Longrightarrow> valid_slot s' p = valid_slot s p"
  by (simp add: valid_slot_def same_shape_length)

lemma same_shape_slot:
  assumes "same_shape s s'" and "valid_slot s p"
  shows "w_id (slot_watch s' p) = w_id (slot_watch s p)" "w_get (slot_watch s' p) = w_get (slot_watch s p)"
  using map_eq_nth [OF same_shapeD(8) [OF assms(1), of "fst p"]] assms(2) by (simp_all add: slot_watch_def valid_slot_def)

lemma slots_valid: "list_all (valid_slot s) (slots s ks)"
  by (auto simp: list_all_iff slots_def valid_slot_def split: if_splits)

lemma process_slots_shape:
  "calm pr \<Longrightarrow> list_all (valid_slot s) ps \<Longrightarrow> process_slots pr ps d s = (s', d', b) \<Longrightarrow> same_shape s s' \<and> current_phase s' = current_phase s"
proof (induction ps arbitrary: d s)
  case (Cons p ps)
  let ?w = "slot_watch s p"
  have valid: "list_all (valid_slot t) ps" if "same_shape s t" for t
    using Cons.prems(2) same_shape_valid [OF that] by (simp add: list_all_iff)
  show ?case
  proof (cases "getter pr (w_get ?w) (fst p) (page s)")
    case (Inl e)
    have t: "same_watches s (exceptionHandler (Some e) s)" by simp
    then show ?thesis using Cons.IH [OF Cons.prems(1) valid] Cons.prems(3) Inl same_shape_trans
      by (fastforce simp: same_watches_def)
  next
    case (Inr v)
    show ?thesis
    proof (cases "is_dirty pr ?w v")
      case True
      have f: "same_shape s (fire pr (fst p) (snd p) ?w v s)"
        "current_phase (fire pr (fst p) (snd p) ?w v s) = current_phase s"
        using fire_facts [OF Cons.prems(1)] Cons.prems(2) by (simp_all add: valid_slot_def slot_watch_def)
      then show ?thesis using Cons.IH [OF Cons.prems(1) valid [OF f(1)]] Cons.prems(3) Inr True same_shape_trans [OF f(1)] by fastforce
    next
      case False
      then show ?thesis using Cons.IH [OF Cons.prems(1) valid [OF same_shape_refl]] Cons.prems(3) Inr
        by (auto split: if_splits)
    qed
  qed
qed simp

lemma process_slots_append:
  "process_slots pr (ps @ qs) d s =
     (case process_slots pr ps d s of (s1, d1, b) \<Rightarrow> if b then (s1, d1, True) else process_slots pr qs d1 s1)"
  by (induction ps arbitrary: d s) (simp_all add: Let_def split: sum.split)

lemma process_watchers_slots:
  "calm pr \<Longrightarrow> i \<le> length (watchers s k) \<Longrightarrow> process_watchers pr k i d s = process_slots pr (map (Pair k) (rev [0..<i])) d s"
proof (induction i arbitrary: d s)
  case (Suc i)
  have "i \<le> length (watchers (exceptionHandler e s) k)" for e
    using Suc.prems same_shape_length [of s "exceptionHandler e s" k] same_watches_handler [of s e] by (simp add: same_watches_def)
  moreover have "i \<le> length (watchers (fire pr k i (watchers s k ! i) v s) k)" for v
    using Suc.prems same_shape_length [OF fire_facts(1) [OF Suc.prems(1), of i s k]] by simp
  ultimately show ?case using Suc by (simp add: slot_watch_def Let_def split: sum.split)
qed simp

lemma slots_Cons: "slots s (k # ks) = (if watching s k then map (Pair k) (rev [0..<length (watchers s k)]) else []) @ slots s ks"
  by (simp add: slots_def)

lemma same_shape_next: "same_shape s t \<Longrightarrow> next_scope d target k t = next_scope d target k s"
  by (simp only: next_scope_def same_shapeD(2-4))

text \<open>A traversal is a round over the watches of the scopes that it visits.\<close>

lemma traverse_visits:
  assumes "calm pr"
  shows "visits s (\<lambda>j. watchersCount s j \<noteq> 0) target k ks \<Longrightarrow> same_shape s t \<Longrightarrow>
    traverse pr target k d t = (case process_slots pr (slots t ks) d t of (s', d', b) \<Rightarrow> Some (s', d', Finished))"
proof (induction arbitrary: d t rule: visits.induct)
  case (visits_stop k)
  let ?ps = "slots t [k]"
  obtain s1 d1 b where r: "process_slots pr ?ps d t = (s1, d1, b)" by (metis prod_cases3)
  have "same_shape t s1" using process_slots_shape [OF assms slots_valid r] by simp
  then have "next_scope (watchersCount s1 k \<noteq> 0) target k s1 = Stop"
    using visits_stop same_shape_next same_shapeD(6) same_shape_trans by metis
  then show ?case using r process_watchers_slots [OF assms order_refl, of k t d]
    by (simp add: traverse.simps [of pr target k d t] Let_def slots_def split: if_splits)
next
  case (visits_next k m ks)
  let ?ps = "slots t [k]"
  obtain s1 d1 b where r: "process_slots pr ?ps d t = (s1, d1, b)" by (metis prod_cases3)
  have shape: "same_shape t s1" using process_slots_shape [OF assms slots_valid r] by simp
  then have next_m: "next_scope (watchersCount s1 k \<noteq> 0) target k s1 = Next m"
    using visits_next same_shape_next same_shapeD(6) same_shape_trans by metis
  have "traverse pr target k d t = (if b then Some (s1, d1, Finished) else traverse pr target m d1 s1)"
    using r next_m process_watchers_slots [OF assms order_refl, of k t d]
    by (simp add: traverse.simps [of pr target k d t] Let_def slots_def split: if_splits)
  moreover have "slots t (k # ks) = ?ps @ slots s1 ks"
    unfolding same_shape_slots [OF shape] by (simp add: slots_def)
  ultimately show ?case using r visits_next.IH [OF same_shape_trans [OF visits_next.prems shape], of d1]
    by (simp add: process_slots_append)
qed

section \<open>The counters cut off only what has no watches\<close>

definition counted :: "('m, 'v) scopes \<Rightarrow> forest \<Rightarrow> nat \<Rightarrow> bool" where
  "counted s C k \<longleftrightarrow> (\<forall>j\<in>set (below s C k). watchersCount s j = int (length (slots s (below s C j))))"

lemma slots_Nil [simp]: "slots s [] = []"
  by (simp add: slots_def)

lemma slots_append: "slots s (xs @ ys) = slots s xs @ slots s ys"
  by (simp add: slots_def)

lemma slots_concat: "slots s (concat xss) = concat (map (slots s) xss)"
  by (induction xss) (simp_all add: slots_append)

lemma counted_child: "linked s C \<Longrightarrow> counted s C k \<Longrightarrow> c \<in> set (C k) \<Longrightarrow> counted s C c"
  unfolding counted_def preorder_linked [of s C _ k] by auto

lemma slots_pruned:
  assumes l: "linked s C"
  shows "counted s C k \<Longrightarrow> slots s (preorder (created s) C (\<lambda>j. watchersCount s j \<noteq> 0) k) = slots s (below s C k)"
proof (induction "created s - k" arbitrary: k rule: less_induct)
  case less
  let ?pre = "preorder (created s) C (\<lambda>j. watchersCount s j \<noteq> 0)"
  have "watchersCount s k = int (length (slots s (below s C k)))"
    using less.prems by (simp add: counted_def preorder_linked [OF l, of _ k])
  moreover have "slots s (?pre c) = slots s (below s C c)" if "c \<in> set (C k)" for c
    using less.hyps [of c] linkedD(4,5) [OF l that] counted_child [OF l less.prems that] by simp
  then have e: "concat (map (slots s \<circ> ?pre) (C k)) = concat (map (slots s \<circ> below s C) (C k))"
    by (intro arg_cong [where f = concat] map_cong) simp_all
  moreover have "slots s (k # concat (map f (C k))) = slots s [k] @ concat (map (slots s \<circ> f) (C k))" for f
    using slots_append [of s "[k]" "concat (map f (C k))"] by (simp add: slots_concat)
  ultimately show ?case
    unfolding preorder_linked [OF l, of _ k] by (cases "watchersCount s k = 0") (simp_all add: of_nat_add [symmetric] del: of_nat_add concat_eq_Nil_conv)
qed

lemma traverse_slots:
  assumes "calm pr" and "linked s C" and "counted s C k" and "same_shape s t"
  shows "traverse pr k k d t = (case process_slots pr (slots s (below s C k)) d t of (s', d', b) \<Rightarrow> Some (s', d', Finished))"
  using traverse_visits [OF assms(1) visits_all [OF assms(2)] assms(4)] slots_pruned [OF assms(2,3)] same_shape_slots [OF assms(4)]
  by simp

section \<open>The last dirty watch\<close>

text \<open>
  A watch is clean where looking at it changes nothing. The traversal is cut short at the watch that was
  dirty last: what it has not looked at since then is clean.
\<close>

definition clean :: "('m, 'v) program \<Rightarrow> ('m, 'v) scopes \<Rightarrow> nat \<times> nat \<Rightarrow> bool" where
  "clean pr s p \<longleftrightarrow> (case getter pr (w_get (slot_watch s p)) (fst p) (page s) of Inl e \<Rightarrow> True | Inr v \<Rightarrow> \<not> is_dirty pr (slot_watch s p) v)"

definition slot_ids :: "('m, 'v) scopes \<Rightarrow> (nat \<times> nat) list \<Rightarrow> nat list" where
  "slot_ids s ps = map (\<lambda>p. w_id (slot_watch s p)) ps"

text \<open>Among \<open>ps\<close> the watch that was dirty last, and all that follow are clean.\<close>

definition clean_after :: "('m, 'v) program \<Rightarrow> ('m, 'v) scopes \<Rightarrow> (nat \<times> nat) list \<Rightarrow> bool" where
  "clean_after pr s ps \<longleftrightarrow> (\<exists>xs p ys. ps = xs @ p # ys \<and> lastDirtyWatch s = Some (w_id (slot_watch s p)) \<and> list_all (clean pr s) ys)"

definition round_state :: "('m, 'v) program \<Rightarrow> (nat \<times> nat) list \<Rightarrow> (nat \<times> nat) list \<Rightarrow> bool \<Rightarrow> ('m, 'v) scopes \<Rightarrow> bool" where
  "round_state pr seen todo d s \<longleftrightarrow>
     (if d then clean_after pr s seen
      else list_all (clean pr s) seen \<and> (clean_after pr s todo \<or> lastDirtyWatch s \<notin> Some ` set (slot_ids s todo)))"

lemma handler_keeps [simp]: "lastDirtyWatch (exceptionHandler e s) = lastDirtyWatch s" "page (exceptionHandler e s) = page s"
    "current_phase (exceptionHandler e s) = current_phase s" "asyncQueue (exceptionHandler e s) = asyncQueue s"
    "slot_watch (exceptionHandler e s) = slot_watch s"
  by (simp_all add: exceptionHandler_def slot_watch_def fun_eq_iff split: option.split)

lemma clean_handler [simp]: "clean pr (exceptionHandler e s) = clean pr s"
  by (simp add: clean_def fun_eq_iff split: sum.split)

lemma slot_ids_other: "distinct (slot_ids s (seen @ p # ps)) \<Longrightarrow> q \<in> set seen \<union> set ps \<Longrightarrow> w_id (slot_watch s q) \<noteq> w_id (slot_watch s p)"
  unfolding slot_ids_def by (simp add: image_iff) (metis UnE)

lemma round_state_handler [simp]: "round_state pr seen todo d (exceptionHandler e s) = round_state pr seen todo d s"
  by (simp add: round_state_def clean_after_def slot_ids_def)

lemma clean_after_snoc: "clean_after pr s ps \<Longrightarrow> clean pr s p \<Longrightarrow> clean_after pr s (ps @ [p])"
  unfolding clean_after_def by (fastforce simp: list_all_iff)

text \<open>A clean watch that is not the one that was dirty last: the round goes on.\<close>

lemma clean_after_tail:
  assumes "clean_after pr s (p # ps)"
  shows "clean_after pr s ps \<or> (lastDirtyWatch s = Some (w_id (slot_watch s p)) \<and> list_all (clean pr s) ps)"
proof -
  obtain xs q ys where q: "p # ps = xs @ q # ys" "lastDirtyWatch s = Some (w_id (slot_watch s q))" "list_all (clean pr s) ys"
    using assms unfolding clean_after_def by blast
  show ?thesis
  proof (cases xs)
    case Nil
    then show ?thesis using q by simp
  next
    case (Cons x xs')
    then have "ps = xs' @ q # ys" using q(1) by simp
    then show ?thesis using q unfolding clean_after_def by blast
  qed
qed

lemma round_state_clean:
  assumes "round_state pr seen (p # ps) d s" and "clean pr s p" and "distinct (slot_ids s (seen @ p # ps))"
  shows "round_state pr (seen @ [p]) ps d s"
proof (cases d)
  case True
  then show ?thesis using assms(1,2) clean_after_snoc by (simp add: round_state_def)
next
  case False
  have "clean_after pr s ps \<or> lastDirtyWatch s \<notin> Some ` set (slot_ids s ps)"
  proof (cases "clean_after pr s (p # ps)")
    case True
    moreover have "lastDirtyWatch s \<notin> Some ` set (slot_ids s ps)" if "lastDirtyWatch s = Some (w_id (slot_watch s p))"
      using that slot_ids_other [OF assms(3)] by (simp add: slot_ids_def image_iff) metis
    ultimately show ?thesis using clean_after_tail by blast
  next
    case False
    then show ?thesis using assms(1) \<open>\<not> d\<close> by (simp add: round_state_def slot_ids_def)
  qed
  then show ?thesis using assms(1,2) False by (simp add: round_state_def)
qed

text \<open>The clean watch was dirty last: all are clean.\<close>

lemma round_state_cut:
  assumes "round_state pr seen (p # ps) d s" and "clean pr s p" and "distinct (slot_ids s (seen @ p # ps))"
    and "lastDirtyWatch s = Some (w_id (slot_watch s p))"
  shows "\<not> d \<and> list_all (clean pr s) (seen @ p # ps)"
proof -
  have "\<not> d"
  proof
    assume d
    then obtain q where "q \<in> set seen" "w_id (slot_watch s q) = w_id (slot_watch s p)"
      using assms(1,4) unfolding round_state_def clean_after_def by fastforce
    then show False using slot_ids_other [OF assms(3)] by blast
  qed
  moreover have "list_all (clean pr s) ps"
    using \<open>\<not> d\<close> assms clean_after_tail [of pr s p ps] by (auto simp: round_state_def clean_after_def slot_ids_def)
  ultimately show ?thesis using assms(1,2) by (simp add: round_state_def)
qed

section \<open>Rounds that look at all watches\<close>

text \<open>The reference: a round that is never cut short.\<close>

fun look_at_all :: "('m, 'v) program \<Rightarrow> (nat \<times> nat) list \<Rightarrow> bool \<Rightarrow> ('m, 'v) scopes \<Rightarrow> ('m, 'v) scopes \<times> bool" where
  "look_at_all pr [] dirty s = (s, dirty)"
| "look_at_all pr (p # ps) dirty s =
     (let w = slot_watch s p in
      case getter pr (w_get w) (fst p) (page s) of
        Inl e \<Rightarrow> look_at_all pr ps dirty (exceptionHandler (Some e) s)
      | Inr value \<Rightarrow>
          if is_dirty pr w value then look_at_all pr ps True (fire pr (fst p) (snd p) w value s)
          else look_at_all pr ps dirty s)"

definition never_throws :: "('m, 'v) program \<Rightarrow> bool" where
  "never_throws pr \<longleftrightarrow> (\<forall>g k m. \<not> isl (getter pr g k m))"

lemma never_throwsD: "never_throws pr \<Longrightarrow> getter pr g k m \<noteq> Inl e"
  unfolding never_throws_def by (metis sum.disc(1))

lemma look_at_clean: "never_throws pr \<Longrightarrow> list_all (clean pr s) ps \<Longrightarrow> look_at_all pr ps d s = (s, d)"
  by (induction ps) (auto simp: never_throwsD clean_def Let_def split: sum.splits)

lemma same_shape_ids: "same_shape s t \<Longrightarrow> list_all (valid_slot s) ps \<Longrightarrow> slot_ids t ps = slot_ids s ps"
  by (simp add: slot_ids_def list_all_iff same_shape_slot(1))

lemma round_state_fire:
  assumes "calm pr" and "valid_slot s p"
  shows "round_state pr (seen @ [p]) ps True (fire pr (fst p) (snd p) (slot_watch s p) v s)"
proof -
  note f = fire_facts [OF assms(1) assms(2) [unfolded valid_slot_def] slot_watch_def, of v]
  have "w_id (slot_watch (fire pr (fst p) (snd p) (slot_watch s p) v s) p) = w_id (slot_watch s p)"
    by (rule same_shape_slot(1) [OF f(1) assms(2)])
  then have "clean_after pr (fire pr (fst p) (snd p) (slot_watch s p) v s) (seen @ p # [])"
    unfolding clean_after_def by (intro exI [of _ seen] exI [of _ p] exI [of _ "[]"]) (simp add: f(2))
  then show ?thesis by (simp add: round_state_def)
qed

lemma round_ends:
  assumes "calm pr"
  shows "list_all (valid_slot s) (seen @ ps) \<Longrightarrow> distinct (slot_ids s (seen @ ps)) \<Longrightarrow> round_state pr seen ps d s \<Longrightarrow>
    process_slots pr ps d s = (s', d', b) \<Longrightarrow>
    round_state pr (seen @ ps) [] d' s' \<and> (never_throws pr \<longrightarrow> look_at_all pr ps d s = (s', d'))"
proof (induction ps arbitrary: seen d s)
  case (Cons p ps)
  let ?w = "slot_watch s p"
  have IH: "round_state pr (seen @ p # ps) [] d' s' \<and> (never_throws pr \<longrightarrow> look_at_all pr ps e t = (s', d'))"
    if "same_shape s t" "round_state pr (seen @ [p]) ps e t" "process_slots pr ps e t = (s', d', b)" for e t
    using Cons.IH [of t "seen @ [p]" e] that Cons.prems(1,2) same_shape_valid [OF that(1)] same_shape_ids [OF that(1) Cons.prems(1)]
    by (simp add: list_all_iff)
  show ?case
  proof (cases "getter pr (w_get ?w) (fst p) (page s)")
    case (Inl e)
    then have "clean pr s p" by (simp add: clean_def)
    moreover have "same_shape s (exceptionHandler (Some e) s)" using same_watches_handler same_watches_def by blast
    ultimately show ?thesis
      using IH [of "exceptionHandler (Some e) s" d] round_state_clean [OF Cons.prems(3)] Cons.prems(2,4) Inl by simp
  next
    case (Inr v)
    show ?thesis
    proof (cases "is_dirty pr ?w v")
      case True
      have valid: "valid_slot s p" using Cons.prems(1) by simp
      show ?thesis
        using IH [OF fire_facts(1) [OF assms valid [unfolded valid_slot_def] slot_watch_def] round_state_fire [OF assms valid]] Cons.prems(4) Inr True
        by simp
    next
      case False
      then have c: "clean pr s p" using Inr by (simp add: clean_def)
      show ?thesis
      proof (cases "lastDirtyWatch s = Some (w_id ?w)")
        case True
        then have "\<not> d \<and> list_all (clean pr s) (seen @ p # ps)" using round_state_cut [OF Cons.prems(3) c Cons.prems(2)] by simp
        then show ?thesis using True False Inr Cons.prems(4) look_at_clean [of pr s ps False] by (auto simp: round_state_def slot_ids_def)
      next
        case cont: False
        then show ?thesis using IH [OF same_shape_refl round_state_clean [OF Cons.prems(3) c Cons.prems(2)]] False Inr Cons.prems(4) by simp
      qed
    qed
  qed
qed simp

section \<open>Queues\<close>

lemma run_task_shape: "calm pr \<Longrightarrow> same_watches s (run_user pr (task pr f k m) s)"
  by (rule same_watches_user) (simp add: calm_def)

lemma run_async_facts:
  assumes "run_async pr s = Some s'"
  shows "calm pr \<longrightarrow> same_shape s s' \<and> current_phase s' = current_phase s \<and> asyncQueue s' = [] \<and> (s' = s \<or> lastDirtyWatch s' = None)"
proof (induction rule: run_async.raw_induct [OF _ assms, case_names step])
  case (step f pr s s')
  show ?case
  proof (cases "asyncQueue s")
    case Nil
    then show ?thesis using step.hyps by simp
  next
    case (Cons q qs)
    obtain k g where q: "q = (k, g)" by fastforce
    let ?s1 = "s\<lparr>asyncQueue := qs\<rparr>"
    let ?s2 = "run_user pr (task pr g k (page ?s1)) ?s1"
    have r: "f pr (?s2\<lparr>lastDirtyWatch := None\<rparr>) = Some s'" using step.hyps Cons q by (simp add: Let_def)
    show ?thesis
    proof
      assume c: "calm pr"
      have "same_shape s ?s1" by (simp add: same_shape_def)
      also have w: "same_watches ?s1 ?s2" by (rule run_task_shape [OF c])
      also have "same_shape ?s2 (?s2\<lparr>lastDirtyWatch := None\<rparr>)" by (simp add: same_shape_def)
      finally have "same_shape s (?s2\<lparr>lastDirtyWatch := None\<rparr>)" .
      moreover have "current_phase ?s2 = current_phase s" using w by (simp add: same_watches_def)
      ultimately show "same_shape s s' \<and> current_phase s' = current_phase s \<and> asyncQueue s' = [] \<and> (s' = s \<or> lastDirtyWatch s' = None)"
        using step.IH [OF r] c same_shape_trans by auto
    qed
  qed
qed

lemma flushApplyAsync_shape:
  assumes "flushApplyAsync pr s = Some s'"
  shows "calm pr \<longrightarrow> same_shape s s' \<and> current_phase s' = current_phase s"
proof (induction rule: flushApplyAsync.raw_induct [OF _ assms, case_names step])
  case (step f pr s s')
  show ?case
  proof (cases "applyAsyncQueue s")
    case Nil
    then show ?thesis using step.hyps by (auto simp: same_shape_def)
  next
    case (Cons q qs)
    obtain k g where q: "q = (k, g)" by fastforce
    let ?s1 = "s\<lparr>applyAsyncQueue := qs\<rparr>"
    let ?s2 = "run_user pr (task pr g k (page ?s1)) ?s1"
    have r: "f pr ?s2 = Some s'" using step.hyps Cons q by (simp add: Let_def)
    show ?thesis
    proof
      assume c: "calm pr"
      have "same_shape s ?s1" by (simp add: same_shape_def)
      also have w: "same_watches ?s1 ?s2" by (rule run_task_shape [OF c])
      also have "same_shape ?s2 s'" using step.IH [OF r] c by simp
      finally show "same_shape s s' \<and> current_phase s' = current_phase s"
        using w step.IH [OF r] c by (simp add: same_watches_def)
    qed
  qed
qed

section \<open>The digest against its reference\<close>

text \<open>
  The reference digest: run what is queued, look at every one of the given watches, and again while
  something was dirty.
\<close>

fun rounds_all :: "('m, 'v) program \<Rightarrow> nat \<Rightarrow> (nat \<times> nat) list \<Rightarrow> ('m, 'v) scopes \<Rightarrow> (('m, 'v) scopes \<times> ending) option" where
  "rounds_all pr ttl ps s =
     Option.bind (run_async pr s) (\<lambda>s1.
       (case look_at_all pr ps False s1 of (s2, dirty) \<Rightarrow>
          if dirty \<or> asyncQueue s2 \<noteq> [] then
            (case ttl of 0 \<Rightarrow> Some (s2\<lparr>current_phase := None\<rparr>, Infdig) | Suc t \<Rightarrow> rounds_all pr t ps s2)
          else Some (s2, Finished)))"

declare rounds_all.simps [simp del]

text \<open>
  The states in which a digest below \<open>k\<close> finds its way: the pointers are linked, the counters are right
  and no two watches have one name.
\<close>

definition watch_tree :: "('m, 'v) scopes \<Rightarrow> forest \<Rightarrow> nat \<Rightarrow> bool" where
  "watch_tree s C k \<longleftrightarrow> linked s C \<and> counted s C k \<and> distinct (slot_ids s (slots s (below s C k)))"

text \<open>What a round leaves: the names are those of \<open>s0\<close>, the watch that was dirty last is one of them or none.\<close>

definition between_rounds :: "('m, 'v) program \<Rightarrow> ('m, 'v) scopes \<Rightarrow> forest \<Rightarrow> nat \<Rightarrow> ('m, 'v) scopes \<Rightarrow> bool" where
  "between_rounds pr s0 C k s \<longleftrightarrow> same_shape s0 s \<and> round_state pr [] (slots s0 (below s0 C k)) False s"

lemma between_rounds_clean:
  assumes "same_shape s0 s" and "list_all (clean pr s) (slots s0 (below s0 C k))"
  shows "between_rounds pr s0 C k s"
proof -
  let ?ps = "slots s0 (below s0 C k)"
  have "clean_after pr s ?ps \<or> lastDirtyWatch s \<notin> Some ` set (slot_ids s ?ps)"
  proof (cases "lastDirtyWatch s \<in> Some ` set (slot_ids s ?ps)")
    case True
    then obtain p where "p \<in> set ?ps" "lastDirtyWatch s = Some (w_id (slot_watch s p))" by (auto simp: slot_ids_def)
    moreover obtain xs ys where "?ps = xs @ p # ys" using split_list [OF calculation(1)] by blast
    ultimately show ?thesis using assms(2) unfolding clean_after_def by (metis list.pred_inject(2) list_all_append)
  qed simp
  then show ?thesis using assms(1) by (simp add: between_rounds_def round_state_def)
qed

lemma round_next:
  assumes "calm pr" and "watch_tree s0 C k" and "between_rounds pr s0 C k s" and "run_async pr s = Some s1"
  shows "\<exists>s2 d. traverse pr k k False s1 = Some (s2, d, Finished) \<and> between_rounds pr s0 C k s2 \<and> current_phase s2 = current_phase s
    \<and> (\<not> d \<longrightarrow> list_all (clean pr s2) (slots s0 (below s0 C k)))
    \<and> (never_throws pr \<longrightarrow> look_at_all pr (slots s0 (below s0 C k)) False s1 = (s2, d))"
proof -
  let ?ps = "slots s0 (below s0 C k)"
  have q: "same_shape s s1" "current_phase s1 = current_phase s" "s1 = s \<or> lastDirtyWatch s1 = None"
    using run_async_facts [OF assms(4)] assms(1) by simp_all
  have shape: "same_shape s0 s1" using assms(3) same_shape_trans [OF _ q(1)] by (simp add: between_rounds_def)
  have start: "round_state pr [] ?ps False s1"
    using q(3) assms(3) by (auto simp: between_rounds_def round_state_def)
  obtain s2 d b where r: "process_slots pr ?ps False s1 = (s2, d, b)" by (metis prod_cases3)
  have valid: "list_all (valid_slot s1) ?ps" "distinct (slot_ids s1 ?ps)"
    using slots_valid [of s0] same_shape_valid [OF shape] same_shape_ids [OF shape slots_valid] assms(2)
    by (simp_all add: list_all_iff watch_tree_def)
  have ended: "round_state pr ?ps [] d s2" "never_throws pr \<longrightarrow> look_at_all pr ?ps False s1 = (s2, d)"
    using round_ends [OF assms(1), of s1 "[]" ?ps False s2 d b] valid start r by simp_all
  have "traverse pr k k False s1 = Some (s2, d, Finished)"
    using traverse_slots [OF assms(1) _ _ shape, of C k False] assms(2) r by (simp add: watch_tree_def)
  moreover have s2: "same_shape s0 s2" "current_phase s2 = current_phase s"
    using process_slots_shape [OF assms(1) valid(1) r] q(2) same_shape_trans [OF shape] by auto
  moreover have c: "\<not> d \<longrightarrow> list_all (clean pr s2) ?ps" using ended(1) by (simp add: round_state_def)
  moreover have "between_rounds pr s0 C k s2"
  proof (cases d)
    case True
    then show ?thesis using ended(1) s2 by (simp add: between_rounds_def round_state_def)
  next
    case False
    then show ?thesis using between_rounds_clean s2(1) c by blast
  qed
  ultimately show ?thesis using ended(2) by blast
qed

lemma rounds_clean:
  assumes "calm pr" and "watch_tree s0 C k"
  shows "between_rounds pr s0 C k s \<Longrightarrow> rounds pr ttl k s = Some (s', out) \<Longrightarrow>
    same_shape s0 s' \<and> (out = Infdig \<and> current_phase s' = None
      \<or> out = Finished \<and> list_all (clean pr s') (slots s0 (below s0 C k)) \<and> asyncQueue s' = [] \<and> current_phase s' = current_phase s)"
proof (induction ttl arbitrary: s)
  case 0
  obtain s1 where s1: "run_async pr s = Some s1" using 0(2) by (cases "run_async pr s") (simp_all add: rounds.simps)
  obtain s2 d where r: "traverse pr k k False s1 = Some (s2, d, Finished)" "between_rounds pr s0 C k s2"
      "current_phase s2 = current_phase s" "\<not> d \<Longrightarrow> list_all (clean pr s2) (slots s0 (below s0 C k))"
    using round_next [OF assms 0(1) s1] by blast
  then show ?case using 0(2) s1 by (auto simp: rounds.simps [of pr 0] between_rounds_def same_shape_def split: if_splits)
next
  case (Suc t)
  obtain s1 where s1: "run_async pr s = Some s1" using Suc(3) by (cases "run_async pr s") (simp_all add: rounds.simps)
  obtain s2 d where r: "traverse pr k k False s1 = Some (s2, d, Finished)" "between_rounds pr s0 C k s2"
      "current_phase s2 = current_phase s" "\<not> d \<Longrightarrow> list_all (clean pr s2) (slots s0 (below s0 C k))"
    using round_next [OF assms Suc(2) s1] by blast
  show ?case
  proof (cases "d \<or> asyncQueue s2 \<noteq> []")
    case True
    then show ?thesis using Suc.IH [OF r(2)] Suc(3) s1 r(1,3) by (simp add: rounds.simps [of pr "Suc t"])
  next
    case False
    then have "s' = s2 \<and> out = Finished" using Suc(3) s1 r(1) by (simp add: rounds.simps [of pr "Suc t"])
    then show ?thesis using False r by (simp add: between_rounds_def)
  qed
qed

lemma rounds_reference:
  assumes "calm pr" and "watch_tree s0 C k" and "never_throws pr"
  shows "between_rounds pr s0 C k s \<Longrightarrow> rounds pr ttl k s = rounds_all pr ttl (slots s0 (below s0 C k)) s"
proof (induction ttl arbitrary: s)
  case (0 s)
  show ?case
  proof (cases "run_async pr s")
    case (Some s1)
    obtain s2 d where "traverse pr k k False s1 = Some (s2, d, Finished)" "look_at_all pr (slots s0 (below s0 C k)) False s1 = (s2, d)"
      using round_next [OF assms(1,2) 0 Some] assms(3) by blast
    then show ?thesis using Some by (simp add: rounds.simps [of pr 0] rounds_all.simps [of pr 0])
  qed (simp add: rounds.simps [of pr 0] rounds_all.simps [of pr 0])
next
  case (Suc t s)
  show ?case
  proof (cases "run_async pr s")
    case (Some s1)
    obtain s2 d where "traverse pr k k False s1 = Some (s2, d, Finished)" "between_rounds pr s0 C k s2"
        "look_at_all pr (slots s0 (below s0 C k)) False s1 = (s2, d)"
      using round_next [OF assms(1,2) Suc.prems Some] assms(3) by blast
    then show ?thesis using Some Suc.IH [of s2] by (simp add: rounds.simps [of pr "Suc t"] rounds_all.simps [of pr "Suc t"])
  qed (simp add: rounds.simps [of pr "Suc t"] rounds_all.simps [of pr "Suc t"])
qed

text \<open>The digest with the rounds of the reference.\<close>

definition reference_digest :: "('m, 'v) program \<Rightarrow> forest \<Rightarrow> nat \<Rightarrow> ('m, 'v) scopes \<Rightarrow> (('m, 'v) scopes \<times> ending) option" where
  "reference_digest pr C k s =
     (if disabled s k then Some (s, Skipped)
      else if current_phase s \<noteq> None then Some (s, InProgress)
      else
        Option.bind
          (if k = 0 \<and> applyAsyncId s
           then flushApplyAsync pr (s\<lparr>current_phase := Some Digesting, timers := filter (\<lambda>t. t \<noteq> ApplyAsyncTimer) (timers s)\<rparr>)
           else Some (s\<lparr>current_phase := Some Digesting\<rparr>))
          (\<lambda>s1. Option.bind (rounds_all pr TTL (slots s (below s C k)) (s1\<lparr>lastDirtyWatch := None\<rparr>)) (\<lambda>(s2, out).
             if out = Finished then map_option (\<lambda>s3. (s3, Finished)) (run_postDigest pr (s2\<lparr>current_phase := None\<rparr>))
             else Some (s2, out))))"

definition flush_first :: "('m, 'v) program \<Rightarrow> nat \<Rightarrow> ('m, 'v) scopes \<Rightarrow> ('m, 'v) scopes option" where
  "flush_first pr k s =
     (if k = 0 \<and> applyAsyncId s
      then flushApplyAsync pr (s\<lparr>current_phase := Some Digesting, timers := filter (\<lambda>t. t \<noteq> ApplyAsyncTimer) (timers s)\<rparr>)
      else Some (s\<lparr>current_phase := Some Digesting\<rparr>))"

lemma flush_first_start:
  assumes "calm pr" and "flush_first pr k s = Some s1"
  shows "between_rounds pr s C k (s1\<lparr>lastDirtyWatch := None\<rparr>)"
proof -
  have "same_shape s s1"
  proof (cases "k = 0 \<and> applyAsyncId s")
    case True
    have "same_shape s (s\<lparr>current_phase := Some Digesting, timers := filter (\<lambda>t. t \<noteq> ApplyAsyncTimer) (timers s)\<rparr>)"
      by (simp add: same_shape_def)
    also have "same_shape (s\<lparr>current_phase := Some Digesting, timers := filter (\<lambda>t. t \<noteq> ApplyAsyncTimer) (timers s)\<rparr>) s1"
      using assms True flushApplyAsync_shape by (fastforce simp: flush_first_def)
    finally show ?thesis .
  next
    case False
    then show ?thesis using assms(2) by (auto simp: flush_first_def same_shape_def)
  qed
  also have "same_shape s1 (s1\<lparr>lastDirtyWatch := None\<rparr>)" by (simp add: same_shape_def)
  finally show ?thesis by (auto simp: between_rounds_def round_state_def)
qed

lemma digest_flush:
  "digest pr k s = (if disabled s k then Some (s, Skipped) else if current_phase s \<noteq> None then Some (s, InProgress)
     else Option.bind (flush_first pr k s) (\<lambda>s1. Option.bind (rounds pr TTL k (s1\<lparr>lastDirtyWatch := None\<rparr>)) (\<lambda>(s2, out).
             if out = Finished then map_option (\<lambda>s3. (s3, Finished)) (run_postDigest pr (s2\<lparr>current_phase := None\<rparr>))
             else Some (s2, out))))"
  unfolding digest_def flush_first_def ..

lemma digest_is_reference:
  assumes "calm pr" and "never_throws pr" and "watch_tree s C k"
  shows "digest pr k s = reference_digest pr C k s"
proof -
  have "rounds pr TTL k (s1\<lparr>lastDirtyWatch := None\<rparr>) = rounds_all pr TTL (slots s (below s C k)) (s1\<lparr>lastDirtyWatch := None\<rparr>)"
    if "flush_first pr k s = Some s1" for s1
    by (rule rounds_reference [OF assms(1,3,2) flush_first_start [OF assms(1) that]])
  then show ?thesis
    unfolding digest_flush reference_digest_def flush_first_def [symmetric] by (cases "flush_first pr k s") simp_all
qed

lemma digest_ends_clean:
  assumes "calm pr" and "watch_tree s C k" and "digest pr k s = Some (s', Finished)"
  shows "\<exists>s2. list_all (clean pr s2) (slots s2 (below s2 C k)) \<and> asyncQueue s2 = [] \<and> current_phase s2 = None
    \<and> run_postDigest pr s2 = Some s'"
proof -
  obtain s1 where f: "flush_first pr k s = Some s1"
    using assms(3) by (cases "flush_first pr k s") (simp_all add: digest_flush split: if_splits)
  obtain s2 out where r: "rounds pr TTL k (s1\<lparr>lastDirtyWatch := None\<rparr>) = Some (s2, out)"
    using assms(3) f by (cases "rounds pr TTL k (s1\<lparr>lastDirtyWatch := None\<rparr>)") (auto simp: digest_flush split: if_splits)
  have p: "out = Finished" "run_postDigest pr (s2\<lparr>current_phase := None\<rparr>) = Some s'"
    using assms(3) f r by (auto simp: digest_flush split: if_splits)
  have c: "same_shape s s2" "list_all (clean pr s2) (slots s (below s C k))" "asyncQueue s2 = []"
    using rounds_clean [OF assms(1,2) flush_first_start [OF assms(1) f] r] p(1) by simp_all
  have "same_shape s (s2\<lparr>current_phase := None\<rparr>)" using c(1) by (simp add: same_shape_def)
  then have "slots (s2\<lparr>current_phase := None\<rparr>) (below (s2\<lparr>current_phase := None\<rparr>) C k) = slots s (below s C k)"
    by (simp only: same_shape_slots same_shapeD(1))
  moreover have "clean pr (s2\<lparr>current_phase := None\<rparr>) = clean pr s2" by (simp add: clean_def slot_watch_def fun_eq_iff split: sum.split)
  ultimately show ?thesis using c p(2) by (intro exI [of _ "s2\<lparr>current_phase := None\<rparr>"]) simp
qed

section \<open>What a digest leaves as it is\<close>

text \<open>The shape and the phase; a digest of a calm program never crashes, whatever its target is.\<close>

lemma traverse_shape:
  assumes "calm pr" and "linked s0 C" and "same_shape s0 t"
  shows "\<exists>s' d'. traverse pr k k d t = Some (s', d', Finished) \<and> same_shape s0 s' \<and> current_phase s' = current_phase t"
proof -
  let ?ks = "preorder (created s0) C (\<lambda>j. watchersCount s0 j \<noteq> 0) k"
  obtain s' d' b where r: "process_slots pr (slots t ?ks) d t = (s', d', b)" by (metis prod_cases3)
  have "same_shape t s' \<and> current_phase s' = current_phase t" by (rule process_slots_shape [OF assms(1) slots_valid r])
  then show ?thesis using traverse_visits [OF assms(1) visits_all [OF assms(2)] assms(3), of k d] r same_shape_trans [OF assms(3)] by auto
qed

lemma rounds_shape:
  assumes "calm pr" and "linked s0 C"
  shows "same_shape s0 s \<Longrightarrow> rounds pr ttl k s = Some (s', out) \<Longrightarrow>
    same_shape s0 s' \<and> (out = Infdig \<and> current_phase s' = None \<or> out = Finished \<and> current_phase s' = current_phase s)"
proof (induction ttl arbitrary: s)
  case (0 s)
  obtain s1 where s1: "run_async pr s = Some s1" using 0(2) by (cases "run_async pr s") (simp_all add: rounds.simps)
  have q: "same_shape s s1" "current_phase s1 = current_phase s" using run_async_facts [OF s1] assms(1) by simp_all
  obtain s2 d where "traverse pr k k False s1 = Some (s2, d, Finished)" "same_shape s0 s2" "current_phase s2 = current_phase s1"
    using traverse_shape [OF assms same_shape_trans [OF 0(1) q(1)]] by blast
  then show ?case using 0(2) s1 q(2) by (auto simp: rounds.simps [of pr 0] same_shape_def split: if_splits)
next
  case (Suc n s)
  obtain s1 where s1: "run_async pr s = Some s1" using Suc(3) by (cases "run_async pr s") (simp_all add: rounds.simps)
  have q: "same_shape s s1" "current_phase s1 = current_phase s" using run_async_facts [OF s1] assms(1) by simp_all
  obtain s2 d where r: "traverse pr k k False s1 = Some (s2, d, Finished)" "same_shape s0 s2" "current_phase s2 = current_phase s1"
    using traverse_shape [OF assms same_shape_trans [OF Suc(2) q(1)]] by blast
  show ?case
  proof (cases "d \<or> asyncQueue s2 \<noteq> []")
    case True
    then show ?thesis using Suc.IH [OF r(2)] Suc(3) s1 r(1,3) q(2) by (simp add: rounds.simps [of pr "Suc n"])
  next
    case False
    then have "s' = s2 \<and> out = Finished" using Suc(3) s1 r(1) by (simp add: rounds.simps [of pr "Suc n"])
    then show ?thesis using r q(2) by simp
  qed
qed

lemma run_postDigest_shape:
  assumes "run_postDigest pr s = Some s'"
  shows "calm pr \<longrightarrow> same_shape s s' \<and> current_phase s' = current_phase s"
proof (induction rule: run_postDigest.raw_induct [OF _ assms, case_names step])
  case (step f pr s s')
  show ?case
  proof (cases "postDigestQueue s")
    case Nil
    then show ?thesis using step.hyps by simp
  next
    case (Cons h q)
    let ?s1 = "s\<lparr>postDigestQueue := q\<rparr>"
    let ?s2 = "run_user pr (hook pr h (page ?s1)) ?s1"
    have r: "f pr ?s2 = Some s'" using step.hyps Cons by (simp add: Let_def)
    show ?thesis
    proof
      assume c: "calm pr"
      have "same_shape s ?s1" by (simp add: same_shape_def)
      also have w: "same_watches ?s1 ?s2" by (rule same_watches_user) (use c in \<open>simp add: calm_def\<close>)
      also have "same_shape ?s2 s'" using step.IH [OF r] c by simp
      finally show "same_shape s s' \<and> current_phase s' = current_phase s"
        using w step.IH [OF r] c by (simp add: same_watches_def)
    qed
  qed
qed

lemma digest_keeps_shape:
  assumes "calm pr" and "linked s C" and "current_phase s = None" and "digest pr k s = Some (s', out)"
  shows "same_shape s s' \<and> current_phase s' = None \<and> (disabled s k \<and> out = Skipped \<or> out = Finished \<or> out = Infdig)"
proof (cases "disabled s k")
  case True
  then show ?thesis using assms(3,4) by (simp add: digest_def)
next
  case False
  obtain s1 where f: "flush_first pr k s = Some s1"
    using assms(3,4) False by (cases "flush_first pr k s") (simp_all add: digest_flush)
  have shape: "same_shape s (s1\<lparr>lastDirtyWatch := None\<rparr>)" using flush_first_start [OF assms(1) f, of C] by (simp add: between_rounds_def)
  obtain s2 out2 where r: "rounds pr TTL k (s1\<lparr>lastDirtyWatch := None\<rparr>) = Some (s2, out2)"
    using assms(3,4) False f by (cases "rounds pr TTL k (s1\<lparr>lastDirtyWatch := None\<rparr>)") (auto simp: digest_flush)
  note e = rounds_shape [OF assms(1,2) shape r]
  show ?thesis
  proof (cases "out2 = Finished")
    case True
    then have p: "out = Finished" "run_postDigest pr (s2\<lparr>current_phase := None\<rparr>) = Some s'"
      using assms(3,4) False f r by (auto simp: digest_flush)
    have "same_shape s s2" using e by blast
    also have "same_shape s2 (s2\<lparr>current_phase := None\<rparr>)" by (simp add: same_shape_def)
    also have "same_shape (s2\<lparr>current_phase := None\<rparr>) s'" using run_postDigest_shape [OF p(2)] assms(1) by simp
    finally show ?thesis using p(1) run_postDigest_shape [OF p(2)] assms(1) by simp
  next
    case False
    then show ?thesis using e assms(3,4) \<open>\<not> disabled s k\<close> f r by (auto simp: digest_flush)
  qed
qed

lemma root_apply_keeps_shape:
  assumes "calm pr" and "linked s C" and "current_phase s = None" and "root_apply pr s = Some (s', out)"
  shows "same_shape s s' \<and> current_phase s' = None"
proof -
  obtain t where t: "digest pr 0 s = Some (t, out)" "s' = exceptionHandler (thrown out) t"
    using assms(4) by (auto simp: root_apply_def)
  have "same_shape s t \<and> current_phase t = None" using digest_keeps_shape [OF assms(1-3) t(1)] by simp
  then show ?thesis using same_shape_watches [OF _ same_watches_handler] t(2) by auto
qed

lemma linked_same: "same_shape s t \<Longrightarrow> linked s C \<Longrightarrow> linked t C"
  unfolding same_shape_def linked_def by simp

lemma scope_apply_keeps_shape:
  assumes "calm pr" and "linked s C" and "current_phase s = None" and "scope_apply pr k f s = Some (s', out)"
  shows "same_shape s s' \<and> current_phase s' = None"
proof (cases "disabled s k")
  case True
  then show ?thesis using assms(3,4) by (simp add: scope_apply_def)
next
  case False
  let ?s0 = "s\<lparr>current_phase := Some Applying\<rparr>" and ?r = "task pr f k (page s)"
  let ?s1 = "fold (perform pr) (fst ?r) ?s0"
  let ?t = "exceptionHandler (snd ?r) (?s1\<lparr>current_phase := None\<rparr>)"
  have "same_shape s ?s0" by (simp add: same_shape_def)
  also have "same_watches ?s0 ?s1" by (rule same_watches_fold) (use assms(1) in \<open>simp add: calm_def\<close>)
  also have "same_shape ?s1 (?s1\<lparr>current_phase := None\<rparr>)" by (simp add: same_shape_def)
  also have "same_watches (?s1\<lparr>current_phase := None\<rparr>) ?t" by simp
  finally have t: "same_shape s ?t" .
  have "root_apply pr ?t = Some (s', out)" using assms(3,4) False by (simp add: scope_apply_def Let_def)
  then have "same_shape ?t s' \<and> current_phase s' = None"
    using root_apply_keeps_shape [OF assms(1) linked_same [OF t assms(2)]] by simp
  then show ?thesis using same_shape_trans [OF t] by blast
qed

lemma run_timer_keeps_shape:
  assumes "calm pr" and "linked s C" and "current_phase s = None" and "run_timer pr s = Some (s', out)"
  shows "same_shape s s' \<and> current_phase s' = None"
proof (cases "timers s")
  case Nil
  then show ?thesis using assms(3,4) by (simp add: run_timer_def)
next
  case (Cons d q)
  let ?s0 = "s\<lparr>timers := q\<rparr>"
  have s0: "same_shape s ?s0" by (simp add: same_shape_def)
  note l0 = linked_same [OF s0 assms(2)]
  show ?thesis
  proof (cases d)
    case FlushAsync
    show ?thesis
    proof (cases "asyncQueue s = []")
      case True
      then show ?thesis using assms(3,4) Cons FlushAsync s0 by (auto simp: run_timer_def)
    next
      case False
      then have "digest pr 0 ?s0 = Some (s', out)" using assms(4) Cons FlushAsync by (simp add: run_timer_def)
      then show ?thesis using digest_keeps_shape [OF assms(1) l0] assms(3) same_shape_trans [OF s0] by simp
    qed
  next
    case ApplyAsyncTimer
    show ?thesis
    proof (cases "disabled ?s0 0")
      case True
      then show ?thesis using assms(3,4) Cons ApplyAsyncTimer s0 by (auto simp: run_timer_def Let_def)
    next
      case False
      let ?s1 = "?s0\<lparr>current_phase := Some Applying\<rparr>"
      obtain s2 where s2: "flushApplyAsync pr ?s1 = Some s2" "root_apply pr (s2\<lparr>current_phase := None\<rparr>) = Some (s', out)"
        using assms(3,4) Cons ApplyAsyncTimer False by (cases "flushApplyAsync pr ?s1") (simp_all add: run_timer_def Let_def)
      note s0
      also have "same_shape ?s0 ?s1" by (simp add: same_shape_def)
      also have "same_shape ?s1 s2" using flushApplyAsync_shape [OF s2(1)] assms(1) by simp
      also have "same_shape s2 (s2\<lparr>current_phase := None\<rparr>)" by (simp add: same_shape_def)
      finally have t: "same_shape s (s2\<lparr>current_phase := None\<rparr>)" .
      show ?thesis
        using root_apply_keeps_shape [OF assms(1) linked_same [OF t assms(2)] _ s2(2)] same_shape_trans [OF t] by simp
    qed
  qed
qed

end
