(* ===== verification/AngularSettle.thy ===== *)
theory AngularSettle imports Main Prelude AngularScope AngularTree AngularDigest begin

text \<open>
  When the loops of a digest of angular.js end: the queues where the expressions in them schedule
  nothing, the rounds by their limit.
\<close>

section \<open>The queues\<close>

definition schedules_nothing :: "'m action \<Rightarrow> bool" where
  "schedules_nothing a \<longleftrightarrow> (case a of EvalAsync k f \<Rightarrow> False | PostDigest f \<Rightarrow> False | ApplyAsync k f \<Rightarrow> False | _ \<Rightarrow> True)"

definition settling :: "('m, 'v) program \<Rightarrow> bool" where
  "settling pr \<longleftrightarrow> (\<forall>f k m. list_all schedules_nothing (fst (task pr f k m))) \<and> (\<forall>f m. list_all schedules_nothing (fst (hook pr f m)))"

definition same_queues :: "('m, 'v) scopes \<Rightarrow> ('m, 'v) scopes \<Rightarrow> bool" where
  "same_queues s t \<longleftrightarrow> asyncQueue t = asyncQueue s \<and> postDigestQueue t = postDigestQueue s \<and> applyAsyncQueue t = applyAsyncQueue s"

lemma same_queues_refl [simp]: "same_queues s s"
  by (simp add: same_queues_def)

lemma same_queues_trans [trans]: "same_queues s t \<Longrightarrow> same_queues t u \<Longrightarrow> same_queues s u"
  by (simp add: same_queues_def)

lemma same_queues_handler [simp]: "same_queues s (exceptionHandler e s)"
  by (simp add: exceptionHandler_def same_queues_def split: option.splits)

lemma same_queues_call: "same_queues s (snd (snd r)) \<Longrightarrow> same_queues s (snd (snd (call_listener pr name k l r)))"
  by (cases r) (auto simp: call_listener_def exceptionHandler_def same_queues_def split: listener.splits prod.splits option.splits)

lemma same_queues_notify: "same_queues s (snd (snd r)) \<Longrightarrow> same_queues s (snd (snd (notify_scope pr name k r)))"
proof -
  assume a: "same_queues s (snd (snd r))"
  obtain stop prevented t where r: "r = (stop, prevented, t)" by (cases r)
  have "same_queues s (snd (snd (fold (call_listener pr name k) ls r')))" if "same_queues s (snd (snd r'))" for ls r'
    using that by (induction ls arbitrary: r') (simp_all add: same_queues_call)
  then show ?thesis using a by (simp add: notify_scope_def r same_queues_def)
qed

lemma same_queues_emit: "same_queues s (snd (snd r)) \<Longrightarrow> same_queues s (snd (snd (emit_up pr name ks r)))"
  by (induction ks arbitrary: r) (simp_all add: Let_def same_queues_notify)

lemma same_queues_broadcast: "same_queues s (snd (scope_broadcast pr k name s))"
proof -
  have "same_queues s (snd (snd (fold (notify_scope pr name) ks r)))" if "same_queues s (snd (snd r))" for ks r
    using that by (induction ks arbitrary: r) (simp_all add: same_queues_notify)
  then show ?thesis by (simp add: scope_broadcast_def)
qed

lemma same_queues_destroy: "same_queues s (scope_destroy pr k s)"
  using same_queues_broadcast [of s pr k "''$destroy''"]
  by (simp add: scope_destroy_def same_queues_def Let_def cleanUpScope_def unlink_def incrementWatchersCount_def)

lemma same_queues_on: "same_queues s (scope_on k name l s)"
  by (simp add: scope_on_def same_queues_def)

lemma same_queues_new: "same_queues s (snd (scope_new this isolate parent s))"
  using same_queues_on by (auto simp: scope_new_def same_queues_def scope_on_def Let_def split: option.splits)

lemma same_queues_perform: "schedules_nothing a \<Longrightarrow> same_queues s (perform pr a s)"
proof (cases a)
  case (Emit k name)
  then show ?thesis using same_queues_emit [of s "(False, False, s)"] by (simp add: scope_emit_def)
next
  case (Broadcast k name)
  then show ?thesis by (simp add: same_queues_broadcast)
next
  case (Destroy k)
  then show ?thesis by (simp add: same_queues_destroy)
next
  case (NewScope j i p)
  then show ?thesis by (simp add: same_queues_new)
next
  case (AddListener k name l)
  then show ?thesis by (simp add: same_queues_on)
qed (auto simp: schedules_nothing_def same_queues_def scope_off_def decrementListenerCount_def scope_watch_def deregisterWatch_def
    incrementWatchersCount_def Let_def split: option.splits)

lemma same_queues_user: "list_all schedules_nothing (fst r) \<Longrightarrow> same_queues s (run_user pr r s)"
proof -
  assume "list_all schedules_nothing (fst r)"
  moreover have "list_all schedules_nothing as \<Longrightarrow> same_queues s (fold (perform pr) as s)" for as
    by (induction as arbitrary: s) (simp, metis fold_simps(2) list.pred_inject(2) same_queues_perform same_queues_trans)
  ultimately have "same_queues s (fold (perform pr) (fst r) s)" by blast
  then show ?thesis using same_queues_handler same_queues_trans by (fastforce simp: run_user_def)
qed

lemma run_async_returns: "settling pr \<Longrightarrow> \<exists>s'. run_async pr s = Some s'"
proof (induction "length (asyncQueue s)" arbitrary: s)
  case (Suc n)
  then obtain k f q where q: "asyncQueue s = (k, f) # q" by (metis Suc_length_conv surj_pair)
  let ?s1 = "s\<lparr>asyncQueue := q\<rparr>"
  have "same_queues ?s1 (run_user pr (task pr f k (page ?s1)) ?s1)"
    by (rule same_queues_user) (use Suc.prems in \<open>simp add: settling_def\<close>)
  then have "n = length (asyncQueue (run_user pr (task pr f k (page ?s1)) ?s1\<lparr>lastDirtyWatch := None\<rparr>))"
    using Suc.hyps(2) q by (simp add: same_queues_def)
  from Suc.hyps(1) [OF this Suc.prems] show ?case using q by (simp add: run_async.simps [of pr s] Let_def)
qed (simp add: run_async.simps)

lemma flushApplyAsync_returns: "settling pr \<Longrightarrow> \<exists>s'. flushApplyAsync pr s = Some s'"
proof (induction "length (applyAsyncQueue s)" arbitrary: s)
  case (Suc n)
  then obtain k f q where q: "applyAsyncQueue s = (k, f) # q" by (metis Suc_length_conv surj_pair)
  let ?s1 = "s\<lparr>applyAsyncQueue := q\<rparr>"
  have "same_queues ?s1 (run_user pr (task pr f k (page ?s1)) ?s1)"
    by (rule same_queues_user) (use Suc.prems in \<open>simp add: settling_def\<close>)
  then have "n = length (applyAsyncQueue (run_user pr (task pr f k (page ?s1)) ?s1))"
    using Suc.hyps(2) q by (simp add: same_queues_def)
  from Suc.hyps(1) [OF this Suc.prems] show ?case using q by (simp add: flushApplyAsync.simps [of pr s] Let_def)
qed (simp add: flushApplyAsync.simps)

lemma run_postDigest_returns: "settling pr \<Longrightarrow> \<exists>s'. run_postDigest pr s = Some s'"
proof (induction "length (postDigestQueue s)" arbitrary: s)
  case (Suc n)
  then obtain f q where q: "postDigestQueue s = f # q" by (metis Suc_length_conv)
  let ?s1 = "s\<lparr>postDigestQueue := q\<rparr>"
  have "same_queues ?s1 (run_user pr (hook pr f (page ?s1)) ?s1)"
    by (rule same_queues_user) (use Suc.prems in \<open>simp add: settling_def\<close>)
  then have "n = length (postDigestQueue (run_user pr (hook pr f (page ?s1)) ?s1))"
    using Suc.hyps(2) q by (simp add: same_queues_def)
  from Suc.hyps(1) [OF this Suc.prems] show ?case using q by (simp add: run_postDigest.simps [of pr s] Let_def)
qed (simp add: run_postDigest.simps)

section \<open>The rounds\<close>

lemma rounds_return:
  assumes "calm pr" and "settling pr" and "linked s0 C"
  shows "same_shape s0 s \<Longrightarrow> \<exists>s' out. rounds pr ttl k s = Some (s', out)"
proof (induction ttl arbitrary: s)
  case (0 s)
  obtain s1 where s1: "run_async pr s = Some s1" using run_async_returns [OF assms(2)] by blast
  then have "same_shape s0 s1" using run_async_facts [OF s1] assms(1) same_shape_trans [OF 0] by simp
  then show ?case using traverse_shape [OF assms(1,3), of s1 k False] s1 by (auto simp: rounds.simps [of pr 0])
next
  case (Suc n s)
  obtain s1 where s1: "run_async pr s = Some s1" using run_async_returns [OF assms(2)] by blast
  then have "same_shape s0 s1" using run_async_facts [OF s1] assms(1) same_shape_trans [OF Suc.prems] by simp
  then obtain s2 d where r: "traverse pr k k False s1 = Some (s2, d, Finished)" "same_shape s0 s2"
    using traverse_shape [OF assms(1,3)] by blast
  show ?case using s1 r(1) Suc.IH [OF r(2)] by (simp add: rounds.simps [of pr "Suc n"])
qed

lemma digest_returns:
  assumes "calm pr" and "settling pr" and "linked s C" and "current_phase s = None"
  shows "\<exists>s' out. digest pr k s = Some (s', out) \<and> (if disabled s k then out = Skipped else out \<in> {Finished, Infdig}) \<and> current_phase s' = None"
proof (cases "disabled s k")
  case True
  then show ?thesis using assms(4) by (simp add: digest_def)
next
  case False
  obtain s1 where f: "flush_first pr k s = Some s1"
    using flushApplyAsync_returns [OF assms(2)] by (fastforce simp: flush_first_def)
  have "same_shape s (s1\<lparr>lastDirtyWatch := None\<rparr>)" using flush_first_start [OF assms(1) f, of C] by (simp add: between_rounds_def)
  then obtain s2 out where r: "rounds pr TTL k (s1\<lparr>lastDirtyWatch := None\<rparr>) = Some (s2, out)"
    using rounds_return [OF assms(1-3)] by blast
  moreover obtain s3 where "run_postDigest pr (s2\<lparr>current_phase := None\<rparr>) = Some s3" using run_postDigest_returns [OF assms(2)] by blast
  ultimately obtain s' out' where d: "digest pr k s = Some (s', out')" using f False assms(4) by (cases "out = Finished") (auto simp: digest_flush)
  then show ?thesis using digest_keeps_shape [OF assms(1,3,4) d] False by auto
qed

end
