(* ===== verification/AngularForest.thy ===== *)
theory AngularForest imports Main Prelude AngularScope AngularTree AngularDigest begin

text \<open>
  The invariant of the tree of scopes of angular.js: the pointers are those of a forest, every scope that
  the root reaches counts the watches at and below it, and no two watches have one name. Creating and destroying
  scopes and registering and removing watches keep it.
\<close>

section \<open>Ancestors and descendants\<close>

lemma ancestors_le: "j \<in> set (ancestors par k) \<Longrightarrow> j \<le> k"
proof (induction k rule: less_induct)
  case (less k)
  then show ?case by (subst (asm) (2) ancestors.simps) (fastforce split: option.splits if_splits)
qed

lemma ancestors_self [simp]: "k \<in> set (ancestors par k)"
  by (subst ancestors.simps) simp

lemma ancestors_parent: "par k = Some p \<Longrightarrow> p < k \<Longrightarrow> set (ancestors par k) = insert k (set (ancestors par p))"
  by (subst ancestors.simps) simp

lemma ancestors_none: "par k = None \<Longrightarrow> ancestors par k = [k]"
  by (subst ancestors.simps) simp

lemma ancestors_other: "a \<in> set (ancestors par j) \<Longrightarrow> a \<noteq> j \<Longrightarrow> \<exists>p. par j = Some p \<and> p < j \<and> a \<in> set (ancestors par p)"
  by (cases "par j") (simp_all add: ancestors.simps [of par j] split: if_splits)

text \<open>Of two ancestors one is an ancestor of the other.\<close>

lemma ancestors_chain: "a \<in> set (ancestors par j) \<Longrightarrow> b \<in> set (ancestors par j) \<Longrightarrow> a \<in> set (ancestors par b) \<or> b \<in> set (ancestors par a)"
proof (induction j rule: less_induct)
  case (less j)
  show ?case
  proof (cases "a = j \<or> b = j")
    case True
    then show ?thesis using less.prems by blast
  next
    case False
    then obtain p where "par j = Some p" "p < j" using less.prems(1) ancestors_other by metis
    then show ?thesis using less ancestors_parent False by fastforce
  qed
qed

lemma below_self [simp]: "k \<in> set (preorder n C down k)"
  by (subst preorder.simps) simp

lemma below_set: "linked s C \<Longrightarrow> set (below s C k) = insert k (\<Union>c\<in>set (C k). set (below s C c))"
  by (subst preorder_linked) simp_all

lemma below_ancestors: "linked s C \<Longrightarrow> j \<in> set (below s C k) \<Longrightarrow> k \<in> set (ancestors (parentOf s) j)"
proof (induction "created s - k" arbitrary: k rule: less_induct)
  case less
  show ?case
  proof (cases "j = k")
    case False
    then obtain c where c: "c \<in> set (C k)" "j \<in> set (below s C c)" using less.prems(2) below_set [OF less.prems(1), of k] by auto
    note p = linkedD(4-6) [OF less.prems(1) c(1)]
    have "c \<in> set (ancestors (parentOf s) j)" using less.hyps [of c] p less.prems(1) c(2) by simp
    then have "k \<in> set (ancestors (parentOf s) j)"
    proof (induction j rule: less_induct)
      case (less j)
      show ?case
      proof (cases "j = c")
        case True
        then show ?thesis using p by (simp add: ancestors_parent)
      next
        case False
        then obtain q where "parentOf s j = Some q" "q < j" "c \<in> set (ancestors (parentOf s) q)" using less.prems ancestors_other by metis
        then show ?thesis using less ancestors_parent False by fastforce
      qed
    qed
    then show ?thesis .
  qed simp
qed

lemma below_trans: "linked s C \<Longrightarrow> j \<in> set (below s C k) \<Longrightarrow> i \<in> set (below s C j) \<Longrightarrow> i \<in> set (below s C k)"
proof (induction "created s - k" arbitrary: k rule: less_induct)
  case less
  show ?case
  proof (cases "j = k")
    case False
    then obtain c where c: "c \<in> set (C k)" "j \<in> set (below s C c)" using less.prems(2) below_set [OF less.prems(1), of k] by auto
    have "created s - c < created s - k" using linkedD(4,5) [OF less.prems(1) c(1)] by simp
    then have "i \<in> set (below s C c)" using less.hyps less.prems c(2) by blast
    then show ?thesis using c(1) below_set [OF less.prems(1), of k] by blast
  qed (use less in simp)
qed

lemma siblings_apart:
  assumes "linked s C" and "c \<in> set (C k)" and "d \<in> set (C k)" and "j \<in> set (below s C c)" and "j \<in> set (below s C d)"
  shows "c = d"
proof -
  have *: "a = b" if "a \<in> set (C k)" "b \<in> set (C k)" "a \<in> set (ancestors (parentOf s) b)" for a b
  proof (rule ccontr)
    assume "a \<noteq> b"
    then have "a \<in> set (ancestors (parentOf s) k)"
      using that linkedD(4,6) [OF assms(1) that(2)] ancestors_parent [of "parentOf s" b k] by simp
    then show False using ancestors_le [of a] linkedD(4) [OF assms(1) that(1)] by fastforce
  qed
  from ancestors_chain [OF below_ancestors [OF assms(1,4)] below_ancestors [OF assms(1,5)]]
  show ?thesis using * assms(2,3) by metis
qed

lemma below_distinct: "linked s C \<Longrightarrow> distinct (below s C k)"
proof (induction "created s - k" arbitrary: k rule: less_induct)
  case less
  note l = less.prems
  have "distinct (below s C c)" if "c \<in> set (C k)" for c
    using less.hyps [of c] linkedD(4,5) [OF l that] l by simp
  moreover have "distinct cs \<Longrightarrow> set cs \<subseteq> set (C k) \<Longrightarrow> distinct (concat (map (below s C) cs))" if "\<And>c. c \<in> set (C k) \<Longrightarrow> distinct (below s C c)" for cs
  proof (induction cs)
    case (Cons c cs)
    have "set (below s C c) \<inter> set (below s C d) = {}" if "d \<in> set cs" for d
      using Cons.prems that siblings_apart [OF l, of c k d] by auto
    then show ?case using Cons that by auto
  qed simp
  moreover have "k \<notin> set (below s C c)" if "c \<in> set (C k)" for c
    using below_ancestors [OF l] ancestors_le linkedD(4) [OF l that] by fastforce
  ultimately show ?case using linkedD(3) [OF l, of k] by (auto simp: preorder_linked [OF l, of _ k])
qed

section \<open>The invariant\<close>

definition watch_number :: "('m, 'v) scopes \<Rightarrow> nat \<Rightarrow> int" where
  "watch_number s k = (if watching s k then int (length (watchers s k)) else 0)"

definition names_apart :: "('m, 'v) scopes \<Rightarrow> bool" where
  "names_apart s \<longleftrightarrow>
     (\<forall>k. watching s k \<longrightarrow> distinct (map w_id (watchers s k)) \<and> (\<forall>w\<in>set (watchers s k). w_id w < nextWatch s))
     \<and> (\<forall>j k v w. watching s j \<longrightarrow> watching s k \<longrightarrow> v \<in> set (watchers s j) \<longrightarrow> w \<in> set (watchers s k) \<longrightarrow> w_id v = w_id w \<longrightarrow> j = k)"

definition scope_tree :: "('m, 'v) scopes \<Rightarrow> forest \<Rightarrow> bool" where
  "scope_tree s C \<longleftrightarrow> linked s C \<and> 0 < created s
     \<and> (\<forall>k\<ge>created s. C k = [] \<and> parentOf s k = None \<and> nextSibling s k = None \<and> \<not> watching s k \<and> watchersCount s k = 0)
     \<and> (\<forall>k p. parentOf s k = Some p \<longrightarrow> p < k \<and> (p \<in> set (below s C 0) \<longrightarrow> k \<in> set (C p)))
     \<and> (\<forall>k\<in>set (below s C 0). watchersCount s k = sum_list (map (watch_number s) (below s C k)))
     \<and> names_apart s"

lemma scope_treeD:
  assumes "scope_tree s C"
  shows "linked s C" "0 < created s" "created s \<le> k \<Longrightarrow> C k = []" "created s \<le> k \<Longrightarrow> parentOf s k = None"
    "created s \<le> k \<Longrightarrow> nextSibling s k = None" "created s \<le> k \<Longrightarrow> \<not> watching s k" "created s \<le> k \<Longrightarrow> watchersCount s k = 0"
    "parentOf s k = Some p \<Longrightarrow> p < k" "parentOf s k = Some p \<Longrightarrow> p \<in> set (below s C 0) \<Longrightarrow> k \<in> set (C p)"
    "k \<in> set (below s C 0) \<Longrightarrow> watchersCount s k = sum_list (map (watch_number s) (below s C k))" "names_apart s"
  using assms unfolding scope_tree_def by blast+

lemma slots_length: "int (length (slots s ks)) = sum_list (map (watch_number s) ks)"
  by (induction ks) (simp_all add: slots_Cons watch_number_def)

lemma slot_ids_slots: "slot_ids s (slots s ks) = concat (map (\<lambda>k. if watching s k then rev (map w_id (watchers s k)) else []) ks)"
proof -
  have "map (\<lambda>i. w_id (xs ! i)) (rev [0..<length xs]) = rev (map w_id xs)" for xs :: "'b watch list"
    by (simp add: rev_map [symmetric]) (metis (no_types, lifting) map_nth map_map comp_apply map_eq_conv)
  then show ?thesis by (simp add: slot_ids_def slots_def map_concat slot_watch_def o_def if_distrib cong: if_cong)
qed

lemma names_apart_slots: "names_apart s \<Longrightarrow> distinct ks \<Longrightarrow> distinct (slot_ids s (slots s ks))"
proof (induction ks)
  case (Cons k ks)
  have "w_id v \<noteq> w_id w" if "watching s k" "v \<in> set (watchers s k)" "j \<in> set ks" "watching s j" "w \<in> set (watchers s j)" for j v w
    using Cons.prems that unfolding names_apart_def by (metis distinct.simps(2))
  then show ?case using Cons unfolding slot_ids_slots by (auto simp: names_apart_def) 
qed (simp add: slot_ids_def)

text \<open>In such a state a digest below any scope that the root reaches finds its way.\<close>

lemma scope_tree_watch_tree: "scope_tree s C \<Longrightarrow> k \<in> set (below s C 0) \<Longrightarrow> watch_tree s C k"
  unfolding watch_tree_def counted_def
  using below_trans scope_treeD(1,10,11) slots_length names_apart_slots below_distinct by metis

lemma scope_tree_initial: "scope_tree (initial_scopes m) (\<lambda>k. [])"
  by (auto simp: scope_tree_def linked_def initial_scopes_def names_apart_def watch_number_def preorder.simps)

text \<open>The ancestors that the root reaches are those below which a scope is.\<close>

lemma reached_ancestors:
  "scope_tree s C \<Longrightarrow> j \<in> set (below s C 0) \<Longrightarrow> j \<in> set (ancestors (parentOf s) k) \<longleftrightarrow> k \<in> set (below s C j)"
proof (induction k rule: less_induct)
  case (less k)
  note l = scope_treeD(1) [OF less.prems(1)]
  show ?case
  proof (cases "j = k")
    case False
    have "k \<in> set (below s C j)" if j: "j \<in> set (ancestors (parentOf s) k)"
    proof -
      obtain p where p: "parentOf s k = Some p" "p < k" "j \<in> set (ancestors (parentOf s) p)" using ancestors_other [OF j False] by blast
      then have "p \<in> set (below s C j)" using less by blast
      moreover from this have "k \<in> set (C p)" using scope_treeD(9) [OF less.prems(1) p(1)] below_trans [OF l less.prems(2)] by blast
      then have "k \<in> set (below s C p)" using below_set [OF l, of p] below_self [of k] by blast
      ultimately show ?thesis using below_trans [OF l] by blast
    qed
    then show ?thesis using below_ancestors [OF l] by blast
  qed simp
qed

section \<open>Operations that keep the tree\<close>

lemma names_apart_same:
  assumes "watching t = watching s" and "nextWatch t = nextWatch s" and "\<And>k. map w_id (watchers t k) = map w_id (watchers s k)" and "names_apart s"
  shows "names_apart t"
proof -
  have ids: "w_id ` set (watchers t k) = w_id ` set (watchers s k)" for k using assms(3) by (metis list.set_map)
  have "\<exists>v'\<in>set (watchers s k). w_id v' = w_id v" if "v \<in> set (watchers t k)" for v k
    using that ids [of k] by (metis (no_types, lifting) image_iff)
  then show ?thesis using assms(1,2,4) assms(3) unfolding names_apart_def by metis
qed

lemma scope_tree_same:
  assumes "same_shape s t" and "scope_tree s C"
  shows "scope_tree t C"
proof -
  have "map w_id (watchers t k) = map w_id (watchers s k)" for k
    using arg_cong [OF same_shapeD(8) [OF assms(1), of k], of "map fst"] by (simp add: o_def)
  then have "names_apart t" using names_apart_same same_shapeD(5,7) [OF assms(1)] scope_treeD(11) [OF assms(2)] by metis
  moreover have "watch_number t = watch_number s"
    by (simp add: fun_eq_iff watch_number_def same_shape_length [OF assms(1)] same_shapeD(5) [OF assms(1)])
  moreover have "linked t C" using assms unfolding scope_tree_def linked_def same_shape_def by simp
  ultimately show ?thesis using assms(2) unfolding scope_tree_def by (simp only: same_shapeD [OF assms(1)] simp_thms) blast
qed

lemma scope_tree_calm: "calm_action a \<Longrightarrow> scope_tree s C \<Longrightarrow> scope_tree (perform pr a s) C"
  using same_watches_perform scope_tree_same unfolding same_watches_def by blast

text \<open>Registering and removing a watch.\<close>

lemma sum_list_bump: "distinct ks \<Longrightarrow> sum_list (map (f(k := f k + n)) ks) = sum_list (map f ks) + (if k \<in> set ks then n else (0::int))"
  by (induction ks) auto

lemma scope_tree_counts:
  assumes "scope_tree s C" and "k < created s"
    and t: "created t = created s" "parentOf t = parentOf s" "prevSibling t = prevSibling s" "nextSibling t = nextSibling s" "childHead t = childHead s"
      "childTail t = childTail s" "\<And>j. j \<noteq> k \<Longrightarrow> watching t j = watching s j"
      "watch_number t = (watch_number s)(k := watch_number s k + n)"
      "watchersCount t = (\<lambda>j. if j \<in> set (ancestors (parentOf s) k) then watchersCount s j + n else watchersCount s j)" "names_apart t"
  shows "scope_tree t C"
proof -
  have l: "linked s C" using assms(1) scope_treeD(1) by blast
  have "watchersCount t j = sum_list (map (watch_number t) (below s C j))" if "j \<in> set (below s C 0)" for j
    using scope_treeD(10) [OF assms(1) that] reached_ancestors [OF assms(1) that, of k] t(8,9) sum_list_bump [OF below_distinct [OF l], of "watch_number s" k n j]
    by simp
  moreover have "\<not> watching t j \<and> watchersCount t j = 0" if "created s \<le> j" for j
    using scope_treeD(6,7) [OF assms(1) that] t(7) [of j] t(9) assms(2) that ancestors_le [of j "parentOf s" k] by fastforce
  moreover have "linked t C" using l t unfolding linked_def by simp
  ultimately show ?thesis using assms(1) t unfolding scope_tree_def by simp
qed

lemma names_apart_add:
  assumes "names_apart s" and "w_id new = nextWatch s" and "nextWatch t = Suc (nextWatch s)" and "watching t = (watching s)(k := True)"
    and "watchers t = (watchers s)(k := new # (if watching s k then watchers s k else []))"
  shows "names_apart t"
proof -
  have old: "j = k \<and> w = new \<or> watching s j \<and> w \<in> set (watchers s j)" if "watching t j" "w \<in> set (watchers t j)" for j w
    using that assms(4,5) by (auto split: if_splits)
  have less: "w_id w < nextWatch s" if "watching s j" "w \<in> set (watchers s j)" for j w
    using assms(1) that by (simp add: names_apart_def)
  have "distinct (map w_id (watchers t j))" if "watching t j" for j
    using that assms(1,2,4,5) less [of k] by (fastforce simp: names_apart_def split: if_splits)
  moreover have "w_id w < nextWatch t" if "watching t j" "w \<in> set (watchers t j)" for j w
    using old [OF that] less assms(2,3) by fastforce
  moreover have "i = j" if "watching t i" "watching t j" "v \<in> set (watchers t i)" "w \<in> set (watchers t j)" "w_id v = w_id w" for i j v w
    using old [OF that(1,3)] old [OF that(2,4)] less assms(1,2) that(5) unfolding names_apart_def by (metis less_irrefl)
  ultimately show ?thesis unfolding names_apart_def by blast
qed

lemma scope_tree_watch: "scope_tree s C \<Longrightarrow> k < created s \<Longrightarrow> scope_tree (scope_watch k g f eq s) C"
proof (cases "disabled s k")
  case False
  assume a: "scope_tree s C" "k < created s"
  have n: "names_apart s" by (rule scope_treeD(11) [OF a(1)])
  show ?thesis
  proof (rule scope_tree_counts [OF a])
    show "names_apart (scope_watch k g f eq s)"
      by (rule names_apart_add [OF n, of "\<lparr>w_id = nextWatch s, w_get = g, w_fn = f, w_eq = eq, w_last = None\<rparr>" _ k])
         (use False in \<open>simp_all add: scope_watch_def incrementWatchersCount_def\<close>)
  qed (use False in \<open>auto simp: scope_watch_def incrementWatchersCount_def watch_number_def fun_eq_iff\<close>)
qed (simp add: scope_watch_def)

lemma length_filter_remove:
  "distinct (map w_id ws) \<Longrightarrow> x \<in> set ws \<Longrightarrow> w_id x = i \<Longrightarrow> int (length (filter (\<lambda>w. w_id w \<noteq> i) ws)) = int (length ws) - 1"
proof (induction ws)
  case (Cons w ws)
  then show ?case
  proof (cases "w = x")
    case True
    then have "filter (\<lambda>w. w_id w \<noteq> i) ws = ws" using Cons.prems by (auto simp: filter_id_conv image_iff)
    then show ?thesis using True Cons.prems(3) by simp
  next
    case False
    then have "w_id w \<noteq> i" using Cons.prems by (auto simp: image_iff)
    then show ?thesis using Cons False by simp
  qed
qed simp

lemma names_apart_fewer:
  assumes "names_apart s" and "nextWatch t = nextWatch s" and "\<And>k. watching t k \<Longrightarrow> watching s k"
    and "\<And>k. watching t k \<Longrightarrow> \<exists>P. watchers t k = filter P (watchers s k)"
  shows "names_apart t"
proof -
  have sub: "w \<in> set (watchers s k)" if "watching t k" "w \<in> set (watchers t k)" for k w
    using assms(4) [OF that(1)] that(2) by auto
  have "distinct (map w_id (watchers t k))" if "watching t k" for k
    using assms(4) [OF that] assms(1) assms(3) [OF that] by (auto simp: names_apart_def distinct_map_filter)
  then show ?thesis using assms(1-3) sub unfolding names_apart_def by metis
qed

lemma scope_tree_deregister: "scope_tree s C \<Longrightarrow> watching s k \<Longrightarrow> scope_tree (deregisterWatch k i s) C"
proof -
  assume a: "scope_tree s C" "watching s k"
  have live: "k < created s" using scope_treeD(6) [OF a(1), of k] a(2) by (meson not_le)
  have n: "names_apart s" by (rule scope_treeD(11) [OF a(1)])
  have forget: "scope_tree t C \<Longrightarrow> scope_tree (t\<lparr>lastDirtyWatch := None\<rparr>) C" for t :: "('a, 'b) scopes"
    by (rule scope_tree_same) (auto simp: same_shape_def)
  show ?thesis
  proof (cases "\<exists>x\<in>set (watchers s k). w_id x = i")
    case True
    then obtain x where x: "x \<in> set (watchers s k)" "w_id x = i" by blast
    let ?s = "s\<lparr>watchers := (watchers s)(k := filter (\<lambda>x. w_id x \<noteq> i) (watchers s k))\<rparr>"
    have "scope_tree (incrementWatchersCount k (- 1) ?s) C"
    proof (rule scope_tree_counts [OF a(1) live])
      show "names_apart (incrementWatchersCount k (- 1) ?s)"
      proof (rule names_apart_fewer [OF n])
        fix j
        show "\<exists>P. watchers (incrementWatchersCount k (- 1) ?s) j = filter P (watchers s j)"
          by (rule exI [of _ "\<lambda>x. j = k \<longrightarrow> w_id x \<noteq> i"]) (simp add: incrementWatchersCount_def)
      qed (simp_all add: incrementWatchersCount_def)
      show "watch_number (incrementWatchersCount k (- 1) ?s) = (watch_number s)(k := watch_number s k + - 1)"
        using length_filter_remove [OF _ x] n a(2) by (auto simp: incrementWatchersCount_def watch_number_def fun_eq_iff names_apart_def)
    qed (auto simp: incrementWatchersCount_def)
    then show ?thesis using True forget by (simp add: deregisterWatch_def Let_def)
  next
    case False
    then show ?thesis using forget [OF a(1)] by (auto simp: deregisterWatch_def Let_def)
  qed
qed

section \<open>New scopes\<close>

lemma linked_pointersI:
  assumes "\<And>k. childHead s k = (if C k = [] then None else Some (hd (C k)))" "\<And>k. childTail s k = (if C k = [] then None else Some (last (C k)))"
    "\<And>k. distinct (C k)" "\<And>k c. c \<in> set (C k) \<Longrightarrow> k < c \<and> c < created s"
    "\<And>k i. i < length (C k) \<Longrightarrow> parentOf s (C k ! i) = Some k"
    "\<And>k i. i < length (C k) \<Longrightarrow> nextSibling s (C k ! i) = (if Suc i < length (C k) then Some (C k ! Suc i) else None)"
    "\<And>k i. i < length (C k) \<Longrightarrow> prevSibling s (C k ! i) = (if i = 0 then None else Some (C k ! (i - 1)))"
  shows "linked s C"
  unfolding linked_def using assms by blast

text \<open>What \<open>$new\<close> writes, apart from the listener.\<close>

lemma scope_new_shape:
  fixes s :: "('m, 'v) scopes"
  assumes l: "scope_tree s C" and p: "(case parent of None \<Rightarrow> this | Some p \<Rightarrow> p) = p" and "p < created s"
  obtains t :: "('m, 'v) scopes" where "same_shape t (snd (scope_new this isolate parent s))" "created t = Suc (created s)"
    "parentOf t = (parentOf s)(created s := Some p)" "prevSibling t = (prevSibling s)(created s := childTail s p)"
    "nextSibling t = (if C p = [] then nextSibling s else (nextSibling s)(last (C p) := Some (created s)))"
    "childHead t = (if C p = [] then (childHead s)(p := Some (created s)) else childHead s)"
    "childTail t = (childTail s)(p := Some (created s))"
    "watching t = watching s" "watchers t = watchers s" "watchersCount t = watchersCount s" "nextWatch t = nextWatch s"
proof -
  have on: "same_shape t (scope_on k name x t)" for t :: "('m, 'v) scopes" and k name x
    by (simp add: scope_on_def same_shape_def)
  define s1 where "s1 = s\<lparr>created := Suc (created s), prototypeOf := (prototypeOf s)(created s := if isolate then None else Some this),
    ownDestroyed := (ownDestroyed s)(created s := if isolate then Some False else None),
    parentOf := (parentOf s)(created s := Some p), prevSibling := (prevSibling s)(created s := childTail s p)\<rparr>"
  define t where "t = (case (childHead s p, childTail s p) of
                  (Some h, Some t) \<Rightarrow> s1\<lparr>nextSibling := (nextSibling s1)(t := Some (created s)), childTail := (childTail s1)(p := Some (created s))\<rparr>
                | _ \<Rightarrow> s1\<lparr>childHead := (childHead s1)(p := Some (created s)), childTail := (childTail s1)(p := Some (created s))\<rparr>)"
  have "snd (scope_new this isolate parent s) = (if isolate \<or> p \<noteq> this then scope_on (created s) ''$destroy'' Mark_destroyed t else t)"
    by (simp only: scope_new_def Let_def t_def s1_def p snd_conv)
  then have "same_shape t (snd (scope_new this isolate parent s))" using on by simp
  then show thesis
    using linkedD(1,2) [OF scope_treeD(1) [OF l], of p] by (intro that [of t]) (simp_all add: t_def s1_def)
qed

lemma distinct_last_index: "distinct xs \<Longrightarrow> i < length xs \<Longrightarrow> xs ! i = last xs \<longleftrightarrow> Suc i = length xs"
  by (cases xs rule: rev_cases) (auto simp: nth_append nth_eq_iff_index_eq in_set_conv_nth)

lemma linked_new:
  assumes l: "scope_tree s C" and p: "p < created s"
    and t: "created t = Suc (created s)"
    "parentOf t = (parentOf s)(created s := Some p)" "prevSibling t = (prevSibling s)(created s := childTail s p)"
    "nextSibling t = (if C p = [] then nextSibling s else (nextSibling s)(last (C p) := Some (created s)))"
    "childHead t = (if C p = [] then (childHead s)(p := Some (created s)) else childHead s)"
    "childTail t = (childTail s)(p := Some (created s))"
  shows "linked t (C(p := C p @ [created s]))"
proof -
  note li = linkedD [OF scope_treeD(1) [OF l]]
  have old: "c < created s" if "c \<in> set (C k)" for c k using li(5) that by blast
  have fresh: "created s \<notin> set (C k)" for k using old by blast
  have other: "C k ! i \<noteq> last (C p)" if "k \<noteq> p" "i < length (C k)" "C p \<noteq> []" for k i
    using li(6) [of "C k ! i" k] li(6) [of "last (C p)" p] that by (metis last_in_set nth_mem option.inject)
  show ?thesis
  proof (rule linked_pointersI)
    show "childHead t k = (if (C(p := C p @ [created s])) k = [] then None else Some (hd ((C(p := C p @ [created s])) k)))" for k
      using li(1) [of k] t(5) by simp
    show "childTail t k = (if (C(p := C p @ [created s])) k = [] then None else Some (last ((C(p := C p @ [created s])) k)))" for k
      using li(2) [of k] t(6) by simp
    show "distinct ((C(p := C p @ [created s])) k)" for k
      using li(3) fresh by simp
    show "k < c \<and> c < created t" if "c \<in> set ((C(p := C p @ [created s])) k)" for k c
      using that li(4) [of c k] li(5) [of c k] p t(1) by (auto split: if_splits)
  next
    fix k i
    assume i: "i < length ((C(p := C p @ [created s])) k)"
    have c: "(C(p := C p @ [created s])) k ! i = (if k = p \<and> i = length (C p) then created s else C k ! i)"
      using i by (auto simp: nth_append split: if_splits)
    have k: "i < length (C k)" if "\<not> (k = p \<and> i = length (C p))" using i that by (auto split: if_splits)
    have "C k ! i \<noteq> created s" if "i < length (C k)" using fresh [of k] nth_mem [OF that] by metis
    then show "parentOf t ((C(p := C p @ [created s])) k ! i) = Some k"
      using c k li(6) [of "C k ! i" k] t(2) by (auto split: if_splits)
    show "prevSibling t ((C(p := C p @ [created s])) k ! i) = (if i = 0 then None else Some ((C(p := C p @ [created s])) k ! (i - 1)))"
      using c k li(8) [of i k] t(3) old [of "C k ! i" k] li(2) [of p] i
      by (auto simp: nth_append last_conv_nth split: if_splits)
    show "nextSibling t ((C(p := C p @ [created s])) k ! i) = (if Suc i < length ((C(p := C p @ [created s])) k) then Some ((C(p := C p @ [created s])) k ! Suc i) else None)"
    proof (cases "k = p \<and> i = length (C p)")
      case True
      have "created s \<noteq> last (C p)" if "C p \<noteq> []" using fresh that last_in_set by metis
      then show ?thesis using True c t(4) scope_treeD(5) [OF l, of "created s"] by simp
    next
      case False
      then show ?thesis
      proof (cases "k = p")
        case True
        then show ?thesis using c k False t(4) li(7) [of i p] distinct_last_index [OF li(3), of i p] by (auto simp: nth_append)
      next
        case other_k: False
        then show ?thesis using c k t(4) li(7) [of i k] other [of k i] by auto
      qed
    qed
  qed
qed

lemma below_new:
  fixes f :: "nat \<Rightarrow> int"
  assumes l: "linked s C" and l': "linked t (C(p := C p @ [n]))" and n: "n = created s" "C n = []" "p < n" and f: "f n = 0"
  shows "j < n \<Longrightarrow> set (below t (C(p := C p @ [n])) j) = set (below s C j) \<union> (if p \<in> set (below s C j) then {n} else {})
    \<and> sum_list (map f (below t (C(p := C p @ [n])) j)) = sum_list (map f (below s C j))"
proof (induction "n - j" arbitrary: j rule: less_induct)
  case less
  let ?C = "C(p := C p @ [n])"
  have new: "below t ?C n = [n]" using n(2,3) by (simp add: preorder_linked [OF l'])
  have c: "set (below t ?C c) = set (below s C c) \<union> (if p \<in> set (below s C c) then {n} else {})"
      "sum_list (map f (below t ?C c)) = sum_list (map f (below s C c))" if "c \<in> set (C j)" for c
    using less.hyps [of c] linkedD(4,5) [OF l that] n(1) less.prems by simp_all
  have sums: "sum_list (map (sum_list \<circ> map f \<circ> below t ?C) (C j)) = sum_list (map (sum_list \<circ> map f \<circ> below s C) (C j))"
    using c(2) by (intro arg_cong [where f = sum_list] map_cong) simp_all
  have concats: "sum_list (map f (concat (map g xs))) = sum_list (map (sum_list \<circ> map f \<circ> g) xs)" for g and xs :: "nat list"
    by (induction xs) simp_all
  have "sum_list (map f (below t ?C j)) = sum_list (map f (below s C j))"
  proof (cases "j = p")
    case True
    then show ?thesis using sums f by (simp add: preorder_linked [OF l, of _ p] preorder_linked [OF l', of _ p] concats new)
  next
    case False
    then show ?thesis using sums by (simp add: preorder_linked [OF l, of _ j] preorder_linked [OF l', of _ j] concats)
  qed
  moreover have "set (below t ?C j) = set (below s C j) \<union> (if p \<in> set (below s C j) then {n} else {})"
  proof (cases "j = p")
    case True
    have "p \<notin> set (below s C c)" if "c \<in> set (C p)" for c
      using below_ancestors [OF l, of p c] ancestors_le [of c "parentOf s" p] linkedD(4) [OF l that] by fastforce
    then have "(\<Union>c\<in>set (C p). set (below t ?C c)) = (\<Union>c\<in>set (C p). set (below s C c))" using c(1) True by auto
    then show ?thesis using True by (simp add: below_set [OF l, of p] below_set [OF l', of p] new insert_commute)
  next
    case False
    have "(\<Union>c\<in>set (C j). set (below t ?C c)) = (\<Union>c\<in>set (C j). set (below s C c)) \<union> (if \<exists>c\<in>set (C j). p \<in> set (below s C c) then {n} else {})"
      using c(1) by (auto split: if_splits)
    then show ?thesis using False by (auto simp: below_set [OF l, of j] below_set [OF l', of j])
  qed
  ultimately show ?case by blast
qed

lemma scope_tree_new:
  assumes "scope_tree s C" and "this < created s" and "\<And>p. parent = Some p \<Longrightarrow> p < created s"
  shows "\<exists>C'. scope_tree (snd (scope_new this isolate parent s)) C'"
proof -
  let ?n = "created s"
  obtain p where p: "(case parent of None \<Rightarrow> this | Some p \<Rightarrow> p) = p" "p < ?n" using assms(2,3) by (cases parent) auto
  obtain t where t: "same_shape t (snd (scope_new this isolate parent s))" "created t = Suc ?n"
    "parentOf t = (parentOf s)(?n := Some p)" "prevSibling t = (prevSibling s)(?n := childTail s p)"
    "nextSibling t = (if C p = [] then nextSibling s else (nextSibling s)(last (C p) := Some ?n))"
    "childHead t = (if C p = [] then (childHead s)(p := Some ?n) else childHead s)"
    "childTail t = (childTail s)(p := Some ?n)"
    "watching t = watching s" "watchers t = watchers s" "watchersCount t = watchersCount s" "nextWatch t = nextWatch s"
    by (rule scope_new_shape [OF assms(1) p, of isolate])
  let ?C = "C(p := C p @ [?n])"
  note tr = scope_treeD [OF assms(1)]
  have l': "linked t ?C" by (rule linked_new [OF assms(1) p(2) t(2-7)])
  have num: "watch_number t = watch_number s" "watch_number s ?n = 0"
    using tr(6) [of ?n] by (simp_all add: watch_number_def t(8,9) fun_eq_iff)
  note b = below_new [OF tr(1) l' refl tr(3) [OF order_refl] p(2), of "watch_number s", OF num(2)]
  have reach: "k \<in> set (below s C 0) \<or> k = ?n" if "k \<in> set (below t ?C 0)" for k
    using b [of 0] that tr(2) by (auto split: if_splits)
  have old: "k < ?n" if "k \<in> set (below s C 0)" for k
    using that tr(2) below_set [OF tr(1)] linkedD(5) [OF tr(1)]
    by (induction "?n - k" rule: less_induct) (metis below_ancestors [OF tr(1)] ancestors_other linkedD(5) not_less tr(4) tr(1) option.distinct(1) less_le_trans neq0_conv)
  have "scope_tree t ?C"
    unfolding scope_tree_def
  proof (intro conjI allI ballI impI)
    fix k assume k: "created t \<le> k"
    then have k': "?n \<le> k" "k \<noteq> ?n" "k \<noteq> p" using t(2) p(2) by simp_all
    have "k \<noteq> last (C p)" if "C p \<noteq> []" using linkedD(5) [OF tr(1) last_in_set [OF that]] k' by simp
    then show "?C k = []" "parentOf t k = None" "nextSibling t k = None" "\<not> watching t k" "watchersCount t k = 0"
      using tr(3-7) [OF k'(1)] k' t by simp_all
  next
    fix k q assume q: "parentOf t k = Some q"
    then show "q < k" using t(3) p(2) tr(8) [of k q] by (auto split: if_splits)
    assume r: "q \<in> set (below t ?C 0)"
    show "k \<in> set (?C q)"
    proof (cases "k = ?n")
      case False
      then have kq: "parentOf s k = Some q" using q t(3) by simp
      moreover have "q \<noteq> ?n" using tr(4) [of k] tr(8) [OF kq] kq by (cases "?n \<le> k") auto
      ultimately show ?thesis using tr(9) reach [OF r] by auto
    qed (use q t(3) in simp)
  next
    fix k assume k: "k \<in> set (below t ?C 0)"
    show "watchersCount t k = sum_list (map (watch_number t) (below t ?C k))"
    proof (cases "k = ?n")
      case True
      then show ?thesis using num tr(7) [of ?n] t(10) tr(3) [of ?n] p(2) by (simp add: preorder_linked [OF l', of _ ?n])
    next
      case False
      then show ?thesis using b [OF old] reach [OF k] tr(10) num t(10) by simp
    qed
  next
    show "names_apart t" by (rule names_apart_same [OF _ _ _ tr(11)]) (simp_all add: t(8,9,11))
  qed (use l' t(2) in simp_all)
  then show ?thesis using scope_tree_same [OF t(1)] by blast
qed

section \<open>Destroyed scopes\<close>

text \<open>The pointers of a child, read off the list in which it is.\<close>

definition first_of :: "'a list \<Rightarrow> 'a option" where
  "first_of xs = (case xs of [] \<Rightarrow> None | x # ys \<Rightarrow> Some x)"

definition last_of :: "'a list \<Rightarrow> 'a option" where
  "last_of xs = (if xs = [] then None else Some (last xs))"

lemma first_last_simps [simp]: "first_of [] = None" "first_of (x # xs) = Some x" "last_of [] = None" "last_of (xs @ [x]) = Some x"
    "first_of (x # xs @ ys) = Some x" "last_of (x # xs) = Some (last (x # xs))"
  by (simp_all add: first_of_def last_of_def)

lemma linked_siblings:
  assumes "linked s C" and "C k = xs @ c # ys"
  shows "nextSibling s c = first_of ys" "prevSibling s c = last_of xs"
proof -
  have "C k ! length xs = c" "length xs < length (C k)" using assms(2) by simp_all
  then show "nextSibling s c = first_of ys" "prevSibling s c = last_of xs"
    using linkedD(7,8) [OF assms(1), of "length xs" k] assms(2)
    by (auto simp: first_of_def last_of_def nth_append last_conv_nth split: list.splits)
qed

lemma linked_by_lists:
  assumes "\<And>k. childHead s k = first_of (C k)" "\<And>k. childTail s k = last_of (C k)"
    "\<And>k. distinct (C k)" "\<And>k c. c \<in> set (C k) \<Longrightarrow> k < c \<and> c < created s \<and> parentOf s c = Some k"
    "\<And>k xs c ys. C k = xs @ c # ys \<Longrightarrow> nextSibling s c = first_of ys \<and> prevSibling s c = last_of xs"
  shows "linked s C"
proof (rule linked_pointersI)
  fix k i assume i: "i < length (C k)"
  have split: "C k = take i (C k) @ C k ! i # drop (Suc i) (C k)" by (rule id_take_nth_drop [OF i])
  show "parentOf s (C k ! i) = Some k" using assms(4) nth_mem [OF i] by blast
  show "nextSibling s (C k ! i) = (if Suc i < length (C k) then Some (C k ! Suc i) else None)"
    using assms(5) [OF split] i by (auto simp: first_of_def Cons_nth_drop_Suc [symmetric] split: list.split)
  have "last (take i (C k)) = C k ! (i - 1)" if "i \<noteq> 0" using that i by (subst last_conv_nth) (auto simp: min_def)
  then show "prevSibling s (C k ! i) = (if i = 0 then None else Some (C k ! (i - 1)))"
    using assms(5) [OF split] i by (auto simp: last_of_def)
qed (use assms(1-4) in \<open>auto simp: first_of_def last_of_def hd_conv_nth split: list.splits\<close>)

lemma linked_heads: "linked s C \<Longrightarrow> childHead s k = first_of (C k)" "linked s C \<Longrightarrow> childTail s k = last_of (C k)"
  using linkedD(1,2) [of s C k] by (auto simp: first_of_def last_of_def split: list.splits)

lemma linked_unlink:
  assumes l: "linked s C" and k: "C p = xs @ k # ys"
  defines "t \<equiv> cleanUpScope k (unlink k s)"
  shows "linked t (C(p := xs @ ys, k := []))"
proof -
  note sib = linked_siblings [OF l]
  note kp = linkedD(3) [OF l, of p] linkedD(4-6) [OF l, of k p]
  have d: "distinct (xs @ k # ys)" and par: "parentOf s k = Some p" and "p < k" using kp k by auto
  have apart: "a \<noteq> c" if "a \<in> set (C p)" "c \<in> set (C q)" "q \<noteq> p" for a c q
    using linkedD(6) [OF l that(1)] linkedD(6) [OF l that(2)] that(3) by auto
  have nxt: "nextSibling t c = (if c = k then None else if last_of xs = Some c then first_of ys else nextSibling s c)" for c
    using sib [OF k] by (auto simp: t_def cleanUpScope_def unlink_def Let_def split: option.split)
  have prv: "prevSibling t c = (if c = k then None else if first_of ys = Some c then last_of xs else prevSibling s c)" for c
    using sib [OF k] by (auto simp: t_def cleanUpScope_def unlink_def Let_def split: option.split)
  have heads: "childHead t j = (if j = k then None else if j = p \<and> childHead s p = Some k then first_of ys else childHead s j)"
      "childTail t j = (if j = k then None else if j = p \<and> childTail s p = Some k then last_of xs else childTail s j)" for j
    using sib [OF k] par by (auto simp: t_def cleanUpScope_def unlink_def Let_def)
  have fields: "created t = created s" "parentOf t = (parentOf s)(k := None)" by (simp_all add: t_def cleanUpScope_def unlink_def Let_def)
  show ?thesis
  proof (rule linked_by_lists)
    show "childHead t j = first_of ((C(p := xs @ ys, k := [])) j)" for j
      using linked_heads(1) [OF l, of j] k d heads(1) [of j] by (cases xs) auto
    show "childTail t j = last_of ((C(p := xs @ ys, k := [])) j)" for j
      using linked_heads(2) [OF l, of j] k d heads(2) [of j] by (cases ys rule: rev_cases) (auto simp: last_of_def split: if_splits)
    show "distinct ((C(p := xs @ ys, k := [])) j)" for j using linkedD(3) [OF l, of j] d by simp
    show "j < c \<and> c < created t \<and> parentOf t c = Some j" if "c \<in> set ((C(p := xs @ ys, k := [])) j)" for j c
      using that linkedD(4-6) [OF l, of c j] k d fields apart [of k c j] by (auto split: if_splits)
    show "nextSibling t c = first_of vs \<and> prevSibling t c = last_of us" if "(C(p := xs @ ys, k := [])) j = us @ c # vs" for j us c vs
    proof (cases "j = p")
      case False
      then have j: "C j = us @ c # vs" using that by (simp split: if_splits)
      have "c \<notin> set (C p)" using apart [of c c j] j False by auto
      then have c: "c \<noteq> k" "c \<notin> set xs" "c \<notin> set ys" using k by simp_all
      have "last_of xs \<noteq> Some c" using c(2) last_in_set [of xs] by (auto simp: last_of_def)
      moreover have "first_of ys \<noteq> Some c" using c(3) by (cases ys) simp_all
      ultimately have "c \<noteq> k" "last_of xs \<noteq> Some c" "first_of ys \<noteq> Some c" using c(1) by simp_all
      then show ?thesis using sib [OF j] nxt prv by simp
    next
      case True
      then have "xs @ ys = us @ c # vs" using that \<open>p < k\<close> by simp
      then consider ws where "xs = us @ c # ws" "vs = ws @ ys" | ws where "us = xs @ ws" "ys = ws @ c # vs"
        by (auto simp: append_eq_append_conv2 append_eq_Cons_conv)
      then show ?thesis
      proof cases
        case (1 ws)
        have c: "C p = us @ c # (ws @ k # ys)" using k 1 by simp
        have "first_of ys \<noteq> Some c" using d 1 by (auto simp: first_of_def split: list.splits)
        moreover have "c \<noteq> k" using d 1 by auto
        moreover have "last_of xs = Some c \<longleftrightarrow> ws = []" using d 1 by (cases ws rule: rev_cases) (auto simp: last_of_def)
        ultimately show ?thesis using sib [OF c] nxt [of c] prv [of c] 1 by (cases ws) simp_all
      next
        case (2 ws)
        have c: "C p = (xs @ k # ws) @ c # vs" using k 2 by simp
        have "last_of xs \<noteq> Some c" using d 2 by (auto simp: last_of_def split: if_splits)
        moreover have "c \<noteq> k" using d 2 by auto
        moreover have "first_of ys = Some c \<longleftrightarrow> ws = []" using d 2 by (cases ws) auto
        ultimately show ?thesis using sib [OF c] nxt [of c] prv [of c] 2 by (cases ws rule: rev_cases) (auto simp: last_of_def)
      qed
    qed
  qed
qed

text \<open>What is left below a scope when \<open>k\<close> is unlinked.\<close>

lemma below_unlink:
  assumes l: "linked s C" and l': "linked t (C(p := xs @ ys, k := []))" and k: "C p = xs @ k # ys"
    and desc: "\<And>j. k \<in> set (ancestors (parentOf s) j) \<Longrightarrow> j \<in> set (below s C k)"
  shows "j \<notin> set (below s C k) \<Longrightarrow> set (below t (C(p := xs @ ys, k := [])) j) = set (below s C j) - set (below s C k)"
proof (induction "created s - j" arbitrary: j rule: less_induct)
  case less
  let ?C = "C(p := xs @ ys, k := [])"
  have jk: "j \<noteq> k" using less.prems by auto
  have "k \<notin> set (xs @ ys)" using linkedD(3) [OF l, of p] k by simp
  moreover have "k \<notin> set (C j)" if "j \<noteq> p" using linkedD(6) [OF l, of k j] linkedD(6) [OF l, of k p] k that by auto
  ultimately have C: "set (?C j) = set (C j) - {k}" using jk k by (auto split: if_splits)
  have IH: "set (below t ?C c) = set (below s C c) - set (below s C k)" if c: "c \<in> set (C j) - {k}" for c
  proof (rule less.hyps)
    show "created s - c < created s - j" using linkedD(4,5) [OF l, of c j] c by simp
    show "c \<notin> set (below s C k)"
    proof
      assume "c \<in> set (below s C k)"
      then obtain q where "parentOf s c = Some q" "k \<in> set (ancestors (parentOf s) q)"
        using ancestors_other [OF below_ancestors [OF l, of c k]] c by blast
      then show False using desc linkedD(6) [OF l, of c j] c less.prems by simp
    qed
  qed
  have "(\<Union>c\<in>set (?C j). set (below t ?C c)) = (\<Union>c\<in>set (C j). set (below s C c)) - set (below s C k)"
    unfolding C using IH by auto
  then show ?case unfolding below_set [OF l, of j] below_set [OF l', of j] using less.prems by blast
qed

lemma sum_below: "linked s C \<Longrightarrow> sum_list (map f (below s C k)) = sum f (set (below s C k))"
  by (rule sum_list_distinct_conv_sum_set [OF below_distinct])

definition cut_off :: "nat \<Rightarrow> ('m, 'v) scopes \<Rightarrow> ('m, 'v) scopes" where
  "cut_off k s = cleanUpScope k (unlink k (incrementWatchersCount k (- watchersCount s k) s))"

lemma scope_tree_cut_off:
  assumes "scope_tree s C" and "k \<in> set (below s C 0)" and "k \<noteq> 0"
  shows "\<exists>C'. scope_tree (cut_off k s) C'"
proof -
  note tr = scope_treeD [OF assms(1)]
  note reached = reached_ancestors [OF assms(1)]
  obtain p where p: "parentOf s k = Some p" "p < k" "0 \<in> set (ancestors (parentOf s) p)"
    using ancestors_other [OF below_ancestors [OF tr(1) assms(2)]] assms(3) by blast
  have p0: "p \<in> set (below s C 0)" using p(3) reached [of 0 p] by simp
  then obtain xs ys where k: "C p = xs @ k # ys" using tr(9) [OF p(1)] split_list by fast
  let ?C = "C(p := xs @ ys, k := [])" and ?s = "incrementWatchersCount k (- watchersCount s k) s"
  let ?t = "cut_off k s"
  have "linked ?s C" using tr(1) by (simp add: linked_def incrementWatchersCount_def)
  then have l': "linked ?t ?C" unfolding cut_off_def using linked_unlink [of _ C p xs k ys, OF _ k] by blast
  have t: "created ?t = created s" "parentOf ?t = (parentOf s)(k := None)" "watching ?t = (watching s)(k := False)"
      "watchers ?t = watchers s" "nextWatch ?t = nextWatch s"
      "watchersCount ?t = (\<lambda>j. if j \<in> set (ancestors (parentOf s) k) then watchersCount s j - watchersCount s k else watchersCount s j)"
    by (simp_all add: cut_off_def cleanUpScope_def unlink_def incrementWatchersCount_def Let_def fun_eq_iff)
  have below: "set (below ?t ?C j) = set (below s C j) - set (below s C k)" if "j \<notin> set (below s C k)" for j
    using below_unlink [OF tr(1) l' k _ that] reached [OF assms(2)] by blast
  have "0 \<notin> set (below s C k)" using below_ancestors [OF tr(1), of 0 k] ancestors_le assms(3) by fastforce
  note live = below [OF this]
  have "scope_tree ?t ?C"
    unfolding scope_tree_def
  proof (intro conjI allI ballI impI)
    fix j assume "created ?t \<le> j"
    then have j: "created s \<le> j" using t(1) by simp
    have kc: "k < created s" "p < created s" using linkedD(5) [OF tr(1), of k p] k p(2) by simp_all
    have jp: "j \<noteq> p" "j \<noteq> k" using j kc by simp_all
    have "last_of xs \<noteq> Some j" using linkedD(5) [OF tr(1), of j p] j k last_in_set [of xs] by (auto simp: last_of_def)
    then show "nextSibling ?t j = None"
      using tr(5) [OF j] linked_siblings [OF tr(1) k] by (auto simp: cut_off_def cleanUpScope_def unlink_def incrementWatchersCount_def Let_def split: option.split)
    have "j \<notin> set (ancestors (parentOf s) k)" using ancestors_le [of j] j kc by fastforce
    then show "?C j = []" "parentOf ?t j = None" "\<not> watching ?t j" "watchersCount ?t j = 0"
      using tr(3,4,6,7) [OF j] jp t by simp_all
  next
    fix j q assume q: "parentOf ?t j = Some q"
    then have jq: "j \<noteq> k" "parentOf s j = Some q" using t(2) by (simp_all split: if_splits)
    then show "q < j" using tr(8) by blast
    assume "q \<in> set (below ?t ?C 0)"
    then have r: "q \<in> set (below s C 0)" "q \<noteq> k" using live by auto
    show "j \<in> set (?C q)" using tr(9) [OF jq(2) r(1)] jq(1) r(2) k by auto
  next
    fix j assume "j \<in> set (below ?t ?C 0)"
    then have j: "j \<in> set (below s C 0)" "j \<notin> set (below s C k)" using live by auto
    have num: "sum (watch_number ?t) (set (below ?t ?C j)) = sum (watch_number s) (set (below s C j) - set (below s C k))"
      unfolding below [OF j(2)] by (rule sum.cong) (auto simp: watch_number_def t)
    show "watchersCount ?t j = sum_list (map (watch_number ?t) (below ?t ?C j))"
    proof (cases "k \<in> set (below s C j)")
      case True
      then have "set (below s C k) \<subseteq> set (below s C j)" using below_trans [OF tr(1)] by blast
      then show ?thesis using True reached [OF j(1), of k] tr(10) [OF j(1)] tr(10) [OF assms(2)]
        unfolding sum_below [OF l'] num sum_below [OF tr(1)] by (simp add: t(6) sum_diff)
    next
      case False
      have "x \<notin> set (below s C k)" if "x \<in> set (below s C j)" for x
        using ancestors_chain [OF below_ancestors [OF tr(1) that], of k] below_ancestors [OF tr(1), of x k] reached [OF j(1), of k] reached [OF assms(2), of j] False j(2)
        by blast
      then have "set (below s C j) - set (below s C k) = set (below s C j)" by blast
      then show ?thesis using False reached [OF j(1), of k] tr(10) [OF j(1)]
        unfolding sum_below [OF l'] num sum_below [OF tr(1)] by (simp add: t(6))
    qed
  next
    show "names_apart ?t"
      by (rule names_apart_fewer [OF tr(11)]) (auto simp: t split: if_splits intro: exI [of _ "\<lambda>x. True"])
  qed (use l' t(1) tr(2) in simp_all)
  then show ?thesis by blast
qed

lemma scope_tree_methods: "scope_tree (s\<lparr>methodsOff := m\<rparr>) C = scope_tree s C"
proof -
  have "linked (s\<lparr>methodsOff := m\<rparr>) C = linked s C" by (simp add: linked_def)
  moreover have "names_apart (s\<lparr>methodsOff := m\<rparr>) = names_apart s" by (simp add: names_apart_def)
  moreover have "watch_number (s\<lparr>methodsOff := m\<rparr>) = watch_number s" by (simp add: fun_eq_iff watch_number_def)
  ultimately show ?thesis by (simp add: scope_tree_def)
qed

lemma scope_tree_destroy:
  assumes "scope_tree s C" and "k \<in> set (below s C 0)" and "k \<noteq> 0"
  shows "\<exists>C'. scope_tree (scope_destroy pr k s) C'"
proof (cases "disabled s k \<or> destroyed s k")
  case False
  let ?s = "snd (scope_broadcast pr k ''$destroy'' s)"
  have b: "same_shape s ?s" using same_watches_broadcast [of s pr k "''$destroy''"] by (simp add: same_watches_def)
  have "k \<in> set (below ?s C 0)" using assms(2) by (simp only: same_shapeD(1) [OF b])
  then obtain C' where C': "scope_tree (cut_off k ?s) C'" using scope_tree_cut_off [OF scope_tree_same [OF b assms(1)] _ assms(3)] by blast
  have "same_shape (cut_off k ?s\<lparr>methodsOff := (methodsOff ?s)(k := True)\<rparr>) (scope_destroy pr k s)"
    using False by (simp add: scope_destroy_def cut_off_def same_shape_def Let_def cleanUpScope_def unlink_def incrementWatchersCount_def cong: if_cong split: option.split)
  moreover have "scope_tree (cut_off k ?s\<lparr>methodsOff := (methodsOff ?s)(k := True)\<rparr>) C'"
    by (simp add: scope_tree_methods C')
  ultimately show ?thesis using scope_tree_same by blast
qed (use assms(1) in \<open>auto simp: scope_destroy_def\<close>)

section \<open>What user code can do\<close>

text \<open>The children of a scope, read off the pointers: there is no other forest that they stand for.\<close>

fun follow :: "nat \<Rightarrow> (nat \<Rightarrow> nat option) \<Rightarrow> nat option \<Rightarrow> nat list" where
  "follow (Suc n) nxt (Some k) = k # follow n nxt (nxt k)"
| "follow n nxt k = []"

definition children :: "('m, 'v) scopes \<Rightarrow> forest" where
  "children s k = follow (created s) (nextSibling s) (childHead s k)"

lemma linked_children:
  assumes "linked s C"
  shows "C = children s"
proof
  fix k
  have "follow n (nextSibling s) (first_of ys) = ys" if "C k = xs @ ys" "length ys \<le> n" for n xs ys
    using that
  proof (induction n arbitrary: xs ys)
    case (Suc n)
    show ?case
    proof (cases ys)
      case (Cons c vs)
      then show ?thesis using Suc.IH [of "xs @ [c]" vs] Suc.prems linked_siblings(1) [OF assms, of k xs c vs] by simp
    qed simp
  qed simp
  moreover have "length (C k) \<le> created s"
    using linkedD(3,5) [OF assms] card_mono [of "{..<created s}" "set (C k)"] by (auto simp: distinct_card)
  ultimately show "C k = children s k" using linked_heads(1) [OF assms, of k] by (simp add: children_def)
qed

text \<open>
  The scopes that an action names exist; a scope that is destroyed is reached by the root and is not the
  root. A watch is removed from the scope that it was registered on.
\<close>

definition reached :: "('m, 'v) scopes \<Rightarrow> nat \<Rightarrow> bool" where
  "reached s k \<longleftrightarrow> 0 \<in> set (ancestors (parentOf s) k)"

definition possible :: "('m, 'v) scopes \<Rightarrow> 'm action \<Rightarrow> bool" where
  "possible s a \<longleftrightarrow>
     (case a of
        NewScope this isolate parent \<Rightarrow> this < created s \<and> (case parent of None \<Rightarrow> True | Some p \<Rightarrow> p < created s)
      | AddWatch k g f eq \<Rightarrow> k < created s
      | RemoveWatch k w \<Rightarrow> watching s k
      | Destroy k \<Rightarrow> k \<noteq> 0 \<and> reached s k
      | _ \<Rightarrow> True)"

lemma reached_below: "scope_tree s C \<Longrightarrow> reached s k \<longleftrightarrow> k \<in> set (below s C 0)"
  unfolding reached_def by (simp add: reached_ancestors)

lemma scope_tree_perform:
  assumes "scope_tree s C" and "possible s a"
  shows "\<exists>C'. scope_tree (perform pr a s) C'"
proof -
  have calm: "calm_action a \<Longrightarrow> ?thesis" using scope_tree_calm [OF _ assms(1)] by blast
  show ?thesis
  proof (cases a)
    case (NewScope this isolate parent)
    have "this < created s" "\<And>p. parent = Some p \<Longrightarrow> p < created s"
      using assms(2) NewScope by (auto simp: possible_def)
    then show ?thesis using scope_tree_new [OF assms(1)] NewScope by simp
  next
    case (AddWatch k g f eq)
    then have "scope_tree (perform pr a s) C" using scope_tree_watch [OF assms(1), of k g f eq] assms(2) by (simp add: possible_def)
    then show ?thesis by blast
  next
    case (RemoveWatch k w)
    then have "scope_tree (perform pr a s) C" using scope_tree_deregister [OF assms(1), of k w] assms(2) by (simp add: possible_def)
    then show ?thesis by blast
  next
    case (Destroy k)
    then show ?thesis using scope_tree_destroy [OF assms(1)] assms(2) by (simp add: possible_def reached_below [OF assms(1)])
  qed (use calm in \<open>simp_all add: calm_action_def\<close>)
qed

lemma phase_perform: "current_phase (perform pr a s) = current_phase s"
proof (cases "calm_action a")
  case True
  then show ?thesis using same_watches_perform [OF True, of s pr] by (simp add: same_watches_def)
next
  case False
  have "current_phase (snd (scope_broadcast pr k name s)) = current_phase s" for k name
    using same_watches_broadcast [of s pr k name] by (simp add: same_watches_def)
  then show ?thesis using False
    by (cases a) (simp_all add: calm_action_def scope_new_def scope_on_def scope_watch_def deregisterWatch_def scope_destroy_def
        cleanUpScope_def unlink_def incrementWatchersCount_def Let_def split: option.split)
qed

text \<open>
  The states that a page reaches: by actions from outside and, where the program is calm, by its digests,
  by \<open>$apply\<close> and by the timers, in any order.
\<close>

inductive page_state :: "('m, 'v) program \<Rightarrow> ('m, 'v) scopes \<Rightarrow> bool" for pr where
  page_start: "page_state pr (initial_scopes m)"
| page_action: "page_state pr s \<Longrightarrow> possible s a \<Longrightarrow> page_state pr (perform pr a s)"
| page_digest: "page_state pr s \<Longrightarrow> calm pr \<Longrightarrow> digest pr k s = Some (s', out) \<Longrightarrow> page_state pr s'"
| page_apply: "page_state pr s \<Longrightarrow> calm pr \<Longrightarrow> scope_apply pr k f s = Some (s', out) \<Longrightarrow> page_state pr s'"
| page_timer: "page_state pr s \<Longrightarrow> calm pr \<Longrightarrow> run_timer pr s = Some (s', out) \<Longrightarrow> page_state pr s'"

lemma scope_tree_children: "scope_tree s C \<Longrightarrow> scope_tree s (children s)"
  using linked_children scope_treeD(1) by metis

lemma page_state_invariant: "page_state pr s \<Longrightarrow> scope_tree s (children s) \<and> current_phase s = None"
proof (induction rule: page_state.induct)
  case (page_start m)
  show ?case using scope_tree_children [OF scope_tree_initial] by (simp add: initial_scopes_def)
next
  case (page_action s a)
  then show ?case using scope_tree_perform [of s "children s" a pr] scope_tree_children phase_perform by metis
next
  case (page_digest s k s' out)
  then have "same_shape s s' \<and> current_phase s' = None" using digest_keeps_shape scope_treeD(1) by metis
  then show ?case using scope_tree_children scope_tree_same page_digest.IH by blast
next
  case (page_apply s k f s' out)
  then have "same_shape s s' \<and> current_phase s' = None" using scope_apply_keeps_shape scope_treeD(1) by metis
  then show ?case using scope_tree_children scope_tree_same page_apply.IH by blast
next
  case (page_timer s s' out)
  then have "same_shape s s' \<and> current_phase s' = None" using run_timer_keeps_shape scope_treeD(1) by metis
  then show ?case using scope_tree_children scope_tree_same page_timer.IH by blast
qed

lemmas page_state_tree = page_state_invariant [THEN conjunct1]
lemmas page_state_phase = page_state_invariant [THEN conjunct2]

lemma page_state_watch_tree: "page_state pr s \<Longrightarrow> reached s k \<Longrightarrow> watch_tree s (children s) k"
  using page_state_tree reached_below scope_tree_watch_tree by blast

end
