(* ===== verification/AngularDigestFacts.thy ===== *)
theory AngularDigestFacts imports Main Prelude AngularScope AngularTree AngularDigest AngularSettle AngularForest begin

text \<open>
  The properties of the scopes and the digest of angular.js over the states that a page reaches, and a page with two
  scopes on which they are applied: the watch of the root scope counts the model up to two, the one of its child
  looks on.
\<close>

declare traverse.simps [code] run_async.simps [code] flushApplyAsync.simps [code] run_postDigest.simps [code]

section \<open>A sample page\<close>

definition sample_program :: "(nat, nat) program" where
  "sample_program = \<lparr>getter = (\<lambda>g k m. Inr (if g = 0 then m else 2 * m)),
     reaction = (\<lambda>f v old k m. (if v < 2 then [SetModel Suc] else [], None)),
     task = (\<lambda>f k m. ([SetModel (\<lambda>m. 0)], None)), hook = (\<lambda>f m. ([], None)),
     on_event = (\<lambda>f name k m. (m + f, (False, False), None)), same = (=), nan = (\<lambda>v. False), equal_values = (=), copied = (\<lambda>v. v)\<rparr>"

definition sample_page :: "(nat, nat) scopes" where
  "sample_page = fold (perform sample_program) [NewScope 0 False None, AddWatch 0 0 (Some 0) False, AddWatch 1 1 None False, AddListener 1 ''ping'' 5]
     (initial_scopes 0)"

lemma sample_program_calm: "calm sample_program" "never_throws sample_program" "settling sample_program"
  by (simp_all add: calm_def never_throws_def settling_def sample_program_def calm_action_def schedules_nothing_def)

fun all_possible :: "('m, 'v) program \<Rightarrow> 'm action list \<Rightarrow> ('m, 'v) scopes \<Rightarrow> bool" where
  "all_possible pr [] s = True"
| "all_possible pr (a # as) s = (possible s a \<and> all_possible pr as (perform pr a s))"

lemma page_state_actions: "page_state pr s \<Longrightarrow> all_possible pr as s \<Longrightarrow> page_state pr (fold (perform pr) as s)"
  by (induction as arbitrary: s) (simp_all add: page_action)

lemma sample_page_state: "page_state sample_program sample_page"
  unfolding sample_page_def by (rule page_state_actions [OF page_start]) code_simp

text \<open>After its first digest the page changes its model: old values and the last dirty watch are those of that digest.\<close>

definition sample_again :: "(nat, nat) scopes" where
  "sample_again = perform sample_program (SetModel (\<lambda>m. 1)) (fst (the (digest sample_program 0 sample_page)))"

lemma sample_again_state: "page_state sample_program sample_again"
proof -
  have "digest sample_program 0 sample_page \<noteq> None" by code_simp
  then obtain s out where d: "digest sample_program 0 sample_page = Some (s, out)" by auto
  have "page_state sample_program (perform sample_program (SetModel (\<lambda>m. 1)) s)"
    by (rule page_action [OF page_digest [OF sample_page_state sample_program_calm(1) d]]) (simp add: possible_def)
  then show ?thesis unfolding sample_again_def d by simp
qed

lemma sample_again_old: "lastDirtyWatch sample_again = Some 0" "map w_last (watchers sample_again 0) = [Some 2]"
  by code_simp+

lemma sample_again_reached: "reached sample_again 0"
  by code_simp

lemma sample_reached: "reached sample_page 0"
  by code_simp

lemma sample_runs:
  "map_option (\<lambda>r. (page (fst r), current_phase (fst r), snd r)) (digest sample_program 0 sample_page) = Some (2, None, Finished)"
  "map_option (\<lambda>r. (page (fst r), current_phase (fst r), snd r)) (digest sample_program 0 sample_again) = Some (2, None, Finished)"
  by code_simp+

section \<open>The counters\<close>

text \<open>
  Claim C17: On a page that has created and destroyed scopes and registered and removed watches in any order, every
  scope that the root reaches counts exactly the watches registered at and below it, no scope occurs twice
  below it, and each of these scopes names its parent.
\<close>

theorem counters_count_watches:
  assumes "page_state pr s" and "reached s k"
  shows "watchersCount s k = (\<Sum>j\<leftarrow>below s (children s) k. watch_number s j) \<and> distinct (below s (children s) k)
    \<and> list_all (\<lambda>j. list_all (\<lambda>c. parentOf s c = Some j) (children s j)) (below s (children s) k)"
proof -
  note t = page_state_tree [OF assms(1)]
  have "k \<in> set (below s (children s) 0)" using assms(2) reached_below [OF t] by simp
  then show ?thesis
    using scope_treeD(10) [OF t] below_distinct [OF scope_treeD(1) [OF t]] linkedD(6) [OF scope_treeD(1) [OF t]] by (simp add: list_all_iff)
qed

theorem counters_count_watches_witness:
  "watchersCount sample_page 0 = (\<Sum>j\<leftarrow>below sample_page (children sample_page) 0. watch_number sample_page j)
    \<and> distinct (below sample_page (children sample_page) 0)
    \<and> list_all (\<lambda>j. list_all (\<lambda>c. parentOf sample_page c = Some j) (children sample_page j)) (below sample_page (children sample_page) 0)"
  by (rule counters_count_watches [OF sample_page_state sample_reached])

section \<open>Broadcast\<close>

lemma visits_walk: "visits s down target k ks \<Longrightarrow> length ks \<le> n \<Longrightarrow> walk n down target k s = ks"
proof (induction arbitrary: n rule: visits.induct)
  case (visits_stop k)
  then show ?case by (cases n) simp_all
next
  case (visits_next k m xs)
  then show ?case by (cases n) simp_all
qed

lemma preorder_filtered: "linked s C \<Longrightarrow> set (preorder (created s) C down k) \<subseteq> set (below s C k) \<and> length (preorder (created s) C down k) \<le> length (below s C k)"
proof (induction "created s - k" arbitrary: k rule: less_induct)
  case less
  note l = less.prems
  have IH: "set (preorder (created s) C down c) \<subseteq> set (below s C c) \<and> length (preorder (created s) C down c) \<le> length (below s C c)" if "c \<in> set (C k)" for c
    using less.hyps [of c] linkedD(4,5) [OF l that] l by simp
  have "sum_list (map (length \<circ> preorder (created s) C down) (C k)) \<le> sum_list (map (length \<circ> below s C) (C k))"
    by (rule sum_list_mono) (use IH in simp)
  then show ?case using IH by (auto simp: preorder_linked [OF l, of _ k] length_concat o_def)
qed

text \<open>
  Claim C18: A broadcast from a scope that the root reaches notifies the scopes at and below it in preorder, without those
  under a scope whose count of listeners for the event is zero; where its own count is zero it does nothing.
\<close>

theorem broadcast_in_preorder:
  assumes "page_state pr s" and "reached s k"
  shows "scope_broadcast pr k name s =
    (if listenerCount s k name = 0 then (False, s)
     else snd (fold (notify_scope pr name) (preorder (created s) (children s) (\<lambda>j. listenerCount s j name \<noteq> 0) k) (False, False, s)))"
proof -
  note t = page_state_tree [OF assms(1)]
  note l = scope_treeD(1) [OF t]
  let ?ks = "preorder (created s) (children s) (\<lambda>j. listenerCount s j name \<noteq> 0) k"
  have "set (below s (children s) k) \<subseteq> {..<created s}"
  proof -
    have "j < created s" if "j \<in> set (below s (children s) 0)" for j
    proof (rule ccontr)
      assume "\<not> j < created s"
      then have "j \<noteq> 0" "parentOf s j = None" using scope_treeD(2,4) [OF t] by simp_all
      then show False using ancestors_other [OF below_ancestors [OF l that]] by auto
    qed
    then show ?thesis using assms(2) reached_below [OF t] below_trans [OF l] by blast
  qed
  then have "card (set (below s (children s) k)) \<le> card {..<created s}" by (rule card_mono [OF finite_lessThan])
  then have "length (below s (children s) k) \<le> created s" by (simp add: distinct_card [OF below_distinct [OF l]])
  then have "walk (created s) (\<lambda>j. listenerCount s j name \<noteq> 0) k k s = ?ks"
    using visits_walk [OF visits_all [OF l]] preorder_filtered [OF l] order_trans by blast
  then show ?thesis by (simp add: scope_broadcast_def)
qed

theorem broadcast_in_preorder_witness:
  "scope_broadcast sample_program 0 ''ping'' sample_page =
    (if listenerCount sample_page 0 ''ping'' = 0 then (False, sample_page)
     else snd (fold (notify_scope sample_program ''ping'')
       (preorder (created sample_page) (children sample_page) (\<lambda>j. listenerCount sample_page j ''ping'' \<noteq> 0) 0) (False, False, sample_page)))
    \<and> page (snd (scope_broadcast sample_program 0 ''ping'' sample_page)) = 5"
proof
  show "page (snd (scope_broadcast sample_program 0 ''ping'' sample_page)) = 5" by code_simp
qed (rule broadcast_in_preorder [OF sample_page_state sample_reached])

section \<open>The digest\<close>

text \<open>
  Claim C14: Take a program whose watch listeners, queued expressions and functions for after the digest do not create or destroy
  scopes and do not add or remove watches, and any state that its page reaches, earlier digests included. When a
  digest at a scope that the root reaches ends normally, there was a state, before the functions for after the digest
  ran, in which every watch at and below this scope was clean - its expression throws, or its value is not dirty
  against the value remembered - and no expression was left in the queue, although the last rounds did not look
  at all watches.
\<close>

theorem digest_leaves_clean:
  assumes "page_state pr s" and "reached s k" and "calm pr" and "digest pr k s = Some (s', Finished)"
  shows "\<exists>s2. list_all (clean pr s2) (slots s2 (below s2 (children s) k)) \<and> asyncQueue s2 = [] \<and> current_phase s2 = None
    \<and> run_postDigest pr s2 = Some s'"
  by (rule digest_ends_clean [OF assms(3) page_state_watch_tree [OF assms(1,2)] assms(4)])

theorem digest_leaves_clean_witness:
  "\<exists>s2 s'. list_all (clean sample_program s2) (slots s2 (below s2 (children sample_again) 0)) \<and> asyncQueue s2 = [] \<and> current_phase s2 = None
    \<and> run_postDigest sample_program s2 = Some s' \<and> page s' = 2"
proof -
  obtain s' where "digest sample_program 0 sample_again = Some (s', Finished)" "page s' = 2"
    using sample_runs(2) by (auto simp: map_option_eq_Some)
  then show ?thesis using digest_leaves_clean [OF sample_again_state sample_again_reached sample_program_calm(1)] by blast
qed

text \<open>
  Claim C15: Take a program whose watch listeners, queued expressions and functions for after the digest do not create or destroy
  scopes and do not add or remove watches, and whose watch expressions never throw. In any state that its page
  reaches, earlier digests included, a digest at a scope that the root reaches does exactly what the digest does that looks in every
  round at every watch at and below this scope: cutting a round short at the watch that was dirty last and leaving
  out scopes without watches are not visible.
\<close>

theorem digest_equals_reference:
  assumes "page_state pr s" and "reached s k" and "calm pr" and "never_throws pr"
  shows "digest pr k s = reference_digest pr (children s) k s"
  by (rule digest_is_reference [OF assms(3,4) page_state_watch_tree [OF assms(1,2)]])

theorem digest_equals_reference_witness:
  "digest sample_program 0 sample_again = reference_digest sample_program (children sample_again) 0 sample_again"
  by (rule digest_equals_reference [OF sample_again_state sample_again_reached sample_program_calm(1,2)])

text \<open>
  Claim C16: Take a program whose watch listeners, queued expressions and functions for after the digest do not create or destroy
  scopes and do not add or remove watches, and whose queued expressions and functions for after the digest schedule
  nothing further. In any state that its page reaches, earlier digests included, a digest of any scope comes back: it ends
  normally, gives up with \<open>infdig\<close> after the limit of rounds, or does nothing as the scope is destroyed; it
  never crashes, and no phase is left set, so the next digest can start.
\<close>

theorem digest_comes_back:
  assumes "page_state pr s" and "calm pr" and "settling pr"
  shows "\<exists>s' out. digest pr k s = Some (s', out) \<and> (if disabled s k then out = Skipped else out \<in> {Finished, Infdig}) \<and> current_phase s' = None"
  by (rule digest_returns [OF assms(2,3) scope_treeD(1) [OF page_state_tree [OF assms(1)]] page_state_phase [OF assms(1)]])

theorem digest_comes_back_witness:
  "\<exists>s' out. digest sample_program 0 sample_again = Some (s', out)
    \<and> (if disabled sample_again 0 then out = Skipped else out \<in> {Finished, Infdig}) \<and> current_phase s' = None"
  by (rule digest_comes_back [OF sample_again_state sample_program_calm(1,3)])

section \<open>A scope that its own watch destroys\<close>

text \<open>
  The traversal that stands at a scope while it is destroyed finds neither sibling nor parent: it reads a
  property of \<open>null\<close>, and \<open>$digest\<close> throws.
\<close>

theorem destroyed_scope_crashes:
  assumes "k \<noteq> target" and "\<not> disabled s k" and "\<not> destroyed s k"
  shows "next_scope down target k (scope_destroy pr k s) = Crash"
  using assms by (simp add: scope_destroy_def Let_def cleanUpScope_def next_scope_def climb.simps)

definition self_destroying :: "(nat, nat) program" where
  "self_destroying = sample_program\<lparr>reaction := (\<lambda>f v old k m. ([Destroy k], None))\<rparr>"

definition page_of_self_destroying :: "(nat, nat) scopes" where
  "page_of_self_destroying = fold (perform self_destroying) [NewScope 0 False None, AddWatch 1 1 (Some 0) False] (initial_scopes 0)"

text \<open>The phase stays set: from then on every \<open>$apply\<close> fails.\<close>

theorem crash_blocks_later_digests:
  "map_option (\<lambda>r. (current_phase (fst r), snd r)) (digest self_destroying 0 page_of_self_destroying) = Some (Some Digesting, Crashed)
    \<and> map_option (\<lambda>r. map_option snd (root_apply self_destroying (fst r))) (digest self_destroying 0 page_of_self_destroying) = Some (Some InProgress)"
  by code_simp

end
