(* ===== verification/Dynamic.thy ===== *)
theory Dynamic imports Main Prelude JsValue begin

text \<open>
  Values of JavaScript with functions in them, as the dialog library handles them, and the routines
  of jquery.js (\<open>type\<close>, \<open>isPlainObject\<close>, \<open>each\<close>, \<open>extend\<close>) that it merges its options with. An object
  is the list of its own properties in enumeration order; a \<open>Node\<close> is a jQuery object, of which only
  the markup it was made from matters. A function is one of the caller's, named by a number, or one
  of the closures that the dialog library makes.
\<close>

section \<open>Values\<close>

datatype dyn =
    Undef
  | Null
  | Bool bool
  | Num int
  | Str string
  | Fun closure
  | Arr "dyn list"
  | Obj "(string \<times> dyn) list"
  | Node string
and closure =
    User nat
  | Alert_close dyn
  | Call_with dyn dyn
  | Prompt_value dyn

datatype failure = Error string | TypeError

fun dyn_truthy :: "dyn \<Rightarrow> bool" where
  "dyn_truthy Undef = False"
| "dyn_truthy Null = False"
| "dyn_truthy (Bool b) = b"
| "dyn_truthy (Num n) = (n \<noteq> 0)"
| "dyn_truthy (Str s) = (s \<noteq> [])"
| "dyn_truthy v = True"

fun dyn_String :: "dyn \<Rightarrow> string" where
  "dyn_String Undef = ''undefined''"
| "dyn_String Null = ''null''"
| "dyn_String (Bool b) = (if b then ''true'' else ''false'')"
| "dyn_String (Num n) = show_int n"
| "dyn_String (Str s) = s"
| "dyn_String (Fun f) = ''function''"
| "dyn_String (Arr xs) = join_with '','' (map (\<lambda>x. if x = Undef \<or> x = Null then [] else dyn_String x) xs)"
| "dyn_String v = ''[object Object]''"

fun jq_type :: "dyn \<Rightarrow> string" where
  "jq_type Undef = ''undefined''"
| "jq_type Null = ''null''"
| "jq_type (Bool b) = ''boolean''"
| "jq_type (Num n) = ''number''"
| "jq_type (Str s) = ''string''"
| "jq_type (Fun f) = ''function''"
| "jq_type (Arr xs) = ''array''"
| "jq_type v = ''object''"

definition isFunction :: "dyn \<Rightarrow> bool" where
  "isFunction v \<longleftrightarrow> jq_type v = ''function''"

definition isArray :: "dyn \<Rightarrow> bool" where
  "isArray v \<longleftrightarrow> (case v of Arr xs \<Rightarrow> True | _ \<Rightarrow> False)"

text \<open>A jQuery object has a constructor of its own, so only literal objects are plain.\<close>

definition isPlainObject :: "dyn \<Rightarrow> bool" where
  "isPlainObject v \<longleftrightarrow> (case v of Obj kvs \<Rightarrow> True | _ \<Rightarrow> False)"

text \<open>\<open>typeof v === "object"\<close>.\<close>

fun typeof_object :: "dyn \<Rightarrow> bool" where
  "typeof_object Null = True"
| "typeof_object (Arr xs) = True"
| "typeof_object (Obj kvs) = True"
| "typeof_object (Node s) = True"
| "typeof_object v = False"

section \<open>Properties\<close>

definition lookup :: "(string \<times> dyn) list \<Rightarrow> string \<Rightarrow> dyn" where
  "lookup kvs k = (case map_of kvs k of None \<Rightarrow> Undef | Some v \<Rightarrow> v)"

fun assoc_put :: "string \<Rightarrow> 'a \<Rightarrow> (string \<times> 'a) list \<Rightarrow> (string \<times> 'a) list" where
  "assoc_put k v [] = [(k, v)]"
| "assoc_put k v ((k', v') # kvs) = (if k' = k then (k, v) # kvs else (k', v') # assoc_put k v kvs)"

text \<open>The properties that \<open>for ... in\<close> enumerates.\<close>

fun own_items :: "dyn \<Rightarrow> (string \<times> dyn) list" where
  "own_items (Obj kvs) = kvs"
| "own_items (Arr xs) = zip (map show_nat [0..<length xs]) xs"
| "own_items (Str s) = zip (map show_nat [0..<length s]) (map (\<lambda>c. Str [c]) s)"
| "own_items v = []"

text \<open>\<open>v[k]\<close>; reading a property of \<open>undefined\<close> or \<open>null\<close> throws.\<close>

definition get_prop :: "dyn \<Rightarrow> string \<Rightarrow> failure + dyn" where
  "get_prop v k =
     (case v of
        Undef \<Rightarrow> Inl TypeError
      | Null \<Rightarrow> Inl TypeError
      | Arr xs \<Rightarrow> Inr (if k = ''length'' then Num (int (length xs)) else lookup (own_items v) k)
      | Str s \<Rightarrow> Inr (if k = ''length'' then Num (int (length s)) else lookup (own_items v) k)
      | _ \<Rightarrow> Inr (lookup (own_items v) k))"

text \<open>
  \<open>v[k] = w\<close> in strict mode for a name \<open>k\<close> that is no index: only objects take properties. What is
  stored in a function, an array or a jQuery object is not read again.
\<close>

fun put_prop :: "string \<Rightarrow> dyn \<Rightarrow> dyn \<Rightarrow> failure + dyn" where
  "put_prop k w (Obj kvs) = Inr (Obj (assoc_put k w kvs))"
| "put_prop k w (Fun f) = Inr (Fun f)"
| "put_prop k w (Arr xs) = Inr (Arr xs)"
| "put_prop k w (Node s) = Inr (Node s)"
| "put_prop k w v = Inl TypeError"

lemma map_of_assoc_put [simp]: "map_of (assoc_put k v kvs) = (map_of kvs)(k \<mapsto> v)"
  by (induction kvs) auto

lemma lookup_assoc_put [simp]: "lookup (assoc_put k v kvs) k' = (if k' = k then v else lookup kvs k')"
  by (simp add: lookup_def)

lemma keys_assoc_put: "map fst (assoc_put k v kvs) = (if k \<in> set (map fst kvs) then map fst kvs else map fst kvs @ [k])"
  by (induction k v kvs rule: assoc_put.induct) simp_all

lemma lookup_Nil [simp]: "lookup [] k = Undef"
  by (simp add: lookup_def)

lemma lookup_Cons [simp]: "lookup ((k, v) # kvs) k' = (if k' = k then v else lookup kvs k')"
  by (simp add: lookup_def)

section \<open>\<open>jQuery.each\<close>\<close>

text \<open>
  The keys and values that \<open>each\<close> visits. Anything that has a fitting length is visited by index:
  an object with a property \<open>length\<close> of 0 not at all. Primitive values have no \<open>in\<close>.
\<close>

definition isArraylike :: "dyn \<Rightarrow> failure + bool" where
  "isArraylike v =
     (case v of
        Arr xs \<Rightarrow> Inr True
      | Obj kvs \<Rightarrow> Inr (case lookup kvs ''length'' of
                        Num n \<Rightarrow> n = 0 \<or> n > 0 \<and> map_of kvs (show_int (n - 1)) \<noteq> None | _ \<Rightarrow> False)
      | Fun f \<Rightarrow> Inr False
      | Node s \<Rightarrow> Inr True
      | _ \<Rightarrow> Inl TypeError)"

definition each_items :: "dyn \<Rightarrow> failure + (dyn \<times> dyn) list" where
  "each_items v =
     bindE (isArraylike v) (\<lambda>arraylike. Inr
       (if arraylike then
          (case v of
             Arr xs \<Rightarrow> zip (map (\<lambda>i. Num (int i)) [0..<length xs]) xs
           | Obj kvs \<Rightarrow> (case lookup kvs ''length'' of
                            Num n \<Rightarrow> map (\<lambda>i. (Num (int i), lookup kvs (show_nat i))) [0..<nat n] | _ \<Rightarrow> [])
           | _ \<Rightarrow> [])
        else map (\<lambda>(k, x). (Str k, x)) (own_items v)))"

section \<open>\<open>jQuery.extend\<close>\<close>

text \<open>
  \<open>merge x y\<close> is the property that a deep copy leaves when the target has \<open>x\<close> and the source \<open>y\<close>:
  plain objects and arrays are merged into those of the target or into fresh ones, \<open>undefined\<close>
  changes nothing, anything else replaces. A trailing \<open>undefined\<close> does not extend an array.
\<close>

function merge :: "dyn \<Rightarrow> dyn \<Rightarrow> dyn"
  and merge_props :: "(string \<times> dyn) list \<Rightarrow> (string \<times> dyn) list \<Rightarrow> (string \<times> dyn) list"
  and merge_list :: "dyn list \<Rightarrow> dyn list \<Rightarrow> dyn list" where
  "merge x y =
     (case y of
        Undef \<Rightarrow> x
      | Obj kvs \<Rightarrow> Obj (merge_props (case x of Obj o1 \<Rightarrow> o1 | _ \<Rightarrow> []) kvs)
      | Arr ys \<Rightarrow> Arr (merge_list (case x of Arr xs \<Rightarrow> xs | _ \<Rightarrow> []) ys)
      | _ \<Rightarrow> y)"
| "merge_props t [] = t"
| "merge_props t ((k, y) # kvs) =
     merge_props (if y = Undef then t else assoc_put k (merge (lookup t k) y) t) kvs"
| "merge_list xs [] = xs"
| "merge_list [] (y # ys) = (if \<forall>z\<in>set (y # ys). z = Undef then [] else merge Undef y # merge_list [] ys)"
| "merge_list (x # xs) (y # ys) = merge x y # merge_list xs ys"
  by pat_completeness auto

termination
  by (relation "measure (\<lambda>a. case a of Inl (x, y) \<Rightarrow> size y | Inr (Inl (t, kvs)) \<Rightarrow> size_list (size_prod (\<lambda>k. 0) size) kvs
        | Inr (Inr (xs, ys)) \<Rightarrow> size_list size ys)") auto

definition extend_deep :: "dyn list \<Rightarrow> (string \<times> dyn) list" where
  "extend_deep sources = fold (\<lambda>s t. merge_props t (own_items s)) sources []"

text \<open>Without the flag the properties are copied as they are.\<close>

definition assign_props :: "(string \<times> dyn) list \<Rightarrow> (string \<times> dyn) list \<Rightarrow> (string \<times> dyn) list" where
  "assign_props t kvs = fold (\<lambda>(k, v) u. if v = Undef then u else assoc_put k v u) kvs t"

definition extend_shallow :: "(string \<times> dyn) list \<Rightarrow> dyn list \<Rightarrow> (string \<times> dyn) list" where
  "extend_shallow target sources = fold (\<lambda>s t. assign_props t (own_items s)) sources target"

lemma lookup_assign_other: "k \<notin> fst ` set kvs \<Longrightarrow> lookup (assign_props t kvs) k = lookup t k"
  unfolding assign_props_def by (induction kvs arbitrary: t) auto

lemma lookup_notin: "k \<notin> fst ` set kvs \<Longrightarrow> lookup kvs k = Undef"
  using map_of_eq_None_iff [of kvs k] by (simp add: lookup_def)

lemma lookup_assign_props:
  "distinct (map fst kvs) \<Longrightarrow> lookup (assign_props t kvs) k = (if lookup kvs k = Undef then lookup t k else lookup kvs k)"
proof (induction kvs arbitrary: t)
  case Nil
  then show ?case by (simp add: assign_props_def)
next
  case (Cons kv kvs)
  obtain k' v where kv: "kv = (k', v)" by force
  have "assign_props t (kv # kvs) = assign_props (if v = Undef then t else assoc_put k' v t) kvs"
    by (simp add: assign_props_def kv)
  moreover have "lookup kvs k' = Undef" using Cons.prems lookup_notin by (auto simp: kv)
  ultimately show ?case using Cons by (simp add: kv)
qed

end
