(* ===== verification/AngularFilters.thy ===== *)
theory AngularFilters imports Complex_Main Prelude JsValue Dynamic MomentLocale Decimal JsSort begin

text \<open>
  The filters of angular.js that the tables of user data go through: \<open>filter\<close> with its deep comparison,
  \<open>limitTo\<close> and \<open>orderBy\<close>, and \<open>equals\<close>. The elements of a list may be of any type; \<open>filter\<close> sees them as
  values (\<open>dyn\<close>) and \<open>orderBy\<close> through the parsed expressions, which are a parameter. Values carry no
  \<open>toString\<close> or \<open>valueOf\<close> of their own, and jQuery objects are not among them.
\<close>

section \<open>Comparing values\<close>

definition isObject :: "dyn \<Rightarrow> bool" where
  "isObject v \<longleftrightarrow> v \<noteq> Null \<and> typeof_object v"

fun js_typeof :: "dyn \<Rightarrow> string" where
  "js_typeof Undef = ''undefined''"
| "js_typeof (Bool b) = ''boolean''"
| "js_typeof (Num n) = ''number''"
| "js_typeof (Str s) = ''string''"
| "js_typeof (Fun f) = ''function''"
| "js_typeof v = ''object''"

definition getTypeForFilter :: "dyn \<Rightarrow> string" where
  "getTypeForFilter v = (if v = Null then ''null'' else js_typeof v)"

definition dollar :: "string \<Rightarrow> bool" where
  "dollar key \<longleftrightarrow> key \<noteq> [] \<and> hd key = CHR ''$''"

lemma size_own_items: "(k, v) \<in> set (own_items w) \<Longrightarrow> (\<exists>kvs. w = Obj kvs) \<or> (\<exists>xs. w = Arr xs) \<Longrightarrow> size v < size w"
proof -
  assume m: "(k, v) \<in> set (own_items w)" and "(\<exists>kvs. w = Obj kvs) \<or> (\<exists>xs. w = Arr xs)"
  then consider kvs where "w = Obj kvs" | xs where "w = Arr xs" by blast
  then show ?thesis
  proof cases
    case (1 kvs)
    then have "(k, v) \<in> set kvs" using m by simp
    then have "size v < size_list (size_prod (\<lambda>_. 0) size) kvs"
      using size_list_estimation [of "(k, v)" kvs "size v" "size_prod (\<lambda>_. 0) size"] by simp
    then show ?thesis using 1 by simp
  next
    case (2 xs)
    then have "v \<in> set xs" using m set_zip_rightD by fastforce
    then show ?thesis using 2 size_list_estimation' [of v xs "size v" size] by simp
  qed
qed

lemma size_item: "x \<in> set xs \<Longrightarrow> size x < size (Arr xs)"
  using size_list_estimation' [of x xs "size x" size] by simp

lemma size_property: "(k, v) \<in> set kvs \<Longrightarrow> size v < size (Obj kvs)"
  using size_own_items [of k v "Obj kvs"] by simp

text \<open>\<open>equals\<close>; functions are equal if they are the same.\<close>

function equals :: "dyn \<Rightarrow> dyn \<Rightarrow> bool" where
  "equals (Arr xs) o2 =
     (case o2 of
        Arr ys \<Rightarrow> length xs = length ys \<and> list_all (\<lambda>i. equals (xs ! i) (ys ! i)) [0..<length xs]
      | _ \<Rightarrow> False)"
| "equals (Obj kvs) o2 =
     (case o2 of
        Obj ms \<Rightarrow>
          list_all (\<lambda>(k, v). dollar k \<or> isFunction v \<or> equals v (lookup ms k)) kvs
          \<and> list_all (\<lambda>(k, w). (\<exists>(j, v)\<in>set kvs. j = k \<and> \<not> dollar j \<and> \<not> isFunction v) \<or> dollar k \<or> w = Undef \<or> isFunction w) ms
      | _ \<Rightarrow> False)"
| "equals Undef o2 = (o2 = Undef)"
| "equals Null o2 = (o2 = Null)"
| "equals (Bool b) o2 = (o2 = Bool b)"
| "equals (Num n) o2 = (o2 = Num n)"
| "equals (Str s) o2 = (o2 = Str s)"
| "equals (Fun f) o2 = (o2 = Fun f)"
| "equals (Node m) o2 = (o2 = Node m)"
  by pat_completeness auto
termination
proof (relation "measure (\<lambda>(o1, o2). size o1)", simp, goal_cases)
  case (1 xs o2 ys i)
  then have "xs ! i \<in> set xs" by simp
  then show ?case using size_list_estimation' [of "xs ! i" xs "size (xs ! i)" size] by simp
next
  case (2 kvs o2 ms z k v)
  then show ?case using size_own_items [of k v "Obj kvs"] by simp
qed

datatype comparator = Strict | Compare "dyn \<Rightarrow> dyn \<Rightarrow> bool" | Default

text \<open>\<open>a.indexOf(b) !== -1\<close>\<close>

fun contains :: "string \<Rightarrow> string \<Rightarrow> bool" where
  "contains b [] = (b = [])"
| "contains b (c # cs) = (take (length b) (c # cs) = b \<or> contains b cs)"

definition default_comparator :: "dyn \<Rightarrow> dyn \<Rightarrow> bool" where
  "default_comparator actual expected =
     (if actual = Undef then False
      else if actual = Null \<or> expected = Null then actual = expected
      else if isObject expected \<or> isObject actual then False
      else contains (toLowerCase (dyn_String expected)) (toLowerCase (dyn_String actual)))"

definition comparator_function :: "comparator \<Rightarrow> dyn \<Rightarrow> dyn \<Rightarrow> bool" where
  "comparator_function c = (case c of Strict \<Rightarrow> equals | Compare f \<Rightarrow> f | Default \<Rightarrow> default_comparator)"

text \<open>A text that starts with an exclamation mark asks for the opposite.\<close>

definition negated :: "dyn \<Rightarrow> string option" where
  "negated expected = (case expected of Str (c # s) \<Rightarrow> if c = CHR ''!'' then Some s else None | _ \<Rightarrow> None)"

definition text_size :: "dyn \<Rightarrow> nat" where
  "text_size v = (case v of Str s \<Rightarrow> length s | _ \<Rightarrow> 0)"

lemma negated_size: "negated expected = Some s \<Longrightarrow> size (Str s) = size expected \<and> text_size (Str s) < text_size expected"
  by (cases expected) (auto simp: negated_def text_size_def split: list.splits if_splits)

function deepCompare :: "(dyn \<Rightarrow> dyn \<Rightarrow> bool) \<Rightarrow> dyn \<Rightarrow> dyn \<Rightarrow> bool \<Rightarrow> bool \<Rightarrow> bool" where
  "deepCompare cmp actual expected matchAgainstAnyProp dontMatchWholeObject =
     (case negated expected of
        Some s \<Rightarrow> \<not> deepCompare cmp actual (Str s) matchAgainstAnyProp False
      | None \<Rightarrow>
          (case actual of
             Arr xs \<Rightarrow> list_ex (\<lambda>item. deepCompare cmp item expected matchAgainstAnyProp False) xs
           | Obj kvs \<Rightarrow>
               (if matchAgainstAnyProp then
                  list_ex (\<lambda>(key, v). \<not> dollar key \<and> deepCompare cmp v expected True False) kvs
                  \<or> (if dontMatchWholeObject then False else deepCompare cmp actual expected False False)
                else if getTypeForFilter expected = ''object'' then
                  list_all (\<lambda>(key, expectedVal). isFunction expectedVal \<or> expectedVal = Undef
                      \<or> (let matchAnyProperty = (key = ''$'');
                             actualVal = (if matchAnyProperty then actual else lookup kvs key)
                         in deepCompare cmp actualVal expectedVal matchAnyProperty matchAnyProperty))
                    (own_items expected)
                else cmp actual expected)
           | Fun f \<Rightarrow> False
           | _ \<Rightarrow> cmp actual expected))"
  by pat_completeness auto
termination
proof (relation "measures [\<lambda>(cmp, a, e, any, whole). size e, \<lambda>(cmp, a, e, any, whole). text_size e,
    \<lambda>(cmp, a, e, any, whole). size a, \<lambda>(cmp, a, e, any, whole). of_bool any]", simp, goal_cases)
  case 1
  then show ?case by (simp add: less_Suc_eq_le size_list_estimation')
next
  case 2
  then show ?case by (auto dest: size_property)
next
  case 3
  then show ?case by simp
next
  case (4 cmp actual expected)
  then have "(\<exists>kvs. expected = Obj kvs) \<or> (\<exists>xs. expected = Arr xs)"
    by (cases expected) (auto simp: getTypeForFilter_def)
  then show ?case using 4 by (auto dest: size_own_items)
next
  case 5
  then show ?case using negated_size by simp
qed

declare deepCompare.simps [simp del]

section \<open>filter\<close>

text \<open>What a filter is given: an array, nothing (\<open>undefined\<close> or \<open>null\<close>), or something else.\<close>

datatype 'a input = Elements "'a list" | Missing | NoArray

datatype 'a expression = Predicate "'a \<Rightarrow> bool" | Value dyn

definition createPredicateFn :: "('a \<Rightarrow> dyn) \<Rightarrow> dyn \<Rightarrow> comparator \<Rightarrow> bool \<Rightarrow> 'a \<Rightarrow> bool" where
  "createPredicateFn val expression c matchAgainstAnyProp =
     (let cmp = comparator_function c;
          shouldMatchPrimitives = isObject expression \<and> (\<exists>(k, v)\<in>set (own_items expression). k = ''$'')
      in (\<lambda>item.
          if shouldMatchPrimitives \<and> \<not> isObject (val item)
          then deepCompare cmp (val item) (lookup (own_items expression) ''$'') False False
          else deepCompare cmp (val item) expression matchAgainstAnyProp False))"

definition filterFilter :: "('a \<Rightarrow> dyn) \<Rightarrow> 'a input \<Rightarrow> 'a expression \<Rightarrow> comparator \<Rightarrow> string + 'a input" where
  "filterFilter val array expression c =
     (case array of
        Missing \<Rightarrow> Inr Missing
      | NoArray \<Rightarrow> Inl ''notarray''
      | Elements xs \<Rightarrow>
          Inr (case expression of
                 Predicate f \<Rightarrow> Elements (filter f xs)
               | Value v \<Rightarrow>
                   (let t = getTypeForFilter v in
                    if t = ''function'' \<or> t = ''undefined'' then Elements xs
                    else Elements (filter (createPredicateFn val v c (t \<noteq> ''object'')) xs))))"

section \<open>limitTo\<close>

text \<open>A limit is what \<open>Number\<close> or \<open>toInt\<close> makes of it.\<close>

datatype limit = NotANumber | Infinite bool | Finite int

definition slice :: "int \<Rightarrow> int \<Rightarrow> 'a list \<Rightarrow> 'a list" where
  "slice i j xs =
     (let n = int (length xs); clip = (\<lambda>k. if k < 0 then max 0 (n + k) else min k n); a = clip i; b = clip j
      in take (nat (b - a)) (drop (nat a) xs))"

text \<open>\<open>begin\<close> is \<open>None\<close> where it is falsy or no number.\<close>

definition limitToFilter :: "'a list \<Rightarrow> limit \<Rightarrow> int option \<Rightarrow> 'a list" where
  "limitToFilter input limit begin_at =
     (let b0 = (case begin_at of None \<Rightarrow> 0 | Some b \<Rightarrow> b);
          n = int (length input);
          b = (if b0 < 0 then max 0 (n + b0) else b0)
      in case limit of
           NotANumber \<Rightarrow> input
         | Infinite negative \<Rightarrow>
             if negative then (if b = 0 then slice 0 n input else slice 0 b input) else slice b n input
         | Finite l \<Rightarrow>
             if 0 \<le> l then slice b (b + l) input
             else if b = 0 then slice l n input else slice (max 0 (b + l)) b input)"

section \<open>orderBy\<close>

text \<open>
  What \<open>$parse\<close> makes of a text (a constant or a getter), the element itself as a value, and a property of
  an element that a constant names.
\<close>

datatype 'a parsed = Constant "json option" | Getter "'a \<Rightarrow> json option"

record 'a expressions =
  parse :: "string \<Rightarrow> 'a parsed"
  itself :: "'a \<Rightarrow> json option"
  property :: "'a \<Rightarrow> json option \<Rightarrow> json option"

datatype 'a sort_predicate = ByFunction "'a \<Rightarrow> json option" | ByText string | ByOther

record 'a predicate =
  p_get :: "'a \<Rightarrow> json option"
  p_descending :: int

definition processPredicate :: "'a expressions \<Rightarrow> int \<Rightarrow> 'a sort_predicate \<Rightarrow> 'a predicate" where
  "processPredicate ex reverseOrder p =
     (case p of
        ByFunction f \<Rightarrow> \<lparr>p_get = f, p_descending = reverseOrder\<rparr>
      | ByText t \<Rightarrow>
          (let signed = t \<noteq> [] \<and> (hd t = CHR ''+'' \<or> hd t = CHR ''-'');
               descending = (if signed \<and> hd t = CHR ''-'' then - 1 else 1);
               rest = (if signed then tl t else t);
               get = (if rest \<noteq> [] then (case parse ex rest of Constant key \<Rightarrow> (\<lambda>value. property ex value key) | Getter g \<Rightarrow> g)
                      else itself ex)
           in \<lparr>p_get = get, p_descending = descending * reverseOrder\<rparr>)
      | ByOther \<Rightarrow> \<lparr>p_get = itself ex, p_descending = reverseOrder\<rparr>)"

definition processPredicates :: "'a expressions \<Rightarrow> 'a sort_predicate list \<Rightarrow> bool \<Rightarrow> 'a predicate list" where
  "processPredicates ex sortPredicate reverseOrder = map (processPredicate ex (if reverseOrder then - 1 else 1)) sortPredicate"

definition js_type :: "json option \<Rightarrow> string" where
  "js_type v =
     (case v of
        None \<Rightarrow> ''undefined''
      | Some (JBool b) \<Rightarrow> ''boolean''
      | Some (JNum n) \<Rightarrow> ''number''
      | Some (JStr s) \<Rightarrow> ''string''
      | Some _ \<Rightarrow> ''object'')"

text \<open>Arrays have a text of their own; other objects are compared by their position.\<close>

definition objectValue :: "json \<Rightarrow> nat \<Rightarrow> json" where
  "objectValue value index = (case value of JArr xs \<Rightarrow> JStr (js_String value) | _ \<Rightarrow> JNum (int index))"

definition getPredicateValue :: "json option \<Rightarrow> nat \<Rightarrow> json option \<times> string" where
  "getPredicateValue value index =
     (case value of
        Some JNull \<Rightarrow> (Some (JStr ''null''), ''string'')
      | Some (JStr s) \<Rightarrow> (Some (JStr (toLowerCase s)), ''string'')
      | Some v \<Rightarrow> (if js_type (Some v) = ''object'' then Some (objectValue v index) else Some v, js_type (Some v))
      | None \<Rightarrow> (None, ''undefined''))"

text \<open>
  \<open><\<close> of two primitives: texts by their code units, everything else as numbers, and \<open>NaN\<close> is less than
  nothing. Texts and numbers meet only where arrays stand beside other objects.
\<close>

fun str_less :: "string \<Rightarrow> string \<Rightarrow> bool" where
  "str_less s [] = False"
| "str_less [] (d # t) = True"
| "str_less (c # s) (d # t) = (if c = d then str_less s t else (of_char c :: nat) < of_char d)"

datatype js_number = NaN | Infinity bool | Rational rat

definition blank_char :: "char \<Rightarrow> bool" where
  "blank_char c \<longleftrightarrow> (of_char c :: nat) \<in> {9, 10, 11, 12, 13, 32, 160}"

definition trim :: "string \<Rightarrow> string" where
  "trim s = rev (dropWhile blank_char (rev (dropWhile blank_char s)))"

definition power10 :: "int \<Rightarrow> rat" where
  "power10 e = (if 0 \<le> e then 10 ^ nat e else 1 / 10 ^ nat (- e))"

definition signed_digits :: "string \<Rightarrow> int option" where
  "signed_digits s =
     (let (neg, u) = (case s of c # r \<Rightarrow> if c = CHR ''-'' then (True, r) else if c = CHR ''+'' then (False, r) else (False, s) | [] \<Rightarrow> (False, s))
      in if u \<noteq> [] \<and> list_all is_digit u then Some (if neg then - int (digits_value u) else int (digits_value u)) else None)"

definition decimal_number :: "string \<Rightarrow> rat option" where
  "decimal_number u =
     (let i = takeWhile is_digit u; r1 = dropWhile is_digit u;
          (f, r2) = (case r1 of c # r \<Rightarrow> if c = CHR ''.'' then (takeWhile is_digit r, dropWhile is_digit r) else ([], r1) | [] \<Rightarrow> ([], []));
          e = (case r2 of [] \<Rightarrow> Some 0 | c # r \<Rightarrow> if c = CHR ''e'' \<or> c = CHR ''E'' then signed_digits r else None)
      in if i @ f = [] then None else map_option (\<lambda>e. of_nat (digits_value (i @ f)) * power10 (e - int (length f))) e)"

definition radix_digits :: "(char \<times> string) list" where
  "radix_digits = [(CHR ''x'', ''0123456789abcdef''), (CHR ''o'', ''01234567''), (CHR ''b'', ''01'')]"

definition radix_number :: "string \<Rightarrow> string \<Rightarrow> rat option" where
  "radix_number digits u =
     (if u \<noteq> [] \<and> list_all (\<lambda>c. c \<in> set digits) u
      then Some (of_nat (foldl (\<lambda>n c. length digits * n + length (takeWhile (\<lambda>d. d \<noteq> c) digits)) 0 u)) else None)"

definition text_number :: "string \<Rightarrow> js_number" where
  "text_number s =
     (let t = trim s; number = (\<lambda>v. case v of None \<Rightarrow> NaN | Some x \<Rightarrow> Rational x) in
      case t of
        [] \<Rightarrow> Rational 0
      | c # r \<Rightarrow>
          (case (if c = CHR ''0'' \<and> r \<noteq> [] then map_of radix_digits (to_lower_char (hd r)) else None) of
             Some digits \<Rightarrow> number (radix_number digits (toLowerCase (tl r)))
           | None \<Rightarrow>
               (let neg = (c = CHR ''-''); u = (if c = CHR ''-'' \<or> c = CHR ''+'' then r else t)
                in if u = ''Infinity'' then Infinity neg
                   else number (map_option (\<lambda>x. if neg then - x else x) (decimal_number u)))))"

definition to_number :: "json \<Rightarrow> js_number" where
  "to_number v =
     (case v of
        JNum n \<Rightarrow> Rational (of_int n)
      | JBool b \<Rightarrow> Rational (if b then 1 else 0)
      | JNull \<Rightarrow> Rational 0
      | JStr s \<Rightarrow> text_number s
      | _ \<Rightarrow> NaN)"

definition number_less :: "js_number \<Rightarrow> js_number \<Rightarrow> bool" where
  "number_less a b =
     (case (a, b) of
        (Rational x, Rational y) \<Rightarrow> x < y
      | (Infinity neg, Rational y) \<Rightarrow> neg
      | (Rational x, Infinity neg) \<Rightarrow> \<not> neg
      | (Infinity neg, Infinity neg') \<Rightarrow> neg \<and> \<not> neg'
      | _ \<Rightarrow> False)"

definition js_less :: "json option \<Rightarrow> json option \<Rightarrow> bool" where
  "js_less a b =
     (case (a, b) of
        (Some (JStr s), Some (JStr t)) \<Rightarrow> str_less s t
      | (Some v, Some w) \<Rightarrow> number_less (to_number v) (to_number w)
      | _ \<Rightarrow> False)"

definition compare :: "json option \<times> string \<Rightarrow> json option \<times> string \<Rightarrow> int" where
  "compare v1 v2 =
     (if snd v1 = snd v2 then
        (if fst v1 \<noteq> fst v2 then (if js_less (fst v1) (fst v2) then - 1 else 1) else 0)
      else (if str_less (snd v1) (snd v2) then - 1 else 1))"

fun doComparison :: "int list \<Rightarrow> (json option \<times> string) list \<Rightarrow> (json option \<times> string) list \<Rightarrow> int" where
  "doComparison (d # ds) (v1 # vs1) (v2 # vs2) =
     (let result = compare v1 v2 * d in if result \<noteq> 0 then result else doComparison ds vs1 vs2)"
| "doComparison ds vs1 vs2 = 0"

definition getComparisonObject :: "'a predicate list \<Rightarrow> nat \<times> 'a \<Rightarrow> 'a \<times> (json option \<times> string) list" where
  "getComparisonObject predicates iv =
     (case iv of (index, value) \<Rightarrow> (value, map (\<lambda>p. getPredicateValue (p_get p value) index) predicates))"

text \<open>The comparator of the sort; a predicate that is no array stands for a list of one.\<close>

definition all_predicates :: "'a expressions \<Rightarrow> 'a sort_predicate list \<Rightarrow> bool \<Rightarrow> 'a predicate list" where
  "all_predicates ex sortPredicate reverseOrder =
     processPredicates ex (if sortPredicate = [] then [ByText ''+''] else sortPredicate) reverseOrder
     @ [\<lparr>p_get = (\<lambda>value. Some (JObj [])), p_descending = (if reverseOrder then - 1 else 1)\<rparr>]"

definition orderByFilter :: "'a expressions \<Rightarrow> 'a input \<Rightarrow> 'a sort_predicate list \<Rightarrow> bool \<Rightarrow> 'a input" where
  "orderByFilter ex array sortPredicate reverseOrder =
     (case array of
        Elements xs \<Rightarrow>
          (let predicates = all_predicates ex sortPredicate reverseOrder;
               compareValues = map (getComparisonObject predicates) (enumerate 0 xs)
           in Elements (map fst (js_sort (\<lambda>v1 v2. doComparison (map p_descending predicates) (snd v1) (snd v2)) compareValues)))
      | _ \<Rightarrow> array)"

end
