(* ===== verification/AngularFiltersFacts.thy ===== *)
theory AngularFiltersFacts imports Complex_Main Prelude AngularFilters "HOL-Library.List_Lexorder" "HOL-Library.Product_Lexorder" begin

text \<open>
  What the filters of angular.js promise: a text finds the elements in which it occurs, however deep, and
  \<open>orderBy\<close> is a stable sort by the values of its predicates, independent of the engine's algorithm.
\<close>

section \<open>Searching for a text\<close>

text \<open>The primitive values of a value, at any depth, apart from those of properties whose names start with a dollar sign.\<close>

function leaves :: "dyn \<Rightarrow> dyn list" where
  "leaves v =
     (case v of
        Arr xs \<Rightarrow> concat (map leaves xs)
      | Obj kvs \<Rightarrow> concat (map (\<lambda>(k, w). if dollar k then [] else leaves w) kvs)
      | Bool b \<Rightarrow> [v] | Num n \<Rightarrow> [v] | Str s \<Rightarrow> [v]
      | _ \<Rightarrow> [])"
  by pat_completeness auto
termination
  by (relation "measure size") (auto simp: less_Suc_eq_le size_list_estimation' dest: size_property)

declare leaves.simps [simp del]

definition found :: "string \<Rightarrow> dyn \<Rightarrow> bool" where
  "found s v \<longleftrightarrow> (\<exists>l\<in>set (leaves v). contains (toLowerCase s) (toLowerCase (dyn_String l)))"

lemma deepCompare_leaf:
  "negated e = None \<Longrightarrow> (\<And>xs. v \<noteq> Arr xs) \<Longrightarrow> (\<And>kvs. v \<noteq> Obj kvs) \<Longrightarrow>
    deepCompare cmp v e any whole = (case v of Fun f \<Rightarrow> False | _ \<Rightarrow> cmp v e)"
  by (subst deepCompare.simps) (simp split: dyn.splits)

lemma leaves_leaf:
  "(\<And>xs. v \<noteq> Arr xs) \<Longrightarrow> (\<And>kvs. v \<noteq> Obj kvs) \<Longrightarrow> leaves v = (if v = Undef \<or> v = Null \<or> typeof_object v \<or> isFunction v then [] else [v])"
  by (subst leaves.simps) (auto simp: isFunction_def split: dyn.splits)

lemma default_text:
  "default_comparator v (Str s) \<longleftrightarrow> v \<noteq> Undef \<and> v \<noteq> Null \<and> \<not> isObject v \<and> contains (toLowerCase s) (toLowerCase (dyn_String v))"
  by (simp add: default_comparator_def isObject_def)

lemma deepCompare_text:
  assumes "negated (Str s) = None"
  shows "deepCompare default_comparator v (Str s) True False = found s v"
proof (induction v rule: leaves.induct)
  case (1 v)
  show ?case
  proof (cases v)
    case (Arr xs)
    have "deepCompare default_comparator x (Str s) True False = found s x" if "x \<in> set xs" for x
      using 1(1) Arr that by blast
    then have "(\<exists>x\<in>set xs. deepCompare default_comparator x (Str s) True False) \<longleftrightarrow> (\<exists>x\<in>set xs. found s x)" by blast
    then show ?thesis using assms by (auto simp: deepCompare.simps [of _ "Arr xs" "Str s" True False] leaves.simps [of "Arr xs"] found_def Arr list_ex_iff)
  next
    case (Obj kvs)
    have IH: "deepCompare default_comparator w (Str s) True False = found s w" if "(k, w) \<in> set kvs" "\<not> dollar k" for k w
      using 1(2) Obj that by blast
    have "\<not> deepCompare default_comparator v (Str s) False False"
      using assms by (simp add: deepCompare.simps [of _ "Obj kvs" "Str s" False False] Obj getTypeForFilter_def default_comparator_def isObject_def)
    then have "deepCompare default_comparator v (Str s) True False
        \<longleftrightarrow> (\<exists>(k, w)\<in>set kvs. \<not> dollar k \<and> deepCompare default_comparator w (Str s) True False)"
      using assms by (auto simp: deepCompare.simps [of _ "Obj kvs" "Str s" True False] Obj list_ex_iff)
    also have "\<dots> \<longleftrightarrow> (\<exists>(k, w)\<in>set kvs. \<not> dollar k \<and> found s w)" using IH by fastforce
    also have "\<dots> \<longleftrightarrow> (\<exists>x\<in>set kvs. \<not> dollar (fst x) \<and> found s (snd x))" by (simp add: case_prod_beta)
    also have "set (leaves v) = (\<Union>x\<in>set kvs. if dollar (fst x) then {} else set (leaves (snd x)))"
      by (simp add: leaves.simps [of "Obj kvs"] Obj case_prod_beta if_distrib)
    then have "(\<exists>x\<in>set kvs. \<not> dollar (fst x) \<and> found s (snd x)) \<longleftrightarrow> found s v"
      unfolding found_def by (simp only: UN_iff bex_UN if_distrib [of "\<lambda>A. _ \<in> A"]) auto
    finally show ?thesis .
  qed (use assms in \<open>simp_all add: deepCompare_leaf leaves_leaf found_def default_text isObject_def isFunction_def\<close>)
qed

lemma deepCompare_not: "deepCompare cmp v (Str (CHR ''!'' # s)) any whole \<longleftrightarrow> \<not> deepCompare cmp v (Str s) any False"
  by (subst deepCompare.simps) (simp add: negated_def)

text \<open>
  Claim C28: a table filtered by a text that does not begin with an exclamation mark shows, in their order, exactly the elements
  in which the text occurs in some primitive value, at any depth and whatever the case of the letters, but not inside
  properties whose names begin with \<open>$\<close>, which the library keeps for itself; with an exclamation mark in
  front of the text it shows exactly the others.
\<close>

theorem text_filter_finds:
  assumes "negated (Str s) = None"
  shows "filterFilter val (Elements xs) (Value (Str s)) Default = Inr (Elements (filter (\<lambda>x. found s (val x)) xs))
     \<and> filterFilter val (Elements xs) (Value (Str (CHR ''!'' # s))) Default = Inr (Elements (filter (\<lambda>x. \<not> found s (val x)) xs))"
proof -
  have "createPredicateFn val (Str s) Default True = (\<lambda>x. found s (val x))"
    "createPredicateFn val (Str (CHR ''!'' # s)) Default True = (\<lambda>x. \<not> found s (val x))"
    using deepCompare_text [OF assms] by (simp_all add: createPredicateFn_def comparator_function_def isObject_def deepCompare_not)
  then show ?thesis by (simp add: filterFilter_def getTypeForFilter_def)
qed

lemma text_filter_finds_witness:
  "filterFilter id (Elements [Obj [(''name'', Str ''Sutta'')], Str ''x'']) (Value (Str ''!SUT'')) Default = Inr (Elements [Str ''x''])"
proof -
  have "negated (Str ''SUT'') = None" by (simp add: negated_def)
  moreover have "found ''SUT'' (Obj [(''name'', Str ''Sutta'')])" "\<not> found ''SUT'' (Str ''x'')"
    by (simp_all add: found_def leaves.simps dollar_def toLowerCase_def to_lower_char_def)
  ultimately show ?thesis using text_filter_finds [of "''SUT''" id "[Obj [(''name'', Str ''Sutta'')], Str ''x'']"] by simp
qed

section \<open>The order of the values\<close>

text \<open>What \<open>getPredicateValue\<close> makes of everything but an array.\<close>

definition key_values :: "(json option \<times> string) set" where
  "key_values = insert (None, ''undefined'') (range (\<lambda>b. (Some (JBool b), ''boolean'')) \<union> range (\<lambda>n. (Some (JNum n), ''number''))
     \<union> range (\<lambda>s. (Some (JStr s), ''string'')) \<union> range (\<lambda>n. (Some (JNum n), ''object'')))"

definition codes :: "string \<Rightarrow> nat list" where
  "codes s = map of_char s"

definition rank :: "json option \<times> string \<Rightarrow> nat list \<times> nat list \<times> int" where
  "rank v = (codes (snd v), case fst v of Some (JStr s) \<Rightarrow> (codes s, 0) | Some (JBool b) \<Rightarrow> ([], of_bool b) | Some (JNum n) \<Rightarrow> ([], n) | _ \<Rightarrow> ([], 0))"

lemma codes_inject [simp]: "codes s = codes t \<longleftrightarrow> s = t"
  unfolding codes_def by (rule inj_map_eq_map) (simp add: inj_def)

lemma str_less_codes: "str_less s t \<longleftrightarrow> codes s < codes t"
  by (induction s t rule: str_less.induct) (auto simp: codes_def)

lemma compare_rank:
  assumes "a \<in> key_values" "b \<in> key_values"
  shows "compare a b = (if rank a < rank b then - 1 else if rank a = rank b then 0 else 1)" "rank a = rank b \<longleftrightarrow> a = b"
proof -
  show "compare a b = (if rank a < rank b then - 1 else if rank a = rank b then 0 else 1)"
    using assms by (auto simp: compare_def rank_def key_values_def str_less_codes less_prod_def js_less_def number_less_def to_number_def of_bool_def split: if_splits)
  show "rank a = rank b \<longleftrightarrow> a = b"
    using assms by (auto simp: rank_def key_values_def)
qed

interpretation keys: comparator compare key_values
  by unfold_locales (auto simp: compare_rank split: if_splits)

lemma getPredicateValue_key: "(\<And>xs. v \<noteq> Some (JArr xs)) \<Longrightarrow> getPredicateValue v i \<in> key_values"
  by (auto simp: getPredicateValue_def key_values_def js_type_def objectValue_def split: option.splits json.splits)

section \<open>Comparing by several predicates\<close>

definition key_lists :: "nat \<Rightarrow> (json option \<times> string) list set" where
  "key_lists n = {vs. length vs = n \<and> set vs \<subseteq> key_values}"

lemma comparator_cong:
  assumes "comparator g A" and "\<And>a b. a \<in> A \<Longrightarrow> b \<in> A \<Longrightarrow> f a b = g a b"
  shows "comparator f A"
proof
  show "f a b \<le> 0 \<longleftrightarrow> 0 \<le> f b a" if "a \<in> A" "b \<in> A" for a b using comparator.sign [OF assms(1) that] assms(2) that by simp
  show "f a c \<le> 0" if "a \<in> A" "b \<in> A" "c \<in> A" "f a b \<le> 0" "f b c \<le> 0" for a b c
    using comparator.trans [OF assms(1) that(1-3)] assms(2) that by simp
qed

lemma doComparison_comparator:
  "set ds \<subseteq> {1, - 1} \<Longrightarrow> comparator (doComparison ds) (key_lists (length ds))"
proof (induction ds)
  case Nil
  show ?case by unfold_locales (simp_all add: key_lists_def)
next
  case (Cons d ds)
  let ?A = "key_lists (length (d # ds))"
  have "comparator (\<lambda>a b. compare (hd a) (hd b) * d) ?A"
    by (rule comparator_map [OF comparator_direction [OF keys.comparator_axioms]]) (use Cons.prems in \<open>auto simp: key_lists_def length_Suc_conv\<close>)
  moreover have "comparator (\<lambda>a b. doComparison ds (tl a) (tl b)) ?A"
    by (rule comparator_map [OF Cons.IH]) (use Cons.prems in \<open>auto simp: key_lists_def length_Suc_conv\<close>)
  ultimately have "comparator (cmp_then (\<lambda>a b. compare (hd a) (hd b) * d) (\<lambda>a b. doComparison ds (tl a) (tl b))) ?A"
    by (rule comparator_then)
  then show ?case
    by (rule comparator_cong) (auto simp: key_lists_def length_Suc_conv cmp_then_def Let_def)
qed

lemma doComparison_equal:
  "set ds \<subseteq> {1, - 1} \<Longrightarrow> vs \<in> key_lists (length ds) \<Longrightarrow> ws \<in> key_lists (length ds) \<Longrightarrow> doComparison ds vs ws = 0 \<longleftrightarrow> vs = ws"
proof (induction ds arbitrary: vs ws)
  case (Cons d ds)
  then obtain v vs' w ws' where "vs = v # vs'" "ws = w # ws'" by (auto simp: key_lists_def length_Suc_conv)
  moreover from this have "v \<in> key_values" "w \<in> key_values" "vs' \<in> key_lists (length ds)" "ws' \<in> key_lists (length ds)"
    using Cons.prems by (auto simp: key_lists_def)
  moreover have "compare v w = 0 \<longleftrightarrow> v = w" if "v \<in> key_values" "w \<in> key_values"
    using compare_rank [OF that] by (auto split: if_splits)
  ultimately show ?case using Cons.IH [of vs' ws'] Cons.prems(1) by (auto simp: Let_def)
qed (simp add: key_lists_def)

lemma doComparison_self: "doComparison ds vs vs = 0"
proof (induction ds arbitrary: vs)
  case (Cons d ds)
  then show ?case by (cases vs) (simp_all add: compare_def)
qed simp

lemma doComparison_append:
  "length vs = length ds \<Longrightarrow> length ws = length ds \<Longrightarrow>
    doComparison (ds @ [r]) (vs @ [i]) (ws @ [j]) = (if doComparison ds vs ws \<noteq> 0 then doComparison ds vs ws else compare i j * r)"
proof (induction ds arbitrary: vs ws)
  case (Cons d ds)
  then show ?case by (auto simp: length_Suc_conv Let_def)
qed simp

lemma doComparison_reverse:
  "doComparison (map uminus ds) vs ws = - doComparison ds vs ws"
  by (induction ds vs ws rule: doComparison.induct) (simp_all add: Let_def)

section \<open>orderBy\<close>

text \<open>A list of predicates with values that are neither arrays nor other objects, and the keys of an element.\<close>

definition scalar :: "json option \<Rightarrow> bool" where
  "scalar v \<longleftrightarrow> (case v of Some (JArr xs) \<Rightarrow> False | Some (JObj kvs) \<Rightarrow> False | Some (JBuf b) \<Rightarrow> False | _ \<Rightarrow> True)"

definition ordering_predicates :: "'a expressions \<Rightarrow> 'a sort_predicate list \<Rightarrow> bool \<Rightarrow> 'a predicate list" where
  "ordering_predicates ex sp reverse = processPredicates ex (if sp = [] then [ByText ''+''] else sp) reverse"

definition keys_of :: "'a predicate list \<Rightarrow> 'a \<Rightarrow> (json option \<times> string) list" where
  "keys_of ps x = map (\<lambda>p. getPredicateValue (p_get p x) 0) ps"

definition directions :: "'a predicate list \<Rightarrow> int list" where
  "directions ps = map p_descending ps"

lemma directions_signs: "set (directions (ordering_predicates ex sp reverse)) \<subseteq> {1, - 1}"
  by (auto simp: directions_def ordering_predicates_def processPredicates_def processPredicate_def Let_def
      split: sort_predicate.splits if_splits parsed.splits)

lemma scalar_key: "scalar v \<Longrightarrow> getPredicateValue v i = getPredicateValue v 0 \<and> getPredicateValue v i \<in> key_values"
  by (auto simp: scalar_def getPredicateValue_def key_values_def js_type_def split: option.splits json.splits)

text \<open>The decorated elements: keys and position.\<close>

definition decorated :: "'a predicate list \<Rightarrow> nat \<times> 'a \<Rightarrow> 'a \<times> (json option \<times> string) list" where
  "decorated ps iv = (snd iv, keys_of ps (snd iv) @ [(Some (JNum (int (fst iv))), ''object'')])"

definition decorated_compare :: "int list \<Rightarrow> int \<Rightarrow> 'a \<times> (json option \<times> string) list \<Rightarrow> 'a \<times> (json option \<times> string) list \<Rightarrow> int" where
  "decorated_compare ds r v1 v2 = doComparison (ds @ [r]) (snd v1) (snd v2)"

lemma orderBy_decorated:
  fixes xs :: "'a list"
  assumes "\<And>x p. x \<in> set xs \<Longrightarrow> p \<in> set (ordering_predicates ex sp reverse) \<Longrightarrow> scalar (p_get p x)"
  shows "orderByFilter ex (Elements xs) sp reverse =
    Elements (map fst (js_sort (decorated_compare (directions (ordering_predicates ex sp reverse)) (if reverse then - 1 else 1))
      (map (decorated (ordering_predicates ex sp reverse)) (enumerate 0 xs))))"
proof -
  let ?ps = "ordering_predicates ex sp reverse" and ?r = "if reverse then - 1 else 1 :: int"
  have all: "all_predicates ex sp reverse = ?ps @ [\<lparr>p_get = (\<lambda>value. Some (JObj [])), p_descending = ?r\<rparr>]"
    by (simp add: all_predicates_def ordering_predicates_def)
  have "getComparisonObject (all_predicates ex sp reverse) (i, x) = decorated ?ps (i, x)" if "x \<in> set xs" for i x
    using scalar_key [of _ i] assms [OF that]
    by (simp add: getComparisonObject_def decorated_def all keys_of_def getPredicateValue_def [of "Some (JObj [])"] js_type_def objectValue_def)
  then have "map (getComparisonObject (all_predicates ex sp reverse)) (enumerate 0 xs) = map (decorated ?ps) (enumerate 0 xs)"
    by (auto simp: in_set_enumerate_eq)
  moreover have "(\<lambda>v1 v2. doComparison (map p_descending (all_predicates ex sp reverse)) (snd v1) (snd v2))
      = (decorated_compare (directions ?ps) ?r :: 'a \<times> (json option \<times> string) list \<Rightarrow> _)"
    by (intro ext) (simp add: decorated_compare_def all directions_def)
  ultimately show ?thesis unfolding orderByFilter_def Let_def by (simp only: input.case)
qed

lemma decorated_comparator:
  assumes "set ds \<subseteq> {1, - 1}" and "r = 1 \<or> r = - 1"
  shows "comparator (decorated_compare ds r) {v. snd v \<in> key_lists (Suc (length ds))}"
  unfolding decorated_compare_def
  using comparator_map [OF doComparison_comparator [of "ds @ [r]"], of "{v. snd v \<in> key_lists (Suc (length ds))}" snd] assms by auto

lemma decorated_keys:
  assumes "\<And>x p. x \<in> set xs \<Longrightarrow> p \<in> set ps \<Longrightarrow> scalar (p_get p x)" and "v \<in> set (map (decorated ps) (enumerate 0 xs))"
  shows "snd v \<in> key_lists (Suc (length (directions ps)))" "fst v \<in> set xs"
    "\<exists>i<length xs. v = decorated ps (i, xs ! i)"
proof -
  obtain i where i: "i < length xs" "v = decorated ps (i, xs ! i)" using assms(2) by (auto simp: in_set_enumerate_eq)
  then show "\<exists>i<length xs. v = decorated ps (i, xs ! i)" "fst v \<in> set xs" by (auto simp: decorated_def)
  have last: "(Some (JNum (int i)), ''object'') \<in> key_values" by (simp add: key_values_def)
  have "getPredicateValue (p_get p (xs ! i)) 0 \<in> key_values" if "p \<in> set ps" for p
    using scalar_key [of "p_get p (xs ! i)" 0] assms(1) [OF _ that] i(1) by simp
  then have keys: "set (keys_of ps (xs ! i)) \<subseteq> key_values" unfolding keys_of_def set_map by blast
  have v: "snd v = keys_of ps (xs ! i) @ [(Some (JNum (int i)), ''object'')]" by (simp add: i(2) decorated_def)
  have "length (keys_of ps (xs ! i)) = length (directions ps)" by (simp add: directions_def keys_of_def)
  then show "snd v \<in> key_lists (Suc (length (directions ps)))"
    unfolding key_lists_def mem_Collect_eq v using keys last by simp
qed

lemma decorated_tie:
  "decorated_compare (directions ps) r (decorated ps (i, x)) (decorated ps (j, y)) =
    (if doComparison (directions ps) (keys_of ps x) (keys_of ps y) \<noteq> 0 then doComparison (directions ps) (keys_of ps x) (keys_of ps y)
     else (if i = j then 0 else if i < j then - 1 else 1) * r)"
proof -
  have "compare (Some (JNum (int i)), ''object'') (Some (JNum (int j)), ''object'') = (if i = j then 0 else if i < j then - 1 else 1)"
    by (simp add: compare_def js_less_def number_less_def to_number_def)
  then show ?thesis by (simp add: decorated_compare_def decorated_def doComparison_append keys_of_def directions_def)
qed

text \<open>The decorated elements with given keys stand in the order of their positions.\<close>

lemma decorated_positions:
  "sorted_wrt (\<lambda>a b. decorated_compare (directions ps) 1 a b \<le> 0)
    (filter (\<lambda>v. keys_of ps (fst v) = k) (map (decorated ps) (enumerate n xs)))"
proof -
  have "sorted_wrt (\<lambda>a b. fst a < fst b) (enumerate n xs)" using sorted_wrt_map [of "(<)" fst "enumerate n xs"] by simp
  then have "sorted_wrt (\<lambda>a b. fst a < fst b) (filter (\<lambda>v. keys_of ps (snd v) = k) (enumerate n xs))" by (rule sorted_wrt_filter)
  moreover have "decorated_compare (directions ps) 1 (decorated ps a) (decorated ps b) \<le> 0"
    if "fst a < fst b" "keys_of ps (snd a) = k" "keys_of ps (snd b) = k" for a b
  proof (cases a, cases b)
    fix i x j y
    assume ab: "a = (i, x)" "b = (j, y)"
    then have "doComparison (directions ps) (keys_of ps x) (keys_of ps y) = 0 \<or> doComparison (directions ps) (keys_of ps x) (keys_of ps y) = doComparison (directions ps) k k"
      using that by simp
    moreover have "doComparison (directions ps) k k = 0" by (rule doComparison_self)
    ultimately show ?thesis using that ab by (simp add: decorated_tie)
  qed
  ultimately have "sorted_wrt (\<lambda>a b. decorated_compare (directions ps) 1 (decorated ps a) (decorated ps b) \<le> 0)
      (filter (\<lambda>v. keys_of ps (snd v) = k) (enumerate n xs))"
    by (elim sorted_wrt_mono_rel [rotated]) auto
  then show ?thesis by (simp add: filter_map sorted_wrt_map comp_def decorated_def)
qed

lemma orderBy_permutes: "\<exists>ys. orderByFilter ex (Elements xs) sp reverse = Elements ys \<and> mset ys = mset xs"
  for xs :: "'a list"
proof -
  have u: "map fst (map (getComparisonObject ps) (enumerate 0 xs)) = xs" for ps :: "'a predicate list"
    by (simp add: comp_def getComparisonObject_def case_prod_beta)
  have "mset (map fst (js_sort cmp (map (getComparisonObject ps) (enumerate 0 xs)))) = mset xs" for cmp and ps :: "'a predicate list"
    unfolding mset_map [of fst] mset_js_sort by (simp only: u flip: mset_map)
  then show ?thesis unfolding orderByFilter_def Let_def by (simp only: input.case input.inject) blast
qed

lemma orderBy_stable:
  assumes "\<forall>x\<in>set xs. \<forall>p\<in>set ps. scalar (p_get p x)" and ps: "ps = ordering_predicates ex sp reverse"
  shows "\<exists>ys. orderByFilter ex (Elements xs) sp reverse = Elements ys \<and> mset ys = mset xs
     \<and> sorted_wrt (\<lambda>x y. doComparison (directions ps) (keys_of ps x) (keys_of ps y) \<le> 0) ys
     \<and> (\<forall>k. filter (\<lambda>x. keys_of ps x = k) ys = (if reverse then rev else id) (filter (\<lambda>x. keys_of ps x = k) xs))"
proof -
  let ?r = "if reverse then - 1 else 1 :: int" and ?ds = "directions ps" and ?T = "map (decorated ps) (enumerate 0 xs)"
  let ?cmp = "decorated_compare ?ds ?r" and ?A = "{v. snd v \<in> key_lists (Suc (length (directions ps)))}"
  define S where "S = js_sort ?cmp ?T"
  have sc: "scalar (p_get p x)" if "x \<in> set xs" "p \<in> set ps" for x p using assms(1) that by blast
  have c: "comparator ?cmp ?A" by (rule decorated_comparator) (use directions_signs ps in auto)
  have A: "set ?T \<subseteq> ?A" using decorated_keys(1) [of xs ps, OF sc] by blast
  have sorted: "sorted_wrt (\<lambda>a b. ?cmp a b \<le> 0) S" unfolding S_def by (rule comparator.sort_sorted [OF c A])
  have mS: "mset S = mset ?T" and sS: "set S = set ?T" by (simp_all add: S_def)
  have o: "orderByFilter ex (Elements xs) sp reverse = Elements (map fst S)"
    unfolding S_def ps by (rule orderBy_decorated) (use sc ps in blast)
  have T: "v \<in> set ?T \<Longrightarrow> \<exists>i. v = decorated ps (i, xs ! i)" for v using decorated_keys(3) [of xs ps, OF sc] by blast
  have fst_T: "map fst ?T = xs" by (simp add: comp_def decorated_def)
  have "mset (map fst S) = mset xs" using mS fst_T by (metis mset_map)
  moreover have "sorted_wrt (\<lambda>x y. doComparison ?ds (keys_of ps x) (keys_of ps y) \<le> 0) (map fst S)"
  proof -
    have "doComparison ?ds (keys_of ps (fst a)) (keys_of ps (fst b)) \<le> 0" if "a \<in> set S" "b \<in> set S" "?cmp a b \<le> 0" for a b
    proof -
      have "a \<in> set ?T" "b \<in> set ?T" using that sS by simp_all
      then obtain i j where "a = decorated ps (i, xs ! i)" "b = decorated ps (j, xs ! j)" using T by metis
      then show ?thesis using that(3) decorated_tie [of ps ?r i "xs ! i" j "xs ! j"] by (simp add: decorated_def split: if_splits)
    qed
    then show ?thesis unfolding sorted_wrt_map using sorted by (rule sorted_wrt_mono_rel)
  qed
  moreover have "filter (\<lambda>x. keys_of ps x = k) (map fst S) = (if reverse then rev else id) (filter (\<lambda>x. keys_of ps x = k) xs)" for k
  proof -
    let ?P = "\<lambda>v :: 'a \<times> (json option \<times> string) list. keys_of ps (fst v) = k"
    let ?F = "(if reverse then rev else id) (filter ?P ?T)"
    note pos = decorated_positions [of ps k 0 xs]
    have tie: "?cmp a b = 0 \<longleftrightarrow> a = b" "decorated_compare ?ds (- 1) a b = decorated_compare ?ds 1 b a"
      if "a \<in> set (filter ?P ?T)" "b \<in> set (filter ?P ?T)" for a b
    proof -
      have ab: "a \<in> set ?T" "b \<in> set ?T" "keys_of ps (fst a) = k" "keys_of ps (fst b) = k" using that by (simp_all del: set_map)
      then obtain i j where ij: "a = decorated ps (i, xs ! i)" "b = decorated ps (j, xs ! j)" using T by metis
      then have k: "keys_of ps (xs ! i) = k" "keys_of ps (xs ! j) = k" using ab(3,4) by (simp_all add: decorated_def)
      have "a = b \<longleftrightarrow> i = j" unfolding ij by (auto simp: decorated_def)
      then show "?cmp a b = 0 \<longleftrightarrow> a = b" "decorated_compare ?ds (- 1) a b = decorated_compare ?ds 1 b a"
        unfolding ij decorated_tie k doComparison_self by auto
    qed
    have "sorted_wrt (\<lambda>a b. decorated_compare ?ds (- 1) a b \<le> 0) (rev (filter ?P ?T))"
      unfolding sorted_wrt_rev by (rule sorted_wrt_mono_rel [OF _ pos]) (simp add: tie(2))
    then have F: "sorted_wrt (\<lambda>a b. ?cmp a b \<le> 0) ?F" using pos by simp
    have "mset (filter ?P S) = mset ?F" using mS by (simp add: mset_filter)
    then have "filter ?P S = ?F"
    proof (rule comparator.sorted_unique [OF c, rotated])
      show "set (filter ?P S) \<subseteq> ?A" using A sS by auto
      show "a = b" if "a \<in> set (filter ?P S)" "b \<in> set (filter ?P S)" "?cmp a b = 0" for a b
        using tie(1) [of a b] that sS by simp
    qed (use sorted F in \<open>simp_all add: sorted_wrt_filter\<close>)
    then have "map fst (filter ?P S) = (if reverse then rev else id) (map fst (filter ?P ?T))" by (simp add: rev_map)
    moreover have "map fst (filter ?P S) = filter (\<lambda>x. keys_of ps x = k) (map fst S)" "map fst (filter ?P ?T) = filter (\<lambda>x. keys_of ps x = k) (map fst ?T)"
      by (simp_all only: filter_map comp_def)
    ultimately show ?thesis using fst_T by simp
  qed
  ultimately show ?thesis using o by blast
qed

text \<open>
  Claim C27: where the values of the predicates are neither arrays nor other objects, \<open>orderBy\<close> gives the same
  elements, in the order of the values (texts without regard to case, \<open>null\<close> as a text, values of
  different types by the names of their types), and elements with the same values keep their order, or
  have it reversed if the whole order is reversed.
\<close>

theorem orderBy_stable_sort:
  assumes "\<forall>x\<in>set xs. \<forall>p\<in>set ps. scalar (p_get p x)" and ps: "ps = ordering_predicates ex sp reverse"
  shows "\<exists>ys. orderByFilter ex (Elements xs) sp reverse = Elements ys \<and> mset ys = mset xs
     \<and> sorted_wrt (\<lambda>x y. doComparison (directions ps) (keys_of ps x) (keys_of ps y) \<le> 0) ys
     \<and> (\<forall>k. filter (\<lambda>x. keys_of ps x = k) ys = (if reverse then rev else id) (filter (\<lambda>x. keys_of ps x = k) xs))"
  using orderBy_stable [OF assms] .

lemma orderBy_stable_sort_witness:
  "\<exists>ys. orderByFilter \<lparr>parse = (\<lambda>t. Getter (\<lambda>x. None)), itself = (\<lambda>n. Some (JNum n)), property = (\<lambda>x k. None)\<rparr> (Elements [1, 3, 2]) [ByText ''-''] False
     = Elements ys \<and> mset ys = mset [1, 3, 2]"
proof -
  let ?ex = "\<lparr>parse = (\<lambda>t. Getter (\<lambda>x. None)), itself = (\<lambda>n. Some (JNum n)), property = (\<lambda>x k. None)\<rparr>"
  have "\<forall>x\<in>set [1, 3, 2]. \<forall>p\<in>set (ordering_predicates ?ex [ByText ''-''] False). scalar (p_get p x)"
    by (simp add: ordering_predicates_def processPredicates_def processPredicate_def scalar_def)
  then show ?thesis using orderBy_stable_sort [of "[1, 3, 2]" "ordering_predicates ?ex [ByText ''-''] False", OF _ refl] by blast
qed

end
