(* ===== verification/UserTables.thy ===== *)
theory UserTables imports Complex_Main Prelude UserDataApp AngularFiltersFacts begin

text \<open>
  The tables of the user-data page: \<open>$root.items\<close> through the \<open>filter\<close> of a tab and \<open>orderBy\<close>, as the template
  writes them. What \<open>$parse\<close> makes of the name \<open>pk\<close> is a parameter.
\<close>

definition rows :: "item expressions \<Rightarrow> (item \<Rightarrow> dyn) \<Rightarrow> (item \<Rightarrow> bool) \<Rightarrow> root \<Rightarrow> string + item input" where
  "rows ex val tab r =
     bindE (filterFilter val (Elements (items r)) (Predicate tab) Default) (\<lambda>xs. Inr (orderByFilter ex xs [ByText ''-pk''] False))"

lemma pk_predicate:
  assumes "parse ex ''pk'' = Getter (\<lambda>it. Some (JNum (it_pk it)))"
  shows "ordering_predicates ex [ByText ''-pk''] False = [\<lparr>p_get = (\<lambda>it. Some (JNum (it_pk it))), p_descending = - 1\<rparr>]"
  using assms by (simp add: ordering_predicates_def processPredicates_def processPredicate_def)

text \<open>
  Claim C26: every tab shows exactly its own items, the newest (with the highest key) first, and items
  with the same key in the order in which the server sent them.
\<close>

theorem table_newest_first:
  assumes "parse ex ''pk'' = Getter (\<lambda>it. Some (JNum (it_pk it)))"
  shows "rows ex val tab r = Inr (Elements (sort_key (\<lambda>it. - it_pk it) (filter tab (items r))))"
proof -
  let ?ps = "[\<lparr>p_get = (\<lambda>it :: item. Some (JNum (it_pk it))), p_descending = - 1\<rparr>]" and ?xs = "filter tab (items r)"
  have keys: "keys_of ?ps it = [(Some (JNum (it_pk it)), ''number'')]" for it
    by (simp add: keys_of_def getPredicateValue_def js_type_def)
  have le: "doComparison (directions ?ps) (keys_of ?ps x) (keys_of ?ps y) \<le> 0 \<longleftrightarrow> - it_pk x \<le> - it_pk y" for x y
    by (simp add: keys directions_def compare_def js_less_def number_less_def to_number_def)
  have sc: "\<forall>x\<in>set ?xs. \<forall>p\<in>set ?ps. scalar (p_get p x)" by (simp add: scalar_def)
  obtain ys where ys: "orderByFilter ex (Elements ?xs) [ByText ''-pk''] False = Elements ys" "mset ys = mset ?xs"
    "sorted_wrt (\<lambda>x y. doComparison (directions ?ps) (keys_of ?ps x) (keys_of ?ps y) \<le> 0) ys"
    "\<forall>k. filter (\<lambda>x. keys_of ?ps x = k) ys = filter (\<lambda>x. keys_of ?ps x = k) ?xs"
    using orderBy_stable [of ?xs ?ps ex, OF sc pk_predicate [OF assms, symmetric]] unfolding if_False id_apply by (elim exE conjE) (rule that)
  have sorted: "sorted (map (\<lambda>it. - it_pk it) ys)" using ys(3) unfolding le sorted_wrt_map .
  have same: "filter (\<lambda>x. - it_pk k = - it_pk x) ys = filter (\<lambda>x. - it_pk k = - it_pk x) ?xs" for k
  proof -
    have "- it_pk k = - it_pk x \<longleftrightarrow> keys_of ?ps x = [(Some (JNum (it_pk k)), ''number'')]" for x by (auto simp: keys)
    then show ?thesis using ys(4) by (simp only:)
  qed
  have "sort_key (\<lambda>it. - it_pk it) ?xs = ys" by (rule properties_for_sort_key [OF ys(2) same sorted])
  then show ?thesis using ys(1) by (simp add: rows_def filterFilter_def)
qed

definition sample_root :: root where
  "sample_root = fresh_root\<lparr>items := [\<lparr>it_pk = 1, it_platform = JStr ''ios'', it_file = ''a'', it_created = 0\<rparr>,
     \<lparr>it_pk = 2, it_platform = JStr ''pc'', it_file = ''b'', it_created = 0\<rparr>,
     \<lparr>it_pk = 3, it_platform = JStr ''ios'', it_file = ''c'', it_created = 0\<rparr>]\<rparr>"

lemma table_newest_first_witness:
  "rows \<lparr>parse = (\<lambda>t. Getter (\<lambda>it. Some (JNum (it_pk it)))), itself = (\<lambda>it. None), property = (\<lambda>it k. None)\<rparr> (\<lambda>it. Undef) ios sample_root
     = Inr (Elements [\<lparr>it_pk = 3, it_platform = JStr ''ios'', it_file = ''c'', it_created = 0\<rparr>,
         \<lparr>it_pk = 1, it_platform = JStr ''ios'', it_file = ''a'', it_created = 0\<rparr>])"
  using table_newest_first [of "\<lparr>parse = (\<lambda>t. Getter (\<lambda>it. Some (JNum (it_pk it)))), itself = (\<lambda>it. None), property = (\<lambda>it k. None)\<rparr>"
      "\<lambda>it. Undef" ios sample_root]
  by (simp add: sample_root_def fresh_root_def ios_def)

end
