(* ===== verification/UibModal.thy ===== *)
theory UibModal imports Main Prelude JsValue begin

text \<open>
  The modal dialogs of ui-bootstrap.js that app.js opens: the map with a stack order and the map with
  several values, \<open>$uibModalStack\<close> with what it shows (windows, backdrop, class of the body), and
  \<open>$uibModal.open\<close>, which opens one dialog after the other. A dialog is named by the number of its call
  of \<open>open\<close>. The promises that the code waits for are events: the template and the resolved values of a
  dialog arrive, its turn comes, its turn is over, and an element has left with its animation; when they
  happen is open. The listeners of \<open>modal.closing\<close> and the controllers are the caller's, what they
  answer is part of the event.
\<close>

section \<open>Maps\<close>

text \<open>\<open>$$stackedMap\<close>: the last entry is the top. Removing an absent key removes the last entry.\<close>

definition sm_add :: "'k \<Rightarrow> 'v \<Rightarrow> ('k \<times> 'v) list \<Rightarrow> ('k \<times> 'v) list" where
  "sm_add key v stack = stack @ [(key, v)]"

fun sm_get :: "'k \<Rightarrow> ('k \<times> 'v) list \<Rightarrow> ('k \<times> 'v) option" where
  "sm_get key [] = None"
| "sm_get key (x # stack) = (if fst x = key then Some x else sm_get key stack)"

definition sm_keys :: "('k \<times> 'v) list \<Rightarrow> 'k list" where
  "sm_keys stack = map fst stack"

definition sm_top :: "('k \<times> 'v) list \<Rightarrow> ('k \<times> 'v) option" where
  "sm_top stack = (if stack = [] then None else Some (last stack))"

fun remove_first :: "'k \<Rightarrow> ('k \<times> 'v) list \<Rightarrow> ('k \<times> 'v) list" where
  "remove_first key [] = []"
| "remove_first key (x # stack) = (if fst x = key then stack else x # remove_first key stack)"

definition sm_remove :: "'k \<Rightarrow> ('k \<times> 'v) list \<Rightarrow> ('k \<times> 'v) list" where
  "sm_remove key stack = (if key \<in> set (map fst stack) then remove_first key stack else butlast stack)"

definition sm_removeTop :: "('k \<times> 'v) list \<Rightarrow> ('k \<times> 'v) list" where
  "sm_removeTop stack = butlast stack"

definition sm_length :: "('k \<times> 'v) list \<Rightarrow> nat" where
  "sm_length stack = length stack"

text \<open>\<open>$$multiMap\<close>, an object from keys to lists that are not empty.\<close>

definition mm_entries :: "(string \<times> 'v list) list \<Rightarrow> (string \<times> 'v list) list" where
  "mm_entries m = m"

definition mm_get :: "string \<Rightarrow> (string \<times> 'v list) list \<Rightarrow> 'v list option" where
  "mm_get key m = map_of m key"

definition mm_hasKey :: "string \<Rightarrow> (string \<times> 'v list) list \<Rightarrow> bool" where
  "mm_hasKey key m \<longleftrightarrow> map_of m key \<noteq> None"

definition mm_keys :: "(string \<times> 'v list) list \<Rightarrow> string list" where
  "mm_keys m = map fst m"

definition mm_put :: "string \<Rightarrow> 'v \<Rightarrow> (string \<times> 'v list) list \<Rightarrow> (string \<times> 'v list) list" where
  "mm_put key v m =
     (case map_of m key of
        None \<Rightarrow> m @ [(key, [v])]
      | Some vs \<Rightarrow> map (\<lambda>(k, ws). (k, if k = key then ws @ [v] else ws)) m)"

definition mm_remove :: "string \<Rightarrow> 'v \<Rightarrow> (string \<times> 'v list) list \<Rightarrow> (string \<times> 'v list) list" where
  "mm_remove key v m =
     (case map_of m key of
        None \<Rightarrow> m
      | Some vs \<Rightarrow>
          (let vs' = remove1 v vs in
           if vs' = [] then filter (\<lambda>(k, ws). k \<noteq> key) m
           else map (\<lambda>(k, ws). (k, if k = key then vs' else ws)) m))"

section \<open>State\<close>

datatype backdrop = NoBackdrop | Backdrop | StaticBackdrop

datatype settled = Pending | Resolved json | Rejected json

text \<open>What \<open>open\<close> returns: the promises of the result, of the opening and of the rendering.\<close>

record modal_instance =
  mi_result :: settled
  mi_opened :: settled
  mi_rendered :: settled

record modal_options =
  mo_template :: bool
  mo_backdrop :: "backdrop option"
  mo_keyboard :: "bool option"
  mo_openedClass :: "string option"
  mo_windowTopClass :: "string option"

record window =
  w_backdrop :: backdrop
  w_keyboard :: bool
  w_openedClass :: "string option"
  w_windowTopClass :: "string option"
  w_topped :: bool

datatype phase = Waiting | Ran | Finished

record request =
  rq_options :: modal_options
  rq_before :: "nat option"
  rq_inputs :: settled
  rq_phase :: phase

text \<open>Elements of the page, and those that leave it with an animation.\<close>

datatype element = WindowEl nat | BackdropEl nat

datatype leaving = LeaveWindow nat string | LeaveBackdrop nat

record modals =
  openedWindows :: "(nat \<times> window) list"
  openedClasses :: "(string \<times> nat list) list"
  backdropDomEl :: "nat option"
  backdropIndexShown :: int
  backdropsMade :: nat
  body_classes :: "string list"
  body_elements :: "element list"
  leaves :: "leaving list"
  focusableElementList :: "nat list option"
  instances :: "modal_instance list"
  requests :: "request list"
  promiseChain :: "nat option"

definition initial_modals :: modals where
  "initial_modals = \<lparr>openedWindows = [], openedClasses = [], backdropDomEl = None, backdropIndexShown = - 1, backdropsMade = 0,
     body_classes = [], body_elements = [], leaves = [], focusableElementList = None, instances = [], requests = [],
     promiseChain = None\<rparr>"

definition OPENED_MODAL_CLASS :: string where
  "OPENED_MODAL_CLASS = ''modal-open''"

text \<open>\<open>openedClass || OPENED_MODAL_CLASS\<close>\<close>

definition body_class :: "string option \<Rightarrow> string" where
  "body_class c = (case c of None \<Rightarrow> OPENED_MODAL_CLASS | Some t \<Rightarrow> if t = [] then OPENED_MODAL_CLASS else t)"

definition toggle_class :: "string \<Rightarrow> bool \<Rightarrow> string list \<Rightarrow> string list" where
  "toggle_class c on cs = (if on then List.insert c cs else removeAll c cs)"

text \<open>A promise that is settled stays as it is.\<close>

definition settle_with :: "settled \<Rightarrow> settled \<Rightarrow> settled" where
  "settle_with v old = (if old = Pending then v else old)"

definition set_instance :: "nat \<Rightarrow> (modal_instance \<Rightarrow> modal_instance) \<Rightarrow> modals \<Rightarrow> modals" where
  "set_instance k f s = s\<lparr>instances := (instances s)[k := f (instances s ! k)]\<rparr>"

section \<open>The stack of dialogs\<close>

definition backdropIndex :: "(nat \<times> window) list \<Rightarrow> int" where
  "backdropIndex ws =
     (let opened = sm_keys ws in
      foldl (\<lambda>topBackdropIndex i.
          (case sm_get (opened ! i) ws of
             Some (k, w) \<Rightarrow> if w_backdrop w \<noteq> NoBackdrop then int i else topBackdropIndex
           | None \<Rightarrow> topBackdropIndex))
        (- 1) [0..<length opened])"

text \<open>The listener of the watch runs in a digest.\<close>

definition watch_backdropIndex :: "modals \<Rightarrow> modals" where
  "watch_backdropIndex s =
     (if backdropDomEl s \<noteq> None then s\<lparr>backdropIndexShown := backdropIndex (openedWindows s)\<rparr> else s)"

definition toggleTopWindowClass :: "bool \<Rightarrow> modals \<Rightarrow> modals" where
  "toggleTopWindowClass toggleSwitch s =
     (if sm_length (openedWindows s) > 0 then
        (case last (openedWindows s) of (k, w) \<Rightarrow>
           if w_windowTopClass w = None \<or> w_windowTopClass w = Some [] then s
           else s\<lparr>openedWindows := butlast (openedWindows s) @ [(k, w\<lparr>w_topped := toggleSwitch\<rparr>)]\<rparr>)
      else s)"

definition checkRemoveBackdrop :: "modals \<Rightarrow> modals" where
  "checkRemoveBackdrop s =
     (case backdropDomEl s of
        None \<Rightarrow> s
      | Some b \<Rightarrow>
          if backdropIndex (openedWindows s) = - 1
          then s\<lparr>leaves := leaves s @ [LeaveBackdrop b], backdropDomEl := None\<rparr> else s)"

definition removeModalWindow :: "nat \<Rightarrow> modals \<Rightarrow> modals" where
  "removeModalWindow modalInstance s =
     (case sm_get modalInstance (openedWindows s) of
        None \<Rightarrow> s
      | Some (k, w) \<Rightarrow>
          checkRemoveBackdrop (s\<lparr>openedWindows := sm_remove modalInstance (openedWindows s),
            leaves := leaves s @ [LeaveWindow modalInstance (body_class (w_openedClass w))]\<rparr>))"

text \<open>\<open>afterAnimating\<close> with the \<open>done\<close> of a window or of a backdrop.\<close>

definition afterAnimating :: "leaving \<Rightarrow> modals \<Rightarrow> modals" where
  "afterAnimating l s0 =
     (let s = s0\<lparr>leaves := remove1 l (leaves s0)\<rparr> in
      case l of
        LeaveBackdrop b \<Rightarrow> s\<lparr>body_elements := removeAll (BackdropEl b) (body_elements s)\<rparr>
      | LeaveWindow k c \<Rightarrow>
          (let classes = mm_remove c k (openedClasses s) in
           toggleTopWindowClass True (s\<lparr>body_elements := removeAll (WindowEl k) (body_elements s), openedClasses := classes,
             body_classes := toggle_class c (mm_hasKey c classes) (body_classes s)\<rparr>)))"

definition stack_open :: "nat \<Rightarrow> modal_options \<Rightarrow> modals \<Rightarrow> modals" where
  "stack_open modalInstance modal s0 =
     (let c = body_class (mo_openedClass modal);
          w = \<lparr>w_backdrop = the (mo_backdrop modal), w_keyboard = the (mo_keyboard modal), w_openedClass = mo_openedClass modal,
               w_windowTopClass = mo_windowTopClass modal, w_topped = True\<rparr>;
          s1 = toggleTopWindowClass False s0;
          s2 = s1\<lparr>openedWindows := sm_add modalInstance w (openedWindows s1), openedClasses := mm_put c modalInstance (openedClasses s1)\<rparr>;
          i = backdropIndex (openedWindows s2);
          s3 = (if 0 \<le> i \<and> backdropDomEl s2 = None
                then s2\<lparr>backdropDomEl := Some (backdropsMade s2), backdropIndexShown := i, backdropsMade := Suc (backdropsMade s2),
                  body_elements := body_elements s2 @ [BackdropEl (backdropsMade s2)]\<rparr>
                else s2)
      in s3\<lparr>body_elements := body_elements s3 @ [WindowEl modalInstance], body_classes := List.insert c (body_classes s3),
            focusableElementList := Some []\<rparr>)"

text \<open>\<open>close\<close> and \<open>dismiss\<close>: \<open>allowed\<close> tells that no listener of \<open>modal.closing\<close> prevents it.\<close>

definition stack_close :: "nat \<Rightarrow> json \<Rightarrow> bool \<Rightarrow> modals \<Rightarrow> bool \<times> modals" where
  "stack_close modalInstance res allowed s =
     (case sm_get modalInstance (openedWindows s) of
        None \<Rightarrow> (True, s)
      | Some mw \<Rightarrow>
          if allowed then
            (True, removeModalWindow modalInstance
               (set_instance modalInstance (\<lambda>m. m\<lparr>mi_result := settle_with (Resolved res) (mi_result m)\<rparr>) s))
          else (False, s))"

definition stack_dismiss :: "nat \<Rightarrow> json \<Rightarrow> bool \<Rightarrow> modals \<Rightarrow> bool \<times> modals" where
  "stack_dismiss modalInstance reason allowed s =
     (case sm_get modalInstance (openedWindows s) of
        None \<Rightarrow> (True, s)
      | Some mw \<Rightarrow>
          if allowed then
            (True, removeModalWindow modalInstance
               (set_instance modalInstance (\<lambda>m. m\<lparr>mi_result := settle_with (Rejected reason) (mi_result m)\<rparr>) s))
          else (False, s))"

lemma length_remove_first: "key \<in> set (map fst xs) \<Longrightarrow> length (remove_first key xs) < length xs"
  by (induction xs) auto

lemma sm_get_Some: "sm_get key xs = Some x \<Longrightarrow> x \<in> set xs \<and> fst x = key"
  by (induction xs) (auto split: if_splits)

lemma windows_toggle [simp]: "length (openedWindows (toggleTopWindowClass b s)) = length (openedWindows s)"
  by (auto simp: toggleTopWindowClass_def sm_length_def split: prod.splits)

lemma windows_checkRemove [simp]: "openedWindows (checkRemoveBackdrop s) = openedWindows s"
  by (simp add: checkRemoveBackdrop_def split: option.splits)

lemma windows_remove:
  assumes "sm_get k (openedWindows s) = Some x"
  shows "openedWindows (removeModalWindow k s) = remove_first k (openedWindows s)"
proof -
  have "k \<in> set (map fst (openedWindows s))" using sm_get_Some [OF assms] by force
  then show ?thesis using assms by (simp add: removeModalWindow_def sm_remove_def split: prod.splits)
qed

lemma windows_dismiss:
  assumes "stack_dismiss k reason allowed s = (True, s')" and "sm_get k (openedWindows s) \<noteq> None"
  shows "openedWindows s' = remove_first k (openedWindows s)" "length (openedWindows s') < length (openedWindows s)"
proof -
  obtain x where x: "sm_get k (openedWindows s) = Some x" using assms(2) by blast
  have s': "s' = removeModalWindow k (set_instance k (\<lambda>m. m\<lparr>mi_result := settle_with (Rejected reason) (mi_result m)\<rparr>) s)"
    using assms(1) x by (simp add: stack_dismiss_def split: if_splits)
  show "openedWindows s' = remove_first k (openedWindows s)" unfolding s' by (subst windows_remove) (simp_all add: set_instance_def x)
  moreover have "k \<in> set (map fst (openedWindows s))" using sm_get_Some [OF x] by force
  ultimately show "length (openedWindows s') < length (openedWindows s)" using length_remove_first by metis
qed

lemma sm_top_get: "sm_top xs = Some (k, w) \<Longrightarrow> sm_get k xs \<noteq> None"
proof -
  have "(k, w) \<in> set xs \<Longrightarrow> sm_get k xs \<noteq> None" by (induction xs) auto
  moreover assume "sm_top xs = Some (k, w)"
  then have "xs \<noteq> []" "last xs = (k, w)" by (auto simp: sm_top_def split: if_splits)
  then have "(k, w) \<in> set xs" using last_in_set by metis
  ultimately show "sm_get k xs \<noteq> None" by blast
qed

function dismissAll :: "json \<Rightarrow> (nat \<Rightarrow> bool) \<Rightarrow> modals \<Rightarrow> modals" where
  "dismissAll reason allowed s =
     (case sm_top (openedWindows s) of
        None \<Rightarrow> s
      | Some (k, w) \<Rightarrow>
          (case stack_dismiss k reason (allowed k) s of
             (ok, s') \<Rightarrow> if ok then dismissAll reason allowed s' else s'))"
  by pat_completeness auto
termination
  by (relation "measure (\<lambda>(reason, allowed, s). length (openedWindows s))")
    (auto intro: windows_dismiss(2) dest: sm_top_get)

declare dismissAll.simps [simp del]

definition modalRendered :: "nat \<Rightarrow> modals \<Rightarrow> modals" where
  "modalRendered modalInstance s =
     (case sm_get modalInstance (openedWindows s) of
        None \<Rightarrow> s
      | Some mw \<Rightarrow> set_instance modalInstance (\<lambda>m. m\<lparr>mi_rendered := settle_with (Resolved JNull) (mi_rendered m)\<rparr>) s)"

text \<open>The end of the rendering of a window, reported for the dialog on top.\<close>

definition window_rendered :: "modals \<Rightarrow> modals" where
  "window_rendered s = (case sm_top (openedWindows s) of None \<Rightarrow> s | Some (k, w) \<Rightarrow> modalRendered k s)"

section \<open>Focus and keys\<close>

text \<open>\<open>found\<close> are the elements that the selector finds in the dialog.\<close>

definition loadFocusElementList :: "nat list \<Rightarrow> modals \<Rightarrow> modals" where
  "loadFocusElementList found s =
     (case focusableElementList s of
        Some (x # xs) \<Rightarrow> s
      | _ \<Rightarrow> s\<lparr>focusableElementList := Some found\<rparr>)"

definition isFocusInFirstItem :: "nat \<Rightarrow> nat list \<Rightarrow> bool" where
  "isFocusInFirstItem target found = (if 0 < length found then target = found ! 0 else False)"

definition isFocusInLastItem :: "nat \<Rightarrow> nat list \<Rightarrow> bool" where
  "isFocusInLastItem target found = (if 0 < length found then target = found ! (length found - 1) else False)"

definition focusFirstFocusableElement :: "nat list \<Rightarrow> nat option" where
  "focusFirstFocusableElement found = (if 0 < length found then Some (found ! 0) else None)"

definition focusLastFocusableElement :: "nat list \<Rightarrow> nat option" where
  "focusLastFocusableElement found = (if 0 < length found then Some (found ! (length found - 1)) else None)"

text \<open>
  The handler of \<open>keydown\<close>: the new state, whether the event's default is prevented, and the element
  that the handler focuses.
\<close>

record keydown =
  kd_prevented :: bool
  kd_which :: nat
  kd_shift :: bool
  kd_target :: nat
  kd_found :: "nat list"
  kd_allowed :: bool

definition on_keydown :: "keydown \<Rightarrow> modals \<Rightarrow> modals \<times> bool \<times> nat option" where
  "on_keydown evt s =
     (if kd_prevented evt then (s, True, None)
      else
        (case sm_top (openedWindows s) of
           None \<Rightarrow> (s, False, None)
         | Some (k, w) \<Rightarrow>
             if \<not> w_keyboard w then (s, False, None)
             else if kd_which evt = 27 then
               (snd (stack_dismiss k (JStr ''escape key press'') (kd_allowed evt) s), True, None)
             else if kd_which evt = 9 then
               (let s1 = loadFocusElementList (kd_found evt) s; found = the (focusableElementList s1);
                    moved = (if kd_shift evt
                             then (if isFocusInFirstItem (kd_target evt) found then focusLastFocusableElement found else None)
                             else (if isFocusInLastItem (kd_target evt) found then focusFirstFocusableElement found else None))
                in (s1, moved \<noteq> None, moved))
             else (s, False, None)))"

text \<open>The click on a window, outside of its content if \<open>outside\<close>.\<close>

definition window_click :: "bool \<Rightarrow> bool \<Rightarrow> modals \<Rightarrow> modals" where
  "window_click outside allowed s =
     (case sm_top (openedWindows s) of
        None \<Rightarrow> s
      | Some (k, w) \<Rightarrow>
          if w_backdrop w = Backdrop \<and> outside then snd (stack_dismiss k (JStr ''backdrop click'') allowed s) else s)"

section \<open>Opening dialogs\<close>

text \<open>The defaults of the provider: \<open>angular.extend({}, options, modalOptions)\<close>.\<close>

definition merge_options :: "modal_options \<Rightarrow> modal_options" where
  "merge_options opts = opts\<lparr>
     mo_backdrop := (case mo_backdrop opts of None \<Rightarrow> Some Backdrop | Some b \<Rightarrow> Some b),
     mo_keyboard := (case mo_keyboard opts of None \<Rightarrow> Some True | Some b \<Rightarrow> Some b)\<rparr>"

text \<open>Without a template it throws.\<close>

definition modal_open :: "modal_options \<Rightarrow> modals \<Rightarrow> (string + nat) \<times> modals" where
  "modal_open opts s =
     (let o' = merge_options opts; k = length (requests s) in
      if \<not> mo_template o' then (Inl ''One of template or templateUrl options is required.'', s)
      else (Inr k, s\<lparr>
        instances := instances s @ [\<lparr>mi_result = Pending, mi_opened = Pending, mi_rendered = Pending\<rparr>],
        requests := requests s @ [\<lparr>rq_options = o', rq_before = promiseChain s, rq_inputs = Pending, rq_phase = Waiting\<rparr>],
        promiseChain := Some k\<rparr>))"

text \<open>The promise of the template and the resolved values settles.\<close>

definition inputs_settle :: "nat \<Rightarrow> settled \<Rightarrow> modals \<Rightarrow> modals" where
  "inputs_settle k v s =
     (if k < length (requests s)
      then s\<lparr>requests := (requests s)[k := (requests s ! k)\<lparr>rq_inputs := settle_with v (rq_inputs (requests s ! k))\<rparr>]\<rparr> else s)"

definition may_run :: "nat \<Rightarrow> modals \<Rightarrow> bool" where
  "may_run k s \<longleftrightarrow> k < length (requests s) \<and> rq_phase (requests s ! k) = Waiting \<and> rq_inputs (requests s ! k) \<noteq> Pending
     \<and> (case rq_before (requests s ! k) of None \<Rightarrow> True | Some j \<Rightarrow> rq_phase (requests s ! j) = Finished)"

text \<open>
  \<open>resolveSuccess\<close> and \<open>resolveError\<close>. A controller that throws ends \<open>resolveSuccess\<close> before the
  window is opened; the error handler beside it is not called.
\<close>

definition run_request :: "nat \<Rightarrow> bool \<Rightarrow> modals \<Rightarrow> modals" where
  "run_request k controller_returns s0 =
     (if \<not> may_run k s0 then s0
      else
        (let rq = requests s0 ! k; s = s0\<lparr>requests := (requests s0)[k := rq\<lparr>rq_phase := Ran\<rparr>]\<rparr> in
         case rq_inputs rq of
           Resolved content \<Rightarrow>
             if controller_returns
             then set_instance k (\<lambda>m. m\<lparr>mi_opened := settle_with (Resolved (JBool True)) (mi_opened m)\<rparr>) (stack_open k (rq_options rq) s)
             else s
         | Rejected reason \<Rightarrow>
             set_instance k (\<lambda>m. m\<lparr>mi_opened := settle_with (Rejected reason) (mi_opened m),
               mi_result := settle_with (Rejected reason) (mi_result m)\<rparr>) s
         | Pending \<Rightarrow> s))"

text \<open>The \<open>finally\<close> of the chain.\<close>

definition finish_request :: "nat \<Rightarrow> modals \<Rightarrow> modals" where
  "finish_request k s =
     (if k < length (requests s) \<and> rq_phase (requests s ! k) = Ran
      then s\<lparr>requests := (requests s)[k := (requests s ! k)\<lparr>rq_phase := Finished\<rparr>],
             promiseChain := (if promiseChain s = Some k then None else promiseChain s)\<rparr>
      else s)"

section \<open>Events\<close>

text \<open>
  The caller's calls; the destruction of the scope of a window by its parent, which dismisses the window
  unless it is closed already; and what the browser and the promises do.
\<close>

datatype modal_event =
    Open modal_options
  | Close nat json bool
  | Dismiss nat json bool
  | DismissAll json "nat \<Rightarrow> bool"
  | ScopeDestroyed nat bool
  | Keydown keydown
  | WindowClick bool bool
  | InputsSettle nat settled
  | RunRequest nat bool
  | FinishRequest nat
  | Rendered
  | Left leaving
  | Digest

fun modal_event_step :: "modal_event \<Rightarrow> modals \<Rightarrow> modals" where
  "modal_event_step (Open opts) s = snd (modal_open opts s)"
| "modal_event_step (Close k res allowed) s = snd (stack_close k res allowed s)"
| "modal_event_step (Dismiss k reason allowed) s = snd (stack_dismiss k reason allowed s)"
| "modal_event_step (DismissAll reason allowed) s = dismissAll reason allowed s"
| "modal_event_step (ScopeDestroyed k allowed) s = snd (stack_dismiss k (JStr ''$uibUnscheduledDestruction'') allowed s)"
| "modal_event_step (Keydown evt) s = fst (on_keydown evt s)"
| "modal_event_step (WindowClick outside allowed) s = window_click outside allowed s"
| "modal_event_step (InputsSettle k v) s = inputs_settle k v s"
| "modal_event_step (RunRequest k controller_returns) s = run_request k controller_returns s"
| "modal_event_step (FinishRequest k) s = finish_request k s"
| "modal_event_step Rendered s = window_rendered s"
| "modal_event_step (Left l) s = (if l \<in> set (leaves s) then afterAnimating l s else s)"
| "modal_event_step Digest s = watch_backdropIndex s"

definition modal_run :: "modal_event list \<Rightarrow> modals \<Rightarrow> modals" where
  "modal_run evs s = fold modal_event_step evs s"

end
