(* ===== verification/UibTurns.thy ===== *)
theory UibTurns imports Main Prelude UibModal begin

text \<open>
  The turns of the dialogs of ui-bootstrap.js: the chain of promises lets them run one after the other, in
  the order of the calls of \<open>open\<close>, for any order of the events.
\<close>

section \<open>The turns of the dialogs\<close>

text \<open>A dialog has its turn after the one before it; the chain names the last one, or that is over.\<close>

definition chain_ok :: "modals \<Rightarrow> bool" where
  "chain_ok s \<longleftrightarrow> length (instances s) = length (requests s)
     \<and> (\<forall>k. promiseChain s = Some k \<longrightarrow> length (requests s) = Suc k)
     \<and> (\<forall>k. length (requests s) = Suc k \<longrightarrow> promiseChain s = None \<longrightarrow> rq_phase (requests s ! k) = Finished)
     \<and> (\<forall>k<length (requests s). \<forall>j. rq_before (requests s ! k) = Some j \<longrightarrow> k = Suc j)
     \<and> (\<forall>k. Suc k < length (requests s) \<longrightarrow> rq_before (requests s ! Suc k) \<noteq> None \<or> rq_phase (requests s ! k) = Finished)
     \<and> (\<forall>k. Suc k < length (requests s) \<longrightarrow> rq_phase (requests s ! Suc k) = Waiting \<or> rq_phase (requests s ! k) = Finished)"

lemma earlier_finished:
  assumes "chain_ok s" and "j < k" and "k < length (requests s)" and "rq_phase (requests s ! k) \<noteq> Waiting"
  shows "rq_phase (requests s ! j) = Finished"
  using assms(2-4)
proof (induction k)
  case (Suc k)
  then have k: "rq_phase (requests s ! k) = Finished" using assms(1) unfolding chain_ok_def by blast
  then show ?case using Suc by (cases "j = k") auto
qed simp

text \<open>Most events leave the turns alone.\<close>

definition same_turns :: "modals \<Rightarrow> modals \<Rightarrow> bool" where
  "same_turns s s' \<longleftrightarrow> requests s' = requests s \<and> promiseChain s' = promiseChain s \<and> length (instances s') = length (instances s)"

lemma same_turns_refl [simp]: "same_turns s s"
  by (simp add: same_turns_def)

lemma same_turns_trans: "same_turns s t \<Longrightarrow> same_turns t u \<Longrightarrow> same_turns s u"
  by (simp add: same_turns_def)

lemma same_turns_ops:
  "same_turns s (toggleTopWindowClass b s)" "same_turns s (checkRemoveBackdrop s)" "same_turns s (removeModalWindow k s)"
  "same_turns s (set_instance k f s)" "same_turns s (afterAnimating l s)" "same_turns s (stack_open k opts s)"
  "same_turns s (watch_backdropIndex s)" "same_turns s (loadFocusElementList found s)"
  by (simp_all add: same_turns_def toggleTopWindowClass_def checkRemoveBackdrop_def removeModalWindow_def set_instance_def
      afterAnimating_def stack_open_def watch_backdropIndex_def loadFocusElementList_def Let_def
      split: option.splits prod.splits leaving.splits list.splits)

lemma same_turns_close:
  "same_turns s (snd (stack_close k res allowed s))" "same_turns s (snd (stack_dismiss k reason allowed s))"
proof -
  have "same_turns s (removeModalWindow k (set_instance k f s))" for f
    by (rule same_turns_trans [OF same_turns_ops(4) same_turns_ops(3)])
  then show "same_turns s (snd (stack_close k res allowed s))" "same_turns s (snd (stack_dismiss k reason allowed s))"
    by (simp_all add: stack_close_def stack_dismiss_def split: option.splits)
qed

lemma same_turns_dismissAll: "same_turns s (dismissAll reason allowed s)"
proof (induction reason allowed s rule: dismissAll.induct)
  case (1 reason allowed s)
  show ?case
  proof (cases "sm_top (openedWindows s)")
    case (Some x)
    obtain k w where x: "x = (k, w)" by fastforce
    obtain ok s' where d: "stack_dismiss k reason (allowed k) s = (ok, s')" by fastforce
    have "same_turns s s'" using same_turns_close(2) [of s k reason "allowed k"] by (simp add: d)
    then show ?thesis using 1 [OF Some x [symmetric] d [symmetric]] same_turns_trans Some x d by (cases ok) (auto simp: dismissAll.simps [of _ _ s])
  qed (simp add: dismissAll.simps)
qed

lemma same_turns_chain: "same_turns s s' \<Longrightarrow> chain_ok s \<Longrightarrow> chain_ok s'"
  by (simp add: same_turns_def chain_ok_def)

text \<open>The events that do change the turns.\<close>

definition turning :: "modal_event \<Rightarrow> bool" where
  "turning ev \<longleftrightarrow> (case ev of Open opts \<Rightarrow> True | InputsSettle k v \<Rightarrow> True | RunRequest k c \<Rightarrow> True | FinishRequest k \<Rightarrow> True | _ \<Rightarrow> False)"

lemma same_turns_step: "\<not> turning ev \<Longrightarrow> same_turns s (modal_event_step ev s)"
proof (cases ev)
  case (Keydown evt)
  have "same_turns s (fst (on_keydown evt s))"
    using same_turns_close(2) same_turns_ops(8)
    by (auto simp: on_keydown_def Let_def split: option.splits prod.splits)
  then show ?thesis using Keydown by simp
qed (use same_turns_ops same_turns_close same_turns_dismissAll in
    \<open>auto simp: turning_def window_click_def window_rendered_def modalRendered_def split: option.splits prod.splits\<close>)

lemma chain_step: "chain_ok s \<Longrightarrow> chain_ok (modal_event_step ev s)"
proof (cases "turning ev")
  case False
  then show "chain_ok s \<Longrightarrow> ?thesis" using same_turns_step same_turns_chain by blast
next
  case True
  assume c: "chain_ok s"
  show ?thesis
  proof (cases ev)
    case (Open opts)
    have "promiseChain s \<noteq> None \<or> rq_phase (requests s ! k) = Finished" if "Suc k = length (requests s)" for k
      using c that unfolding chain_ok_def by (metis (no_types))
    then show ?thesis using c Open
      by (auto simp: chain_ok_def modal_open_def Let_def nth_append less_Suc_eq)
  next
    case (InputsSettle k v)
    then show ?thesis using c by (auto simp: chain_ok_def inputs_settle_def nth_list_update)
  next
    case (RunRequest k ret)
    show ?thesis
    proof (cases "may_run k s")
      case r: True
      let ?s = "s\<lparr>requests := (requests s)[k := (requests s ! k)\<lparr>rq_phase := Ran\<rparr>]\<rparr>"
      have k: "k < length (requests s)" "rq_phase (requests s ! k) = Waiting" using r by (simp_all add: may_run_def)
      have "rq_phase (requests s ! j) = Finished" if j: "k = Suc j" for j
      proof (cases "rq_before (requests s ! k)")
        case None
        then show ?thesis using c k(1) j unfolding chain_ok_def by blast
      next
        case (Some i)
        then have "k = Suc i" using c k(1) unfolding chain_ok_def by blast
        then show ?thesis using r Some j by (simp add: may_run_def)
      qed
      moreover have "length (requests s) = Suc k \<longrightarrow> promiseChain s \<noteq> None"
        using c k(2) unfolding chain_ok_def by (metis phase.distinct(3))
      moreover have "rq_before (requests ?s ! i) = rq_before (requests s ! i)"
        "rq_phase (requests ?s ! i) = (if i = k then Ran else rq_phase (requests s ! i))" for i
        using k(1) by (cases "i = k"; simp)+
      moreover have "rq_phase (requests s ! k) \<noteq> Finished" using k(2) by simp
      then have "Suc k < length (requests s) \<longrightarrow> rq_before (requests s ! Suc k) \<noteq> None \<and> rq_phase (requests s ! Suc k) = Waiting"
        using c unfolding chain_ok_def by blast
      ultimately have "chain_ok ?s"
        using c k unfolding chain_ok_def by simp
      moreover have "same_turns ?s (modal_event_step ev s)"
        using r same_turns_ops(4,6) same_turns_trans [OF same_turns_ops(6) same_turns_ops(4)]
        by (simp add: RunRequest run_request_def Let_def split: settled.splits)
      ultimately show ?thesis using same_turns_chain by blast
    qed (simp add: RunRequest run_request_def c)
  next
    case (FinishRequest k)
    show ?thesis
    proof (cases "k < length (requests s) \<and> rq_phase (requests s ! k) = Ran")
      case r: True
      let ?s = "s\<lparr>requests := (requests s)[k := (requests s ! k)\<lparr>rq_phase := Finished\<rparr>],
        promiseChain := (if promiseChain s = Some k then None else promiseChain s)\<rparr>"
      have "Suc k < length (requests s) \<longrightarrow> rq_phase (requests s ! Suc k) = Waiting"
        using c r earlier_finished [OF c, of k "Suc k"] by force
      moreover have "rq_before (requests ?s ! i) = rq_before (requests s ! i)"
        "rq_phase (requests ?s ! i) = (if i = k then Finished else rq_phase (requests s ! i))" for i
        using r by (cases "i = k"; simp)+
      moreover have "length (requests s) = Suc i \<longrightarrow> promiseChain s = Some k \<longrightarrow> i = k" for i
        using c unfolding chain_ok_def by auto
      moreover have "Suc i = k \<longrightarrow> rq_phase (requests s ! i) = Finished" for i
        using earlier_finished [OF c, of i k] r by auto
      ultimately have "chain_ok ?s" using c r unfolding chain_ok_def by simp
      then show ?thesis using r by (simp add: FinishRequest finish_request_def)
    next
      case False
      then have "modal_event_step ev s = s" by (auto simp: FinishRequest finish_request_def)
      then show ?thesis using c by simp
    qed
  qed (use True in \<open>simp_all add: turning_def\<close>)
qed

section \<open>The order of the turns\<close>

text \<open>The dialogs whose windows an event opens: the turn of a dialog comes, its template has arrived, its controller returns.\<close>

definition turn_opens :: "modal_event \<Rightarrow> modals \<Rightarrow> nat list" where
  "turn_opens ev s = (case ev of
     RunRequest k ret \<Rightarrow> if ret \<and> may_run k s \<and> (case rq_inputs (requests s ! k) of Resolved v \<Rightarrow> True | _ \<Rightarrow> False) then [k] else [] | _ \<Rightarrow> [])"

fun turn_order :: "modal_event list \<Rightarrow> modals \<Rightarrow> nat list" where
  "turn_order [] s = []"
| "turn_order (ev # evs) s = turn_opens ev s @ turn_order evs (modal_event_step ev s)"

definition run_already :: "nat \<Rightarrow> modals \<Rightarrow> bool" where
  "run_already k s \<longleftrightarrow> k < length (requests s) \<and> rq_phase (requests s ! k) \<noteq> Waiting"

lemma run_already_step: "run_already k s \<Longrightarrow> run_already k (modal_event_step ev s)"
proof (cases "turning ev")
  case False
  then show "run_already k s \<Longrightarrow> ?thesis" using same_turns_step [OF False, of s] by (simp add: run_already_def same_turns_def)
next
  case True
  assume r: "run_already k s"
  show ?thesis
  proof (cases ev)
    case (RunRequest j ret)
    let ?s = "s\<lparr>requests := (requests s)[j := (requests s ! j)\<lparr>rq_phase := Ran\<rparr>]\<rparr>"
    have "run_already k ?s" using r by (cases "j = k") (simp_all add: run_already_def)
    moreover have "same_turns ?s (modal_event_step ev s)" if "may_run j s"
      using that same_turns_ops(4,6) same_turns_trans [OF same_turns_ops(6) same_turns_ops(4)]
      by (simp add: RunRequest run_request_def Let_def split: settled.splits)
    ultimately show ?thesis using r
      by (cases "may_run j s") (simp_all add: RunRequest run_request_def run_already_def same_turns_def)
  qed (use r True in \<open>auto simp: turning_def run_already_def modal_open_def inputs_settle_def finish_request_def nth_append
      nth_list_update Let_def\<close>)
qed

lemma turn_opens_run: "k \<in> set (turn_opens ev s) \<Longrightarrow> may_run k s \<and> run_already k (modal_event_step ev s)"
proof -
  assume "k \<in> set (turn_opens ev s)"
  then obtain ret where ev: "ev = RunRequest k ret" and m: "may_run k s" and k: "ret"
    by (cases ev) (auto simp: turn_opens_def split: if_splits)
  let ?s = "s\<lparr>requests := (requests s)[k := (requests s ! k)\<lparr>rq_phase := Ran\<rparr>]\<rparr>"
  have "same_turns ?s (modal_event_step ev s)"
    using m same_turns_ops(4,6) same_turns_trans [OF same_turns_ops(6) same_turns_ops(4)]
    by (simp add: ev run_request_def Let_def split: settled.splits)
  moreover have "run_already k ?s" using m by (simp add: run_already_def may_run_def)
  ultimately show ?thesis using m by (simp add: run_already_def same_turns_def)
qed

lemma opening_later: "chain_ok s \<Longrightarrow> run_already j s \<Longrightarrow> k \<in> set (turn_order evs s) \<Longrightarrow> j < k"
proof (induction evs arbitrary: s)
  case (Cons ev evs)
  show ?case
  proof (cases "k \<in> set (turn_opens ev s)")
    case True
    then have m: "k < length (requests s)" "rq_phase (requests s ! k) = Waiting" using turn_opens_run by (auto simp: may_run_def)
    then have "j \<noteq> k" using Cons.prems(2) by (auto simp: run_already_def)
    moreover have "\<not> k < j" using earlier_finished [OF Cons.prems(1), of k j] Cons.prems(2) m by (auto simp: run_already_def)
    ultimately show ?thesis by simp
  next
    case False
    then have "k \<in> set (turn_order evs (modal_event_step ev s))" using Cons.prems(3) by simp
    then show ?thesis using Cons.IH chain_step run_already_step Cons.prems(1,2) by blast
  qed
qed simp

lemma opening_sorted: "chain_ok s \<Longrightarrow> sorted_wrt (<) (turn_order evs s)"
proof (induction evs arbitrary: s)
  case (Cons ev evs)
  note c = chain_step [OF Cons.prems, of ev]
  have "j < k" if "j \<in> set (turn_opens ev s)" "k \<in> set (turn_order evs (modal_event_step ev s))" for j k
    using opening_later [OF c _ that(2)] turn_opens_run [OF that(1)] by blast
  moreover have "sorted_wrt (<) (turn_opens ev s)" by (cases ev) (auto simp: turn_opens_def)
  ultimately show ?case using Cons.IH [OF c] by (simp add: sorted_wrt_append)
qed simp

lemma chain_initial: "chain_ok initial_modals"
  by (simp add: chain_ok_def initial_modals_def)

end
