(* ===== verification/UibPage.thy ===== *)
theory UibPage imports Main Prelude UibModal begin

text \<open>
  What the dialogs of ui-bootstrap.js show: the invariant \<open>page_ok\<close> between the stack, the windows and
  backdrops in the page and the classes of the body, kept by opening, removing and leaving.
\<close>

section \<open>What the page shows\<close>

text \<open>A window as far as the page depends on it.\<close>

definition view :: "(nat \<times> window) list \<Rightarrow> (nat \<times> backdrop \<times> string) list" where
  "view ws = map (\<lambda>(k, w). (k, w_backdrop w, body_class (w_openedClass w))) ws"

lemma view_simps [simp]: "view [] = []" "view (ws @ vs) = view ws @ view vs" "map fst (view ws) = map fst ws" "length (view ws) = length ws"
  by (auto simp: view_def)

lemma view_keys [simp]: "fst ` set (view ws) = fst ` set ws"
  by (metis set_map view_simps(3))

lemma view_toggle: "view (openedWindows (toggleTopWindowClass b s)) = view (openedWindows s)"
proof (cases "openedWindows s" rule: rev_cases)
  case (snoc ws x)
  then show ?thesis by (cases x) (simp add: toggleTopWindowClass_def sm_length_def view_def)
qed (simp add: toggleTopWindowClass_def sm_length_def)

lemma view_remove: "view (remove_first k ws) = remove_first k (view ws)"
  by (induction ws) (auto simp: view_def)

lemma remove_first_distinct: "distinct (map fst xs) \<Longrightarrow> remove_first k xs = filter (\<lambda>x. fst x \<noteq> k) xs"
proof (induction xs)
  case (Cons x xs)
  have "filter (\<lambda>x. fst x \<noteq> k) xs = xs" if "fst x = k" using Cons.prems that by (force simp: filter_id_conv image_iff)
  then show ?case using Cons by simp
qed simp

lemma sm_get_nth: "distinct (map fst ws) \<Longrightarrow> i < length ws \<Longrightarrow> sm_get (fst (ws ! i)) ws = Some (ws ! i)"
proof (induction ws arbitrary: i)
  case (Cons x ws)
  show ?case
  proof (cases i)
    case (Suc j)
    have "fst (ws ! j) \<in> set (map fst ws)" using Cons.prems(2) Suc nth_mem [of j "map fst ws"] by (simp del: set_map)
    moreover have "fst x \<notin> set (map fst ws)" using Cons.prems(1) by simp
    ultimately have "fst x \<noteq> fst (ws ! j)" by metis
    then show ?thesis using Cons Suc by simp
  qed simp
qed simp

lemma last_index: "foldl (\<lambda>t i. if P i then int i else t) (- 1) [0..<n] = - 1 \<longleftrightarrow> (\<forall>i<n. \<not> P i)"
  "- 1 \<le> foldl (\<lambda>t i. if P i then int i else t) (- 1) [0..<n]"
  by (induction n) (auto simp: less_Suc_eq)

lemma backdropIndex_none:
  assumes "distinct (map fst ws)"
  shows "backdropIndex ws = - 1 \<longleftrightarrow> (\<forall>x\<in>set (view ws). fst (snd x) = NoBackdrop)" "- 1 \<le> backdropIndex ws"
proof -
  have "backdropIndex ws = foldl (\<lambda>t i. if w_backdrop (snd (ws ! i)) \<noteq> NoBackdrop then int i else t) (- 1) [0..<length ws]"
    unfolding backdropIndex_def sm_keys_def Let_def length_map
    by (rule foldl_cong) (simp_all add: sm_get_nth [OF assms] case_prod_unfold)
  moreover have "(\<forall>x\<in>set (view ws). fst (snd x) = NoBackdrop) \<longleftrightarrow> (\<forall>i<length ws. w_backdrop (snd (ws ! i)) = NoBackdrop)"
    by (simp add: view_def case_prod_unfold all_set_conv_all_nth)
  ultimately show "backdropIndex ws = - 1 \<longleftrightarrow> (\<forall>x\<in>set (view ws). fst (snd x) = NoBackdrop)" "- 1 \<le> backdropIndex ws"
    using last_index [of "\<lambda>i. w_backdrop (snd (ws ! i)) \<noteq> NoBackdrop"] by simp_all
qed

text \<open>The map with several values.\<close>

definition classes_ok :: "(string \<times> nat list) list \<Rightarrow> bool" where
  "classes_ok m \<longleftrightarrow> distinct (map fst m) \<and> (\<forall>(c, ks)\<in>set m. ks \<noteq> [] \<and> distinct ks)"

definition listed :: "(string \<times> nat list) list \<Rightarrow> string \<Rightarrow> nat \<Rightarrow> bool" where
  "listed m c k \<longleftrightarrow> (\<exists>ks. (c, ks) \<in> set m \<and> k \<in> set ks)"

lemma hasKey_listed: "classes_ok m \<Longrightarrow> mm_hasKey c m \<longleftrightarrow> (\<exists>k. listed m c k)"
proof -
  assume m: "classes_ok m"
  have "mm_hasKey c m \<longleftrightarrow> (\<exists>ks. (c, ks) \<in> set m)" unfolding mm_hasKey_def by (metis map_of_SomeD not_None_eq weak_map_of_SomeI)
  moreover have "ks \<noteq> []" if "(c, ks) \<in> set m" for ks using m that by (auto simp: classes_ok_def)
  ultimately show ?thesis unfolding listed_def by (metis list.set_sel(1))
qed

lemma map_second_fst [simp]: "fst \<circ> (\<lambda>(k, ws). (k, f k ws)) = fst"
  by (auto simp: fun_eq_iff)

lemma put_listed: "classes_ok m \<Longrightarrow> listed (mm_put c k m) c' k' \<longleftrightarrow> listed m c' k' \<or> c' = c \<and> k' = k"
proof (cases "map_of m c")
  case None
  then show ?thesis by (auto simp: mm_put_def listed_def)
next
  case (Some vs)
  then have "(c, vs) \<in> set m" by (rule map_of_SomeD)
  then show ?thesis using Some by (fastforce simp: mm_put_def listed_def split: if_splits)
qed

lemma put_ok: "classes_ok m \<Longrightarrow> \<not> listed m c k \<Longrightarrow> classes_ok (mm_put c k m)"
proof (cases "map_of m c")
  case None
  then have "mm_put c k m = m @ [(c, [k])]" by (simp add: mm_put_def)
  moreover have "c \<notin> fst ` set m" using None by (simp add: map_of_eq_None_iff)
  ultimately show "classes_ok m \<Longrightarrow> ?thesis" by (auto simp: classes_ok_def)
next
  case (Some vs)
  then show "classes_ok m \<Longrightarrow> \<not> listed m c k \<Longrightarrow> ?thesis"
    by (fastforce simp: mm_put_def classes_ok_def listed_def split: if_splits)
qed

lemma remove_listed:
  assumes "classes_ok m"
  shows "classes_ok (mm_remove c k m)" "listed (mm_remove c k m) c' k' \<longleftrightarrow> listed m c' k' \<and> \<not> (c' = c \<and> k' = k)"
proof -
  have u: "ks = vs" if "(c, ks) \<in> set m" "map_of m c = Some vs" for ks vs
    using assms that by (auto simp: classes_ok_def)
  have d: "distinct ks" if "(c, ks) \<in> set m" for ks using assms that by (auto simp: classes_ok_def)
  show "classes_ok (mm_remove c k m)"
  proof (cases "map_of m c")
    case (Some vs)
    have "distinct (map fst (filter (\<lambda>(j, ws). j \<noteq> c) m))" using assms by (simp add: classes_ok_def distinct_map_filter)
    then show ?thesis using assms Some d [OF map_of_SomeD [OF Some]]
      by (auto simp: mm_remove_def Let_def classes_ok_def distinct_remove1 split: if_splits)
  qed (simp add: mm_remove_def assms)
  show "listed (mm_remove c k m) c' k' \<longleftrightarrow> listed m c' k' \<and> \<not> (c' = c \<and> k' = k)"
  proof (cases "map_of m c")
    case None
    then have "\<not> listed m c k'" by (auto simp: listed_def map_of_eq_None_iff image_iff)
    then show ?thesis using None by (auto simp: mm_remove_def)
  next
    case (Some vs)
    note m = map_of_SomeD [OF Some]
    show ?thesis
    proof (cases "c' = c")
      case True
      have "listed m c k' \<longleftrightarrow> k' \<in> set vs" unfolding listed_def using m u [OF _ Some] by blast
      moreover have "listed (mm_remove c k m) c k' \<longleftrightarrow> k' \<in> set (remove1 k vs)"
      proof (cases "remove1 k vs = []")
        case True
        then have "mm_remove c k m = filter (\<lambda>(j, ws). j \<noteq> c) m" using Some by (simp add: mm_remove_def)
        then show ?thesis using True by (simp add: listed_def)
      next
        case False
        then have "mm_remove c k m = map (\<lambda>(j, ws). (j, if j = c then remove1 k vs else ws)) m"
          using Some by (simp add: mm_remove_def Let_def)
        moreover have "(c, ks) \<in> set (map (\<lambda>(j, ws). (j, if j = c then remove1 k vs else ws)) m) \<longleftrightarrow> ks = remove1 k vs" for ks
          using m by (auto simp: image_iff split: if_splits intro!: bexI [of _ "(c, vs)"])
        ultimately show ?thesis by (simp add: listed_def)
      qed
      ultimately show ?thesis using True d [OF m] by (auto simp: set_remove1_eq)
    next
      case False
      then show ?thesis using Some by (force simp: mm_remove_def Let_def listed_def split: if_splits)
    qed
  qed
qed

text \<open>
  Windows and backdrops in the page are those of the stack and those that are leaving, there is a
  backdrop if and only if an open dialog wants one, and the body has the classes of these windows.
\<close>

type_synonym view = "(nat \<times> backdrop \<times> string) list"

definition windows_ok :: "view \<Rightarrow> leaving list \<Rightarrow> bool" where
  "windows_ok V ls \<longleftrightarrow> distinct (map fst V) \<and> distinct ls
     \<and> (\<forall>k c. LeaveWindow k c \<in> set ls \<longrightarrow> k \<notin> fst ` set V \<and> (\<forall>c'. LeaveWindow k c' \<in> set ls \<longrightarrow> c' = c))"

definition backdrop_ok :: "view \<Rightarrow> nat option \<Rightarrow> bool" where
  "backdrop_ok V b \<longleftrightarrow> (b \<noteq> None \<longleftrightarrow> (\<exists>x\<in>set V. fst (snd x) \<noteq> NoBackdrop))"

definition has_class :: "view \<Rightarrow> leaving list \<Rightarrow> string \<Rightarrow> nat \<Rightarrow> bool" where
  "has_class V ls c k \<longleftrightarrow> (\<exists>b. (k, b, c) \<in> set V) \<or> LeaveWindow k c \<in> set ls"

definition body_ok :: "view \<Rightarrow> leaving list \<Rightarrow> (string \<times> nat list) list \<Rightarrow> string list \<Rightarrow> bool" where
  "body_ok V ls m cs \<longleftrightarrow> classes_ok m \<and> (\<forall>c k. listed m c k \<longleftrightarrow> has_class V ls c k)
     \<and> (\<forall>c. c \<in> set cs \<longleftrightarrow> (\<exists>k. has_class V ls c k))"

definition elements_ok :: "view \<Rightarrow> leaving list \<Rightarrow> element list \<Rightarrow> bool" where
  "elements_ok V ls els \<longleftrightarrow> (\<forall>k. WindowEl k \<in> set els \<longleftrightarrow> k \<in> fst ` set V \<or> (\<exists>c. LeaveWindow k c \<in> set ls))"

definition backdrops_ok :: "nat option \<Rightarrow> nat \<Rightarrow> leaving list \<Rightarrow> element list \<Rightarrow> bool" where
  "backdrops_ok d n ls els \<longleftrightarrow> (\<forall>b. BackdropEl b \<in> set els \<longleftrightarrow> d = Some b \<or> LeaveBackdrop b \<in> set ls)
     \<and> (\<forall>b. d = Some b \<longrightarrow> b < n \<and> LeaveBackdrop b \<notin> set ls) \<and> (\<forall>b. LeaveBackdrop b \<in> set ls \<longrightarrow> b < n)"

definition page_ok :: "modals \<Rightarrow> bool" where
  "page_ok s \<longleftrightarrow> (let V = view (openedWindows s) in
     windows_ok V (leaves s) \<and> backdrop_ok V (backdropDomEl s) \<and> body_ok V (leaves s) (openedClasses s) (body_classes s)
     \<and> elements_ok V (leaves s) (body_elements s) \<and> backdrops_ok (backdropDomEl s) (backdropsMade s) (leaves s) (body_elements s))"

definition same_page :: "modals \<Rightarrow> modals \<Rightarrow> bool" where
  "same_page s s' \<longleftrightarrow> view (openedWindows s') = view (openedWindows s) \<and> openedClasses s' = openedClasses s
     \<and> backdropDomEl s' = backdropDomEl s \<and> backdropsMade s' = backdropsMade s \<and> body_classes s' = body_classes s
     \<and> body_elements s' = body_elements s \<and> leaves s' = leaves s"

lemma same_page_ok: "same_page s s' \<Longrightarrow> page_ok s \<Longrightarrow> page_ok s'"
  by (simp add: same_page_def page_ok_def)

lemma same_page_refl [simp]: "same_page s s"
  by (simp add: same_page_def)

lemma same_page_ops:
  "same_page s (toggleTopWindowClass b s)" "same_page s (set_instance k f s)" "same_page s (watch_backdropIndex s)"
  "same_page s (loadFocusElementList found s)" "same_page s (snd (modal_open opts s))" "same_page s (inputs_settle k v s)"
  "same_page s (finish_request k s)" "same_page s (modalRendered k s)" "same_page s (window_rendered s)"
proof -
  show "same_page s (toggleTopWindowClass b s)"
    using view_toggle [of b s] by (auto simp: same_page_def toggleTopWindowClass_def split: prod.splits)
qed (auto simp: same_page_def set_instance_def watch_backdropIndex_def loadFocusElementList_def modal_open_def inputs_settle_def
    finish_request_def modalRendered_def window_rendered_def Let_def split: option.splits list.splits)

text \<open>The parts of the page when a window is added.\<close>

lemma body_add:
  assumes "body_ok V ls m cs" and "\<not> has_class V ls c k"
  shows "body_ok (V @ [(k, b, c)]) ls (mm_put c k m) (List.insert c cs)"
proof -
  have "has_class (V @ [(k, b, c)]) ls c' k' \<longleftrightarrow> has_class V ls c' k' \<or> c' = c \<and> k' = k" for c' k' by (auto simp: has_class_def)
  then show ?thesis using assms put_ok [of m c k] put_listed [of m c k] by (auto simp: body_ok_def)
qed

lemma page_open:
  assumes pg: "page_ok s" and k: "k \<notin> fst ` set (openedWindows s)" "\<forall>c. LeaveWindow k c \<notin> set (leaves s)"
  shows "page_ok (stack_open k opts s)"
    "view (openedWindows (stack_open k opts s)) = view (openedWindows s) @ [(k, the (mo_backdrop opts), body_class (mo_openedClass opts))]"
    "leaves (stack_open k opts s) = leaves s"
proof -
  let ?s = "stack_open k opts s" and ?V = "view (openedWindows s)"
  let ?c = "body_class (mo_openedClass opts)" and ?b = "the (mo_backdrop opts)"
  let ?W = "?V @ [(k, ?b, ?c)]" and ?ls = "leaves s"
  note frame = same_page_ops(1) [of s False, unfolded same_page_def]
  have old: "windows_ok ?V ?ls" "backdrop_ok ?V (backdropDomEl s)" "body_ok ?V ?ls (openedClasses s) (body_classes s)"
    "elements_ok ?V ?ls (body_elements s)" "backdrops_ok (backdropDomEl s) (backdropsMade s) ?ls (body_elements s)"
    using pg by (simp_all add: page_ok_def Let_def)
  have kV: "k \<notin> fst ` set ?V" using k(1) by simp
  show v: "view (openedWindows ?s) = ?W" using frame by (simp add: stack_open_def Let_def sm_add_def view_def)
  show l: "leaves ?s = ?ls" using frame by (simp add: stack_open_def Let_def)
  have "distinct (map fst ?W)" using old(1) kV by (simp add: windows_ok_def)
  then have d: "distinct (map fst (openedWindows ?s))" using v by (metis view_simps(3))
  let ?i = "backdropIndex (openedWindows ?s)"
  have x: "0 \<le> ?i \<longleftrightarrow> \<not> (\<forall>x\<in>set ?W. fst (snd x) = NoBackdrop)" using backdropIndex_none [OF d] v by auto
  let ?new = "0 \<le> ?i \<and> backdropDomEl s = None"
  have b: "backdropDomEl ?s = (if ?new then Some (backdropsMade s) else backdropDomEl s)"
    "backdropsMade ?s = (if ?new then Suc (backdropsMade s) else backdropsMade s)"
    "body_elements ?s = body_elements s @ (if ?new then [BackdropEl (backdropsMade s)] else []) @ [WindowEl k]"
    "openedClasses ?s = mm_put ?c k (openedClasses s)" "body_classes ?s = List.insert ?c (body_classes s)"
    using frame by (simp_all add: stack_open_def Let_def)
  have "windows_ok ?W ?ls" using old(1) kV k(2) by (auto simp: windows_ok_def)
  moreover have "backdrop_ok ?W (backdropDomEl ?s)" unfolding b using old(2) x by (auto simp: backdrop_ok_def)
  moreover have "(k, b, c) \<notin> set ?V" for b c using kV rev_image_eqI [of "(k, b, c)" "set ?V" k fst] by auto
  then have un: "\<not> has_class ?V ?ls ?c k" using k(2) by (simp add: has_class_def)
  have "body_ok ?W ?ls (openedClasses ?s) (body_classes ?s)" unfolding b by (rule body_add [OF old(3) un])
  moreover have "elements_ok ?W ?ls (body_elements ?s)" unfolding b using old(4) by (auto simp: elements_ok_def)
  moreover have "backdrops_ok (backdropDomEl ?s) (backdropsMade ?s) ?ls (body_elements ?s)"
    unfolding b using old(5) by (auto simp: backdrops_ok_def less_Suc_eq)
  ultimately show "page_ok ?s" by (simp add: page_ok_def Let_def v l)
qed

text \<open>Closing a window.\<close>

lemma keys_filter: "fst ` set (filter (\<lambda>x. fst x \<noteq> k) xs) = fst ` set xs - {k}"
  by (induction xs) auto

lemma page_remove:
  assumes pg: "page_ok s" and w: "sm_get k (openedWindows s) = Some x"
  shows "page_ok (removeModalWindow k s)" "view (openedWindows (removeModalWindow k s)) = filter (\<lambda>x. fst x \<noteq> k) (view (openedWindows s))"
    "\<exists>c. set (leaves (removeModalWindow k s)) \<subseteq> insert (LeaveWindow k c) (set (leaves s) \<union> range LeaveBackdrop)"
proof -
  obtain win where x: "x = (k, win)" "(k, win) \<in> set (openedWindows s)" using sm_get_Some [OF w] by (cases x) auto
  let ?c = "body_class (w_openedClass win)" and ?V = "view (openedWindows s)" and ?ls = "leaves s"
  let ?W = "filter (\<lambda>x. fst x \<noteq> k) ?V" and ?l1 = "leaves s @ [LeaveWindow k (body_class (w_openedClass win))]"
  let ?t = "s\<lparr>openedWindows := sm_remove k (openedWindows s), leaves := ?l1\<rparr>"
  have r: "removeModalWindow k s = checkRemoveBackdrop ?t" using w x by (simp add: removeModalWindow_def)
  have old: "windows_ok ?V ?ls" "backdrop_ok ?V (backdropDomEl s)" "body_ok ?V ?ls (openedClasses s) (body_classes s)"
    "elements_ok ?V ?ls (body_elements s)" "backdrops_ok (backdropDomEl s) (backdropsMade s) ?ls (body_elements s)"
    using pg by (simp_all add: page_ok_def Let_def)
  have d: "distinct (map fst ?V)" using old(1) by (simp add: windows_ok_def)
  have kV: "(k, w_backdrop win, ?c) \<in> set ?V" using x(2) by (force simp: view_def)
  show v: "view (openedWindows (removeModalWindow k s)) = ?W"
    unfolding windows_remove [OF w] view_remove by (rule remove_first_distinct [OF d])
  have vt: "view (openedWindows ?t) = ?W" using v r by simp
  have dt: "distinct (map fst (openedWindows ?t))" using vt d by (metis distinct_map_filter view_simps(3))
  let ?none = "backdropIndex (openedWindows ?t) = - 1"
  have none: "?none \<longleftrightarrow> (\<forall>x\<in>set ?W. fst (snd x) = NoBackdrop)" using backdropIndex_none(1) [OF dt] vt by simp
  let ?lb = "(case backdropDomEl s of None \<Rightarrow> [] | Some b \<Rightarrow> if ?none then [LeaveBackdrop b] else [])"
  have f: "leaves (removeModalWindow k s) = ?l1 @ ?lb" "backdropDomEl (removeModalWindow k s) = (if ?none then None else backdropDomEl s)"
    "backdropsMade (removeModalWindow k s) = backdropsMade s" "body_elements (removeModalWindow k s) = body_elements s"
    "openedClasses (removeModalWindow k s) = openedClasses s" "body_classes (removeModalWindow k s) = body_classes s"
    unfolding r by (simp_all add: checkRemoveBackdrop_def split: option.splits)
  show "\<exists>c. set (leaves (removeModalWindow k s)) \<subseteq> insert (LeaveWindow k c) (set (leaves s) \<union> range LeaveBackdrop)"
    unfolding f by (auto split: option.splits)
  have uniq: "(k, y) \<in> set ?V \<Longrightarrow> y = (w_backdrop win, ?c)" for y using d kV by (metis eq_key_imp_eq_value)
  have notleaving: "LeaveWindow k c \<notin> set ?ls" for c 
  proof -
    have "k \<in> fst ` set ?V" using rev_image_eqI [OF kV, of k fst] by simp
    then show ?thesis using old(1) by (auto simp: windows_ok_def)
  qed
  have lw: "LeaveWindow j c \<in> set (?l1 @ ?lb) \<longleftrightarrow> LeaveWindow j c \<in> set ?ls \<or> j = k \<and> c = ?c" for j c by (auto split: option.splits)
  note keys = keys_filter [of k ?V]
  have "distinct (?l1 @ ?lb)"
    using old(1,5) notleaving by (auto simp: windows_ok_def backdrops_ok_def split: option.splits)
  moreover have "distinct (map fst ?W)" using d by (simp add: distinct_map_filter)
  ultimately have "windows_ok ?W (?l1 @ ?lb)"
    unfolding windows_ok_def keys lw using old(1) notleaving by (auto simp: windows_ok_def)
  moreover have "backdrop_ok ?W (if ?none then None else backdropDomEl s)"
  proof (cases ?none)
    case False
    then obtain x where "x \<in> set ?W" "fst (snd x) \<noteq> NoBackdrop" using none by blast
    moreover from this have "x \<in> set ?V" by simp
    ultimately show ?thesis unfolding backdrop_ok_def if_not_P [OF False] using old(2) [unfolded backdrop_ok_def] by blast
  next
    case True
    then show ?thesis unfolding backdrop_ok_def if_P [OF True] using none by blast
  qed
  moreover have "has_class ?W (?l1 @ ?lb) c j \<longleftrightarrow> has_class ?V ?ls c j" for c j
  proof (cases "j = k")
    case True
    have "(\<exists>b. (k, b, c) \<in> set ?V) \<longleftrightarrow> c = ?c" using kV uniq by blast
    then show ?thesis unfolding has_class_def lw True using notleaving by simp
  next
    case False
    then show ?thesis unfolding has_class_def lw by simp
  qed
  then have "body_ok ?W (?l1 @ ?lb) (openedClasses s) (body_classes s)" using old(3) by (simp add: body_ok_def)
  moreover have "k \<in> fst ` set ?V" using rev_image_eqI [OF kV, of k fst] by simp
  then have el: "j \<in> fst ` set ?W \<or> (\<exists>c. LeaveWindow j c \<in> set (?l1 @ ?lb)) \<longleftrightarrow> j \<in> fst ` set ?V \<or> (\<exists>c. LeaveWindow j c \<in> set ?ls)" for j
    unfolding keys lw by blast
  have "elements_ok ?W (?l1 @ ?lb) (body_elements s)" unfolding elements_ok_def el by (rule old(4) [unfolded elements_ok_def])
  moreover have "backdrops_ok (if ?none then None else backdropDomEl s) (backdropsMade s) (?l1 @ ?lb) (body_elements s)"
    using old(5) by (auto simp: backdrops_ok_def split: option.splits)
  ultimately show "page_ok (removeModalWindow k s)" unfolding page_ok_def Let_def v f by simp
qed

text \<open>The end of an animation.\<close>

lemma page_leave:
  assumes pg: "page_ok s" and l: "l \<in> set (leaves s)"
  shows "page_ok (afterAnimating l s)" "view (openedWindows (afterAnimating l s)) = view (openedWindows s)"
    "leaves (afterAnimating l s) = remove1 l (leaves s)"
proof -
  let ?V = "view (openedWindows s)" and ?ls = "remove1 l (leaves s)"
  have old: "windows_ok ?V (leaves s)" "backdrop_ok ?V (backdropDomEl s)" "body_ok ?V (leaves s) (openedClasses s) (body_classes s)"
    "elements_ok ?V (leaves s) (body_elements s)" "backdrops_ok (backdropDomEl s) (backdropsMade s) (leaves s) (body_elements s)"
    using pg by (simp_all add: page_ok_def Let_def)
  have d: "distinct (leaves s)" and sub: "set ?ls = set (leaves s) - {l}" using old(1) by (simp_all add: windows_ok_def set_remove1_eq)
  have w: "windows_ok ?V ?ls" unfolding windows_ok_def sub using old(1) by (auto simp: windows_ok_def distinct_remove1)
  show v: "view (openedWindows (afterAnimating l s)) = ?V"
    by (cases l) (simp_all add: afterAnimating_def Let_def view_toggle)
  show ls: "leaves (afterAnimating l s) = ?ls"
    using same_page_ops(1) [unfolded same_page_def] by (cases l) (simp_all add: afterAnimating_def Let_def)
  show "page_ok (afterAnimating l s)"
  proof (cases l)
    case (LeaveBackdrop b)
    have "body_ok ?V ?ls (openedClasses s) (body_classes s)"
      using old(3) by (simp add: body_ok_def has_class_def sub LeaveBackdrop)
    moreover have "elements_ok ?V ?ls (removeAll (BackdropEl b) (body_elements s))"
      using old(4) by (simp add: elements_ok_def sub LeaveBackdrop)
    moreover have "backdrops_ok (backdropDomEl s) (backdropsMade s) ?ls (removeAll (BackdropEl b) (body_elements s))"
      using old(5) l by (auto simp: backdrops_ok_def sub [unfolded LeaveBackdrop] LeaveBackdrop)
    ultimately show ?thesis unfolding page_ok_def Let_def v ls using w old(2) by (simp add: afterAnimating_def LeaveBackdrop)
  next
    case (LeaveWindow k c)
    let ?m = "mm_remove c k (openedClasses s)"
    let ?cs = "toggle_class c (mm_hasKey c ?m) (body_classes s)" and ?els = "removeAll (WindowEl k) (body_elements s)"
    have k: "k \<notin> fst ` set ?V" "LeaveWindow k c' \<in> set (leaves s) \<Longrightarrow> c' = c" for c'
      using old(1) l LeaveWindow by (auto simp: windows_ok_def)
    have m: "classes_ok ?m" "listed ?m c' j \<longleftrightarrow> listed (openedClasses s) c' j \<and> \<not> (c' = c \<and> j = k)" for c' j
      using old(3) remove_listed [of "openedClasses s"] by (auto simp: body_ok_def)
    have "(k, b, c') \<notin> set ?V" for b c' using k(1) rev_image_eqI [of "(k, b, c')" "set ?V" k fst] by auto
    then have h: "has_class ?V ?ls c' j \<longleftrightarrow> listed ?m c' j" for c' j
      unfolding m(2) has_class_def sub unfolding LeaveWindow using old(3) by (auto simp: body_ok_def has_class_def)
    have "c' \<in> set ?cs \<longleftrightarrow> (\<exists>j. listed ?m c' j)" for c'
    proof (cases "c' = c")
      case True
      then show ?thesis using hasKey_listed [OF m(1)] by (simp add: toggle_class_def)
    next
      case False
      then have "listed ?m c' j \<longleftrightarrow> has_class ?V (leaves s) c' j" for j using m(2) old(3) by (simp add: body_ok_def)
      then show ?thesis using False old(3) by (simp add: toggle_class_def body_ok_def)
    qed
    then have "body_ok ?V ?ls ?m ?cs" using h m(1) by (simp add: body_ok_def)
    moreover have "elements_ok ?V ?ls ?els"
      using old(4) k unfolding elements_ok_def sub unfolding LeaveWindow by auto
    moreover have "backdrops_ok (backdropDomEl s) (backdropsMade s) ?ls ?els"
      using old(5) by (simp add: backdrops_ok_def sub LeaveWindow)
    ultimately show ?thesis unfolding page_ok_def Let_def v ls using w old(2) same_page_ops(1) [unfolded same_page_def]
      by (simp add: afterAnimating_def LeaveWindow Let_def)
  qed
qed

end
