(* ===== verification/UibModalFacts.thy ===== *)
theory UibModalFacts imports Main Prelude UibModal UibTurns UibPage begin

text \<open>
  What the dialogs of ui-bootstrap.js promise, for any order of calls and of what the browser does:
  dialogs open in the order of the calls, the page shows what the stack says, results are settled
  with the windows, and nothing stays behind.
\<close>

section \<open>What is open and what it has answered\<close>

text \<open>
  The windows are in the order of the calls of \<open>open\<close>; only dialogs that had their turn have one. The
  result of a dialog is open until its window is removed, and settled when the window leaves.
\<close>

definition leaving_window :: "nat \<Rightarrow> modals \<Rightarrow> bool" where
  "leaving_window k s \<longleftrightarrow> (\<exists>c. LeaveWindow k c \<in> set (leaves s))"

definition open_dialog :: "nat \<Rightarrow> modals \<Rightarrow> bool" where
  "open_dialog k s \<longleftrightarrow> k \<in> set (map fst (openedWindows s))"

definition result_of :: "modals \<Rightarrow> nat \<Rightarrow> settled" where
  "result_of s k = mi_result (instances s ! k)"

definition records_ok :: "modals \<Rightarrow> bool" where
  "records_ok s \<longleftrightarrow> sorted_wrt (<) (map fst (openedWindows s))
     \<and> (\<forall>k. open_dialog k s \<or> leaving_window k s \<longrightarrow> run_already k s)
     \<and> (\<forall>k<length (requests s). (\<not> run_already k s \<or> open_dialog k s \<longrightarrow> result_of s k = Pending)
         \<and> (leaving_window k s \<longrightarrow> result_of s k \<noteq> Pending))"

definition dialogs_ok :: "modals \<Rightarrow> bool" where
  "dialogs_ok s \<longleftrightarrow> chain_ok s \<and> page_ok s \<and> records_ok s"

text \<open>An event that leaves these records alone.\<close>

definition same_records :: "modals \<Rightarrow> modals \<Rightarrow> bool" where
  "same_records s s' \<longleftrightarrow> map fst (openedWindows s') = map fst (openedWindows s) \<and> set (leaves s') \<subseteq> set (leaves s)
     \<and> length (requests s') = length (requests s)
     \<and> (\<forall>k<length (requests s). (rq_phase (requests s' ! k) = Waiting \<longleftrightarrow> rq_phase (requests s ! k) = Waiting)
         \<and> result_of s' k = result_of s k)"

lemma same_records_ok: "same_records s s' \<Longrightarrow> records_ok s \<Longrightarrow> records_ok s'"
proof -
  assume e: "same_records s s'" and r: "records_ok s"
  have "open_dialog k s' \<longleftrightarrow> open_dialog k s" "leaving_window k s' \<Longrightarrow> leaving_window k s" "run_already k s' \<longleftrightarrow> run_already k s" for k
    using e by (auto simp: same_records_def open_dialog_def leaving_window_def run_already_def)
  then show ?thesis using r e unfolding records_ok_def same_records_def by auto
qed

lemma rendered_keeps_result: "mi_result (ms[k := (ms ! k)\<lparr>mi_rendered := v\<rparr>] ! j) = mi_result (ms ! j)"
proof (cases "k < length ms")
  case True
  then show ?thesis by (cases "j = k") simp_all
qed (simp add: not_less list_update_beyond)

lemma same_records_ops:
  "same_records s (watch_backdropIndex s)" "same_records s (loadFocusElementList found s)" "same_records s (inputs_settle k v s)"
  "same_records s (finish_request k s)" "same_records s (modalRendered k s)" "same_records s (window_rendered s)"
proof -
  show m: "same_records s (modalRendered k s)" for k
    by (auto simp: same_records_def modalRendered_def set_instance_def result_of_def rendered_keeps_result split: option.splits)
  then show "same_records s (window_rendered s)"
    by (auto simp: window_rendered_def same_records_def split: option.splits)
qed (auto simp: same_records_def watch_backdropIndex_def loadFocusElementList_def inputs_settle_def finish_request_def result_of_def
    nth_list_update split: option.splits list.splits)

lemma quiet_step:
  assumes "dialogs_ok s" and "same_page s (modal_event_step ev s)" and "same_records s (modal_event_step ev s)"
  shows "dialogs_ok (modal_event_step ev s)"
  using assms chain_step same_page_ok same_records_ok by (auto simp: dialogs_ok_def)

text \<open>A window is removed with an answer.\<close>

abbreviation answer :: "nat \<Rightarrow> settled \<Rightarrow> modals \<Rightarrow> modals" where
  "answer k v s \<equiv> set_instance k (\<lambda>m. m\<lparr>mi_result := settle_with v (mi_result m)\<rparr>) s"

lemma result_answer: "length (instances s) = length (requests s) \<Longrightarrow> k < length (requests s) \<Longrightarrow>
    result_of (answer k v s) j = (if j = k then settle_with v (result_of s k) else result_of s j)"
  by (cases "j = k") (simp_all add: result_of_def set_instance_def)

lemma instances_remove [simp]: "instances (removeModalWindow k s) = instances s"
  by (simp add: removeModalWindow_def checkRemoveBackdrop_def split: option.splits prod.splits)

lemma instances_stack_open [simp]: "instances (stack_open k opts s) = instances s"
  by (auto simp: stack_open_def toggleTopWindowClass_def Let_def split: prod.splits)

lemma dialogs_remove:
  assumes ok: "dialogs_ok s" and w: "sm_get k (openedWindows s) = Some x" and v: "v \<noteq> Pending"
  shows "dialogs_ok (removeModalWindow k (answer k v s))"
    "map fst (openedWindows (removeModalWindow k (answer k v s))) = filter (\<lambda>j. j \<noteq> k) (map fst (openedWindows s))"
    "result_of (removeModalWindow k (answer k v s)) j = (if j = k then v else result_of s j)"
proof -
  let ?t = "answer k v s"
  let ?s = "removeModalWindow k ?t"
  have c: "chain_ok s" and p: "page_ok s" and r: "records_ok s" using ok by (simp_all add: dialogs_ok_def)
  have len: "length (instances s) = length (requests s)" using c unfolding chain_ok_def by blast
  have t: "sm_get k (openedWindows ?t) = Some x" using w by (simp add: set_instance_def)
  have pt: "page_ok ?t" using same_page_ok [OF same_page_ops(2) p] .
  note rm = page_remove [OF pt t]
  have turns: "same_turns s ?s" by (rule same_turns_trans [OF same_turns_ops(4,3)])
  have key: "open_dialog k s" using sm_get_Some [OF w] by (force simp: open_dialog_def)
  then have k: "k < length (requests s)" "result_of s k = Pending" using r unfolding records_ok_def run_already_def by blast+
  have "map fst (openedWindows ?s) = map fst (view (openedWindows ?s))" by simp
  also have "\<dots> = filter (\<lambda>j. j \<noteq> k) (map fst (view (openedWindows ?t)))" unfolding rm(2) by (simp only: filter_map comp_def)
  finally show keys: "map fst (openedWindows ?s) = filter (\<lambda>j. j \<noteq> k) (map fst (openedWindows s))" by (simp add: set_instance_def)
  show res: "result_of ?s j = (if j = k then v else result_of s j)" for j
    using result_answer [OF len k(1), of v j] k(2) by (simp add: result_of_def settle_with_def)
  have run: "run_already j ?s \<longleftrightarrow> run_already j s" for j using turns by (simp add: same_turns_def run_already_def)
  have op: "open_dialog j ?s \<longleftrightarrow> open_dialog j s \<and> j \<noteq> k" for j unfolding open_dialog_def keys by auto
  have lv: "leaving_window j ?s \<Longrightarrow> leaving_window j s \<or> j = k" for j
    using rm(3) by (auto simp: leaving_window_def set_instance_def)
  have "sorted_wrt (<) (map fst (openedWindows ?s))" unfolding keys using r by (simp add: records_ok_def sorted_wrt_filter)
  moreover have "open_dialog j ?s \<or> leaving_window j ?s \<longrightarrow> run_already j ?s" for j
    unfolding run using op lv r key by (auto simp: records_ok_def)
  moreover have "length (requests ?s) = length (requests s)" using turns by (simp add: same_turns_def)
  moreover have "(\<not> run_already j ?s \<or> open_dialog j ?s \<longrightarrow> result_of ?s j = Pending) \<and> (leaving_window j ?s \<longrightarrow> result_of ?s j \<noteq> Pending)"
    if "j < length (requests s)" for j
    unfolding run op res using that lv [of j] r v key by (auto simp: records_ok_def)
  ultimately have "records_ok ?s" unfolding records_ok_def by simp
  then show "dialogs_ok ?s" using rm(1) same_turns_chain [OF turns c] by (simp add: dialogs_ok_def)
qed

lemma dialogs_close:
  assumes "dialogs_ok s"
  shows "dialogs_ok (snd (stack_close k res allowed s))" "dialogs_ok (snd (stack_dismiss k reason allowed s))"
  using assms dialogs_remove(1) by (auto simp: stack_close_def stack_dismiss_def split: option.splits)

lemma dialogs_dismissAll: "dialogs_ok s \<Longrightarrow> dialogs_ok (dismissAll reason allowed s)"
proof (induction reason allowed s rule: dismissAll.induct)
  case (1 reason allowed s)
  show ?case
  proof (cases "sm_top (openedWindows s)")
    case (Some x)
    obtain k w where x: "x = (k, w)" by fastforce
    obtain ok s' where d: "stack_dismiss k reason (allowed k) s = (ok, s')" by fastforce
    have "dialogs_ok s'" using dialogs_close(2) [OF 1(2), of k reason "allowed k"] by (simp add: d)
    then show ?thesis using 1(1) [OF Some x [symmetric] d [symmetric]] Some x d by (cases ok) (simp_all add: dismissAll.simps [of _ _ s])
  qed (simp add: dismissAll.simps 1)
qed

text \<open>The turn of a dialog.\<close>

lemma dialogs_turn:
  assumes ok: "dialogs_ok s" and m: "may_run k s"
  shows "dialogs_ok (run_request k ret s)"
    "map fst (openedWindows (run_request k ret s)) = map fst (openedWindows s) @ turn_opens (RunRequest k ret) s"
    "\<not> open_dialog k s"
proof -
  let ?t = "s\<lparr>requests := (requests s)[k := (requests s ! k)\<lparr>rq_phase := Ran\<rparr>]\<rparr>" and ?s = "run_request k ret s"
  have c: "chain_ok s" and p: "page_ok s" and r: "records_ok s" using ok by (simp_all add: dialogs_ok_def)
  have len: "length (instances s) = length (requests s)" using c unfolding chain_ok_def by blast
  have k: "k < length (requests s)" "\<not> run_already k s" using m by (simp_all add: may_run_def run_already_def)
  then have fresh: "\<not> open_dialog k s" "\<not> leaving_window k s" "result_of s k = Pending"
    and bound: "open_dialog j s \<Longrightarrow> j < k" for j
  proof -
    show "\<not> open_dialog k s" "\<not> leaving_window k s" "result_of s k = Pending" using k r by (auto simp: records_ok_def)
    show "j < k" if "open_dialog j s"
    proof (rule ccontr)
      assume "\<not> j < k"
      moreover have j: "run_already j s" using r that by (simp add: records_ok_def)
      moreover have "j \<noteq> k" using j k by auto
      ultimately show False using earlier_finished [OF c, of k j] k by (auto simp: run_already_def)
    qed
  qed
  have "chain_ok ?s" using chain_step [OF c, of "RunRequest k ret"] by simp
  moreover have pt: "page_ok ?t" by (rule same_page_ok [OF _ p]) (simp add: same_page_def)
  have op: "page_ok (stack_open k opts ?t)" "map fst (openedWindows (stack_open k opts ?t)) = map fst (openedWindows s) @ [k]"
    "leaves (stack_open k opts ?t) = leaves s" for opts
  proof -
    note o = page_open [OF pt, of k opts]
    show "page_ok (stack_open k opts ?t)" "leaves (stack_open k opts ?t) = leaves s"
      using o fresh by (auto simp: open_dialog_def leaving_window_def)
    have "view (openedWindows (stack_open k opts ?t)) = view (openedWindows s) @ [(k, the (mo_backdrop opts), body_class (mo_openedClass opts))]"
      using o(2) fresh by (simp add: open_dialog_def leaving_window_def)
    from arg_cong [OF this, of "map fst"] show "map fst (openedWindows (stack_open k opts ?t)) = map fst (openedWindows s) @ [k]" by simp
  qed
  have page: "page_ok ?s"
    using m op(1) pt same_page_ok [OF same_page_ops(2)] by (simp add: run_request_def Let_def split: settled.splits)
  have run: "run_already j ?t \<longleftrightarrow> run_already j s \<or> j = k" for j
    using k by (auto simp: run_already_def nth_list_update)
  have base: "records_ok ?t"
    using r fresh k unfolding records_ok_def run by (auto simp: open_dialog_def leaving_window_def result_of_def)
  show "map fst (openedWindows ?s) = map fst (openedWindows s) @ turn_opens (RunRequest k ret) s" "\<not> open_dialog k s"
    using m op(2) fresh by (auto simp: run_request_def Let_def set_instance_def turn_opens_def may_run_def split: settled.splits)
  have "records_ok ?s"
  proof (cases "rq_inputs (requests s ! k)")
    case Pending
    then show ?thesis using m by (simp add: may_run_def)
  next
    case (Resolved content)
    show ?thesis
    proof (cases ret)
      case False
      then show ?thesis using base m Resolved by (simp add: run_request_def Let_def)
    next
      case True
      let ?f = "\<lambda>i. i\<lparr>mi_opened := settle_with (Resolved (JBool True)) (mi_opened i)\<rparr>"
      let ?u = "stack_open k (rq_options (requests s ! k)) ?t"
      have s: "?s = set_instance k ?f ?u" using m Resolved True by (simp add: run_request_def Let_def)
      have res: "result_of ?s j = result_of s j" for j
        unfolding s using k len by (cases "j = k") (simp_all add: set_instance_def result_of_def)
      have "requests ?s = requests ?t" using same_turns_ops(6) [of ?t k] unfolding s by (simp add: set_instance_def same_turns_def)
      then have run': "run_already j ?s \<longleftrightarrow> run_already j s \<or> j = k" and n: "length (requests ?s) = length (requests s)" for j
        using run by (simp_all add: run_already_def)
      have opn: "open_dialog j ?s \<longleftrightarrow> open_dialog j s \<or> j = k" for j
        unfolding s using op(2) by (auto simp: open_dialog_def set_instance_def)
      have lv: "leaving_window j ?s \<longleftrightarrow> leaving_window j s" for j
        unfolding s using op(3) by (simp add: leaving_window_def set_instance_def)
      have "sorted_wrt (<) (map fst (openedWindows ?s))"
        unfolding s using op(2) r bound by (simp add: set_instance_def sorted_wrt_append records_ok_def open_dialog_def)
      then show ?thesis using r fresh unfolding records_ok_def run' opn lv res n by auto
    qed
  next
    case (Rejected reason)
    let ?f = "\<lambda>i. i\<lparr>mi_opened := settle_with (Rejected reason) (mi_opened i), mi_result := settle_with (Rejected reason) (mi_result i)\<rparr>"
    have s: "?s = set_instance k ?f ?t" using m Rejected by (simp add: run_request_def)
    have res: "j \<noteq> k \<Longrightarrow> result_of ?s j = result_of ?t j" for j unfolding s by (simp add: set_instance_def result_of_def)
    have same: "run_already j ?s \<longleftrightarrow> run_already j ?t" "open_dialog j ?s \<longleftrightarrow> open_dialog j s" "leaving_window j ?s \<longleftrightarrow> leaving_window j s"
      "length (requests ?s) = length (requests ?t)" "openedWindows ?s = openedWindows s" for j
      unfolding s by (simp_all add: set_instance_def run_already_def open_dialog_def leaving_window_def)
    have "open_dialog j ?t \<longleftrightarrow> open_dialog j s" "leaving_window j ?t \<longleftrightarrow> leaving_window j s" for j
      by (simp_all add: open_dialog_def leaving_window_def)
    then show ?thesis using base fresh run res unfolding records_ok_def same by auto metis+
  qed
  then show "dialogs_ok ?s" using \<open>chain_ok ?s\<close> page by (simp add: dialogs_ok_def)
qed

section \<open>Every history\<close>

lemma dialogs_initial: "dialogs_ok initial_modals"
proof -
  have "page_ok initial_modals"
    by (simp add: page_ok_def initial_modals_def Let_def windows_ok_def backdrop_ok_def body_ok_def classes_ok_def listed_def
        has_class_def elements_ok_def backdrops_ok_def)
  moreover have "records_ok initial_modals"
    by (simp add: records_ok_def initial_modals_def open_dialog_def leaving_window_def)
  ultimately show ?thesis using chain_initial by (simp add: dialogs_ok_def)
qed

lemma dialogs_open_call: "dialogs_ok s \<Longrightarrow> dialogs_ok (snd (modal_open opts s))"
proof -
  assume ok: "dialogs_ok s"
  let ?s = "snd (modal_open opts s)"
  have r: "records_ok s" and len: "length (instances s) = length (requests s)"
    using ok by (simp_all add: dialogs_ok_def chain_ok_def)
  have "records_ok ?s"
  proof (cases "mo_template (merge_options opts)")
    case True
    have op: "open_dialog j ?s \<longleftrightarrow> open_dialog j s" "leaving_window j ?s \<longleftrightarrow> leaving_window j s" "openedWindows ?s = openedWindows s"
      "length (requests ?s) = Suc (length (requests s))" for j
      using True by (simp_all add: modal_open_def Let_def open_dialog_def leaving_window_def)
    have run: "run_already j ?s \<longleftrightarrow> run_already j s" for j
      using True by (auto simp: modal_open_def Let_def run_already_def nth_append)
    have res: "result_of ?s j = (if j = length (requests s) then Pending else result_of s j)" if "j \<le> length (requests s)" for j
      using True len that by (simp add: modal_open_def Let_def result_of_def nth_append)
    have new: "\<not> leaving_window (length (requests s)) s" using r by (auto simp: records_ok_def run_already_def)
    show ?thesis using r new unfolding records_ok_def op run by (auto simp: less_Suc_eq res)
  qed (simp add: modal_open_def Let_def r)
  then show "dialogs_ok ?s"
    using ok chain_step [of s "Open opts"] same_page_ok [OF same_page_ops(5)] by (simp add: dialogs_ok_def)
qed

lemma dialogs_leave:
  assumes ok: "dialogs_ok s" and l: "l \<in> set (leaves s)"
  shows "dialogs_ok (afterAnimating l s)"
proof -
  let ?s = "afterAnimating l s"
  have p: "page_ok s" and r: "records_ok s" and c: "chain_ok s" using ok by (simp_all add: dialogs_ok_def)
  note lv = page_leave [OF p l]
  have "map fst (openedWindows ?s) = map fst (openedWindows s)"
    using arg_cong [OF lv(2), of "map fst"] by simp
  moreover have "set (leaves ?s) \<subseteq> set (leaves s)" unfolding lv(3) by (rule set_remove1_subset)
  moreover have "instances ?s = instances s" "requests ?s = requests s"
    by (cases l; simp add: afterAnimating_def Let_def toggleTopWindowClass_def split: prod.splits)+
  ultimately have "same_records s ?s" by (simp add: same_records_def result_of_def)
  then show ?thesis using lv(1) same_records_ok r same_turns_chain [OF same_turns_ops(5) c] by (simp add: dialogs_ok_def)
qed

lemma dialogs_step: "dialogs_ok s \<Longrightarrow> dialogs_ok (modal_event_step ev s)"
proof -
  assume ok: "dialogs_ok s"
  have focus: "dialogs_ok (loadFocusElementList found s)" for found
    using ok same_page_ok [OF same_page_ops(4)] same_records_ok [OF same_records_ops(2)] same_turns_chain [OF same_turns_ops(8)]
    by (simp add: dialogs_ok_def)
  have key: "dialogs_ok (fst (on_keydown evt s))" for evt
    using ok focus dialogs_close(2) [OF ok] by (auto simp: on_keydown_def Let_def split: option.splits prod.splits)
  have click: "dialogs_ok (window_click outside allowed s)" for outside allowed
    using ok dialogs_close(2) [OF ok] by (auto simp: window_click_def split: option.splits prod.splits)
  show ?thesis
  proof (cases ev)
    case (RunRequest k ret)
    then show ?thesis using dialogs_turn(1) [OF ok] ok by (cases "may_run k s") (simp_all add: run_request_def)
  next
    case (InputsSettle k v)
    then show ?thesis using quiet_step [OF ok, of ev] same_page_ops(6) same_records_ops(3) by simp
  next
    case (FinishRequest k)
    then show ?thesis using quiet_step [OF ok, of ev] same_page_ops(7) same_records_ops(4) by simp
  next
    case Rendered
    then show ?thesis using quiet_step [OF ok, of ev] same_page_ops(9) same_records_ops(6) by simp
  next
    case Digest
    then show ?thesis using quiet_step [OF ok, of ev] same_page_ops(3) same_records_ops(1) by simp
  qed (use ok key click dialogs_close dialogs_dismissAll dialogs_leave dialogs_open_call in simp_all)
qed

lemma dialogs_run: "dialogs_ok s \<Longrightarrow> dialogs_ok (modal_run evs s)"
  unfolding modal_run_def by (induction evs arbitrary: s) (simp_all add: dialogs_step)

lemmas dialogs_reachable = dialogs_run [OF dialogs_initial]

section \<open>Dismissing everything\<close>

lemma top_keys: "sm_top ws = Some (k, w) \<Longrightarrow> map fst ws = map fst (butlast ws) @ [k]"
  by (cases ws rule: rev_cases) (auto simp: sm_top_def)

lemma butlast_filter: "sorted_wrt (<) (ks @ [k :: nat]) \<Longrightarrow> filter (\<lambda>j. j \<noteq> k) (ks @ [k]) = ks"
  by (auto simp: sorted_wrt_append filter_id_conv)

lemma dismissAll_effect:
  "dialogs_ok s \<Longrightarrow> map fst (openedWindows (dismissAll reason allowed s)) = rev (dropWhile allowed (rev (map fst (openedWindows s))))
     \<and> result_of (dismissAll reason allowed s) j =
      (if open_dialog j s \<and> \<not> open_dialog j (dismissAll reason allowed s) then Rejected reason else result_of s j)"
proof (induction reason allowed s rule: dismissAll.induct)
  case (1 reason allowed s)
  let ?d = "dismissAll reason allowed s"
  show ?case
  proof (cases "sm_top (openedWindows s)")
    case None
    then have "?d = s" "openedWindows s = []" by (simp_all add: dismissAll.simps [of _ _ s] sm_top_def split: if_splits)
    then show ?thesis by simp
  next
    case (Some x)
    obtain k w where x: "x = (k, w)" by fastforce
    have top: "sm_top (openedWindows s) = Some (k, w)" using Some x by simp
    note ks = top_keys [OF top]
    show ?thesis
    proof (cases "allowed k")
      case False
      then have "?d = s" using top sm_top_get [OF top] by (auto simp: dismissAll.simps [of _ _ s] stack_dismiss_def)
      then show ?thesis using False ks by simp
    next
      case True
      obtain mw where get: "sm_get k (openedWindows s) = Some mw" using sm_top_get [OF top] by blast
      let ?s = "removeModalWindow k (answer k (Rejected reason) s)"
      have d: "stack_dismiss k reason (allowed k) s = (True, ?s)" using get True by (simp add: stack_dismiss_def)
      have e: "?d = dismissAll reason allowed ?s" using top d by (simp add: dismissAll.simps [of _ _ s])
      note r = dialogs_remove [OF 1(2) get, of "Rejected reason"]
      have ok: "dialogs_ok ?s" using r(1) by simp
      have "sorted_wrt (<) (map fst (openedWindows s))" using 1(2) by (simp add: dialogs_ok_def records_ok_def)
      then have ks': "map fst (openedWindows ?s) = map fst (butlast (openedWindows s))"
        using r(2) butlast_filter ks by simp
      have IH: "map fst (openedWindows (dismissAll reason allowed ?s)) = rev (dropWhile allowed (rev (map fst (openedWindows ?s))))"
        "result_of (dismissAll reason allowed ?s) j = (if open_dialog j ?s \<and> \<not> open_dialog j (dismissAll reason allowed ?s) then Rejected reason else result_of ?s j)"
        using 1(1) [OF top refl d [symmetric] TrueI ok] by simp_all
      have "set (dropWhile allowed (rev (map fst (openedWindows ?s)))) \<subseteq> set (map fst (openedWindows ?s))"
        using set_dropWhileD by fastforce
      then have gone: "\<not> open_dialog k (dismissAll reason allowed ?s)"
        unfolding open_dialog_def IH(1) using r(2) by auto
      have op: "open_dialog j s \<longleftrightarrow> open_dialog j ?s \<or> j = k" unfolding open_dialog_def ks' using ks by auto
      show ?thesis unfolding e
      proof
        show "map fst (openedWindows (dismissAll reason allowed ?s)) = rev (dropWhile allowed (rev (map fst (openedWindows s))))"
          unfolding IH(1) ks' using ks True by simp
        show "result_of (dismissAll reason allowed ?s) j = (if open_dialog j s \<and> \<not> open_dialog j (dismissAll reason allowed ?s) then Rejected reason else result_of s j)"
          unfolding IH(2) op using r(3) [of j] gone by auto
      qed
    qed
  qed
qed

section \<open>The order of opening\<close>

text \<open>The dialogs that an event puts on the stack, and those of a history in the order in which their windows open.\<close>

definition newly_open :: "modal_event \<Rightarrow> modals \<Rightarrow> nat list" where
  "newly_open ev s = filter (\<lambda>k. \<not> open_dialog k s) (sm_keys (openedWindows (modal_event_step ev s)))"

fun opening_order :: "modal_event list \<Rightarrow> modals \<Rightarrow> nat list" where
  "opening_order [] s = []"
| "opening_order (ev # evs) s = newly_open ev s @ opening_order evs (modal_event_step ev s)"

lemma same_page_keys: "same_page s s' \<Longrightarrow> map fst (openedWindows s') = map fst (openedWindows s)"
  unfolding same_page_def by (metis view_simps(3))

lemma keys_shrink:
  assumes "dialogs_ok s" and "\<And>k ret. ev \<noteq> RunRequest k ret"
  shows "set (map fst (openedWindows (modal_event_step ev s))) \<subseteq> set (map fst (openedWindows s))"
proof -
  have close: "set (map fst (openedWindows (snd (stack_close k res allowed s)))) \<subseteq> set (map fst (openedWindows s))"
    "set (map fst (openedWindows (snd (stack_dismiss k res allowed s)))) \<subseteq> set (map fst (openedWindows s))" for k res allowed
    using dialogs_remove(2) [OF assms(1), of k] by (auto simp: stack_close_def stack_dismiss_def simp del: set_map split: option.splits)
  have all: "set (map fst (openedWindows (dismissAll reason allowed s))) \<subseteq> set (map fst (openedWindows s))" for reason allowed
    using dismissAll_effect [OF assms(1), of reason allowed] set_dropWhileD by (fastforce simp del: set_map)
  have leave: "map fst (openedWindows (afterAnimating l s)) = map fst (openedWindows s)" if "l \<in> set (leaves s)" for l
    using page_leave(2) [OF _ that] assms(1) view_simps(3) unfolding dialogs_ok_def by metis
  have key: "set (map fst (openedWindows (fst (on_keydown evt s)))) \<subseteq> set (map fst (openedWindows s))" for evt
    using close(2) same_page_keys [OF same_page_ops(4)] by (auto simp: on_keydown_def Let_def simp del: set_map split: option.splits prod.splits)
  have click: "set (map fst (openedWindows (window_click outside allowed s))) \<subseteq> set (map fst (openedWindows s))" for outside allowed
    using close(2) by (auto simp: window_click_def simp del: set_map split: option.splits prod.splits)
  note same = same_page_ops [THEN same_page_keys]
  show ?thesis
    by (cases ev) (use assms(2) close all leave key click same in \<open>simp_all del: set_map\<close>)
qed

lemma newly_open_turn: "dialogs_ok s \<Longrightarrow> newly_open ev s = turn_opens ev s"
proof -
  assume ok: "dialogs_ok s"
  show ?thesis
  proof (cases "\<exists>k ret. ev = RunRequest k ret")
    case False
    then have "turn_opens ev s = []" by (cases ev) (simp_all add: turn_opens_def)
    moreover have "newly_open ev s = []"
      using keys_shrink [OF ok, of ev] False by (auto simp: newly_open_def sm_keys_def open_dialog_def filter_empty_conv)
    ultimately show ?thesis by simp
  next
    case True
    then obtain k ret where ev: "ev = RunRequest k ret" by blast
    show ?thesis
    proof (cases "may_run k s")
      case m: True
      have "filter (\<lambda>j. \<not> open_dialog j s) (map fst (openedWindows s)) = []" by (simp add: open_dialog_def filter_empty_conv)
      moreover have "filter (\<lambda>j. \<not> open_dialog j s) (turn_opens ev s) = turn_opens ev s"
        using dialogs_turn(3) [OF ok m] by (simp add: ev turn_opens_def)
      ultimately show ?thesis using dialogs_turn(2) [OF ok m, of ret] by (simp add: newly_open_def sm_keys_def ev)
    next
      case False
      then show ?thesis by (simp add: ev newly_open_def sm_keys_def run_request_def turn_opens_def open_dialog_def filter_empty_conv)
    qed
  qed
qed

lemma opening_turns: "dialogs_ok s \<Longrightarrow> opening_order evs s = turn_order evs s"
  by (induction evs arbitrary: s) (simp_all add: newly_open_turn dialogs_step)

section \<open>Properties\<close>

text \<open>
  Claim C24: however long the templates and the resolved values of the dialogs take to arrive, and
  whatever is called meanwhile, the windows open in the order of the calls of \<open>open\<close>, each at most
  once, and the open windows are stacked in this order.
\<close>

theorem dialogs_open_in_order:
  "sorted_wrt (<) (opening_order evs initial_modals) \<and> sorted_wrt (<) (sm_keys (openedWindows (modal_run evs initial_modals)))"
  using opening_sorted [OF chain_initial] opening_turns [OF dialogs_initial] dialogs_reachable [of evs] by (simp add: dialogs_ok_def records_ok_def sm_keys_def)

text \<open>
  Claim C23: the page shows what is open, after every history: a window is in the page exactly while
  its dialog is open or leaves, there is a backdrop that stays if and only if an open dialog wants
  one, and the body has exactly the classes of these windows. When nothing is open and nothing leaves,
  neither windows, backdrops nor classes are left behind.
\<close>

theorem page_shows_stack:
  assumes "s = modal_run evs initial_modals"
  shows "(backdropDomEl s \<noteq> None \<longleftrightarrow> (\<exists>(k, w)\<in>set (openedWindows s). w_backdrop w \<noteq> NoBackdrop))
     \<and> (\<forall>k. WindowEl k \<in> set (body_elements s) \<longleftrightarrow> open_dialog k s \<or> leaving_window k s)
     \<and> (\<forall>b. BackdropEl b \<in> set (body_elements s) \<longleftrightarrow> backdropDomEl s = Some b \<or> LeaveBackdrop b \<in> set (leaves s))
     \<and> (\<forall>c. c \<in> set (body_classes s) \<longleftrightarrow> (\<exists>(k, w)\<in>set (openedWindows s). body_class (w_openedClass w) = c) \<or> (\<exists>k. LeaveWindow k c \<in> set (leaves s)))
     \<and> (openedWindows s = [] \<and> leaves s = [] \<longrightarrow> body_elements s = [] \<and> body_classes s = [])"
proof -
  have p: "page_ok s" using dialogs_reachable [of evs] assms by (simp add: dialogs_ok_def)
  have v: "(\<exists>x\<in>set (view (openedWindows s)). P x) \<longleftrightarrow> (\<exists>(k, w)\<in>set (openedWindows s). P (k, w_backdrop w, body_class (w_openedClass w)))" for P
    by (force simp: view_def)
  have el: "WindowEl k \<in> set (body_elements s) \<longleftrightarrow> open_dialog k s \<or> leaving_window k s"
    "BackdropEl b \<in> set (body_elements s) \<longleftrightarrow> backdropDomEl s = Some b \<or> LeaveBackdrop b \<in> set (leaves s)" for k b
    using p by (simp_all add: page_ok_def Let_def elements_ok_def backdrops_ok_def open_dialog_def leaving_window_def)
  have bd: "backdropDomEl s \<noteq> None \<longleftrightarrow> (\<exists>(k, w)\<in>set (openedWindows s). w_backdrop w \<noteq> NoBackdrop)"
    using p v [of "\<lambda>x. fst (snd x) \<noteq> NoBackdrop"] unfolding page_ok_def Let_def backdrop_ok_def by simp
  have "c \<in> set (body_classes s) \<longleftrightarrow> (\<exists>x\<in>set (view (openedWindows s)). snd (snd x) = c) \<or> (\<exists>k. LeaveWindow k c \<in> set (leaves s))" for c
    using p unfolding page_ok_def Let_def body_ok_def has_class_def by force
  then have cl: "c \<in> set (body_classes s) \<longleftrightarrow> (\<exists>(k, w)\<in>set (openedWindows s). body_class (w_openedClass w) = c) \<or> (\<exists>k. LeaveWindow k c \<in> set (leaves s))" for c
    unfolding v by simp
  have "openedWindows s = [] \<and> leaves s = [] \<longrightarrow> body_elements s = [] \<and> body_classes s = []"
  proof
    assume none: "openedWindows s = [] \<and> leaves s = []"
    then have "e \<notin> set (body_elements s)" for e using el bd by (cases e) (simp_all add: open_dialog_def leaving_window_def)
    moreover have "c \<notin> set (body_classes s)" for c using cl none by simp
    ultimately show "body_elements s = [] \<and> body_classes s = []" by (metis list.set_intros(1) neq_Nil_conv)
  qed
  then show ?thesis using bd el cl by blast
qed

text \<open>
  The result of a dialog tells whether its window is open: it is open while the dialog waits
  for its turn or its window is open, and as soon as the window leaves it has been settled.
\<close>

theorem result_settled_with_window:
  assumes "s = modal_run evs initial_modals" and "k < length (instances s)"
  shows "(rq_phase (requests s ! k) = Waiting \<or> open_dialog k s \<longrightarrow> mi_result (instances s ! k) = Pending)
     \<and> (leaving_window k s \<longrightarrow> mi_result (instances s ! k) \<noteq> Pending)"
proof -
  have "dialogs_ok s" using dialogs_reachable [of evs] assms(1) by simp
  then show ?thesis using assms(2) by (auto simp: dialogs_ok_def records_ok_def chain_ok_def result_of_def run_already_def)
qed

text \<open>
  Claim C25: \<open>dismissAll\<close> dismisses the dialogs from the top down to the first one that refuses: the results
  of the dismissed dialogs are rejected with the reason, those of the others stay as they are; if
  nobody refuses, no dialog and no backdrop is left.
\<close>

theorem dismissAll_from_top:
  assumes "s = modal_run evs initial_modals" and "s' = dismissAll reason allowed s"
  shows "sm_keys (openedWindows s') = rev (dropWhile allowed (rev (sm_keys (openedWindows s))))
     \<and> (\<forall>j. mi_result (instances s' ! j) = (if open_dialog j s \<and> \<not> open_dialog j s' then Rejected reason else mi_result (instances s ! j)))
     \<and> ((\<forall>k. open_dialog k s \<longrightarrow> allowed k) \<longrightarrow> openedWindows s' = [] \<and> backdropDomEl s' = None)"
proof -
  have ok: "dialogs_ok s" using dialogs_reachable [of evs] assms(1) by simp
  then have "page_ok s'" using dialogs_dismissAll assms(2) by (simp add: dialogs_ok_def)
  have k: "sm_keys (openedWindows s') = rev (dropWhile allowed (rev (sm_keys (openedWindows s))))"
    using dismissAll_effect [OF ok, of reason allowed] assms(2) by (simp add: sm_keys_def)
  have r: "mi_result (instances s' ! j) = (if open_dialog j s \<and> \<not> open_dialog j s' then Rejected reason else mi_result (instances s ! j))" for j
    using dismissAll_effect [OF ok, of reason allowed j] assms(2) by (simp add: result_of_def)
  have "(\<forall>k. open_dialog k s \<longrightarrow> allowed k) \<longrightarrow> openedWindows s' = [] \<and> backdropDomEl s' = None"
  proof
    assume "\<forall>k. open_dialog k s \<longrightarrow> allowed k"
    then have none: "dropWhile allowed (rev (sm_keys (openedWindows s))) = []" by (simp add: sm_keys_def open_dialog_def dropWhile_eq_Nil_conv)
    have "openedWindows s' = []" using k unfolding none by (simp add: sm_keys_def)
    then show "openedWindows s' = [] \<and> backdropDomEl s' = None"
      using \<open>page_ok s'\<close> by (simp add: page_ok_def backdrop_ok_def Let_def)
  qed
  then show ?thesis using k r by blast
qed

section \<open>A sample history\<close>

text \<open>Two dialogs are opened; the template of the second arrives first, and the first one is closed again.\<close>

definition sample_options :: "backdrop option \<Rightarrow> modal_options" where
  "sample_options b = \<lparr>mo_template = True, mo_backdrop = b, mo_keyboard = None, mo_openedClass = None, mo_windowTopClass = None\<rparr>"

definition sample_history :: "modal_event list" where
  "sample_history = [Open (sample_options None), Open (sample_options (Some NoBackdrop)), InputsSettle 1 (Resolved JNull), RunRequest 1 True,
     InputsSettle 0 (Resolved JNull), RunRequest 0 True, FinishRequest 0, RunRequest 1 True, Rendered, FinishRequest 1]"

lemma sample_open:
  "opening_order sample_history initial_modals = [0, 1]"
  "sm_keys (openedWindows (modal_run sample_history initial_modals)) = [0, 1]"
  "backdropDomEl (modal_run sample_history initial_modals) = Some 0"
  "length (instances (modal_run sample_history initial_modals)) = 2"
  "open_dialog 1 (modal_run sample_history initial_modals)"
  by code_simp+

definition sample_close :: "modal_event list" where
  "sample_close = [Close 0 (JBool True) True, Dismiss 1 JNull True, Left (LeaveWindow 1 OPENED_MODAL_CLASS),
     Left (LeaveBackdrop 0), Left (LeaveWindow 0 OPENED_MODAL_CLASS)]"

lemma sample_closed:
  "openedWindows (modal_run (sample_history @ sample_close) initial_modals) = []"
  "leaves (modal_run (sample_history @ sample_close) initial_modals) = []"
  by code_simp+

lemma page_shows_stack_witness:
  "body_elements (modal_run (sample_history @ sample_close) initial_modals) = []
     \<and> body_classes (modal_run (sample_history @ sample_close) initial_modals) = []"
  using page_shows_stack [of _ "sample_history @ sample_close", OF refl] sample_closed by simp

lemma result_settled_with_window_witness:
  "mi_result (instances (modal_run sample_history initial_modals) ! 1) = Pending"
  using result_settled_with_window [of _ sample_history, OF refl, of 1] sample_open(4,5) by simp

lemma dismissAll_from_top_witness:
  "sm_keys (openedWindows (dismissAll JNull (\<lambda>k. k = 1) (modal_run sample_history initial_modals))) = [0]"
  using dismissAll_from_top [of _ sample_history, OF refl refl, of JNull "\<lambda>k. k = 1"] sample_open(2) by simp

section \<open>What the code does not handle\<close>

text \<open>
  A dialog that is closed before its window is open stays: \<open>close\<close> returns true and does nothing, the
  window opens when the template arrives, and the result stays open.
\<close>

lemma early_close_is_lost:
  "fst (stack_close 0 JNull True (modal_run [Open (sample_options None)] initial_modals)) = True"
  "sm_keys (openedWindows (modal_run [Open (sample_options None), Close 0 JNull True, InputsSettle 0 (Resolved JNull), RunRequest 0 True]
     initial_modals)) = [0]"
  by code_simp+

text \<open>
  A controller that throws leaves the promises of its dialog open: neither is \<open>opened\<close> rejected nor
  \<open>result\<close>, and no window will ever open for it. The next dialog is not held up.
\<close>

lemma throwing_controller_is_silent:
  "instances (modal_run [Open (sample_options None), InputsSettle 0 (Resolved JNull), RunRequest 0 False, FinishRequest 0] initial_modals)
     = [\<lparr>mi_result = Pending, mi_opened = Pending, mi_rendered = Pending\<rparr>]"
  "\<not> may_run 0 (modal_run [Open (sample_options None), InputsSettle 0 (Resolved JNull), RunRequest 0 False, FinishRequest 0] initial_modals)"
  by code_simp+

end
