(* ===== verification/BootModal.thy ===== *)
theory BootModal imports Main Prelude begin

text \<open>
  The modal widget of Bootstrap (bootstrap.js), on which the dialogs of bootbox.js stand: what its
  element and its backdrop show, which handlers are attached, and the callbacks that wait for the
  end of a CSS transition. A transition may end at any time after it started, so the end of the
  transition of the element, of the inner dialog or of a backdrop is an event of its own; the
  callbacks that wait for it then run in the order in which they were attached. No handler of the page
  cancels a \<open>show\<close> or \<open>hide\<close> event. Sizes, scroll bars, remote content and the focus are left out.
\<close>

section \<open>State\<close>

datatype backdrop_option = No_backdrop | Static_backdrop | Click_backdrop

datatype click_handler = Dismiss_button | Backdrop_click | Foreign nat

datatype continuation = Show_element | Report_hidden

datatype waiting = Continue continuation | Remove_backdrop continuation | Hide_modal | Report_shown

record modal =
  md_shown :: bool
  md_fade :: bool
  md_backdrop_opt :: backdrop_option
  md_keyboard :: bool
  md_display :: bool
  md_in :: bool
  md_body_open :: bool
  md_backdrop :: "nat option"
  md_backdrops :: "nat list"
  md_made :: nat
  md_click :: "click_handler list"
  md_keydown :: nat
  md_ignore :: bool
  md_on_element :: "waiting list"
  md_on_dialog :: "waiting list"
  md_on_backdrop :: "(nat \<times> waiting) list"
  md_events :: "string list"

definition new_Modal :: "bool \<Rightarrow> backdrop_option \<Rightarrow> bool \<Rightarrow> modal" where
  "new_Modal fade backdrop keyboard = \<lparr>md_shown = False, md_fade = fade, md_backdrop_opt = backdrop,
     md_keyboard = keyboard, md_display = False, md_in = False, md_body_open = False, md_backdrop = None,
     md_backdrops = [], md_made = 0, md_click = [], md_keydown = 0, md_ignore = False,
     md_on_element = [], md_on_dialog = [], md_on_backdrop = [], md_events = []\<rparr>"

definition trigger_event :: "string \<Rightarrow> modal \<Rightarrow> modal" where
  "trigger_event e m = m\<lparr>md_events := md_events m @ [e]\<rparr>"

section \<open>Operations\<close>

text \<open>The two callbacks given to \<open>backdrop\<close>: the rest of \<open>show\<close> and the rest of \<open>hideModal\<close>.\<close>

definition continue :: "bool \<Rightarrow> continuation \<Rightarrow> modal \<Rightarrow> modal" where
  "continue supported k m =
     (case k of
        Show_element \<Rightarrow>
          (let m1 = m\<lparr>md_display := True, md_in := True\<rparr>
           in if supported \<and> md_fade m then m1\<lparr>md_on_dialog := md_on_dialog m1 @ [Report_shown]\<rparr>
              else trigger_event ''shown'' m1)
      | Report_hidden \<Rightarrow> trigger_event ''hidden'' (m\<lparr>md_body_open := False\<rparr>))"

definition removeBackdrop :: "modal \<Rightarrow> modal" where
  "removeBackdrop m =
     (case md_backdrop m of
        None \<Rightarrow> m
      | Some b \<Rightarrow> m\<lparr>md_backdrop := None, md_backdrops := removeAll b (md_backdrops m),
                    md_on_backdrop := filter (\<lambda>(b', w). b' \<noteq> b) (md_on_backdrop m)\<rparr>)"

definition backdrop :: "bool \<Rightarrow> continuation \<Rightarrow> modal \<Rightarrow> modal" where
  "backdrop supported k m =
     (if md_shown m \<and> md_backdrop_opt m \<noteq> No_backdrop then
        (let b = md_made m;
             m1 = m\<lparr>md_backdrop := Some b, md_made := Suc b, md_backdrops := md_backdrops m @ [b],
                    md_click := md_click m @ [Backdrop_click]\<rparr>
         in if supported \<and> md_fade m then m1\<lparr>md_on_backdrop := md_on_backdrop m1 @ [(b, Continue k)]\<rparr>
            else continue supported k m1)
      else
        (case (md_shown m, md_backdrop m) of
           (False, Some b) \<Rightarrow>
             if supported \<and> md_fade m then m\<lparr>md_on_backdrop := md_on_backdrop m @ [(b, Remove_backdrop k)]\<rparr>
             else continue supported k (removeBackdrop m)
         | _ \<Rightarrow> continue supported k m))"

definition escape :: "modal \<Rightarrow> modal" where
  "escape m =
     (if md_shown m \<and> md_keyboard m then m\<lparr>md_keydown := Suc (md_keydown m)\<rparr>
      else if \<not> md_shown m then m\<lparr>md_keydown := 0\<rparr> else m)"

definition show_modal :: "bool \<Rightarrow> modal \<Rightarrow> modal" where
  "show_modal supported m =
     (if md_shown m then m
      else (let m1 = escape (m\<lparr>md_shown := True, md_body_open := True\<rparr>)
            in backdrop supported Show_element (m1\<lparr>md_click := md_click m1 @ [Dismiss_button]\<rparr>)))"

definition hideModal :: "bool \<Rightarrow> modal \<Rightarrow> modal" where
  "hideModal supported m = backdrop supported Report_hidden (m\<lparr>md_display := False\<rparr>)"

definition hide_modal :: "bool \<Rightarrow> modal \<Rightarrow> modal" where
  "hide_modal supported m =
     (if \<not> md_shown m then m
      else (let m1 = (escape (m\<lparr>md_shown := False\<rparr>))\<lparr>md_in := False, md_click := []\<rparr>
            in if supported \<and> md_fade m1 then m1\<lparr>md_on_element := md_on_element m1 @ [Hide_modal]\<rparr>
               else hideModal supported m1))"

definition toggle_modal :: "bool \<Rightarrow> modal \<Rightarrow> modal" where
  "toggle_modal supported m = (if md_shown m then hide_modal supported m else show_modal supported m)"

text \<open>The end of a transition: what waits for it runs once.\<close>

definition resume :: "bool \<Rightarrow> waiting \<Rightarrow> modal \<Rightarrow> modal" where
  "resume supported w m =
     (case w of
        Continue k \<Rightarrow> continue supported k m
      | Remove_backdrop k \<Rightarrow> continue supported k (removeBackdrop m)
      | Hide_modal \<Rightarrow> hideModal supported m
      | Report_shown \<Rightarrow> trigger_event ''shown'' m)"

definition element_end :: "bool \<Rightarrow> modal \<Rightarrow> modal" where
  "element_end supported m = fold (resume supported) (md_on_element m) (m\<lparr>md_on_element := []\<rparr>)"

definition dialog_end :: "bool \<Rightarrow> modal \<Rightarrow> modal" where
  "dialog_end supported m = fold (resume supported) (md_on_dialog m) (m\<lparr>md_on_dialog := []\<rparr>)"

definition backdrop_end :: "bool \<Rightarrow> nat \<Rightarrow> modal \<Rightarrow> modal" where
  "backdrop_end supported b m =
     fold (resume supported) (map snd (filter (\<lambda>(b', w). b' = b) (md_on_backdrop m)))
       (m\<lparr>md_on_backdrop := filter (\<lambda>(b', w). b' \<noteq> b) (md_on_backdrop m)\<rparr>)"

text \<open>
  A click on the element itself, outside the dialog, as far as the widget handles it (a mouse button
  pressed inside the dialog and released outside makes it ignore one), a click on a button with
  \<open>data-dismiss\<close>, and a key.
\<close>

definition drag_out :: "modal \<Rightarrow> modal" where
  "drag_out m = (if md_shown m then m\<lparr>md_ignore := True\<rparr> else m)"

definition backdrop_click :: "bool \<Rightarrow> modal \<Rightarrow> modal" where
  "backdrop_click supported m =
     (if Backdrop_click \<notin> set (md_click m) then m
      else if md_ignore m then m\<lparr>md_ignore := False\<rparr>
      else if md_backdrop_opt m = Static_backdrop then m
      else hide_modal supported m)"

definition dismiss_click :: "bool \<Rightarrow> modal \<Rightarrow> modal" where
  "dismiss_click supported m = (if Dismiss_button \<in> set (md_click m) then hide_modal supported m else m)"

definition keydown :: "bool \<Rightarrow> nat \<Rightarrow> modal \<Rightarrow> modal" where
  "keydown supported key m = (if 0 < md_keydown m \<and> key = 27 then hide_modal supported m else m)"

section \<open>Steps\<close>

text \<open>
  The life of a dialog: what the page, the user and the browser do to it after it was made. \<open>quiet\<close> says that no transition is under way.
\<close>

definition quiet :: "modal \<Rightarrow> bool" where
  "quiet m \<longleftrightarrow> md_on_element m = [] \<and> md_on_dialog m = [] \<and> md_on_backdrop m = []"

inductive ends :: "bool \<Rightarrow> modal \<Rightarrow> modal \<Rightarrow> bool" for supported where
  ends_element: "md_on_element m \<noteq> [] \<Longrightarrow> ends supported m (element_end supported m)"
| ends_dialog: "md_on_dialog m \<noteq> [] \<Longrightarrow> ends supported m (dialog_end supported m)"
| ends_backdrop: "(b, w) \<in> set (md_on_backdrop m) \<Longrightarrow> ends supported m (backdrop_end supported b m)"

inductive other_step :: "bool \<Rightarrow> modal \<Rightarrow> modal \<Rightarrow> bool" for supported where
  step_hide: "other_step supported m (hide_modal supported m)"
| step_drag: "other_step supported m (drag_out m)"
| step_backdrop: "other_step supported m (backdrop_click supported m)"
| step_dismiss: "other_step supported m (dismiss_click supported m)"
| step_key: "other_step supported m (keydown supported key m)"
| step_end: "ends supported m m' \<Longrightarrow> other_step supported m m'"

text \<open>
  The script shows a dialog at any time that it is not shown. A patient page does not show it while the
  transitions of hiding it are under way.
\<close>

inductive modal_step :: "bool \<Rightarrow> modal \<Rightarrow> modal \<Rightarrow> bool" for supported where
  step_show: "modal_step supported m (show_modal supported m)"
| step_other: "other_step supported m m' \<Longrightarrow> modal_step supported m m'"

inductive patient_step :: "bool \<Rightarrow> modal \<Rightarrow> modal \<Rightarrow> bool" for supported where
  patient_show: "md_shown m \<or> quiet m \<Longrightarrow> patient_step supported m (show_modal supported m)"
| patient_other: "other_step supported m m' \<Longrightarrow> patient_step supported m m'"

section \<open>Every transition comes to an end\<close>

definition weight :: "waiting \<Rightarrow> nat" where
  "weight w = (case w of Continue k \<Rightarrow> (if k = Show_element then 2 else 1)
     | Remove_backdrop k \<Rightarrow> (if k = Show_element then 2 else 1) | Hide_modal \<Rightarrow> 2 | Report_shown \<Rightarrow> 1)"

definition load :: "modal \<Rightarrow> nat" where
  "load m = sum_list (map weight (md_on_element m)) + sum_list (map weight (md_on_dialog m))
     + sum_list (map (weight \<circ> snd) (md_on_backdrop m))"

lemma weight_pos: "0 < weight w"
  by (simp add: weight_def split: waiting.split)

lemma load_event [simp]: "load (trigger_event e m) = load m"
  by (simp add: trigger_event_def load_def)

lemma load_update [simp]:
  "load (m\<lparr>md_display := d\<rparr>) = load m" "load (m\<lparr>md_click := c\<rparr>) = load m"
  "load (m\<lparr>md_backdrop := x\<rparr>) = load m" "load (m\<lparr>md_made := n\<rparr>) = load m" "load (m\<lparr>md_backdrops := bs\<rparr>) = load m"
  "load (m\<lparr>md_on_backdrop := md_on_backdrop m @ [(b, w)]\<rparr>) = load m + weight w"
  "load (m\<lparr>md_backdrop := x, md_made := n, md_backdrops := bs, md_click := c, md_on_backdrop := md_on_backdrop m @ [(b, w)]\<rparr>)
     = load m + weight w"
  by (simp_all add: load_def)

lemma load_continue: "load (continue supported k m) \<le> load m + (if k = Show_element then 1 else 0)"
  by (cases k) (auto simp: continue_def load_def weight_def Let_def trigger_event_def)

lemma sum_list_filter_le: "sum_list (map f (filter P xs)) \<le> sum_list (map (f :: 'a \<Rightarrow> nat) xs)"
  by (induction xs) auto

lemma load_removeBackdrop: "load (removeBackdrop m) \<le> load m"
  using sum_list_filter_le by (auto simp: removeBackdrop_def load_def split: option.split)

lemma load_backdrop: "load (backdrop supported Report_hidden m) \<le> load m + 1"
proof -
  note c = load_continue [of supported Report_hidden]
  have "load (continue supported Report_hidden (removeBackdrop m)) \<le> load m + 1"
    using c [of "removeBackdrop m"] load_removeBackdrop [of m] by simp
  moreover have "load (continue supported Report_hidden (m\<lparr>md_backdrop := x, md_made := n, md_backdrops := bs, md_click := cs\<rparr>))
      \<le> load m + 1" for x n bs cs
    using c [of "m\<lparr>md_backdrop := x, md_made := n, md_backdrops := bs, md_click := cs\<rparr>"] by simp
  moreover have "load (continue supported Report_hidden m) \<le> load m + 1" using c [of m] by simp
  ultimately show ?thesis
    by (auto simp: backdrop_def Let_def weight_def intro: order_trans split: option.split bool.split)
qed

lemma load_hideModal: "load (hideModal supported m) \<le> load m + 1"
  using load_backdrop [of supported "m\<lparr>md_display := False\<rparr>"] by (simp add: hideModal_def)

lemma load_resume: "load (resume supported w m) < load m + weight w"
proof (cases w)
  case (Continue k)
  then show ?thesis using load_continue [of supported k m] by (simp add: resume_def weight_def split: if_splits)
next
  case (Remove_backdrop k)
  then show ?thesis using load_continue [of supported k "removeBackdrop m"] load_removeBackdrop [of m]
    by (simp add: resume_def weight_def split: if_splits)
next
  case Hide_modal
  then show ?thesis using load_hideModal [of supported m] by (simp add: resume_def weight_def)
next
  case Report_shown
  then show ?thesis by (simp add: resume_def weight_def)
qed

lemma load_fold: "ws \<noteq> [] \<Longrightarrow> load (fold (resume supported) ws m) < load m + sum_list (map weight ws)"
proof (induction ws arbitrary: m)
  case Nil
  then show ?case by simp
next
  case (Cons w ws)
  show ?case
    using load_resume [of supported w m] Cons.IH [of "resume supported w m"] by (cases "ws = []") simp_all
qed

lemma load_part:
  "load (m\<lparr>md_on_element := []\<rparr>) + sum_list (map weight (md_on_element m)) = load m"
  "load (m\<lparr>md_on_dialog := []\<rparr>) + sum_list (map weight (md_on_dialog m)) = load m"
  "load (m\<lparr>md_on_backdrop := filter (\<lambda>(b', w). b' \<noteq> b) (md_on_backdrop m)\<rparr>)
     + sum_list (map weight (map snd (filter (\<lambda>(b', w). b' = b) (md_on_backdrop m)))) = load m"
proof -
  have "sum_list (map (weight \<circ> snd) (filter (\<lambda>(b', w). b' \<noteq> b) xs))
      + sum_list (map weight (map snd (filter (\<lambda>(b', w). b' = b) xs))) = sum_list (map (weight \<circ> snd) xs)" for xs
    by (induction xs) auto
  then show "load (m\<lparr>md_on_element := []\<rparr>) + sum_list (map weight (md_on_element m)) = load m"
    "load (m\<lparr>md_on_dialog := []\<rparr>) + sum_list (map weight (md_on_dialog m)) = load m"
    "load (m\<lparr>md_on_backdrop := filter (\<lambda>(b', w). b' \<noteq> b) (md_on_backdrop m)\<rparr>)
     + sum_list (map weight (map snd (filter (\<lambda>(b', w). b' = b) (md_on_backdrop m)))) = load m"
    by (simp_all add: load_def)
qed

lemma load_ends: "ends supported m m' \<Longrightarrow> load m' < load m"
proof (induction rule: ends.induct)
  case (ends_element m)
  then show ?case
    using load_fold [of "md_on_element m" supported "m\<lparr>md_on_element := []\<rparr>"] load_part(1) [of m]
    by (simp add: element_end_def)
next
  case (ends_dialog m)
  then show ?case
    using load_fold [of "md_on_dialog m" supported "m\<lparr>md_on_dialog := []\<rparr>"] load_part(2) [of m]
    by (simp add: dialog_end_def)
next
  case (ends_backdrop b w m)
  let ?ws = "map snd (filter (\<lambda>(b', w). b' = b) (md_on_backdrop m))"
  have "?ws \<noteq> []" using ends_backdrop by (force simp: filter_empty_conv)
  then show ?case
    using load_fold [of ?ws supported "m\<lparr>md_on_backdrop := filter (\<lambda>(b', w). b' \<noteq> b) (md_on_backdrop m)\<rparr>"] load_part(3) [of b m]
    by (simp add: backdrop_end_def)
qed

text \<open>
  Claim C35: every run of transition ends is finite, whatever the dialog was told before: no callback
  keeps the widget busy for ever.
\<close>

theorem transitions_terminate: "wf {(m', m). ends supported m m'}"
  by (rule wf_subset [OF wf_measure [of load]]) (auto simp: load_ends)

section \<open>What a dialog leaves behind\<close>

text \<open>
  The invariant of a dialog's life, while the callbacks \<open>ws\<close> still have to run: the document holds
  the current backdrop and no other; a shown dialog has its backdrop and nothing waits to take it
  away; a dialog that is not shown has no handlers left, and its backdrop and the mark of the body
  stay only while something waits to remove them.
\<close>

definition waits :: "modal \<Rightarrow> waiting set" where
  "waits m = set (md_on_element m) \<union> set (md_on_dialog m) \<union> snd ` set (md_on_backdrop m)"

definition closers :: "waiting set" where
  "closers = {Hide_modal, Remove_backdrop Report_hidden}"

definition modal_inv :: "waiting list \<Rightarrow> modal \<Rightarrow> bool" where
  "modal_inv ws m \<longleftrightarrow>
     md_backdrops m = (case md_backdrop m of None \<Rightarrow> [] | Some b \<Rightarrow> [b]) \<and>
     set ws \<union> waits m \<subseteq> closers \<union> {Continue Show_element, Report_shown} \<and>
     (\<forall>x\<in>set (md_on_backdrop m). md_backdrop m = Some (fst x)) \<and>
     (md_backdrop m \<noteq> None \<longrightarrow> md_backdrop_opt m \<noteq> No_backdrop) \<and>
     (md_shown m \<longrightarrow>
        (md_backdrop_opt m \<noteq> No_backdrop \<longrightarrow> md_backdrop m \<noteq> None) \<and> (set ws \<union> waits m) \<inter> closers = {}) \<and>
     (\<not> md_shown m \<longrightarrow>
        md_click m = [] \<and> md_keydown m = 0 \<and>
        (md_backdrop m \<noteq> None \<or> md_body_open m \<longrightarrow> (set ws \<union> waits m) \<inter> closers \<noteq> {}))"

lemma inv_new: "modal_inv [] (new_Modal fade opt keyboard)"
  by (simp add: modal_inv_def new_Modal_def waits_def)

lemma waits_continue:
  "waits (continue supported k m) = waits m \<union> (if k = Show_element \<and> supported \<and> md_fade m then {Report_shown} else {})"
  by (auto simp: continue_def waits_def Let_def trigger_event_def split: continuation.split)

lemma continue_fields:
  "md_backdrop (continue supported k m) = md_backdrop m" "md_backdrops (continue supported k m) = md_backdrops m"
  "md_shown (continue supported k m) = md_shown m" "md_backdrop_opt (continue supported k m) = md_backdrop_opt m"
  "md_click (continue supported k m) = md_click m" "md_keydown (continue supported k m) = md_keydown m"
  "md_on_backdrop (continue supported k m) = md_on_backdrop m"
  "md_body_open (continue supported k m) = (if k = Report_hidden then False else md_body_open m)"
  by (auto simp: continue_def Let_def trigger_event_def split: continuation.split)

lemma inv_show_element: "modal_inv (Continue Show_element # ws) m \<Longrightarrow> modal_inv ws (continue supported Show_element m)"
  unfolding modal_inv_def continue_fields waits_continue by (auto simp: closers_def)

lemma inv_report: "modal_inv (Report_shown # ws) m \<Longrightarrow> modal_inv ws (trigger_event e m)"
  unfolding modal_inv_def by (auto simp: closers_def trigger_event_def waits_def)

lemma removeBackdrop_fields:
  "md_shown (removeBackdrop m) = md_shown m" "md_backdrop_opt (removeBackdrop m) = md_backdrop_opt m"
  "md_click (removeBackdrop m) = md_click m" "md_keydown (removeBackdrop m) = md_keydown m"
  "md_backdrop (removeBackdrop m) = None" "md_body_open (removeBackdrop m) = md_body_open m"
  "waits (removeBackdrop m) \<subseteq> waits m" "set (md_on_backdrop (removeBackdrop m)) \<subseteq> set (md_on_backdrop m)"
  by (auto simp: removeBackdrop_def waits_def split: option.split)

lemma inv_removed:
  assumes "modal_inv (w # ws) m" and "\<not> md_shown m"
  shows "modal_inv ws (continue supported Report_hidden (removeBackdrop m))"
proof -
  have "md_backdrops (removeBackdrop m) = []" "md_on_backdrop (removeBackdrop m) = []"
  proof -
    have b: "\<forall>x\<in>set (md_on_backdrop m). md_backdrop m = Some (fst x)"
      "md_backdrops m = (case md_backdrop m of None \<Rightarrow> [] | Some b \<Rightarrow> [b])"
      using assms(1) by (simp_all add: modal_inv_def)
    then have "md_on_backdrop m = []" if "md_backdrop m = None" using b(1) that by (cases "md_on_backdrop m") force+
    then show "md_backdrops (removeBackdrop m) = []" "md_on_backdrop (removeBackdrop m) = []"
      using b by (auto simp: removeBackdrop_def filter_empty_conv split: option.split)
  qed
  then show ?thesis
    using assms removeBackdrop_fields(7) [of m]
    unfolding modal_inv_def continue_fields waits_continue removeBackdrop_fields by auto
qed

lemma inv_hideModal:
  assumes "modal_inv (Hide_modal # ws) m"
  shows "modal_inv ws (hideModal supported m)"
proof -
  have s: "\<not> md_shown m" using assms by (auto simp: modal_inv_def closers_def)
  let ?m = "m\<lparr>md_display := False\<rparr>"
  have m: "modal_inv (Hide_modal # ws) ?m" using assms by (auto simp: modal_inv_def waits_def closers_def)
  show ?thesis
  proof (cases "md_backdrop m")
    case None
    then have "hideModal supported m = continue supported Report_hidden ?m" using s by (simp add: hideModal_def backdrop_def)
    moreover have "modal_inv ws (continue supported Report_hidden ?m)"
      using m s None unfolding modal_inv_def continue_fields waits_continue by auto
    ultimately show ?thesis by simp
  next
    case (Some b)
    show ?thesis
    proof (cases "supported \<and> md_fade m")
      case True
      then have "hideModal supported m = ?m\<lparr>md_on_backdrop := md_on_backdrop m @ [(b, Remove_backdrop Report_hidden)]\<rparr>"
        using s Some by (simp add: hideModal_def backdrop_def)
      then show ?thesis using m s Some by (auto simp: modal_inv_def waits_def closers_def)
    next
      case False
      then have "hideModal supported m = continue supported Report_hidden (removeBackdrop ?m)"
        using s Some by (auto simp: hideModal_def backdrop_def)
      then show ?thesis using inv_removed [OF m] s by simp
    qed
  qed
qed

lemma inv_resume:
  assumes "modal_inv (w # ws) m"
  shows "modal_inv ws (resume supported w m)"
proof -
  have w: "w \<in> {Hide_modal, Remove_backdrop Report_hidden, Continue Show_element, Report_shown}"
    using assms by (auto simp: modal_inv_def closers_def)
  have "w = Remove_backdrop Report_hidden \<Longrightarrow> \<not> md_shown m" using assms by (auto simp: modal_inv_def closers_def)
  then show ?thesis
    using w assms inv_hideModal [of ws m supported] inv_removed [of w ws m supported] inv_show_element [of ws m supported]
      inv_report [of ws m "''shown''"]
    by (auto simp: resume_def)
qed

lemma inv_fold: "modal_inv ws m \<Longrightarrow> modal_inv [] (fold (resume supported) ws m)"
  by (induction ws arbitrary: m) (simp_all add: inv_resume)

lemma inv_ends:
  assumes a: "modal_inv [] m" and "ends supported m m'"
  shows "modal_inv [] m'"
  using assms(2)
proof cases
  case ends_element
  have "modal_inv (md_on_element m) (m\<lparr>md_on_element := []\<rparr>)"
    using a by (auto simp: modal_inv_def waits_def)
  then show "modal_inv [] m'" unfolding ends_element(1) element_end_def by (rule inv_fold)
next
  case ends_dialog
  have "modal_inv (md_on_dialog m) (m\<lparr>md_on_dialog := []\<rparr>)"
    using a by (auto simp: modal_inv_def waits_def)
  then show "modal_inv [] m'" unfolding ends_dialog(1) dialog_end_def by (rule inv_fold)
next
  case (ends_backdrop b w)
  let ?m = "m\<lparr>md_on_backdrop := filter (\<lambda>(b', w). b' \<noteq> b) (md_on_backdrop m)\<rparr>"
  let ?ws = "map snd (filter (\<lambda>(b', w). b' = b) (md_on_backdrop m))"
  have "set ?ws \<union> waits ?m = waits m" by (force simp: waits_def)
  then have "modal_inv ?ws ?m" using a by (auto simp: modal_inv_def)
  then show "modal_inv [] m'" unfolding ends_backdrop(1) backdrop_end_def by (rule inv_fold)
qed

lemma inv_hide: "modal_inv [] m \<Longrightarrow> modal_inv [] (hide_modal supported m)"
proof (cases "md_shown m")
  case True
  assume a: "modal_inv [] m"
  let ?m = "(escape (m\<lparr>md_shown := False\<rparr>))\<lparr>md_in := False, md_click := []\<rparr>"
  have h: "modal_inv [Hide_modal] ?m" using a True by (auto simp: modal_inv_def waits_def closers_def escape_def)
  show ?thesis
  proof (cases "supported \<and> md_fade m")
    case True
    then show ?thesis using h \<open>md_shown m\<close> by (auto simp: hide_modal_def Let_def modal_inv_def waits_def escape_def)
  next
    case False
    then have "hide_modal supported m = hideModal supported ?m" using \<open>md_shown m\<close> by (auto simp: hide_modal_def Let_def escape_def)
    then show ?thesis using inv_hideModal [OF h] by simp
  qed
qed (simp add: hide_modal_def)

lemma inv_show:
  assumes "modal_inv [] m" and "md_shown m \<or> quiet m"
  shows "modal_inv [] (show_modal supported m)"
proof (cases "md_shown m")
  case False
  define m1 where "m1 = (escape (m\<lparr>md_shown := True, md_body_open := True\<rparr>))\<lparr>md_click := md_click m @ [Dismiss_button]\<rparr>"
  have n: "md_backdrop m = None" "md_backdrops m = []" "waits m = {}" using assms False by (auto simp: modal_inv_def waits_def quiet_def)
  have f: "md_backdrop m1 = None" "md_backdrops m1 = []" "waits m1 = {}" "md_shown m1" "md_backdrop_opt m1 = md_backdrop_opt m"
    using n by (simp_all add: m1_def escape_def waits_def)
  have s: "show_modal supported m = backdrop supported Show_element m1"
    using False by (simp add: show_modal_def m1_def Let_def escape_def)
  show ?thesis
  proof (cases "md_backdrop_opt m = No_backdrop")
    case True
    then have "show_modal supported m = continue supported Show_element m1" using f by (simp add: s backdrop_def)
    moreover have "modal_inv [Continue Show_element] m1"
      using f True by (auto simp: modal_inv_def waits_def closers_def)
    ultimately show ?thesis by (simp add: inv_show_element)
  next
    case False
    define m2 where "m2 = m1\<lparr>md_backdrop := Some (md_made m1), md_made := Suc (md_made m1), md_backdrops := md_backdrops m1 @ [md_made m1],
                    md_click := md_click m1 @ [Backdrop_click]\<rparr>"
    have "waits m2 = {}" "md_on_backdrop m2 = []" using f(3) by (auto simp: m2_def waits_def)
    then have i: "modal_inv [Continue Show_element] m2"
      using f False by (auto simp: modal_inv_def closers_def m2_def)
    have "show_modal supported m = (if supported \<and> md_fade m1 then m2\<lparr>md_on_backdrop := md_on_backdrop m2 @ [(md_made m1, Continue Show_element)]\<rparr>
        else continue supported Show_element m2)"
      using f False by (simp add: s backdrop_def Let_def m2_def)
    moreover have "modal_inv [] (m2\<lparr>md_on_backdrop := md_on_backdrop m2 @ [(md_made m1, Continue Show_element)]\<rparr>)"
      using i f by (auto simp: modal_inv_def waits_def m2_def closers_def)
    ultimately show ?thesis using inv_show_element [OF i] by simp
  qed
qed (use assms in \<open>simp add: show_modal_def\<close>)

lemma inv_ignore [simp]: "modal_inv ws (m\<lparr>md_ignore := b\<rparr>) = modal_inv ws m"
  unfolding modal_inv_def waits_def by simp

lemma modal_inv_other: "other_step supported m m' \<Longrightarrow> modal_inv [] m \<Longrightarrow> modal_inv [] m'"
proof (induction rule: other_step.induct)
  case (step_drag m)
  then show ?case by (simp add: drag_out_def)
next
  case (step_backdrop m)
  then show ?case using inv_hide by (simp add: backdrop_click_def)
qed (auto simp: inv_hide inv_ends dismiss_click_def keydown_def)

lemma modal_inv_step: "patient_step supported m m' \<Longrightarrow> modal_inv [] m \<Longrightarrow> modal_inv [] m'"
proof (induction rule: patient_step.induct)
  case (patient_show m)
  then show ?case using inv_show by blast
next
  case (patient_other m m')
  then show ?case by (rule modal_inv_other)
qed

text \<open>
  Claim C10: for a page that does not show the dialog again while the transitions of hiding it are under way:
  in whatever order the transitions end and whatever is clicked meanwhile, while the dialog is shown it has
  exactly one backdrop, or none if it was to have none, and once it is hidden and at rest no backdrop,
  no handler and no mark on the body is left. Without this condition a backdrop stays for ever
  (\<open>show_while_hiding\<close> below).
\<close>

theorem no_backdrop_left:
  assumes "(patient_step supported)\<^sup>*\<^sup>* (new_Modal fade opt keyboard) m"
  shows "if md_shown m then length (md_backdrops m) = (if md_backdrop_opt m = No_backdrop then 0 else 1)
     else \<not> quiet m \<or> md_backdrops m = [] \<and> \<not> md_body_open m \<and> md_click m = [] \<and> md_keydown m = 0"
proof -
  have "modal_inv [] m" using assms by (induction rule: rtranclp_induct) (simp_all add: inv_new modal_inv_step)
  note i = this [unfolded modal_inv_def]
  have "quiet m \<Longrightarrow> waits m = {}" by (simp add: quiet_def waits_def)
  moreover have "\<not> md_shown m \<longrightarrow> md_click m = [] \<and> md_keydown m = 0 \<and>
      (md_backdrop m \<noteq> None \<or> md_body_open m \<longrightarrow> (set [] \<union> waits m) \<inter> closers \<noteq> {})"
    using i by blast
  ultimately have rest: "quiet m \<Longrightarrow> \<not> md_shown m \<Longrightarrow> md_backdrop m = None \<and> \<not> md_body_open m \<and> md_click m = [] \<and> md_keydown m = 0"
    by auto
  have "md_shown m \<longrightarrow> md_backdrop_opt m \<noteq> No_backdrop \<longrightarrow> md_backdrop m \<noteq> None"
    "md_backdrop m \<noteq> None \<longrightarrow> md_backdrop_opt m \<noteq> No_backdrop" using i by blast+
  then have shown: "md_shown m \<Longrightarrow> (md_backdrop m = None) = (md_backdrop_opt m = No_backdrop)" by auto
  have d: "md_backdrops m = (case md_backdrop m of None \<Rightarrow> [] | Some b \<Rightarrow> [b])" using i by simp
  show ?thesis
  proof (cases "md_shown m")
    case True
    have "length (md_backdrops m) = (if md_backdrop_opt m = No_backdrop then 0 else 1)"
      using shown [OF True] unfolding d by (cases "md_backdrop m") simp_all
    then show ?thesis using True by simp
  next
    case False
    then show ?thesis using rest [OF _ False] by (cases "quiet m") (simp_all add: d)
  qed
qed

lemma no_backdrop_left_witness:
  "let m = hide_modal False (show_modal False (new_Modal True Static_backdrop False))
   in md_backdrops m = [] \<and> \<not> md_body_open m \<and> md_events m = [''shown'', ''hidden'']"
proof -
  let ?n = "new_Modal True Static_backdrop False"
  let ?m = "hide_modal False (show_modal False ?n)"
  have "patient_step False ?n (show_modal False ?n)" by (rule patient_show) (simp add: quiet_def new_Modal_def)
  moreover have "patient_step False (show_modal False ?n) ?m" by (rule patient_other [OF step_hide])
  ultimately have "(patient_step False)\<^sup>*\<^sup>* ?n ?m" by (meson converse_rtranclp_into_rtranclp rtranclp.rtrancl_refl)
  note left = no_backdrop_left [OF this]
  have "\<not> md_shown ?m" "quiet ?m" "md_events ?m = [''shown'', ''hidden'']" by code_simp+
  then show ?thesis using left by simp
qed

text \<open>
  Shown again while its backdrop fades out, the dialog is given a second backdrop, and the end of the first one's
  transition takes the second one out: the first one stays in the document, also after the dialog is hidden
  again.
\<close>

definition shown_dialog :: modal where
  "shown_dialog = dialog_end True (backdrop_end True 0 (show_modal True (new_Modal True Click_backdrop True)))"

definition shown_while_hiding :: modal where
  "shown_while_hiding = backdrop_end True 0 (show_modal True (element_end True (hide_modal True shown_dialog)))"

lemma show_while_hiding:
  "(modal_step True)\<^sup>*\<^sup>* (new_Modal True Click_backdrop True) (element_end True (hide_modal True shown_while_hiding))"
  "(let m = element_end True (hide_modal True shown_while_hiding) in \<not> md_shown m \<and> quiet m \<and> md_backdrops m = [0])"
proof -
  let ?n = "new_Modal True Click_backdrop True"
  have on: "modal_step True m (backdrop_end True 0 m)" if z: "0 \<in> fst ` set (md_on_backdrop m)" for m
  proof -
    obtain w where "(0, w) \<in> set (md_on_backdrop m)" using z by auto
    then show ?thesis by (rule step_other [OF step_end [OF ends_backdrop]])
  qed
  have el: "modal_step True m (element_end True m)" if "md_on_element m \<noteq> []" for m
    using that by (intro step_other step_end ends_element)
  have dl: "modal_step True m (dialog_end True m)" if "md_on_dialog m \<noteq> []" for m
    using that by (intro step_other step_end ends_dialog)
  have hd: "modal_step True m (hide_modal True m)" for m by (rule step_other [OF step_hide])
  have "(modal_step True)\<^sup>*\<^sup>* ?n (show_modal True ?n)" using step_show by blast
  also have "modal_step True (show_modal True ?n) (backdrop_end True 0 (show_modal True ?n))" by (rule on) code_simp
  also have "modal_step True (backdrop_end True 0 (show_modal True ?n)) shown_dialog" unfolding shown_dialog_def by (rule dl) code_simp
  also have "modal_step True shown_dialog (hide_modal True shown_dialog)" by (rule hd)
  also have "modal_step True (hide_modal True shown_dialog) (element_end True (hide_modal True shown_dialog))" by (rule el) code_simp
  also have "modal_step True (element_end True (hide_modal True shown_dialog)) (show_modal True (element_end True (hide_modal True shown_dialog)))"
    by (rule step_show)
  also have "modal_step True (show_modal True (element_end True (hide_modal True shown_dialog))) shown_while_hiding"
    unfolding shown_while_hiding_def by (rule on) code_simp
  also have "modal_step True shown_while_hiding (hide_modal True shown_while_hiding)" by (rule hd)
  also have "modal_step True (hide_modal True shown_while_hiding) (element_end True (hide_modal True shown_while_hiding))" by (rule el) code_simp
  finally show "(modal_step True)\<^sup>*\<^sup>* ?n (element_end True (hide_modal True shown_while_hiding))" .
  show "let m = element_end True (hide_modal True shown_while_hiding) in \<not> md_shown m \<and> quiet m \<and> md_backdrops m = [0]"
    by code_simp
qed

end
