(* ===== verification/Bootbox.thy ===== *)
theory Bootbox imports Main Prelude JsValue MomentLocale Dynamic BootModal begin

text \<open>
  The dialogs of bootbox.js: how arguments and defaults become the options of a dialog (with every
  error that can be thrown on the way), the dialog that is built from them, and what it does with
  clicks, keys and the ends of transitions. The caller's functions are a parameter: what such a
  function returns may depend on every call before it. Labels are opaque texts; those of the table
  that are not ASCII are given by their UTF-8 bytes.
\<close>

section \<open>Translations\<close>

definition utf8 :: "nat list \<Rightarrow> string" where
  "utf8 bs = map char_of bs"

definition locale_entry :: "string \<Rightarrow> string \<Rightarrow> string \<Rightarrow> string \<Rightarrow> string \<times> (string \<times> dyn) list" where
  "locale_entry n ok cancel confirm = (n, [(''OK'', Str ok), (''CANCEL'', Str cancel), (''CONFIRM'', Str confirm)])"

definition locales :: "(string \<times> (string \<times> dyn) list) list" where
  "locales = [
     locale_entry ''bg_BG'' (utf8 [208, 158, 208, 186])
       (utf8 [208, 158, 209, 130, 208, 186, 208, 176, 208, 183])
       (utf8 [208, 159, 208, 190, 209, 130, 208, 178, 209, 138, 209, 128, 208, 182, 208, 180, 208, 176, 208, 178, 208, 176, 208, 188]),
     locale_entry ''br'' (''OK'')
       (''Cancelar'')
       (''Sim''),
     locale_entry ''cs'' (''OK'')
       (utf8 [90, 114, 117, 197, 161, 105, 116])
       (''Potvrdit''),
     locale_entry ''da'' (''OK'')
       (''Annuller'')
       (''Accepter''),
     locale_entry ''de'' (''OK'')
       (''Abbrechen'')
       (''Akzeptieren''),
     locale_entry ''el'' (utf8 [206, 149, 206, 189, 207, 132, 206, 172, 206, 190, 206, 181, 206, 185])
       (utf8 [206, 145, 206, 186, 207, 141, 207, 129, 207, 137, 207, 131, 206, 183])
       (utf8 [206, 149, 207, 128, 206, 185, 206, 178, 206, 181, 206, 178, 206, 177, 206, 175, 207, 137, 207, 131, 206, 183]),
     locale_entry ''en'' (''OK'')
       (''Cancel'')
       (''OK''),
     locale_entry ''es'' (''OK'')
       (''Cancelar'')
       (''Aceptar''),
     locale_entry ''et'' (''OK'')
       (''Katkesta'')
       (''OK''),
     locale_entry ''fa'' (utf8 [217, 130, 216, 168, 217, 136, 217, 132])
       (utf8 [217, 132, 216, 186, 217, 136])
       (utf8 [216, 170, 216, 167, 219, 140, 219, 140, 216, 175]),
     locale_entry ''fi'' (''OK'')
       (''Peruuta'')
       (''OK''),
     locale_entry ''fr'' (''OK'')
       (''Annuler'')
       (utf8 [68, 39, 97, 99, 99, 111, 114, 100]),
     locale_entry ''he'' (utf8 [215, 144, 215, 153, 215, 169, 215, 149, 215, 168])
       (utf8 [215, 145, 215, 153, 215, 152, 215, 149, 215, 156])
       (utf8 [215, 144, 215, 153, 215, 169, 215, 149, 215, 168]),
     locale_entry ''hu'' (''OK'')
       (utf8 [77, 195, 169, 103, 115, 101, 109])
       (utf8 [77, 101, 103, 101, 114, 197, 145, 115, 195, 173, 116]),
     locale_entry ''hr'' (''OK'')
       (''Odustani'')
       (''Potvrdi''),
     locale_entry ''id'' (''OK'')
       (''Batal'')
       (''OK''),
     locale_entry ''it'' (''OK'')
       (''Annulla'')
       (''Conferma''),
     locale_entry ''ja'' (''OK'')
       (utf8 [227, 130, 173, 227, 131, 163, 227, 131, 179, 227, 130, 187, 227, 131, 171])
       (utf8 [231, 162, 186, 232, 170, 141]),
     locale_entry ''lt'' (''Gerai'')
       (utf8 [65, 116, 197, 161, 97, 117, 107, 116, 105])
       (''Patvirtinti''),
     locale_entry ''lv'' (''Labi'')
       (''Atcelt'')
       (utf8 [65, 112, 115, 116, 105, 112, 114, 105, 110, 196, 129, 116]),
     locale_entry ''nl'' (''OK'')
       (''Annuleren'')
       (''Accepteren''),
     locale_entry ''no'' (''OK'')
       (''Avbryt'')
       (''OK''),
     locale_entry ''pl'' (''OK'')
       (''Anuluj'')
       (utf8 [80, 111, 116, 119, 105, 101, 114, 100, 197, 186]),
     locale_entry ''pt'' (''OK'')
       (''Cancelar'')
       (''Confirmar''),
     locale_entry ''ru'' (''OK'')
       (utf8 [208, 158, 209, 130, 208, 188, 208, 181, 208, 189, 208, 176])
       (utf8 [208, 159, 209, 128, 208, 184, 208, 188, 208, 181, 208, 189, 208, 184, 209, 130, 209, 140]),
     locale_entry ''sq'' (''OK'')
       (''Anulo'')
       (''Prano''),
     locale_entry ''sv'' (''OK'')
       (''Avbryt'')
       (''OK''),
     locale_entry ''th'' (utf8 [224, 184, 149, 224, 184, 129, 224, 184, 165, 224, 184, 135])
       (utf8 [224, 184, 162, 224, 184, 129, 224, 185, 128, 224, 184, 165, 224, 184, 180, 224, 184, 129])
       (utf8 [224, 184, 162, 224, 184, 183, 224, 184, 153, 224, 184, 162, 224, 184, 177, 224, 184, 153]),
     locale_entry ''tr'' (''Tamam'')
       (utf8 [196, 176, 112, 116, 97, 108])
       (''Onayla''),
     locale_entry ''zh_CN'' (''OK'')
       (utf8 [229, 143, 150, 230, 182, 136])
       (utf8 [231, 161, 174, 232, 174, 164]),
     locale_entry ''zh_TW'' (''OK'')
       (utf8 [229, 143, 150, 230, 182, 136])
       (utf8 [231, 162, 186, 232, 170, 141])]"

text \<open>The state of the library: the default options and the translations.\<close>

record bootbox =
  bb_defaults :: "(string \<times> dyn) list"
  bb_locales :: "(string \<times> (string \<times> dyn) list) list"

definition default_options :: "(string \<times> dyn) list" where
  "default_options =
     [(''locale'', Str ''en''), (''backdrop'', Str ''static''), (''animate'', Bool True), (''className'', Null),
      (''closeButton'', Bool True), (''show'', Bool True), (''container'', Str ''body'')]"

definition initial_bootbox :: bootbox where
  "initial_bootbox = \<lparr>bb_defaults = default_options, bb_locales = locales\<rparr>"

definition translate :: "bootbox \<Rightarrow> string \<Rightarrow> failure + dyn" where
  "translate b key =
     (case map_of (bb_locales b) (dyn_String (lookup (bb_defaults b) ''locale'')) of
        Some l \<Rightarrow> Inr (lookup l key)
      | None \<Rightarrow> (case map_of (bb_locales b) ''en'' of Some l \<Rightarrow> Inr (lookup l key) | None \<Rightarrow> Inl TypeError))"

definition setDefaults :: "dyn list \<Rightarrow> bootbox \<Rightarrow> bootbox" where
  "setDefaults args b =
     (let vals = (if length args = 2 then [(dyn_String (args ! 0), args ! 1)]
                  else if args = [] then [] else own_items (args ! 0))
      in b\<lparr>bb_defaults := assign_props (bb_defaults b) vals\<rparr>)"

definition setLocale :: "string \<Rightarrow> bootbox \<Rightarrow> bootbox" where
  "setLocale n b = setDefaults [Str ''locale'', Str n] b"

fun check_translations :: "string list \<Rightarrow> dyn \<Rightarrow> failure + unit" where
  "check_translations [] v = Inr ()"
| "check_translations (k # ks) v =
     bindE (get_prop v k) (\<lambda>x.
       if dyn_truthy x then check_translations ks v
       else Inl (Error (''Please supply a translation for '' @ [CHR 0x27] @ k @ [CHR 0x27])))"

definition addLocale :: "string \<Rightarrow> dyn \<Rightarrow> bootbox \<Rightarrow> failure + bootbox" where
  "addLocale n v b =
     bindE (check_translations [''OK'', ''CANCEL'', ''CONFIRM''] v) (\<lambda>_.
     bindE (get_prop v ''OK'') (\<lambda>ok. bindE (get_prop v ''CANCEL'') (\<lambda>cancel. bindE (get_prop v ''CONFIRM'') (\<lambda>confirm.
       Inr (b\<lparr>bb_locales := assoc_put n [(''OK'', ok), (''CANCEL'', cancel), (''CONFIRM'', confirm)] (bb_locales b)\<rparr>)))))"

definition removeLocale :: "string \<Rightarrow> bootbox \<Rightarrow> bootbox" where
  "removeLocale n b = b\<lparr>bb_locales := filter (\<lambda>(k, v). k \<noteq> n) (bb_locales b)\<rparr>"

section \<open>From arguments to options\<close>

definition mapArguments :: "dyn list \<Rightarrow> string list \<Rightarrow> failure + dyn" where
  "mapArguments args properties =
     (if args = [] \<or> 2 < length args then Inl (Error ''Invalid argument length'')
      else if length args = 2 \<or> (case hd args of Str s \<Rightarrow> True | _ \<Rightarrow> False) then
        Inr (Obj (assoc_put (properties ! 1) (if length args = 2 then args ! 1 else Undef) [(properties ! 0, args ! 0)]))
      else Inr (hd args))"

definition mergeArguments :: "(string \<times> dyn) list \<Rightarrow> dyn list \<Rightarrow> string list \<Rightarrow> failure + (string \<times> dyn) list" where
  "mergeArguments base args properties =
     bindE (mapArguments args properties) (\<lambda>options. Inr (extend_deep [Obj base, options]))"

fun createLabels :: "bootbox \<Rightarrow> string list \<Rightarrow> failure + (string \<times> dyn) list" where
  "createLabels b [] = Inr []"
| "createLabels b (label # labels) =
     bindE (translate b (toUpperCase label)) (\<lambda>text1. bindE (createLabels b labels) (\<lambda>rest.
       Inr ((toLowerCase label, Obj [(''label'', text1)]) # rest)))"

fun check_buttons :: "string list \<Rightarrow> (dyn \<times> dyn) list \<Rightarrow> failure + unit" where
  "check_buttons allowed [] = Inr ()"
| "check_buttons allowed ((key, v) # items) =
     (if dyn_String key \<in> set allowed then check_buttons allowed items
      else Inl (Error (''button key '' @ dyn_String key @ '' is not allowed (options are '' @ join_with [CHR 0x0A] allowed @ '')'')))"

definition validateButtons :: "(string \<times> dyn) list \<Rightarrow> string list \<Rightarrow> failure + (string \<times> dyn) list" where
  "validateButtons options buttons =
     bindE (each_items (lookup options ''buttons'')) (\<lambda>items.
     bindE (check_buttons buttons items) (\<lambda>_. Inr options))"

definition mergeDialogOptions ::
  "bootbox \<Rightarrow> string \<Rightarrow> string list \<Rightarrow> string list \<Rightarrow> dyn list \<Rightarrow> failure + (string \<times> dyn) list" where
  "mergeDialogOptions b name1 labels properties args =
     bindE (createLabels b labels) (\<lambda>buttons.
     bindE (mergeArguments [(''className'', Str (''bootbox-'' @ name1)), (''buttons'', Obj buttons)] args properties) (\<lambda>options.
       validateButtons options labels))"

text \<open>\<open>options.buttons[key].callback = f\<close>.\<close>

definition set_callback :: "string \<Rightarrow> dyn \<Rightarrow> (string \<times> dyn) list \<Rightarrow> failure + (string \<times> dyn) list" where
  "set_callback key f options =
     bindE (get_prop (lookup options ''buttons'') key) (\<lambda>button.
     bindE (put_prop ''callback'' f button) (\<lambda>button'.
     bindE (put_prop key button' (lookup options ''buttons'')) (\<lambda>buttons'.
       Inr (assoc_put ''buttons'' buttons' options))))"

section \<open>Sanitizing the options of a dialog\<close>

text \<open>One button: a function becomes an object, a missing label is the key, a missing class is chosen.\<close>

definition sanitize_button :: "nat \<Rightarrow> nat \<Rightarrow> dyn \<Rightarrow> dyn \<Rightarrow> failure + dyn" where
  "sanitize_button total1 index key button =
     (let b1 = (if isFunction button then Obj [(''callback'', button)] else button) in
      if jq_type b1 \<noteq> ''object'' then Inl (Error (''button with key '' @ dyn_String key @ '' must be an object''))
      else
        bindE (get_prop b1 ''label'') (\<lambda>label.
        bindE (if dyn_truthy label then Inr b1 else put_prop ''label'' key b1) (\<lambda>b2.
        bindE (get_prop b2 ''className'') (\<lambda>style.
          if dyn_truthy style then Inr b2
          else put_prop ''className'' (Str (if total1 \<le> 2 \<and> Suc index = total1 then ''btn-primary'' else ''btn-default'')) b2))))"

fun sanitize_buttons :: "nat \<Rightarrow> nat \<Rightarrow> (dyn \<times> dyn) list \<Rightarrow> failure + (dyn \<times> dyn) list" where
  "sanitize_buttons total1 index [] = Inr []"
| "sanitize_buttons total1 index ((key, button) # items) =
     bindE (sanitize_button total1 index key button) (\<lambda>b1.
     bindE (sanitize_buttons total1 (Suc index) items) (\<lambda>rest. Inr ((key, b1) # rest)))"

text \<open>
  The result also lists the sanitized buttons in the order in which they are shown. The caller's own
  objects are sanitized in place, which only the caller can see.
\<close>

definition sanitize :: "bootbox \<Rightarrow> dyn \<Rightarrow> failure + (string \<times> dyn) list \<times> (dyn \<times> dyn) list" where
  "sanitize b options =
     (if \<not> typeof_object options then Inl (Error ''Please supply an object of options'')
      else
        bindE (get_prop options ''message'') (\<lambda>msg.
          if \<not> dyn_truthy msg then Inl (Error ''Please specify a message'')
          else
            (let opts = extend_shallow [] [Obj (bb_defaults b), options];
                 buttons = (if dyn_truthy (lookup opts ''buttons'') then lookup opts ''buttons'' else Obj [])
             in bindE (each_items buttons) (\<lambda>items.
                bindE (sanitize_buttons (length (own_items buttons)) 0 items) (\<lambda>items'.
                  Inr (assoc_put ''buttons'' buttons opts, items'))))))"

section \<open>Inputs of a prompt\<close>

record box =
  bx_value :: string
  bx_text :: dyn
  bx_checked :: bool

datatype select_child = Choice string string | Choices string "(string \<times> string) list"

datatype prompt_input = Text_input string string | Select_input "select_child list" "string option" | Box_input "box list" | Odd_input

text \<open>\<open>a === b\<close>; two objects of a merged copy are never the same.\<close>

fun strict_eq :: "dyn \<Rightarrow> dyn \<Rightarrow> bool" where
  "strict_eq Undef Undef = True"
| "strict_eq Null Null = True"
| "strict_eq (Bool a) (Bool b) = (a = b)"
| "strict_eq (Num a) (Num b) = (a = b)"
| "strict_eq (Str a) (Str b) = (a = b)"
| "strict_eq (Fun f) (Fun g) = (f = g)"
| "strict_eq v w = False"

definition text_types :: "string list" where
  "text_types = [''text'', ''textarea'', ''email'', ''date'', ''time'', ''number'', ''password'']"

text \<open>\<open>val(v)\<close>: the text set; what the browser keeps of it depends on the type of the input.\<close>

definition val_text :: "dyn \<Rightarrow> string" where
  "val_text v = (case v of Undef \<Rightarrow> [] | Null \<Rightarrow> [] | _ \<Rightarrow> dyn_String v)"

fun select_options :: "(dyn \<times> dyn) list \<Rightarrow> failure + (dyn \<times> dyn \<times> dyn) list" where
  "select_options [] = Inr []"
| "select_options ((i, opt) # items) =
     bindE (get_prop opt ''value'') (\<lambda>v. bindE (get_prop opt ''text'') (\<lambda>t.
       if v = Undef \<or> t = Undef then Inl (Error ''given options in wrong format'')
       else bindE (get_prop opt ''group'') (\<lambda>g. bindE (select_options items) (\<lambda>rest. Inr ((g, v, t) # rest)))))"

text \<open>
  Options without a group come first, in order; then the groups in the order of their first option.
\<close>

fun group_put :: "string \<Rightarrow> string \<times> string \<Rightarrow> (string \<times> (string \<times> string) list) list \<Rightarrow> (string \<times> (string \<times> string) list) list" where
  "group_put g x [] = [(g, [x])]"
| "group_put g x ((g', xs) # gs) = (if g' = g then (g', xs @ [x]) # gs else (g', xs) # group_put g x gs)"

definition arrange_options :: "(dyn \<times> dyn \<times> dyn) list \<Rightarrow> select_child list" where
  "arrange_options opts =
     (let plain = map (\<lambda>(g, v, t). Choice (dyn_String v) (dyn_String t)) (filter (\<lambda>(g, v, t). \<not> dyn_truthy g) opts);
          groups = fold (\<lambda>(g, v, t) gs. if dyn_truthy g then group_put (dyn_String g) (dyn_String v, dyn_String t) gs else gs) opts []
      in plain @ map (\<lambda>(g, xs). Choices g xs) groups)"

definition choice_values :: "select_child list \<Rightarrow> string list" where
  "choice_values cs = concat (map (\<lambda>c. case c of Choice v t \<Rightarrow> [v] | Choices g xs \<Rightarrow> map fst xs) cs)"

text \<open>
  The first option of a given value is selected, and without one nothing is. The values are compared
  with the texts of the options without conversion, which a boolean never equals.
\<close>

definition select_values :: "dyn \<Rightarrow> string list" where
  "select_values v = (case v of Arr xs \<Rightarrow> map val_text xs | Bool b \<Rightarrow> [] | _ \<Rightarrow> [val_text v])"

definition select_input :: "dyn \<Rightarrow> dyn \<Rightarrow> failure + prompt_input" where
  "select_input v opts =
     (let inputOptions = (if dyn_truthy opts then opts else Arr []) in
      if \<not> isArray inputOptions then Inl (Error ''Please pass an array of input options'')
      else if inputOptions = Arr [] then Inl (Error ''prompt with select requires options'')
      else
        bindE (each_items inputOptions) (\<lambda>items. bindE (select_options items) (\<lambda>triples.
          (let cs = arrange_options triples
           in Inr (Select_input cs (find (\<lambda>x. x \<in> set (select_values v)) (choice_values cs)))))))"

definition box_of :: "dyn list \<Rightarrow> dyn \<Rightarrow> failure + box" where
  "box_of vals opt =
     bindE (get_prop opt ''value'') (\<lambda>v. bindE (get_prop opt ''text'') (\<lambda>t.
       Inr \<lparr>bx_value = (if v = Undef \<or> v = Null then ''on'' else dyn_String v), bx_text = t,
            bx_checked = list_ex (\<lambda>x. strict_eq x v) vals\<rparr>))"

definition checkbox_input :: "dyn \<Rightarrow> dyn \<Rightarrow> failure + prompt_input" where
  "checkbox_input v opts =
     (let vals = (case v of Arr xs \<Rightarrow> xs | _ \<Rightarrow> [v]); inputOptions = (if dyn_truthy opts then opts else Arr []) in
      bindE (get_prop inputOptions ''length'') (\<lambda>n.
      if \<not> dyn_truthy n then Inl (Error ''prompt with checkbox requires options'')
      else
        bindE (get_prop inputOptions ''0'') (\<lambda>first. bindE (get_prop first ''value'') (\<lambda>v0. bindE (get_prop first ''text'') (\<lambda>t0.
          if \<not> dyn_truthy v0 \<or> \<not> dyn_truthy t0 then Inl (Error ''given options in wrong format'')
          else bindE (each_items inputOptions) (\<lambda>items. bindE (mapE (box_of vals \<circ> snd) items) (\<lambda>bs. Inr (Box_input bs))))))))"

definition input_value :: "prompt_input \<Rightarrow> dyn" where
  "input_value inp =
     (case inp of
        Text_input ty s \<Rightarrow> Str s
      | Select_input cs chosen \<Rightarrow> (case chosen of None \<Rightarrow> Null | Some s \<Rightarrow> Str s)
      | Box_input bs \<Rightarrow> Arr (map (Str \<circ> bx_value) (filter bx_checked bs))
      | Odd_input \<Rightarrow> Undef)"

section \<open>A dialog\<close>

datatype close_place = No_close | In_header | In_body

record footer_button =
  fb_handler :: string
  fb_class :: string
  fb_label :: string

record dialog =
  dg_modal :: modal
  dg_callbacks :: "(string \<times> dyn) list"
  dg_buttons :: "footer_button list"
  dg_message :: dyn
  dg_class :: string
  dg_size :: string
  dg_title :: "dyn option"
  dg_close :: close_place
  dg_container :: dyn
  dg_input :: "prompt_input option"
  dg_in_document :: bool

text \<open>The markup of the footer, which the buttons are parsed from.\<close>

definition button_html :: "footer_button \<Rightarrow> string" where
  "button_html fb =
     (let q = [CHR 0x27] in
      ''<button data-bb-handler='' @ q @ fb_handler fb @ q @ '' type='' @ q @ ''button'' @ q @ '' class='' @ q @ ''btn ''
      @ fb_class fb @ q @ ''>'' @ fb_label fb @ ''</button>'')"

fun footer_of :: "(dyn \<times> dyn) list \<Rightarrow> failure + (footer_button \<times> dyn) list" where
  "footer_of [] = Inr []"
| "footer_of ((key, button) # items) =
     bindE (get_prop button ''className'') (\<lambda>style. bindE (get_prop button ''label'') (\<lambda>label.
     bindE (get_prop button ''callback'') (\<lambda>f. bindE (footer_of items) (\<lambda>rest.
       Inr ((\<lparr>fb_handler = dyn_String key, fb_class = dyn_String style, fb_label = dyn_String label\<rparr>, f) # rest)))))"

text \<open>
  \<open>exports.dialog\<close>. The click handler that bootbox attaches to a background that is not static comes
  before those of the widget, as \<open>Foreign 0\<close>. \<open>loaded\<close>: Bootstrap's plugin is there.
\<close>

definition bootbox_dialog :: "bool \<Rightarrow> bool \<Rightarrow> bootbox \<Rightarrow> dyn \<Rightarrow> failure + dialog" where
  "bootbox_dialog loaded supported b options =
     bindE (sanitize b options) (\<lambda>(opts, items).
       if \<not> loaded then Inl (Error ''$.fn.modal is not defined'')
       else
         bindE (footer_of items) (\<lambda>footer.
           (let title = lookup opts ''title'';
                backdrop1 = lookup opts ''backdrop'';
                modal1 = (new_Modal (lookup opts ''animate'' = Bool True) (if dyn_truthy backdrop1 then Static_backdrop else No_backdrop)
                           False)\<lparr>md_click := (if backdrop1 = Str ''static'' then [] else [Foreign 0])\<rparr>;
                calls = fold (\<lambda>(fb, f). assoc_put (fb_handler fb) f) footer [(''onEscape'', lookup opts ''onEscape'')]
            in Inr \<lparr>dg_modal = (if dyn_truthy (lookup opts ''show'') then show_modal supported modal1 else modal1),
                 dg_callbacks = calls,
                 dg_buttons = map fst footer,
                 dg_message = lookup opts ''message'',
                 dg_class = (if dyn_truthy (lookup opts ''className'') then dyn_String (lookup opts ''className'') else []),
                 dg_size = (if lookup opts ''size'' = Str ''large'' then ''modal-lg''
                            else if lookup opts ''size'' = Str ''small'' then ''modal-sm'' else []),
                 dg_title = (if dyn_truthy title then Some title else None),
                 dg_close = (if \<not> dyn_truthy (lookup opts ''closeButton'') then No_close
                             else if dyn_truthy title then In_header else In_body),
                 dg_container = lookup opts ''container'',
                 dg_input = None,
                 dg_in_document = True\<rparr>)))"

section \<open>Alert, confirm and prompt\<close>

definition bootbox_alert :: "bool \<Rightarrow> bool \<Rightarrow> bootbox \<Rightarrow> dyn list \<Rightarrow> failure + dialog" where
  "bootbox_alert loaded supported b args =
     bindE (mergeDialogOptions b ''alert'' [''ok''] [''message'', ''callback''] args) (\<lambda>opts.
       let f = lookup opts ''callback''; close1 = Fun (Alert_close f) in
       if dyn_truthy f \<and> \<not> isFunction f then
         Inl (Error ''alert requires callback property to be a function when provided'')
       else bindE (set_callback ''ok'' close1 (assoc_put ''onEscape'' close1 opts)) (\<lambda>opts'.
         bootbox_dialog loaded supported b (Obj opts')))"

definition bootbox_confirm :: "bool \<Rightarrow> bool \<Rightarrow> bootbox \<Rightarrow> dyn list \<Rightarrow> failure + dialog" where
  "bootbox_confirm loaded supported b args =
     bindE (mergeDialogOptions b ''confirm'' [''cancel'', ''confirm''] [''message'', ''callback''] args) (\<lambda>opts.
       let f = lookup opts ''callback''; refuse = Fun (Call_with f (Bool False)) in
       bindE (set_callback ''cancel'' refuse (assoc_put ''onEscape'' refuse opts)) (\<lambda>opts1.
       bindE (set_callback ''confirm'' (Fun (Call_with f (Bool True))) opts1) (\<lambda>opts2.
         if \<not> isFunction f then Inl (Error ''confirm requires a callback'')
         else bootbox_dialog loaded supported b (Obj opts2))))"

text \<open>\<open>kept\<close> is what the browser keeps of a text set in an input of a type.\<close>

definition prompt_input_of :: "(string \<Rightarrow> string \<Rightarrow> string) \<Rightarrow> (string \<times> dyn) list \<Rightarrow> failure + prompt_input" where
  "prompt_input_of kept opts =
     (let ty = lookup opts ''inputType''; v = lookup opts ''value'' in
      if dyn_String ty \<notin> set (text_types @ [''select'', ''checkbox'']) then Inl (Error ''invalid prompt type'')
      else
        (case ty of
           Str t \<Rightarrow> (if t = ''select'' then select_input v (lookup opts ''inputOptions'')
                     else if t = ''checkbox'' then checkbox_input v (lookup opts ''inputOptions'')
                     else Inr (Text_input t (kept t (val_text v))))
         | _ \<Rightarrow> Inr Odd_input))"

definition bootbox_prompt ::
  "(string \<Rightarrow> string \<Rightarrow> string) \<Rightarrow> bool \<Rightarrow> bool \<Rightarrow> bootbox \<Rightarrow> dyn list \<Rightarrow> failure + dialog" where
  "bootbox_prompt kept loaded supported b args =
     bindE (createLabels b [''cancel'', ''confirm'']) (\<lambda>labels.
     bindE (mergeArguments [(''className'', Str ''bootbox-prompt''), (''buttons'', Obj labels), (''value'', Str []),
         (''inputType'', Str ''text'')] args [''title'', ''callback'']) (\<lambda>merged.
     bindE (validateButtons merged [''cancel'', ''confirm'']) (\<lambda>opts.
       let f = lookup opts ''callback''; leave = Fun (Call_with f Null); shouldShow = lookup opts ''show'' in
       bindE (set_callback ''cancel'' leave (assoc_put ''onEscape'' leave (assoc_put ''message'' (Node ''form'') opts))) (\<lambda>opts1.
       bindE (set_callback ''confirm'' (Fun (Prompt_value f)) opts1) (\<lambda>opts2.
         if \<not> dyn_truthy (lookup opts2 ''title'') then Inl (Error ''prompt requires a title'')
         else if \<not> isFunction f then Inl (Error ''prompt requires a callback'')
         else
           bindE (prompt_input_of kept opts2) (\<lambda>inp.
           bindE (bootbox_dialog loaded supported b (Obj (assoc_put ''show'' (Bool False) opts2))) (\<lambda>d.
             Inr (d\<lparr>dg_input := Some inp,
                  dg_modal := (if shouldShow = Undef \<or> shouldShow = Bool True then show_modal supported (dg_modal d)
                               else dg_modal d)\<rparr>))))))))"

section \<open>What the user does\<close>

text \<open>
  The calls of the caller's functions so far, each with its argument; \<open>run h n v\<close> is what function
  \<open>n\<close> returns when called with \<open>v\<close> after the calls \<open>h\<close>.
\<close>

type_synonym calls = "(nat \<times> dyn) list"
type_synonym runner = "calls \<Rightarrow> nat \<Rightarrow> dyn \<Rightarrow> dyn"

definition call_user :: "runner \<Rightarrow> dyn \<Rightarrow> dyn \<Rightarrow> calls \<Rightarrow> calls \<times> dyn" where
  "call_user run f v h = (case f of Fun (User n) \<Rightarrow> (h @ [(n, v)], run h n v) | _ \<Rightarrow> (h, Undef))"

definition invoke :: "runner \<Rightarrow> prompt_input option \<Rightarrow> closure \<Rightarrow> calls \<Rightarrow> calls \<times> dyn" where
  "invoke run inp f h =
     (case f of
        User n \<Rightarrow> call_user run (Fun f) (Node ''event'') h
      | Alert_close g \<Rightarrow> if isFunction g then call_user run g Undef h else (h, Bool True)
      | Call_with g v \<Rightarrow> call_user run g v h
      | Prompt_value g \<Rightarrow> call_user run g (case inp of None \<Rightarrow> Undef | Some i \<Rightarrow> input_value i) h)"

definition processCallback :: "bool \<Rightarrow> runner \<Rightarrow> dyn \<Rightarrow> dialog \<times> calls \<Rightarrow> dialog \<times> calls" where
  "processCallback supported run callback st =
     (case st of (d, h) \<Rightarrow>
        (let (h', r) = (case callback of Fun f \<Rightarrow> invoke run (dg_input d) f h | _ \<Rightarrow> (h, Undef));
             preserveDialog = (isFunction callback \<and> r = Bool False)
         in (if preserveDialog then d else d\<lparr>dg_modal := hide_modal supported (dg_modal d)\<rparr>, h')))"

datatype ui_event =
    Footer_click string
  | Close_click
  | Keyup nat
  | Background_click
  | Drag_out
  | Submit
  | Type_text string
  | Choose nat
  | Tick nat
  | Call_hide
  | Element_end
  | Dialog_end
  | Backdrop_end nat

definition trigger_escape :: "bool \<Rightarrow> runner \<Rightarrow> dialog \<times> calls \<Rightarrow> dialog \<times> calls" where
  "trigger_escape supported run st =
     (let f = lookup (dg_callbacks (fst st)) ''onEscape''
      in if dyn_truthy f then processCallback supported run f st else st)"

definition footer_click :: "bool \<Rightarrow> runner \<Rightarrow> string \<Rightarrow> dialog \<times> calls \<Rightarrow> dialog \<times> calls" where
  "footer_click supported run key st =
     processCallback supported run (lookup (dg_callbacks (fst st)) key) st"

text \<open>The class attribute of a button, split at blanks, has the class \<open>btn-primary\<close>.\<close>

definition is_primary :: "footer_button \<Rightarrow> bool" where
  "is_primary fb \<longleftrightarrow> ''btn-primary'' \<in> set (split_on (CHR '' '') (fb_class fb))"

definition edit_input :: "ui_event \<Rightarrow> prompt_input \<Rightarrow> prompt_input" where
  "edit_input e inp =
     (case (e, inp) of
        (Type_text s, Text_input t old) \<Rightarrow> Text_input t s
      | (Choose i, Select_input cs chosen) \<Rightarrow> (if i < length (choice_values cs) then Select_input cs (Some (choice_values cs ! i)) else inp)
      | (Tick i, Box_input bs) \<Rightarrow> (if i < length bs then Box_input (bs[i := (bs ! i)\<lparr>bx_checked := \<not> bx_checked (bs ! i)\<rparr>]) else inp)
      | _ \<Rightarrow> inp)"

definition ui_handle :: "bool \<Rightarrow> runner \<Rightarrow> ui_event \<Rightarrow> dialog \<times> calls \<Rightarrow> dialog \<times> calls" where
  "ui_handle supported run e st =
     (let d = fst st; m = dg_modal d; on_modal = (\<lambda>g. (d\<lparr>dg_modal := g m\<rparr>, snd st)) in
      case e of
        Footer_click key \<Rightarrow> if key \<in> fb_handler ` set (dg_buttons d) then footer_click supported run key st else st
      | Close_click \<Rightarrow>
          if dg_close d = No_close then st
          else (let (d1, h1) = processCallback supported run (lookup (dg_callbacks d) ''onEscape'') st
                in (if Dismiss_button \<in> set (md_click m) then d1\<lparr>dg_modal := hide_modal supported (dg_modal d1)\<rparr> else d1, h1))
      | Keyup key \<Rightarrow> if key = 27 then trigger_escape supported run st else st
      | Background_click \<Rightarrow>
          (let (d1, h1) = (if Foreign 0 \<in> set (md_click m) then trigger_escape supported run st else st)
           in (if Backdrop_click \<in> set (md_click m) then
                 d1\<lparr>dg_modal := (if md_ignore m then (dg_modal d1)\<lparr>md_ignore := False\<rparr>
                                 else if md_backdrop_opt m = Static_backdrop then dg_modal d1
                                 else hide_modal supported (dg_modal d1))\<rparr>
               else d1, h1))
      | Drag_out \<Rightarrow> on_modal drag_out
      | Submit \<Rightarrow> if dg_input d = None then st
                  else fold (\<lambda>key st1. if ''hidden'' \<in> set (md_events (dg_modal (fst st1))) then st1
                              else footer_click supported run key st1)
                    (map fb_handler (filter is_primary (dg_buttons d))) st
      | Call_hide \<Rightarrow> on_modal (hide_modal supported)
      | Element_end \<Rightarrow> on_modal (element_end supported)
      | Dialog_end \<Rightarrow> on_modal (dialog_end supported)
      | Backdrop_end b1 \<Rightarrow> on_modal (backdrop_end supported b1)
      | _ \<Rightarrow> (d\<lparr>dg_input := map_option (edit_input e) (dg_input d)\<rparr>, snd st))"

text \<open>When the widget reports that it is hidden, the dialog is removed and handles nothing more.\<close>

definition ui_step :: "bool \<Rightarrow> runner \<Rightarrow> ui_event \<Rightarrow> dialog \<times> calls \<Rightarrow> dialog \<times> calls" where
  "ui_step supported run e st =
     (if \<not> dg_in_document (fst st) then st
      else (let (d, h) = ui_handle supported run e st
            in (if ''hidden'' \<in> set (md_events (dg_modal d)) then d\<lparr>dg_in_document := False\<rparr> else d, h)))"

definition ui_run :: "bool \<Rightarrow> runner \<Rightarrow> ui_event list \<Rightarrow> dialog \<times> calls \<Rightarrow> dialog \<times> calls" where
  "ui_run supported run es st = fold (ui_step supported run) es st"

definition hideAll :: "bool \<Rightarrow> dialog list \<Rightarrow> dialog list" where
  "hideAll supported ds = map (fst \<circ> (\<lambda>d. ui_step supported (\<lambda>h n v. Undef) Call_hide (d, []))) ds"

end
