(* ===== verification/BootboxFacts.thy ===== *)
theory BootboxFacts imports Main Prelude Bootbox "HOL-Library.Multiset" begin

text \<open>
  What the dialogs of bootbox.js promise: sanitizing accepts exactly the buttons that are functions or
  objects and completes them, a confirmation calls back with the answer that was given and closes,
  the inputs of a prompt lose no option, and translations can be added and chosen.
\<close>

section \<open>The options of a confirmation\<close>

lemma merge_simps [simp]:
  "merge x (Str s) = Str s" "merge x (Fun f) = Fun f" "merge x (Bool b) = Bool b" "merge x (Node s) = Node s" "merge x Null = Null"
  "merge Undef (Obj kvs) = Obj (merge_props [] kvs)" "merge (Obj o1) (Obj kvs) = Obj (merge_props o1 kvs)"
  by (simp_all add: merge.simps)

declare merge.simps [simp del]

lemma confirm_options:
  assumes "translate b ''CANCEL'' = Inr (Str c)" and "translate b ''CONFIRM'' = Inr (Str k)"
  shows "mergeDialogOptions b ''confirm'' [''cancel'', ''confirm''] [''message'', ''callback''] [Str msg, Fun (User n)] =
    Inr [(''className'', Str ''bootbox-confirm''),
         (''buttons'', Obj [(''cancel'', Obj [(''label'', Str c)]), (''confirm'', Obj [(''label'', Str k)])]),
         (''message'', Str msg), (''callback'', Fun (User n))]"
proof -
  have u: "toUpperCase ''cancel'' = ''CANCEL''" "toUpperCase ''confirm'' = ''CONFIRM''" "toLowerCase ''cancel'' = ''cancel''"
    "toLowerCase ''confirm'' = ''confirm''"
    by code_simp+
  show ?thesis
    using assms
    by (simp add: mergeDialogOptions_def u mergeArguments_def mapArguments_def extend_deep_def validateButtons_def each_items_def
        isArraylike_def)
qed

definition answer :: "nat \<Rightarrow> bool \<Rightarrow> dyn" where
  "answer n v = Fun (Call_with (Fun (User n)) (Bool v))"

lemma style_key [simp]: "lookup ((k, v) # kvs) k = v"
  by simp

lemma confirm_opens:
  assumes "translate b ''CANCEL'' = Inr (Str c)" and "translate b ''CONFIRM'' = Inr (Str k)" and "msg \<noteq> []"
  obtains d where "bootbox_confirm True supported b [Str msg, Fun (User n)] = Inr d"
    "dg_callbacks d = [(''onEscape'', answer n False), (''cancel'', answer n False), (''confirm'', answer n True)]"
    "map fb_handler (dg_buttons d) = [''cancel'', ''confirm'']" "dg_input d = None" "dg_in_document d"
    "dg_message d = Str msg" "map is_primary (dg_buttons d) = [False, True]"
proof -
  let ?no = "answer n False" and ?yes = "answer n True"
  let ?o = "[(''className'', Str ''bootbox-confirm''),
      (''buttons'', Obj [(''cancel'', Obj [(''label'', Str c), (''callback'', ?no)]), (''confirm'', Obj [(''label'', Str k), (''callback'', ?yes)])]),
      (''message'', Str msg), (''callback'', Fun (User n)), (''onEscape'', ?no)]"
  have o: "bootbox_confirm True supported b [Str msg, Fun (User n)] = bootbox_dialog True supported b (Obj ?o)"
    by (simp add: bootbox_confirm_def confirm_options [OF assms(1,2)] set_callback_def get_prop_def isFunction_def answer_def Let_def)
  let ?t = "assign_props (assign_props [] (bb_defaults b)) ?o"
  have l: "lookup ?t x = (if lookup ?o x = Undef then lookup (assign_props [] (bb_defaults b)) x else lookup ?o x)" for x
    by (rule lookup_assign_props) simp
  let ?b1 = "Obj [(''label'', if c = [] then Str ''cancel'' else Str c), (''callback'', ?no), (''className'', Str ''btn-default'')]"
  let ?b2 = "Obj [(''label'', if k = [] then Str ''confirm'' else Str k), (''callback'', ?yes), (''className'', Str ''btn-primary'')]"
  have items: "sanitize b (Obj ?o) = Inr (assoc_put ''buttons'' (lookup ?o ''buttons'') ?t, [(Str ''cancel'', ?b1), (Str ''confirm'', ?b2)])"
    using assms(3) l [of "''buttons''"]
    by (simp add: sanitize_def get_prop_def extend_shallow_def each_items_def isArraylike_def sanitize_button_def isFunction_def Let_def)
  have foot: "footer_of [(Str ''cancel'', ?b1), (Str ''confirm'', ?b2)] =
     Inr [(\<lparr>fb_handler = ''cancel'', fb_class = ''btn-default'', fb_label = if c = [] then ''cancel'' else c\<rparr>, ?no),
          (\<lparr>fb_handler = ''confirm'', fb_class = ''btn-primary'', fb_label = if k = [] then ''confirm'' else k\<rparr>, ?yes)]"
    by (simp add: get_prop_def)
  have look: "lookup ?t ''onEscape'' = ?no" "lookup ?t ''message'' = Str msg" using l by (simp_all add: answer_def)
  have primary: "split_on (CHR '' '') ''btn-default'' = [''btn-default'']" "split_on (CHR '' '') ''btn-primary'' = [''btn-primary'']"
    by code_simp+
  obtain d where "bootbox_dialog True supported b (Obj ?o) = Inr d"
    "dg_callbacks d = [(''onEscape'', ?no), (''cancel'', ?no), (''confirm'', ?yes)]"
    "map fb_handler (dg_buttons d) = [''cancel'', ''confirm'']" "dg_input d = None" "dg_in_document d"
    "dg_message d = Str msg" "map is_primary (dg_buttons d) = [False, True]"
    unfolding bootbox_dialog_def items by (simp add: foot look Let_def is_primary_def primary del: footer_of.simps)
  then show thesis using that o by simp
qed

lemma backdrop_shown: "md_shown (backdrop supported k m) = md_shown m"
  by (cases "md_backdrop m"; cases "md_shown m") (simp_all add: backdrop_def Let_def continue_fields removeBackdrop_fields)

lemma hide_not_shown: "\<not> md_shown (hide_modal supported m)"
  by (simp add: hide_modal_def hideModal_def backdrop_shown Let_def escape_def)

section \<open>Only the answer that was given\<close>

text \<open>The calls a confirmation can make, and how many of them say yes.\<close>

definition yes_count :: "calls \<Rightarrow> nat" where
  "yes_count h = length (filter (\<lambda>(n, v). v = Bool True) h)"

definition confirm_clicks :: "ui_event list \<Rightarrow> nat" where
  "confirm_clicks es = length (filter (\<lambda>e. e = Footer_click ''confirm'') es)"

definition confirm_dialog :: "nat \<Rightarrow> dialog \<Rightarrow> bool" where
  "confirm_dialog n d \<longleftrightarrow>
     dg_callbacks d = [(''onEscape'', answer n False), (''cancel'', answer n False), (''confirm'', answer n True)] \<and>
     fb_handler ` set (dg_buttons d) = {''cancel'', ''confirm''} \<and> dg_input d = None"

lemma process_answer:
  "processCallback supported run (answer n v) (d, h) =
     (if run h n (Bool v) = Bool False then d else d\<lparr>dg_modal := hide_modal supported (dg_modal d)\<rparr>, h @ [(n, Bool v)])"
  by (simp add: processCallback_def answer_def invoke_def call_user_def isFunction_def Let_def)

lemma confirm_handle:
  assumes "confirm_dialog n (fst st)"
  shows "confirm_dialog n (fst (ui_handle supported run e st)) \<and>
    (snd (ui_handle supported run e st) = snd st \<or> snd (ui_handle supported run e st) = snd st @ [(n, Bool False)] \<or>
     e = Footer_click ''confirm'' \<and> snd (ui_handle supported run e st) = snd st @ [(n, Bool True)])"
  using assms
  by (cases st; cases e) (auto simp: ui_handle_def confirm_dialog_def footer_click_def trigger_escape_def process_answer Let_def)

lemma confirm_step:
  assumes "confirm_dialog n (fst st)"
  shows "confirm_dialog n (fst (ui_step supported run e st)) \<and>
    (snd (ui_step supported run e st) = snd st \<or> snd (ui_step supported run e st) = snd st @ [(n, Bool False)] \<or>
     e = Footer_click ''confirm'' \<and> snd (ui_step supported run e st) = snd st @ [(n, Bool True)])"
proof (cases "dg_in_document (fst st)")
  case True
  obtain d h where r: "ui_handle supported run e st = (d, h)" by force
  have "confirm_dialog n (d\<lparr>dg_in_document := False\<rparr>) = confirm_dialog n d" by (simp add: confirm_dialog_def)
  then show ?thesis using confirm_handle [OF assms, of supported run e] True by (simp add: ui_step_def r)
qed (use assms in \<open>simp add: ui_step_def\<close>)

lemma confirm_run:
  "confirm_dialog n (fst st) \<Longrightarrow> \<forall>x\<in>set (snd st). x = (n, Bool True) \<or> x = (n, Bool False) \<Longrightarrow>
     (\<forall>x\<in>set (snd (ui_run supported run es st)). x = (n, Bool True) \<or> x = (n, Bool False)) \<and>
     yes_count (snd (ui_run supported run es st)) \<le> yes_count (snd st) + confirm_clicks es"
proof (induction es arbitrary: st)
  case Nil
  then show ?case by (simp add: ui_run_def)
next
  case (Cons e es)
  let ?st = "ui_step supported run e st"
  note s = confirm_step [OF Cons.prems(1), of supported run e]
  have "\<forall>x\<in>set (snd ?st). x = (n, Bool True) \<or> x = (n, Bool False)" using s Cons.prems(2) by auto
  moreover have "yes_count (snd ?st) \<le> yes_count (snd st) + (if e = Footer_click ''confirm'' then 1 else 0)"
    using s by (auto simp: yes_count_def)
  ultimately show ?case using s Cons.IH [of ?st] by (auto simp: ui_run_def confirm_clicks_def)
qed

lemma opened_confirm:
  assumes "translate b ''CANCEL'' = Inr (Str c)" and "translate b ''CONFIRM'' = Inr (Str k)" and "msg \<noteq> []"
    and "bootbox_confirm True supported b [Str msg, Fun (User n)] = Inr d"
  shows "confirm_dialog n d" "dg_in_document d"
proof -
  obtain d' where d': "bootbox_confirm True supported b [Str msg, Fun (User n)] = Inr d'"
    "dg_callbacks d' = [(''onEscape'', answer n False), (''cancel'', answer n False), (''confirm'', answer n True)]"
    "map fb_handler (dg_buttons d') = [''cancel'', ''confirm'']" "dg_input d' = None" "dg_in_document d'"
    by (rule confirm_opens [OF assms(1-3), of supported n])
  have "fb_handler ` set (dg_buttons d') = {''cancel'', ''confirm''}" using arg_cong [OF d'(3), of set] by simp
  then show "confirm_dialog n d" "dg_in_document d" using d' assms(4) by (simp_all add: confirm_dialog_def)
qed

text \<open>
  A confirmation tells its caller only what the user chose: whatever is clicked, typed or
  dismissed in whatever order, every call of the callback carries a boolean, and it carries \<open>true\<close> at
  most as often as the confirming button was clicked. Closing, escaping, clicking outside or hiding
  the dialog never confirms.
\<close>

theorem confirm_answers:
  assumes "translate b ''CANCEL'' = Inr (Str c)" and "translate b ''CONFIRM'' = Inr (Str k)" and "msg \<noteq> []"
    and "bootbox_confirm True supported b [Str msg, Fun (User n)] = Inr d"
  shows "(\<forall>x\<in>set (snd (ui_run supported run es (d, []))). x = (n, Bool True) \<or> x = (n, Bool False)) \<and>
     yes_count (snd (ui_run supported run es (d, []))) \<le> confirm_clicks es"
  using confirm_run [of n "(d, [])" supported run es] opened_confirm(1) [OF assms] by (simp add: yes_count_def)

text \<open>
  Every way of answering a confirmation hides it, unless the callback itself asks to keep it
  by returning \<open>false\<close>, and calls the callback exactly once.
\<close>

theorem confirm_closes:
  assumes "translate b ''CANCEL'' = Inr (Str c)" and "translate b ''CONFIRM'' = Inr (Str k)" and "msg \<noteq> []"
    and "bootbox_confirm True supported b [Str msg, Fun (User n)] = Inr d"
    and "e \<in> {Footer_click ''cancel'', Footer_click ''confirm'', Keyup 27}"
  shows "\<exists>v. snd (ui_step supported run e (d, [])) = [(n, Bool v)] \<and> (v = (e = Footer_click ''confirm'')) \<and>
     (if run [] n (Bool v) = Bool False then dg_modal (fst (ui_step supported run e (d, []))) = dg_modal d
      else \<not> md_shown (dg_modal (fst (ui_step supported run e (d, [])))))"
proof -
  note d = opened_confirm [OF assms(1-4)]
  have h: "ui_handle supported run e (d, []) = processCallback supported run (answer n (e = Footer_click ''confirm'')) (d, [])"
  proof -
    have k: "''cancel'' \<in> fb_handler ` set (dg_buttons d)" "''confirm'' \<in> fb_handler ` set (dg_buttons d)"
      and c: "dg_callbacks d = [(''onEscape'', answer n False), (''cancel'', answer n False), (''confirm'', answer n True)]"
      using d(1) unfolding confirm_dialog_def by blast+
    have t: "dyn_truthy (answer n v)" for v by (simp add: answer_def)
    show ?thesis
      using assms(5) by (elim insertE emptyE) (simp_all add: ui_handle_def footer_click_def trigger_escape_def Let_def k c t)
  qed
  show ?thesis using d(2) by (simp add: ui_step_def h process_answer hide_not_shown)
qed

lemma english_labels:
  "translate initial_bootbox ''CANCEL'' = Inr (Str ''Cancel'')" "translate initial_bootbox ''CONFIRM'' = Inr (Str ''OK'')"
  by (simp_all add: translate_def initial_bootbox_def default_options_def locales_def locale_entry_def)

lemma confirm_answers_witness:
  "\<exists>d. bootbox_confirm True True initial_bootbox [Str ''Sure?'', Fun (User 7)] = Inr d \<and>
     yes_count (snd (ui_run True (\<lambda>h n v. Undef) [Close_click, Footer_click ''confirm'', Footer_click ''cancel''] (d, []))) \<le> 1"
proof -
  obtain d where d: "bootbox_confirm True True initial_bootbox [Str ''Sure?'', Fun (User 7)] = Inr d"
    by (rule confirm_opens [OF english_labels, of "''Sure?''" True 7]) simp_all
  have "yes_count (snd (ui_run True (\<lambda>h n v. Undef) [Close_click, Footer_click ''confirm'', Footer_click ''cancel''] (d, [])))
      \<le> confirm_clicks [Close_click, Footer_click ''confirm'', Footer_click ''cancel'']"
    using confirm_answers [OF english_labels _ d] by simp
  then show ?thesis using d by (simp add: confirm_clicks_def)
qed

lemma confirm_closes_witness:
  "\<exists>d. bootbox_confirm True True initial_bootbox [Str ''Sure?'', Fun (User 7)] = Inr d \<and>
     snd (ui_step True (\<lambda>h n v. Undef) (Keyup 27) (d, [])) = [(7, Bool False)]"
proof -
  obtain d where d: "bootbox_confirm True True initial_bootbox [Str ''Sure?'', Fun (User 7)] = Inr d"
    by (rule confirm_opens [OF english_labels, of "''Sure?''" True 7]) simp_all
  have "\<exists>v. snd (ui_step True (\<lambda>h n v. Undef) (Keyup 27) (d, [])) = [(7, Bool v)] \<and> v = (Keyup 27 = Footer_click ''confirm'')"
    using confirm_closes [OF english_labels _ d, of "Keyup 27" "\<lambda>h n v. Undef"] by auto
  then show ?thesis using d by auto
qed

text \<open>
  An answered dialog stays on the page until its transition has ended, and its buttons still answer: a
  double click confirms twice. The corner button has \<open>data-dismiss\<close>, so that the widget hides the dialog
  whatever the callback returns.
\<close>

lemma double_click_confirms_twice:
  assumes "confirm_dialog n d" and "dg_in_document d" and "''hidden'' \<notin> set (md_events (dg_modal d))" and "md_fade (dg_modal d)"
    and "\<And>h v. run h n v \<noteq> Bool False"
  shows "snd (ui_run True run [Footer_click ''confirm'', Footer_click ''confirm''] (d, [])) = [(n, Bool True), (n, Bool True)]"
proof -
  have e: "md_events (hide_modal True m) = md_events m \<and> md_fade (hide_modal True m) = md_fade m" if "md_fade m" for m
    using that by (simp add: hide_modal_def Let_def escape_def)
  have "''confirm'' \<in> fb_handler ` set (dg_buttons d)" "lookup (dg_callbacks d) ''confirm'' = answer n True"
    using assms(1) unfolding confirm_dialog_def by auto
  then show ?thesis
    using assms(2-5) e [OF assms(4)]
    by (simp add: ui_run_def ui_step_def ui_handle_def footer_click_def process_answer Let_def)
qed

lemma close_button_ignores_false:
  assumes "dg_close d \<noteq> No_close" and "Dismiss_button \<in> set (md_click (dg_modal d))" and "dg_in_document d"
  shows "\<not> md_shown (dg_modal (fst (ui_step supported run Close_click (d, h))))"
  using assms by (simp add: ui_step_def ui_handle_def Let_def hide_not_shown split: prod.split)

section \<open>Buttons\<close>

definition button_ok :: "dyn \<Rightarrow> bool" where
  "button_ok v \<longleftrightarrow> isFunction v \<or> jq_type v = ''object''"

definition own_property :: "dyn \<Rightarrow> string \<Rightarrow> dyn" where
  "own_property v k =
     (case v of Obj kvs \<Rightarrow> lookup kvs k | Fun f \<Rightarrow> if k = ''callback'' then v else Undef | _ \<Rightarrow> Undef)"

text \<open>
  What sanitizing makes of the button at place \<open>i\<close> of \<open>n\<close>: it keeps its callback, its label and class if
  it has them, otherwise the label is the key, and the class is the primary one for the last of at
  most two buttons. (A jQuery object as a button is left as it is.)
\<close>

definition completed :: "nat \<Rightarrow> nat \<Rightarrow> dyn \<times> dyn \<Rightarrow> dyn \<times> dyn \<Rightarrow> bool" where
  "completed n i item item' \<longleftrightarrow>
     (case (item, item') of ((key, v), (key', v')) \<Rightarrow>
        key' = key \<and>
        (if \<exists>s. v = Node s then v' = v
         else (\<exists>kvs'. v' = Obj kvs' \<and>
           lookup kvs' ''callback'' = own_property v ''callback'' \<and>
           lookup kvs' ''label'' = (if dyn_truthy (own_property v ''label'') then own_property v ''label'' else key) \<and>
           lookup kvs' ''className'' =
             (if dyn_truthy (own_property v ''className'') then own_property v ''className''
              else Str (if n \<le> 2 \<and> Suc i = n then ''btn-primary'' else ''btn-default'')))))"

lemma object_cases: "jq_type v = ''object'' \<Longrightarrow> (\<exists>kvs. v = Obj kvs) \<or> (\<exists>s. v = Node s)"
  by (cases v) simp_all

lemma function_cases: "isFunction v \<Longrightarrow> \<exists>f. v = Fun f"
  by (cases v) (simp_all add: isFunction_def)

lemma sanitize_button_cases:
  "if button_ok v then \<exists>v'. sanitize_button n i key v = Inr v' \<and> completed n i (key, v) (key, v')
   else sanitize_button n i key v = Inl (Error (''button with key '' @ dyn_String key @ '' must be an object''))"
proof (cases "button_ok v")
  case True
  then consider f where "v = Fun f" | kvs where "v = Obj kvs" | s where "v = Node s"
    using object_cases function_cases unfolding button_ok_def by blast
  then show ?thesis
    by cases (use True in \<open>simp_all add: sanitize_button_def isFunction_def get_prop_def completed_def own_property_def Let_def\<close>)
next
  case False
  then show ?thesis by (simp add: sanitize_button_def button_ok_def)
qed

lemma sanitize_buttons_cases:
  "case sanitize_buttons n i items of
     Inr r \<Rightarrow> length r = length items \<and>
       (\<forall>j<length items. button_ok (snd (items ! j)) \<and> completed n (i + j) (items ! j) (r ! j))
   | Inl e \<Rightarrow> (\<exists>j<length items. (\<forall>k<j. button_ok (snd (items ! k))) \<and> \<not> button_ok (snd (items ! j)) \<and>
       e = Error (''button with key '' @ dyn_String (fst (items ! j)) @ '' must be an object''))"
proof (induction n i items rule: sanitize_buttons.induct)
  case (1 n i)
  then show ?case by simp
next
  case (2 n i key v items)
  show ?case
  proof (cases "button_ok v")
    case True
    then obtain v' where v': "sanitize_button n i key v = Inr v'" "completed n i (key, v) (key, v')"
      using sanitize_button_cases [of v n i key] by auto
    show ?thesis
    proof (cases "sanitize_buttons n (Suc i) items")
      case (Inl e)
      then obtain j where "j < length items" "\<forall>k<j. button_ok (snd (items ! k))" "\<not> button_ok (snd (items ! j))"
        "e = Error (''button with key '' @ dyn_String (fst (items ! j)) @ '' must be an object'')"
        using 2 Inl by auto
      then have "Suc j < length ((key, v) # items) \<and> (\<forall>k<Suc j. button_ok (snd (((key, v) # items) ! k))) \<and>
          \<not> button_ok (snd (((key, v) # items) ! Suc j)) \<and>
          e = Error (''button with key '' @ dyn_String (fst (((key, v) # items) ! Suc j)) @ '' must be an object'')"
        using True by (auto simp: less_Suc_eq_0_disj)
      moreover have "sanitize_buttons n i ((key, v) # items) = Inl e" using v' Inl by simp
      ultimately show ?thesis by (simp only: sum.case) blast
    next
      case (Inr r)
      then show ?thesis using 2 v' True by (auto simp: nth_Cons split: nat.split)
    qed
  next
    case False
    then show ?thesis using sanitize_button_cases [of v n i key] by (auto intro!: exI [of _ 0])
  qed
qed

text \<open>
  Claim C13: sanitizing the buttons of a dialog fails exactly at the first one that is neither a
  function nor an object, with an error that names its key; otherwise every button keeps its place, its
  callback and what it says of itself, gets its key as a label and a class where it has none, and only
  the last of at most two is made the primary one.
\<close>

theorem sanitize_completes:
  "case sanitize_buttons n 0 items of
     Inr r \<Rightarrow> length r = length items \<and>
       (\<forall>j<length items. button_ok (snd (items ! j)) \<and> completed n j (items ! j) (r ! j))
   | Inl e \<Rightarrow> (\<exists>j<length items. (\<forall>k<j. button_ok (snd (items ! k))) \<and> \<not> button_ok (snd (items ! j)) \<and>
       e = Error (''button with key '' @ dyn_String (fst (items ! j)) @ '' must be an object''))"
  using sanitize_buttons_cases [where n = n and i = 0 and items = items] by (simp only: add_0)

lemma sanitize_completes_witness:
  "\<exists>v. sanitize_buttons 1 0 [(Str ''go'', Fun (User 3))] = Inr [(Str ''go'', v)] \<and> completed 1 0 (Str ''go'', Fun (User 3)) (Str ''go'', v)"
proof -
  have r: "sanitize_buttons 1 0 [(Str ''go'', Fun (User 3))] = Inr [(Str ''go'', Obj [(''callback'', Fun (User 3)),
      (''label'', Str ''go''), (''className'', Str ''btn-primary'')])]"
    by (simp add: sanitize_button_def isFunction_def get_prop_def)
  then show ?thesis using sanitize_completes [where n = 1 and items = "[(Str ''go'', Fun (User 3))]"] by simp
qed

section \<open>The inputs of a prompt\<close>

lemma mset_group_put:
  "mset (concat (map (\<lambda>(g, xs). map fst xs) (group_put g x gs))) = add_mset (fst x) (mset (concat (map (\<lambda>(g, xs). map fst xs) gs)))"
  by (induction g x gs rule: group_put.induct) auto

lemma mset_groups:
  "mset (concat (map (\<lambda>(g, xs). map fst xs)
     (fold (\<lambda>(g, v, t) gs. if dyn_truthy g then group_put (dyn_String g) (dyn_String v, dyn_String t) gs else gs) opts gs)))
   = mset (concat (map (\<lambda>(g, xs). map fst xs) gs)) + mset (map (\<lambda>(g, v, t). dyn_String v) (filter (\<lambda>(g, v, t). dyn_truthy g) opts))"
  by (induction opts arbitrary: gs) (auto simp: mset_group_put)

lemma arranged_values:
  "mset (choice_values (arrange_options opts)) = mset (map (\<lambda>(g, v, t). dyn_String v) opts)"
proof -
  have "choice_values (map (\<lambda>(g, v, t). Choice (dyn_String v) (dyn_String t)) xs @ map (\<lambda>(g, ys). Choices g ys) gs) =
      map (\<lambda>(g, v, t). dyn_String v) xs @ concat (map (\<lambda>(g, ys). map fst ys) gs)" for xs :: "(dyn \<times> dyn \<times> dyn) list" and gs
    by (induction xs; induction gs) (auto simp: choice_values_def)
  moreover have "mset (map f (filter (\<lambda>x. \<not> P x) xs)) + mset (map f (filter P xs)) = mset (map f xs)"
    for f :: "'a \<Rightarrow> string" and P xs
    by (induction xs) auto
  note split = this [of "\<lambda>(g, v, t). dyn_String v" "\<lambda>(g, v, t). dyn_truthy g" opts]
  ultimately show ?thesis
    using split by (simp add: arrange_options_def Let_def mset_groups [unfolded case_prod_unfold] case_prod_unfold)
qed

text \<open>
  A prompt with a list of choices loses none and adds none: whatever groups the options
  are in, the list shows exactly the given values, as often as they were given, and starts with a value
  that was asked for or with nothing selected; what was asked for is selected if it is among them.
\<close>

theorem select_keeps_options:
  "case select_input v (Arr opts) of
     Inl e \<Rightarrow> True
   | Inr inp \<Rightarrow> (\<exists>triples cs chosen. select_options (zip (map (\<lambda>i. Num (int i)) [0..<length opts]) opts) = Inr triples \<and>
       inp = Select_input cs chosen \<and> mset (choice_values cs) = mset (map (\<lambda>(g, v, t). dyn_String v) triples) \<and>
       (case chosen of None \<Rightarrow> set (choice_values cs) \<inter> set (select_values v) = {}
        | Some s \<Rightarrow> s \<in> set (choice_values cs) \<inter> set (select_values v)))"
proof (cases "select_input v (Arr opts)")
  case (Inr inp)
  have items: "each_items (Arr opts) = Inr (zip (map (\<lambda>i. Num (int i)) [0..<length opts]) opts)"
    by (simp add: each_items_def isArraylike_def)
  have "opts \<noteq> []" using Inr by (auto simp: select_input_def Let_def isArray_def)
  then obtain triples where t: "select_options (zip (map (\<lambda>i. Num (int i)) [0..<length opts]) opts) = Inr triples"
    "inp = Select_input (arrange_options triples) (find (\<lambda>x. x \<in> set (select_values v)) (choice_values (arrange_options triples)))"
    using Inr by (auto simp: select_input_def Let_def isArray_def items js_simps)
  show ?thesis
    unfolding Inr sum.case
    by (rule exI [of _ triples], rule exI [of _ "arrange_options triples"],
        rule exI [of _ "find (\<lambda>x. x \<in> set (select_values v)) (choice_values (arrange_options triples))"])
      (use t arranged_values in \<open>auto simp: find_None_iff find_Some_iff split: option.split\<close>)
qed simp

definition box_option :: "string \<times> string \<Rightarrow> dyn" where
  "box_option x = Obj [(''value'', Str (fst x)), (''text'', Str (snd x))]"

lemma option_boxes:
  "length ns = length opts \<Longrightarrow> mapE (box_of (map Str chosen) \<circ> snd) (zip ns (map box_option opts)) =
     Inr (map (\<lambda>x. \<lparr>bx_value = fst x, bx_text = Str (snd x), bx_checked = (fst x \<in> set chosen)\<rparr>) opts)"
proof (induction ns opts rule: list_induct2)
  case (Cons n ns x opts)
  have "list_ex (\<lambda>y. strict_eq y (Str (fst x))) (map Str chosen) \<longleftrightarrow> fst x \<in> set chosen"
    by (induction chosen) auto
  then show ?case using Cons by (simp add: box_of_def get_prop_def box_option_def)
qed simp

text \<open>
  A prompt with check boxes that is confirmed as it was opened returns what it was asked to
  preselect: the values of the options that are among the given values, each in the place of its option.
\<close>

theorem checkbox_roundtrip:
  assumes "opts \<noteq> []" and "fst (hd opts) \<noteq> []" and "snd (hd opts) \<noteq> []"
  shows "map_sum id input_value (checkbox_input (Arr (map Str chosen)) (Arr (map box_option opts)))
    = (Inr (Arr (map Str (filter (\<lambda>v. v \<in> set chosen) (map fst opts)))) :: failure + dyn)"
proof -
  obtain x xs where o: "opts = x # xs" using assms(1) by (cases opts) auto
  have z: "show_nat 0 = ''0''" by (simp add: show_nat.simps)
  have n: "get_prop (Arr (map box_option opts)) ''length'' = Inr (Num (int (length opts)))" by (simp add: get_prop_def)
  have "[0..<length opts] = 0 # [Suc 0..<length opts]" using o by (simp add: upt_rec)
  then have first: "get_prop (Arr (map box_option opts)) ''0'' = Inr (box_option x)" by (simp add: get_prop_def o z)
  have items: "each_items (Arr (map box_option opts)) = Inr (zip (map (\<lambda>i. Num (int i)) [0..<length opts]) (map box_option opts))"
    by (simp add: each_items_def isArraylike_def)
  have "get_prop (box_option x) ''value'' = Inr (Str (fst x))" "get_prop (box_option x) ''text'' = Inr (Str (snd x))"
    by (simp_all add: get_prop_def box_option_def)
  moreover have "fst x \<noteq> []" "snd x \<noteq> []" using assms o by simp_all
  ultimately have "checkbox_input (Arr (map Str chosen)) (Arr (map box_option opts)) =
      Inr (Box_input (map (\<lambda>x. \<lparr>bx_value = fst x, bx_text = Str (snd x), bx_checked = (fst x \<in> set chosen)\<rparr>) opts))"
    using assms(1) by (simp add: checkbox_input_def n first items option_boxes Let_def)
  moreover have "map (Str \<circ> bx_value) (filter bx_checked
      (map (\<lambda>x. \<lparr>bx_value = fst x, bx_text = Str (snd x), bx_checked = (fst x \<in> set chosen)\<rparr>) ys))
      = map Str (filter (\<lambda>v. v \<in> set chosen) (map fst ys))" for ys :: "(string \<times> string) list"
    by (induction ys) auto
  ultimately show ?thesis by (simp add: input_value_def)
qed

lemma checkbox_roundtrip_witness:
  "map_sum id input_value (checkbox_input (Arr (map Str [''b''])) (Arr (map box_option [(''a'', ''A''), (''b'', ''B'')])))
    = (Inr (Arr [Str ''b'']) :: failure + dyn)"
  using checkbox_roundtrip [of "[(''a'', ''A''), (''b'', ''B'')]" "[''b'']"] by simp

section \<open>Translations\<close>

text \<open>
  A translation can be added and chosen: it is accepted exactly when all three texts are
  given, and from then on the labels of the dialogs are its texts, whatever other translations are
  added or removed.
\<close>

theorem added_locale_is_used:
  assumes "addLocale n (Obj kvs) b = Inr b'" and "n' \<noteq> n" and "addLocale n' v (removeLocale n' (setLocale n b')) = Inr b''"
    and "k \<in> {''OK'', ''CANCEL'', ''CONFIRM''}"
  shows "translate b'' k = Inr (lookup kvs k) \<and> dyn_truthy (lookup kvs k)"
proof -
  have t: "dyn_truthy (lookup kvs ''OK'')" "dyn_truthy (lookup kvs ''CANCEL'')" "dyn_truthy (lookup kvs ''CONFIRM'')"
    "b' = b\<lparr>bb_locales := assoc_put n [(''OK'', lookup kvs ''OK''), (''CANCEL'', lookup kvs ''CANCEL''), (''CONFIRM'', lookup kvs ''CONFIRM'')] (bb_locales b)\<rparr>"
    using assms(1) by (auto simp: addLocale_def get_prop_def js_simps split: if_splits)
  have "map_of (filter (\<lambda>(k, v). k \<noteq> n') xs) n = map_of xs n" for xs :: "(string \<times> (string \<times> dyn) list) list"
    using assms(2) by (induction xs) auto
  then have "map_of (bb_locales b'') n = Some [(''OK'', lookup kvs ''OK''), (''CANCEL'', lookup kvs ''CANCEL''), (''CONFIRM'', lookup kvs ''CONFIRM'')]"
    "bb_defaults b'' = assoc_put ''locale'' (Str n) (bb_defaults b)"
    using assms(2,3) t(4) by (auto simp: addLocale_def removeLocale_def setLocale_def setDefaults_def assign_props_def js_simps)
  then show ?thesis using t(1-3) assms(4) by (auto simp: translate_def)
qed

lemma added_locale_is_used_witness:
  "\<exists>b''. addLocale ''zz'' (Obj [(''OK'', Str ''o''), (''CANCEL'', Str ''c''), (''CONFIRM'', Str ''k'')])
       (removeLocale ''zz'' (setLocale ''tl'' (initial_bootbox\<lparr>bb_locales := [(''tl'', [(''OK'', Str ''Oo''), (''CANCEL'', Str ''Huwag''),
          (''CONFIRM'', Str ''Sige'')])]\<rparr>))) = Inr b'' \<and> translate b'' ''CANCEL'' = Inr (Str ''Huwag'')"
proof -
  let ?tl = "[(''OK'', Str ''Oo''), (''CANCEL'', Str ''Huwag''), (''CONFIRM'', Str ''Sige'')]"
  let ?b = "initial_bootbox\<lparr>bb_locales := []\<rparr>"
  have a: "addLocale ''tl'' (Obj ?tl) ?b = Inr (initial_bootbox\<lparr>bb_locales := [(''tl'', ?tl)]\<rparr>)"
    by (simp add: addLocale_def get_prop_def)
  obtain b'' where b: "addLocale ''zz'' (Obj [(''OK'', Str ''o''), (''CANCEL'', Str ''c''), (''CONFIRM'', Str ''k'')])
       (removeLocale ''zz'' (setLocale ''tl'' (initial_bootbox\<lparr>bb_locales := [(''tl'', ?tl)]\<rparr>))) = Inr b''"
    by (simp add: addLocale_def get_prop_def)
  show ?thesis using added_locale_is_used [OF a _ b, of "''CANCEL''"] b by simp
qed

end
