(* ===== verification/DeleteDialog.thy ===== *)
theory DeleteDialog imports Main Prelude UserDataApp BootboxFacts begin

text \<open>
  The deletion of an item, from the click on its button to the requests: \<open>delete\<close> of app.js asks with
  a confirmation dialog of bootbox.js and sends a request for every call that answers yes.
\<close>

text \<open>
  The dialog is opened with the page's text; its callback returns nothing. \<open>es\<close> is everything that
  happens to the dialog afterwards.
\<close>

definition delete_flow :: "bool \<Rightarrow> string \<Rightarrow> int \<Rightarrow> ui_event list \<Rightarrow> user_data \<Rightarrow> user_data" where
  "delete_flow css confirmDelete pk es s =
     (case bootbox_confirm True css initial_bootbox [Str confirmDelete, Fun (User 0)] of
        Inl e \<Rightarrow> s
      | Inr d \<Rightarrow> fold (\<lambda>(n, result). confirm_answer pk (dyn_truthy result))
                  (snd (ui_run css (\<lambda>h n v. Undef) es (d, []))) (delete_click pk s))"

lemma answers_delete:
  assumes "pk \<in> set (ud_confirm s)" and "\<forall>x\<in>set h. x = (n, Bool True) \<or> x = (n, Bool False)"
  shows "ud_deletes (fold (\<lambda>(n, result). confirm_answer pk (dyn_truthy result)) h s) = replicate (yes_count h) pk @ ud_deletes s"
  using assms
proof (induction h arbitrary: s)
  case Nil
  then show ?case by (simp add: yes_count_def)
next
  case (Cons x h)
  have "pk \<in> set (ud_confirm (confirm_answer pk v s))" for v using Cons.prems(1) by (simp add: confirm_answer_def doDelete_def)
  moreover have "ud_deletes (confirm_answer pk v s) = (if v then pk # ud_deletes s else ud_deletes s)" for v
    using Cons.prems(1) by (simp add: confirm_answer_def doDelete_def)
  moreover have "replicate k pk @ pk # xs = pk # replicate k pk @ xs" for k and xs :: "int list"
    by (simp add: replicate_app_Cons_same)
  ultimately show ?case using Cons by (auto simp: yes_count_def)
qed

text \<open>
  Claim C6: an item is deleted only after its confirmation: whatever the user does to the dialog, the
  page sends a deletion of that item and of nothing else, and at most as often as the confirming button
  was clicked; cancelling, closing, escaping or doing nothing sends none.
\<close>

theorem delete_needs_confirmation:
  "\<exists>k\<le>confirm_clicks es. ud_deletes (delete_flow css confirmDelete pk es s) = replicate k pk @ ud_deletes s"
proof (cases "bootbox_confirm True css initial_bootbox [Str confirmDelete, Fun (User 0)]")
  case (Inl e)
  then show ?thesis by (auto simp: delete_flow_def intro: exI [of _ 0])
next
  case (Inr d)
  have "confirmDelete \<noteq> []"
  proof
    assume "confirmDelete = []"
    with Inr show False
      by (simp add: bootbox_confirm_def confirm_options [OF english_labels] set_callback_def get_prop_def isFunction_def Let_def
          bootbox_dialog_def sanitize_def)
  qed
  note o = opened_confirm(1) [OF english_labels this Inr]
  let ?h = "snd (ui_run css (\<lambda>h n v. Undef) es (d, []))"
  have h: "\<forall>x\<in>set ?h. x = (0, Bool True) \<or> x = (0, Bool False)" "yes_count ?h \<le> confirm_clicks es"
    using confirm_run [of 0 "(d, [])" css "\<lambda>h n v. Undef" es] o by (simp_all add: yes_count_def)
  have "pk \<in> set (ud_confirm (delete_click pk s))" "ud_deletes (delete_click pk s) = ud_deletes s" by (simp_all add: delete_click_def)
  then show ?thesis using h answers_delete [of pk "delete_click pk s" ?h 0] Inr by (auto simp: delete_flow_def)
qed

end
