(* ===== verification/Spec2Isabelle.thy ===== *)
theory Spec2Isabelle
  imports Main Prelude JsValue Base64 Passkey PasskeyLogin SingleFlight JsSort PasskeyRecover
    PasskeySignup AccountSecurity UserDataApp JsDate Decimal MomentLocale MomentDuration MomentCore
    MomentCalendar MomentUnits MomentManip MomentFormat MomentParse MomentRoundtrip
    MomentIso MomentDurationText AngularQ AngularQFacts AngularQLaws
    AngularScope AngularTree AngularDigest AngularSettle AngularForest AngularDigestFacts AngularFilters AngularFiltersFacts UserTables UibModal UibTurns UibPage UibModalFacts Dynamic BootModal Bootbox BootboxFacts DeleteDialog
begin

text \<open>
  The front end of E-Tipitaka's data server: the scripts under \<open>src/app/assets\<close> that its pages load.
  Four pages deal with accounts (login, password recovery, signup, account security) and share the
  WebAuthn helper \<open>passkey.js\<close>; the pages of user data run the AngularJS application \<open>app.js\<close>, which
  formats dates with \<open>moment.js\<close>, asks before deleting with \<open>bootbox.js\<close>, and through it uses the
  modal dialog of \<open>bootstrap.js\<close> and a few routines of \<open>jquery.js\<close>; its requests answer through the
  promises of \<open>angular.js\<close> and its own dialogs are those of \<open>ui-bootstrap.js\<close>. All of them are modelled
  here, function by function, under the names they have in the scripts.

  \<^bold>\<open>How the program is modelled.\<close> A script of a page is a record of its variables, of the parts of the
  page it writes, and of the work it has started (requests, ceremonies, timers); each handler and each
  continuation of a promise is a function on that record, and the order in which the browser runs them
  is open: a step relation or an arbitrary list of events. Exceptions and rejected promises are the
  left values of a sum. Values of JavaScript are the datatypes \<open>json\<close> (parsed JSON and buffers) and
  \<open>dyn\<close> (values with functions in them). Numbers that the code keeps whole are \<open>int\<close>, a remainder has
  the sign of the dividend as in JavaScript, and a quotient that the code keeps as a double is the
  rational number that it approximates. What the browser or a caller does is a parameter: the network
  and the authenticator (\<open>browser\<close> in Passkey), the zone (\<open>zone\<close> in JsDate), the current time, the
  browser's own parser of dates, and the callbacks given to a dialog.

  \<^bold>\<open>The theories.\<close>
  \<^item> Prelude: the bind of sums, truncating division, printing of integers, lists.
  \<^item> JsValue, Base64: values, properties, \<open>Object.assign\<close>; \<open>atob\<close> and \<open>btoa\<close> of the browser with
    \<open>b64urlToBuffer\<close> and \<open>bufferToB64url\<close> of \<open>passkey.js\<close>. Encoding is undone by decoding; which texts
    decode is characterised.
  \<^item> Passkey (\<open>passkey.js\<close>): options and credentials, the CSRF token, \<open>request\<close>, the ceremonies
    \<open>create\<close> and \<open>assertion\<close>, \<open>errorMessage\<close>. The lemmas fix the order and the content of the requests
    that a ceremony sends, and the text shown for each kind of failure.
  \<^item> PasskeyLogin (\<open>passkey_login.js\<close>): button and autofill as the step relation \<open>login_step\<close>. An
    invariant over reachable states gives that at most one request for a credential is alive, that
    superseded attempts are silent, and that a disabled button will be released.
  \<^item> SingleFlight is the contract that three pages share (one action at a time, continuations check
    the generation); PasskeyRecover (\<open>passkey_recover.js\<close>), PasskeySignup (\<open>passkey_signup.js\<close>) and
    AccountSecurity (\<open>account_security.js\<close>) are models of it, each with the properties of its own page:
    the security page shows the script's state, and each of its local updates is the effect that
    the server's operation has on the account (\<open>passkey_manage.py\<close>, \<open>passkey_service.py\<close>), but for the usage of the passkey
    that a step-up was signed with.
  \<^item> UserDataApp (\<open>app.js\<close>, and the two endpoints of \<open>user_data/views.py\<close> that its follower boxes and
    uploads talk to): items and tabs, deletion, sharing, password signup, upload dialog.
  \<^item> AngularQ (\<open>qFactory\<close> of \<open>angular.js\<close>): promises, their callbacks and the queue of ticks, with the
    functions of callers as a parameter; AngularQFacts is the invariant over every history,
    AngularQLaws what the continuations of \<open>$http\<close> in \<open>app.js\<close> rest on: a promise settles once, its
    callbacks run once each and in order, a locked promise waits for another one.
  \<^item> AngularScope (\<open>$RootScopeProvider\<close> of \<open>angular.js\<close>): the tree of scopes with its pointers and counters,
    watches, events, queues and the digest that every handler of \<open>app.js\<close> ends with. AngularTree is the traversal
    as a preorder, AngularForest the invariant of the tree over every order of operations, AngularDigest the
    invariant of the rounds and the reference digest that looks at every watch, AngularSettle the end of the
    queues and rounds, AngularDigestFacts the properties on the states that a page reaches by operations from outside,
    digests, \<open>$apply\<close> and timers. The properties of digests are for programs whose listeners and expressions leave the tree
    and the watches alone (\<open>calm\<close>).
  \<^item> JsSort: \<open>Array.prototype.sort\<close> and the contract of comparators. AngularFilters (\<open>filter\<close>, \<open>limitTo\<close>,
    \<open>orderBy\<close>, \<open>equals\<close> of \<open>angular.js\<close>), AngularFiltersFacts: a text is found at any depth, \<open>orderBy\<close> is a stable
    sort. UserTables: the tables of the page show each tab's items, newest first.
  \<^item> UibModal (\<open>ui-bootstrap.js\<close>: \<open>$$stackedMap\<close>, \<open>$$multiMap\<close>, \<open>$uibModalStack\<close>, \<open>$uibModal.open\<close>): the stack of
    dialogs, what they show, and the chain of promises through which they open. UibTurns orders the turns of
    the dialogs, UibPage keeps the page and the stack together, UibModalFacts gives the laws for
    every order of calls and events.
  \<^item> Dynamic (\<open>jquery.js\<close>: \<open>type\<close>, \<open>each\<close>, \<open>extend\<close> and the predicates), BootModal (\<open>bootstrap.js\<close>: the
    modal), Bootbox and BootboxFacts (\<open>bootbox.js\<close>), DeleteDialog (\<open>delete\<close> of \<open>app.js\<close> over the
    confirmation dialog). Transition ends terminate and leave no backdrop, unless a dialog is shown while it is being hidden; a dialog calls back with
    the answer that was given; nothing is deleted without confirmation.
  \<^item> JsDate: the dates of ECMAScript, time values, the proleptic Gregorian calendar and its inverse.
  \<^item> MomentLocale, MomentDuration, MomentDurationText, MomentCore, MomentManip, MomentFormat, MomentParse
    (\<open>moment.js\<close>, in the order of its parts): units, locale registry and English locale; durations;
    construction, getters, setters, addition, weeks, start and end of units; offsets, comparison and
    difference; the format tokens and the cutting of formats; the parse tokens, ISO 8601, flags and
    overflow. MomentCalendar and MomentUnits relate these operations to the calendar, MomentRoundtrip
    and MomentIso the parser to the formatter.

  \<^bold>\<open>Bounds.\<close> A date is valid within 8.64e15 ms of 1970 (\<open>TimeClip\<close>); lemmas about shifted dates stay a day
  inside of it. \<open>expandFormat\<close> substitutes long formats at most six times because the script counts down from five; the
  tokenizers consume a character per call. A digest has the ten rounds of \<open>TTL\<close> after its first one; its queues and
  its traversal are \<open>partial_function\<close>s, as user code may keep them going, and are proved to end where it does not.
  A broadcast visits at most as many scopes as were created. The round trip of ISO texts is for the years 1 to 9999,
  because the text of other years has six digits and a sign, and that of a duration for whole
  seconds, because the text of a fraction is the browser's. Lemmas that need a zone without
  transitions assume \<open>steady\<close>; the functions do not.

  \<^bold>\<open>Simplifications.\<close> Characters are code units below 256. Case folding is that of ASCII. Objects do
  not inherit properties from their prototypes, and objects that a script shares but does not modify
  are copied. The cookies of a page do not change during a ceremony, and a failure before the first request of a
  login ceremony is a rejection like the others. A window of a dialog and its classes go in one event. Listeners of events on scopes change the model only. Whole numbers are not rounded beyond 2^53.

  \<^bold>\<open>Not modelled.\<close> The rest of the AngularJS framework (compiler, injector, expressions, \<open>$http\<close>) and
  of ui-bootstrap (the other directives), ng-file-upload with its shim, the DOM, event and Ajax parts
  of jQuery and the other plugins of Bootstrap: third-party code that calls the handlers modelled here,
  and browser I/O. The files of \<open>moment/locale\<close> (not loaded by the pages), the
  builds and module sources that repeat \<open>moment.js\<close>; the deprecation warnings of \<open>moment.js\<close>. The server in
  Python, apart from the endpoints named above, and the MCP server; style sheets, templates,
  deployment, tests.
\<close>

end
